(* ===== verification/Rust_Prelude.thy ===== *)
theory Rust_Prelude
  imports Main "HOL-Library.Word"
begin

text \<open>
  The shared prelude: the machine integer types of the kernel (all supported targets are 64-bit,
  so \<open>usize\<close> is 64 bits wide), the integer operations of the Rust standard library the sources
  use, panics as values, and the lemmas that move word arithmetic to \<open>nat\<close> through \<open>unat\<close>.

  A value of type \<open>'a panics\<close> is either \<open>Inl message\<close> (the code panicked) or
  \<open>Inr value\<close>. An \<open>option\<close> inside it is the source's own \<open>Option\<close>.
\<close>

unbundle bit_operations_syntax

section \<open>Machine integers\<close>

type_synonym u8 = "8 word"
type_synonym u16 = "16 word"
type_synonym u32 = "32 word"
type_synonym u64 = "64 word"
type_synonym usize = "64 word"

named_theorems unat_rules \<open>rules that push \<open>unat\<close> through the operations of the model\<close>
named_theorems order_rules \<open>word comparisons as comparisons of naturals\<close>

lemmas [order_rules] = word_le_nat_alt word_less_nat_alt

lemma unat_bound: "unat (a :: 'a::len word) < 2 ^ LENGTH('a)"
  by (rule unsigned_less)

definition checked_add :: "'a::len word \<Rightarrow> 'a word \<Rightarrow> 'a word option" where
  "checked_add a b = (if unat a + unat b < 2 ^ LENGTH('a) then Some (a + b) else None)"

definition checked_sub :: "'a::len word \<Rightarrow> 'a word \<Rightarrow> 'a word option" where
  "checked_sub a b = (if b \<le> a then Some (a - b) else None)"

definition checked_mul :: "'a::len word \<Rightarrow> 'a word \<Rightarrow> 'a word option" where
  "checked_mul a b = (if unat a * unat b < 2 ^ LENGTH('a) then Some (a * b) else None)"

definition saturating_add :: "'a::len word \<Rightarrow> 'a word \<Rightarrow> 'a word" where
  "saturating_add a b = (if unat a + unat b < 2 ^ LENGTH('a) then a + b else - 1)"

definition div_ceil :: "'a::len word \<Rightarrow> 'a word \<Rightarrow> 'a word" where
  "div_ceil a b = (if a mod b = 0 then a div b else a div b + 1)"

definition is_multiple_of :: "'a::len word \<Rightarrow> 'a word \<Rightarrow> bool" where
  "is_multiple_of a b = (if b = 0 then a = 0 else a mod b = 0)"

definition is_power_of_two :: "'a::len word \<Rightarrow> bool" where
  "is_power_of_two a \<longleftrightarrow> a \<noteq> 0 \<and> a AND (a - 1) = 0"

lemma unat_bound64: "unat (x :: 64 word) < 2 ^ 64"
  using unsigned_less [of x, where ?'a = nat] by simp

lemma unat_of_nat_lt: "n < 2 ^ 64 \<Longrightarrow> unat (of_nat n :: 64 word) = n"
  by (simp add: unat_of_nat)

lemma checked_add_eq_Some:
  fixes a b c :: "'a::len word"
  shows "checked_add a b = Some c \<longleftrightarrow> unat c = unat a + unat b"
proof
  assume "checked_add a b = Some c"
  then show "unat c = unat a + unat b"
    by (auto simp: checked_add_def unat_word_ariths split: if_splits)
next
  assume c: "unat c = unat a + unat b"
  have "unat c < 2 ^ LENGTH('a)"
    by (rule unat_bound)
  with c have lt: "unat a + unat b < 2 ^ LENGTH('a)"
    by simp
  have "unat (a + b) = unat c"
    using c lt by (simp add: unat_word_ariths)
  then have "a + b = c"
    by (simp add: word_unat_eq_iff)
  with lt show "checked_add a b = Some c"
    by (simp add: checked_add_def)
qed

lemma checked_add_eq_None:
  "checked_add (a :: 'a::len word) b = None \<longleftrightarrow> 2 ^ LENGTH('a) \<le> unat a + unat b"
  by (auto simp: checked_add_def)

lemma checked_sub_eq_Some:
  "checked_sub a b = Some c \<longleftrightarrow> b \<le> a \<and> c = a - b"
  by (auto simp: checked_sub_def)

lemma checked_sub_unat: "checked_sub a b = Some c \<Longrightarrow> unat c = unat a - unat b"
  by (auto simp: checked_sub_def unat_sub split: if_splits)

lemma checked_mul_unat: "checked_mul a b = Some c \<Longrightarrow> unat c = unat a * unat b"
  by (auto simp: checked_mul_def unat_word_ariths split: if_splits)

lemma checked_mul_lt:
  "unat (a :: 'a::len word) * unat b < 2 ^ LENGTH('a) \<Longrightarrow> checked_mul a b = Some (a * b)"
  by (simp add: checked_mul_def)

lemma unat_add_no_overflow:
  fixes a b :: "'a::len word"
  shows "unat a + unat b < 2 ^ LENGTH('a) \<Longrightarrow> unat (a + b) = unat a + unat b"
  by (simp add: unat_word_ariths)

lemma unat_mult_no_overflow:
  fixes a b :: "'a::len word"
  shows "unat a * unat b < 2 ^ LENGTH('a) \<Longrightarrow> unat (a * b) = unat a * unat b"
  by (simp add: unat_word_ariths)

lemma unat_le_max: "unat (a :: 'a::len word) \<le> 2 ^ LENGTH('a) - 1"
  using unat_bound [of a] by linarith

lemma unat_saturating_add:
  fixes a b :: "'a::len word"
  shows "unat (saturating_add a b) = min (unat a + unat b) (2 ^ LENGTH('a) - 1)"
proof (cases "unat a + unat b < 2 ^ LENGTH('a)")
  case True
  then show ?thesis by (simp add: saturating_add_def unat_add_no_overflow)
next
  case False
  then show ?thesis
    using unat_bound [of a] unat_bound [of b]
    by (simp add: saturating_add_def unsigned_minus_1_eq_mask mask_eq_exp_minus_1)
qed

lemma div_mult_add: "r < b \<Longrightarrow> (q * b + r) div b = (q :: nat)"
  by simp

lemma unat_div_ceil:
  fixes a b :: "'a::len word"
  assumes b: "0 < unat b"
  shows "unat (div_ceil a b) = (unat a + unat b - 1) div unat b"
proof (cases "unat a mod unat b = 0")
  case True
  then have "a mod b = 0"
    by (simp add: word_unat_eq_iff unat_mod)
  moreover have "(unat a + unat b - 1) div unat b = unat a div unat b"
  proof -
    have "unat a + unat b - 1 = (unat a div unat b) * unat b + (unat b - 1)"
      using True b by auto
    moreover have "unat b - 1 < unat b"
      using b by simp
    ultimately show ?thesis
      by (metis div_mult_add)
  qed
  ultimately show ?thesis
    by (simp add: div_ceil_def unat_div_distrib)
next
  case False
  let ?q = "unat a div unat b" and ?r = "unat a mod unat b"
  have "a mod b \<noteq> 0"
    using False by (simp add: word_unat_eq_iff unat_mod)
  then have eq: "div_ceil a b = a div b + 1"
    by (simp add: div_ceil_def)
  have a: "unat a = ?q * unat b + ?r"
    by simp
  have b2: "2 \<le> unat b"
    using False b by (cases "unat b = 1") auto
  have "?q * 2 \<le> unat a"
    using b2 a by (metis div_times_less_eq_dividend le_trans mult_le_mono2)
  moreover have "0 < unat a"
    using False by (cases "unat a") auto
  ultimately have "?q + 1 \<le> unat a"
    by linarith
  with unat_bound [of a] have lt: "?q + 1 < 2 ^ LENGTH('a)"
    by linarith
  have "unat (a div b + 1) = ?q + 1"
    using lt by (simp add: unat_word_ariths unat_div_distrib)
  moreover have "(unat a + unat b - 1) div unat b = ?q + 1"
  proof -
    have "unat a + unat b - 1 = (?q + 1) * unat b + (?r - 1)"
    proof -
      have "unat b + unat a - 1 = unat b + (?q * unat b + (?r - 1))"
        using a False by linarith
      then show ?thesis
        by (simp add: algebra_simps)
    qed
    moreover have "?r - 1 < unat b"
      using b mod_less_divisor [of "unat b" "unat a"] by linarith
    ultimately show ?thesis
      using div_mult_add [of "?r - 1" "unat b" "?q + 1"] by simp
  qed
  ultimately show ?thesis
    by (simp add: eq)
qed

section \<open>Panics as values\<close>

type_synonym 'a panics = "string + 'a"

definition bind_panic :: "'a panics \<Rightarrow> ('a \<Rightarrow> 'b panics) \<Rightarrow> 'b panics" where
  "bind_panic m f = (case m of Inl e \<Rightarrow> Inl e | Inr x \<Rightarrow> f x)"

definition expect :: "string \<Rightarrow> 'a option \<Rightarrow> 'a panics" where
  "expect msg x = (case x of None \<Rightarrow> Inl msg | Some y \<Rightarrow> Inr y)"

text \<open>Unchecked arithmetic that can overflow: an overflow is a panic, as in a checked build.\<close>

definition sub_or_panic :: "nat \<Rightarrow> nat \<Rightarrow> nat panics" where
  "sub_or_panic a b = (if b \<le> a then Inr (a - b) else Inl ''attempt to subtract with overflow'')"

definition sub_words :: "'a::len word \<Rightarrow> 'a word \<Rightarrow> 'a word panics" where
  "sub_words a b = (if b \<le> a then Inr (a - b) else Inl ''attempt to subtract with overflow'')"

definition mul_words :: "'a::len word \<Rightarrow> 'a word \<Rightarrow> 'a word panics" where
  "mul_words a b =
     (if unat a * unat b < 2 ^ LENGTH('a) then Inr (a * b)
      else Inl ''attempt to multiply with overflow'')"

definition add_words :: "'a::len word \<Rightarrow> 'a word \<Rightarrow> 'a word panics" where
  "add_words a b =
     (if unat a + unat b < 2 ^ LENGTH('a) then Inr (a + b) else Inl ''attempt to add with overflow'')"

text \<open>The \<open>?\<close> operator in a function that returns a \<open>Result\<close> and changes a state.\<close>

definition try_bind ::
  "(('e + 'a) \<times> 's) panics \<Rightarrow> ('a \<Rightarrow> 's \<Rightarrow> (('e + 'b) \<times> 's) panics) \<Rightarrow> (('e + 'b) \<times> 's) panics" where
  "try_bind m f = bind_panic m (\<lambda>(r, s). case r of Inl e \<Rightarrow> Inr (Inl e, s) | Inr x \<Rightarrow> f x s)"

lemma try_bind_simps [simp]:
  "try_bind (Inl e) f = Inl e"
  "try_bind (Inr (Inl e', s)) f = Inr (Inl e', s)"
  "try_bind (Inr (Inr x, s)) f = f x s"
  by (simp_all add: try_bind_def bind_panic_def)

lemma bind_panic_simps [simp]:
  "bind_panic (Inl e) f = Inl e"
  "bind_panic (Inr x) f = f x"
  by (simp_all add: bind_panic_def)

lemma try_bind_assoc: "try_bind (try_bind m f) g = try_bind m (\<lambda>x s. try_bind (f x s) g)"
  by (cases m) (auto simp: try_bind_def split: sum.split)

lemma bind_panic_Inr_iff:
  "bind_panic m f = Inr y \<longleftrightarrow> (\<exists>x. m = Inr x \<and> f x = Inr y)"
  by (cases m) auto

lemma expect_simps [simp]:
  "expect msg None = Inl msg"
  "expect msg (Some x) = Inr x"
  by (simp_all add: expect_def)

lemma expect_Inr_iff [simp]: "expect msg x = Inr y \<longleftrightarrow> x = Some y"
  by (cases x) auto

lemma sub_or_panic_le [simp]: "b \<le> a \<Longrightarrow> sub_or_panic a b = Inr (a - b)"
  by (simp add: sub_or_panic_def)

end
