(* ===== verification/Kernel_Context.thy ===== *)
theory Kernel_Context
  imports Rust_Prelude
begin

text \<open>
  The interface of the context switch. For every context record in memory a machine state has the
  registers \<open>saved\<close> in it, and in the processor the registers \<open>live\<close> that a switch must preserve. A
  switch stores the live registers into the old record, loads them from the new one, touches no
  other record and continues at the return address among the registers it loaded. There are two
  routines, one for a voluntary switch and one for the way out of a trap. Whatever the architecture,
  it follows that in any sequence of switches of both kinds a suspended context is resumed at its
  return address with exactly the registers it was suspended with.
\<close>

section \<open>Sequences of switches\<close>

datatype switch_kind = Voluntary | FromTrap

type_synonym 's switch_routines = "switch_kind \<Rightarrow> u64 \<Rightarrow> u64 \<Rightarrow> 's \<Rightarrow> (u64 \<times> 's) option"

text \<open>
  What happens while the context at \<open>a\<close> is suspended: the running context computes, which changes
  the live registers but no saved ones, or another context than \<open>a\<close> is switched to by either
  routine.
\<close>

inductive away :: "'s switch_routines \<Rightarrow> ('s \<Rightarrow> u64 \<Rightarrow> 'r) \<Rightarrow> u64 \<Rightarrow> u64 \<Rightarrow> 's \<Rightarrow> u64 \<Rightarrow> 's \<Rightarrow> bool"
  for switch :: "'s switch_routines" and saved :: "'s \<Rightarrow> u64 \<Rightarrow> 'r" and a :: u64
  where
  away_start: "cur \<noteq> a \<Longrightarrow> away switch saved a cur s cur s"
| away_compute: "away switch saved a cur s cur' s' \<Longrightarrow> (\<And>p. saved s'' p = saved s' p) \<Longrightarrow>
    away switch saved a cur s cur' s''"
| away_switch: "away switch saved a cur s cur' s' \<Longrightarrow> new \<noteq> cur' \<Longrightarrow> new \<noteq> a \<Longrightarrow>
    switch k cur' new s' = Some (pc, s'') \<Longrightarrow> away switch saved a cur s new s''"

section \<open>Interface\<close>

locale context_switch =
  fixes switch :: "'s switch_routines"
    and saved :: "'s \<Rightarrow> u64 \<Rightarrow> 'r"
    and live :: "'s \<Rightarrow> 'r"
    and return_address :: "'r \<Rightarrow> u64"
  assumes switch_returns: "old \<noteq> new \<Longrightarrow> \<exists>s'. switch k old new s = Some (return_address (saved s new), s')"
    and switch_loads: "old \<noteq> new \<Longrightarrow> switch k old new s = Some (pc, s') \<Longrightarrow> live s' = saved s new"
    and switch_saves: "old \<noteq> new \<Longrightarrow> switch k old new s = Some (pc, s') \<Longrightarrow> saved s' old = live s"
    and switch_frame: "old \<noteq> new \<Longrightarrow> switch k old new s = Some (pc, s') \<Longrightarrow> p \<noteq> old \<Longrightarrow> saved s' p = saved s p"
begin

lemma away_keeps: "away switch saved a cur s cur' s' \<Longrightarrow> cur' \<noteq> a \<and> saved s' a = saved s a"
proof (induction rule: away.induct)
  case (away_switch cur s cur' s' new k pc s'')
  then show ?case
    using switch_frame [of cur' new k s' pc s'' a] by auto
qed auto

text \<open>
  The routine that suspends \<open>a\<close> returns, and so does every routine called while \<open>a\<close> is away; the
  one that switches back continues where \<open>a\<close> was suspended.
\<close>

lemma suspended_resumes:
  assumes "a \<noteq> b"
  shows "\<exists>s1. switch k a b s = Some (return_address (saved s b), s1) \<and> live s1 = saved s b \<and>
    (\<forall>d s2. away switch saved a b s1 d s2 \<longrightarrow>
       (\<forall>k' n. n \<noteq> d \<longrightarrow> (\<exists>s3. switch k' d n s2 = Some (return_address (saved s2 n), s3))) \<and>
       (\<forall>k'. \<exists>s3. switch k' d a s2 = Some (return_address (live s), s3) \<and> live s3 = live s))"
proof -
  obtain s1 where s1: "switch k a b s = Some (return_address (saved s b), s1)"
    using switch_returns [OF assms] by blast
  have "\<exists>s3. switch k' d a s2 = Some (return_address (live s), s3) \<and> live s3 = live s"
    if "away switch saved a b s1 d s2" for k' d s2
  proof -
    have d: "d \<noteq> a" "saved s2 a = live s"
      using away_keeps [OF that] switch_saves [OF assms s1] by auto
    then show ?thesis
      using switch_returns [OF d(1), of k' s2] switch_loads [OF d(1)] by metis
  qed
  moreover have "\<exists>s3. switch k' d n s2 = Some (return_address (saved s2 n), s3)" if "n \<noteq> d" for k' d n s2
    using switch_returns [of d n] that by blast
  ultimately show ?thesis
    using s1 switch_loads [OF assms s1] by (intro exI [of _ s1]) simp
qed

end

end
