(* ===== verification/Context_Arm64.thy ===== *)
theory Context_Arm64
  imports Kernel_Context
begin

text \<open>
  The ARM64 context frame and the assembly that switches it (\<open>arch/aarch64/context.rs\<close>). The
  instructions of the assembly have a small-step semantics over the registers they use; memory
  holds, for the address of a context record and the byte offset of a field, the doubleword there,
  so that distinct records do not overlap.
\<close>

section \<open>Context records\<close>

record ArmContext =
  arm_x19 :: u64
  arm_x20 :: u64
  arm_x21 :: u64
  arm_x22 :: u64
  arm_x23 :: u64
  arm_x24 :: u64
  arm_x25 :: u64
  arm_x26 :: u64
  arm_x27 :: u64
  arm_x28 :: u64
  arm_frame_pointer :: u64
  arm_link_register :: u64
  arm_stack_pointer :: u64
  arm_irq_enabled :: u64
  arm_pad :: "u8 list"

definition ArmContext_empty :: ArmContext where
  "ArmContext_empty =
     \<lparr>arm_x19 = 0, arm_x20 = 0, arm_x21 = 0, arm_x22 = 0, arm_x23 = 0, arm_x24 = 0, arm_x25 = 0, arm_x26 = 0, arm_x27 = 0, arm_x28 = 0, arm_frame_pointer = 0, arm_link_register = 0, arm_stack_pointer = 0, arm_irq_enabled = 1,
      arm_pad = replicate 16 0\<rparr>"

definition ArmContext_new :: "usize \<Rightarrow> usize \<Rightarrow> ArmContext" where
  "ArmContext_new entry_pc stack_top =
     ArmContext_empty\<lparr>arm_link_register := entry_pc, arm_stack_pointer := stack_top, arm_irq_enabled := 1\<rparr>"

definition arm_set_entry_data :: "ArmContext \<Rightarrow> usize \<Rightarrow> usize \<Rightarrow> ArmContext" where
  "arm_set_entry_data context entry arg = context\<lparr>arm_x19 := entry, arm_x20 := arg\<rparr>"

definition arm_context_stack_pointer :: "ArmContext \<Rightarrow> usize" where
  "arm_context_stack_pointer context = arm_stack_pointer context"

text \<open>Offsets of the fields in the \<open>repr(C)\<close> layout.\<close>

definition ARM_X19_OFFSET :: nat where
  "ARM_X19_OFFSET = 0"

definition ARM_X21_OFFSET :: nat where
  "ARM_X21_OFFSET = 16"

definition ARM_X23_OFFSET :: nat where
  "ARM_X23_OFFSET = 32"

definition ARM_X25_OFFSET :: nat where
  "ARM_X25_OFFSET = 48"

definition ARM_X27_OFFSET :: nat where
  "ARM_X27_OFFSET = 64"

definition ARM_FRAME_POINTER_OFFSET :: nat where
  "ARM_FRAME_POINTER_OFFSET = 80"

definition ARM_STACK_POINTER_OFFSET :: nat where
  "ARM_STACK_POINTER_OFFSET = 96"

definition ARM_IRQ_ENABLED_OFFSET :: nat where
  "ARM_IRQ_ENABLED_OFFSET = 104"

lemmas arm_offsets =
  ARM_X19_OFFSET_def
  ARM_X21_OFFSET_def
  ARM_X23_OFFSET_def
  ARM_X25_OFFSET_def
  ARM_X27_OFFSET_def
  ARM_FRAME_POINTER_OFFSET_def
  ARM_STACK_POINTER_OFFSET_def
  ARM_IRQ_ENABLED_OFFSET_def

section \<open>Machine\<close>

record ArmCpu =
  xreg :: "nat \<Rightarrow> u64"
  arm_sp :: u64
  arm_irq_masked :: bool
  arm_memory :: "u64 \<Rightarrow> nat \<Rightarrow> u64"

datatype arm_insn =
  Stp nat nat nat nat
| Ldp nat nat nat nat
| Str nat nat nat
| Ldr nat nat nat
| MovFromSp nat
| MovToSp nat
| Mov nat nat
| MsrDaifclr
| MsrDaifset
| Cbz nat nat
| B nat
| Ret
| Br nat

abbreviation set_xreg :: "nat \<Rightarrow> u64 \<Rightarrow> ArmCpu \<Rightarrow> ArmCpu" where
  "set_xreg r v c \<equiv> c\<lparr>xreg := (xreg c)(r := v)\<rparr>"

abbreviation store_at :: "u64 \<Rightarrow> nat \<Rightarrow> u64 \<Rightarrow> (u64 \<Rightarrow> nat \<Rightarrow> u64) \<Rightarrow> u64 \<Rightarrow> nat \<Rightarrow> u64" where
  "store_at p off v mem \<equiv> mem(p := (mem p)(off := v))"

text \<open>The instructions without control flow. A pair is stored to and loaded from consecutive doublewords.\<close>

fun arm_exec :: "arm_insn \<Rightarrow> ArmCpu \<Rightarrow> ArmCpu" where
  "arm_exec (Stp r1 r2 base off) c =
     c\<lparr>arm_memory := store_at (xreg c base) (off + 8) (xreg c r2)
                       (store_at (xreg c base) off (xreg c r1) (arm_memory c))\<rparr>"
| "arm_exec (Ldp r1 r2 base off) c =
     set_xreg r2 (arm_memory c (xreg c base) (off + 8)) (set_xreg r1 (arm_memory c (xreg c base) off) c)"
| "arm_exec (Str r base off) c =
     c\<lparr>arm_memory := store_at (xreg c base) off (xreg c r) (arm_memory c)\<rparr>"
| "arm_exec (Ldr r base off) c = set_xreg r (arm_memory c (xreg c base) off) c"
| "arm_exec (MovFromSp r) c = set_xreg r (arm_sp c) c"
| "arm_exec (MovToSp r) c = c\<lparr>arm_sp := xreg c r\<rparr>"
| "arm_exec (Mov d r) c = set_xreg d (xreg c r) c"
| "arm_exec MsrDaifclr c = c\<lparr>arm_irq_masked := False\<rparr>"
| "arm_exec MsrDaifset c = c\<lparr>arm_irq_masked := True\<rparr>"
| "arm_exec _ c = c"

text \<open>
  Running a routine from the instruction at index \<open>i\<close> until it leaves, with the address it jumps
  to. Each instruction takes one unit of fuel.
\<close>

fun arm_run :: "nat \<Rightarrow> arm_insn list \<Rightarrow> nat \<Rightarrow> ArmCpu \<Rightarrow> (u64 \<times> ArmCpu) option" where
  "arm_run 0 prog i c = None"
| "arm_run (Suc fuel) prog i c =
     (if length prog \<le> i then None
      else
        (case prog ! i of
           Ret \<Rightarrow> Some (xreg c 30, c)
         | Br r \<Rightarrow> Some (xreg c r, c)
         | Cbz r target \<Rightarrow> arm_run fuel prog (if xreg c r = 0 then target else i + 1) c
         | B target \<Rightarrow> arm_run fuel prog target c
         | insn \<Rightarrow> arm_run fuel prog (i + 1) (arm_exec insn c)))"

section \<open>The routines\<close>

text \<open>Storing to the record at \<open>x0\<close> and loading from the record at \<open>x1\<close>, the same in both routines.\<close>

definition arm_save_insns :: "arm_insn list" where
  "arm_save_insns =
     [Stp 19 20 0 ARM_X19_OFFSET, Stp 21 22 0 ARM_X21_OFFSET, Stp 23 24 0 ARM_X23_OFFSET,
      Stp 25 26 0 ARM_X25_OFFSET, Stp 27 28 0 ARM_X27_OFFSET, Stp 29 30 0 ARM_FRAME_POINTER_OFFSET,
      MovFromSp 2, Str 2 0 ARM_STACK_POINTER_OFFSET]"

definition arm_load_insns :: "arm_insn list" where
  "arm_load_insns =
     [Ldp 19 20 1 ARM_X19_OFFSET, Ldp 21 22 1 ARM_X21_OFFSET, Ldp 23 24 1 ARM_X23_OFFSET,
      Ldp 25 26 1 ARM_X25_OFFSET, Ldp 27 28 1 ARM_X27_OFFSET, Ldp 29 30 1 ARM_FRAME_POINTER_OFFSET,
      Ldr 2 1 ARM_STACK_POINTER_OFFSET, MovToSp 2]"

definition arm_bullfinch_switch_context :: "arm_insn list" where
  "arm_bullfinch_switch_context =
     arm_save_insns @ arm_load_insns @
     [Ldr 2 1 ARM_IRQ_ENABLED_OFFSET, Cbz 2 20, MsrDaifclr, B 21, MsrDaifset, Ret]"

definition arm_bullfinch_switch_context_from_trap :: "arm_insn list" where
  "arm_bullfinch_switch_context_from_trap = arm_save_insns @ arm_load_insns @ [Ret]"

definition arm_bullfinch_thread_trampoline :: "arm_insn list" where
  "arm_bullfinch_thread_trampoline = [Mov 0 20, Br 19]"

text \<open>The Rust wrappers call the routines with the two records in \<open>x0\<close> and \<open>x1\<close>.\<close>

definition arm_call :: "arm_insn list \<Rightarrow> u64 \<Rightarrow> u64 \<Rightarrow> ArmCpu \<Rightarrow> (u64 \<times> ArmCpu) option" where
  "arm_call prog old new c = arm_run 32 prog 0 (set_xreg 1 new (set_xreg 0 old c))"

definition arm_switch_context :: "u64 \<Rightarrow> u64 \<Rightarrow> ArmCpu \<Rightarrow> (u64 \<times> ArmCpu) option" where
  "arm_switch_context old new c = arm_call arm_bullfinch_switch_context old new c"

definition arm_switch_context_from_trap :: "u64 \<Rightarrow> u64 \<Rightarrow> ArmCpu \<Rightarrow> (u64 \<times> ArmCpu) option" where
  "arm_switch_context_from_trap old new c = arm_call arm_bullfinch_switch_context_from_trap old new c"

section \<open>What the routines do\<close>

text \<open>The registers a switch preserves: \<open>x19\<close> to \<open>x30\<close> and the stack pointer.\<close>

definition arm_live :: "ArmCpu \<Rightarrow> u64 list" where
  "arm_live c = map (xreg c) [19..<31] @ [arm_sp c]"

definition arm_saved :: "ArmCpu \<Rightarrow> u64 \<Rightarrow> u64 list" where
  "arm_saved c p = map (\<lambda>i. arm_memory c p (8 * i)) [0..<13]"

definition arm_irq_field :: "ArmCpu \<Rightarrow> u64 \<Rightarrow> u64" where
  "arm_irq_field c p = arm_memory c p ARM_IRQ_ENABLED_OFFSET"

lemma upt_12: "[19..<31] = [19, 20, 21, 22, 23, 24, 25, 26, 27, 28, 29, 30::nat]"
  and upt_13: "[0..<13] = [0, 1, 2, 3, 4, 5, 6, 7, 8, 9, 10, 11, 12::nat]"
  by (simp_all add: upt_rec)

fun straight :: "arm_insn \<Rightarrow> bool" where
  "straight (Cbz r t) = False"
| "straight (B t) = False"
| "straight Ret = False"
| "straight (Br r) = False"
| "straight _ = True"

lemma arm_run_straight:
  "straight (prog ! i) \<Longrightarrow> i < length prog \<Longrightarrow>
   arm_run (Suc fuel) prog i c = arm_run fuel prog (Suc i) (arm_exec (prog ! i) c)"
  by (cases "prog ! i") auto

lemma arm_run_block:
  "list_all straight xs \<Longrightarrow>
   arm_run (length xs + fuel) (pre @ xs @ post) (length pre) c =
   arm_run fuel (pre @ xs @ post) (length pre + length xs) (fold arm_exec xs c)"
proof (induction xs arbitrary: pre c)
  case (Cons x xs)
  have "(pre @ (x # xs) @ post) ! length pre = x"
    by simp
  then show ?case
    using Cons.prems arm_run_straight [of "pre @ (x # xs) @ post" "length pre" "length xs + fuel" c]
      Cons.IH [of "pre @ [x]" "arm_exec x c"] by simp
qed simp

definition arm_block :: "u64 \<Rightarrow> u64 \<Rightarrow> ArmCpu \<Rightarrow> ArmCpu" where
  "arm_block old new c =
     fold arm_exec (arm_save_insns @ arm_load_insns) (set_xreg 1 new (set_xreg 0 old c))"

lemma arm_block_memory:
  "old \<noteq> new \<Longrightarrow> arm_memory (arm_block old new c) =
     (arm_memory c)(old := (arm_memory c old)
       (0 := xreg c 19, 8 := xreg c 20, 16 := xreg c 21, 24 := xreg c 22, 32 := xreg c 23, 40 := xreg c 24,
        48 := xreg c 25, 56 := xreg c 26, 64 := xreg c 27, 72 := xreg c 28, 80 := xreg c 29,
        88 := xreg c 30, 96 := arm_sp c))"
  by (simp add: arm_block_def arm_save_insns_def arm_load_insns_def arm_offsets)

lemma arm_block_registers:
  assumes "old \<noteq> new"
  shows "arm_live (arm_block old new c) = arm_saved c new" "xreg (arm_block old new c) 1 = new"
    "arm_irq_masked (arm_block old new c) = arm_irq_masked c"
  using assms
  by (simp_all add: arm_live_def arm_saved_def arm_block_def arm_save_insns_def arm_load_insns_def arm_offsets
      upt_12 upt_13)

lemma arm_block_saved:
  assumes "old \<noteq> new"
  shows "arm_saved (arm_block old new c) old = arm_live c"
    "p \<noteq> old \<Longrightarrow> arm_memory (arm_block old new c) p = arm_memory c p"
    "arm_irq_field (arm_block old new c) p = arm_irq_field c p"
  using assms by (simp_all add: arm_saved_def arm_live_def arm_irq_field_def arm_block_memory arm_offsets upt_12 upt_13)

lemma arm_live_link: "xreg c 30 = arm_live c ! 11"
  by (simp add: arm_live_def upt_12)

text \<open>What both routines have in common: who is resumed where, and what the old record holds.\<close>

definition arm_switched :: "u64 \<Rightarrow> u64 \<Rightarrow> ArmCpu \<Rightarrow> u64 \<Rightarrow> ArmCpu \<Rightarrow> bool" where
  "arm_switched old new c pc c' \<longleftrightarrow>
     pc = arm_saved c new ! 11 \<and> arm_live c' = arm_saved c new \<and> arm_saved c' old = arm_live c \<and>
     (\<forall>p. p \<noteq> old \<longrightarrow> arm_memory c' p = arm_memory c p) \<and>
     (\<forall>p. arm_irq_field c' p = arm_irq_field c p)"

lemma arm_block_switched:
  assumes "old \<noteq> new" "xreg c' = xreg (arm_block old new c) \<or> xreg c' = (xreg (arm_block old new c))(2 := v)"
    "arm_sp c' = arm_sp (arm_block old new c)" "arm_memory c' = arm_memory (arm_block old new c)"
  shows "arm_switched old new c (xreg c' 30) c'"
proof -
  have "arm_live c' = arm_live (arm_block old new c)"
    using assms(2,3) by (auto simp: arm_live_def upt_12)
  moreover have "arm_saved c' p = arm_saved (arm_block old new c) p"
    "arm_irq_field c' p = arm_irq_field (arm_block old new c) p" for p
    using assms(4) by (simp_all add: arm_saved_def arm_irq_field_def)
  ultimately show ?thesis
    using arm_block_registers [OF assms(1)] arm_block_saved [OF assms(1)] assms(4)
    by (simp add: arm_switched_def arm_live_link)
qed

lemma arm_straight: "list_all straight (arm_save_insns @ arm_load_insns)"
  and arm_block_length: "length (arm_save_insns @ arm_load_insns) = 16"
  by (simp_all add: arm_save_insns_def arm_load_insns_def)

lemma arm_call_block:
  assumes "prog = (arm_save_insns @ arm_load_insns) @ post"
  shows "arm_call prog old new c = arm_run 16 prog 16 (arm_block old new c)"
  using arm_run_block [OF arm_straight, of 16 "[]" post, unfolded arm_block_length]
  by (simp add: arm_call_def arm_block_def assms del: fold_append)

lemmas arm_run_numeral = arm_run.simps(2) [of "pred_numeral k" for k, folded numeral_eq_Suc]

lemma arm_from_trap_effect:
  assumes "old \<noteq> new"
  shows "\<exists>pc c'. arm_switch_context_from_trap old new c = Some (pc, c') \<and> arm_switched old new c pc c' \<and>
    arm_irq_masked c' = arm_irq_masked c"
proof -
  have "arm_switch_context_from_trap old new c =
      arm_run 16 arm_bullfinch_switch_context_from_trap 16 (arm_block old new c)"
    using arm_call_block [of arm_bullfinch_switch_context_from_trap "[Ret]"]
    by (simp add: arm_switch_context_from_trap_def arm_bullfinch_switch_context_from_trap_def)
  moreover have "arm_bullfinch_switch_context_from_trap ! 16 = Ret"
      "16 < length arm_bullfinch_switch_context_from_trap"
    by (simp_all add: arm_bullfinch_switch_context_from_trap_def arm_save_insns_def arm_load_insns_def)
  ultimately have "arm_switch_context_from_trap old new c =
      Some (xreg (arm_block old new c) 30, arm_block old new c)"
    by (simp add: arm_run_numeral)
  then show ?thesis
    using arm_block_switched [OF assms, of "arm_block old new c"] arm_block_registers(3) [OF assms] by simp
qed

lemma arm_switch_effect:
  assumes "old \<noteq> new"
  shows "\<exists>pc c'. arm_switch_context old new c = Some (pc, c') \<and> arm_switched old new c pc c' \<and>
    arm_irq_masked c' = (arm_irq_field c new = 0)"
proof -
  let ?prog = arm_bullfinch_switch_context and ?b = "arm_block old new c"
  let ?v = "arm_irq_field c new"
  have "arm_switch_context old new c = arm_run 16 ?prog 16 ?b"
    using arm_call_block [of ?prog]
    by (simp add: arm_switch_context_def arm_bullfinch_switch_context_def)
  moreover have nth: "?prog ! 16 = Ldr 2 1 ARM_IRQ_ENABLED_OFFSET" "?prog ! 17 = Cbz 2 20" "?prog ! 18 = MsrDaifclr"
      "?prog ! 19 = B 21" "?prog ! 20 = MsrDaifset" "?prog ! 21 = Ret" "length ?prog = 22"
    by (simp_all add: arm_bullfinch_switch_context_def arm_save_insns_def arm_load_insns_def)
  moreover have irq: "arm_memory ?b (xreg ?b 1) ARM_IRQ_ENABLED_OFFSET = ?v"
    using arm_block_registers(2) [OF assms] arm_block_saved(3) [OF assms] by (simp add: arm_irq_field_def)
  ultimately have "\<exists>c'. arm_switch_context old new c = Some (xreg c' 30, c') \<and>
      xreg c' = (xreg ?b)(2 := ?v) \<and> arm_sp c' = arm_sp ?b \<and> arm_memory c' = arm_memory ?b \<and>
      arm_irq_masked c' = (?v = 0)"
    by (cases "?v = 0") (simp_all add: arm_run_numeral)
  then show ?thesis
    using arm_block_switched [OF assms] by metis
qed

section \<open>Interface\<close>

text \<open>Both routines, each with the address it continues at.\<close>

fun arm_switch :: "ArmCpu switch_routines" where
  "arm_switch Voluntary = arm_switch_context"
| "arm_switch FromTrap = arm_switch_context_from_trap"

lemma arm_switch_outcome:
  assumes "old \<noteq> new"
  shows "\<exists>c'. arm_switch k old new c = Some (arm_saved c new ! 11, c') \<and> arm_switched old new c (arm_saved c new ! 11) c' \<and>
    arm_irq_masked c' = (case k of Voluntary \<Rightarrow> arm_irq_field c new = 0 | FromTrap \<Rightarrow> arm_irq_masked c)"
  using arm_switch_effect [OF assms, of c] arm_from_trap_effect [OF assms, of c]
  by (cases k) (auto simp: arm_switched_def)

lemma arm_switched_saved: "arm_switched old new c pc c' \<Longrightarrow> p \<noteq> old \<Longrightarrow> arm_saved c' p = arm_saved c p"
  by (simp add: arm_switched_def arm_saved_def)

interpretation arm_contexts: context_switch arm_switch arm_saved arm_live "\<lambda>r. r ! 11"
proof
  fix k and old new p pc :: u64 and c c'
  assume ne: "old \<noteq> new"
  show "\<exists>c'. arm_switch k old new c = Some (arm_saved c new ! 11, c')"
    using arm_switch_outcome [OF ne] by blast
  assume "arm_switch k old new c = Some (pc, c')"
  then have sw: "arm_switched old new c pc c'"
    using arm_switch_outcome [OF ne, of k c] by auto
  then show "arm_live c' = arm_saved c new" "arm_saved c' old = arm_live c"
    by (auto simp: arm_switched_def)
  show "p \<noteq> old \<Longrightarrow> arm_saved c' p = arm_saved c p"
    using sw arm_switched_saved by blast
qed

section \<open>First run of a thread\<close>

definition arm_context_in :: "ArmCpu \<Rightarrow> u64 \<Rightarrow> ArmContext \<Rightarrow> bool" where
  "arm_context_in c p ctx \<longleftrightarrow>
     arm_saved c p =
       [arm_x19 ctx, arm_x20 ctx, arm_x21 ctx, arm_x22 ctx, arm_x23 ctx, arm_x24 ctx, arm_x25 ctx,
        arm_x26 ctx, arm_x27 ctx, arm_x28 ctx, arm_frame_pointer ctx, arm_link_register ctx,
        arm_stack_pointer ctx] \<and>
     arm_irq_field c p = arm_irq_enabled ctx"

lemma arm_fresh_entry:
  assumes "arm_switched old new c pc c'"
    and "arm_context_in c new (arm_set_entry_data (ArmContext_new trampoline stack_top) entry arg)"
  shows "pc = trampoline" "arm_sp c' = stack_top" "xreg c' 19 = entry" "xreg c' 20 = arg" "arm_irq_field c new = 1"
proof -
  have "arm_saved c new = [entry, arg, 0, 0, 0, 0, 0, 0, 0, 0, 0, trampoline, stack_top]"
    "arm_irq_field c new = 1"
    using assms(2) by (simp_all add: arm_context_in_def arm_set_entry_data_def ArmContext_new_def ArmContext_empty_def)
  then show "pc = trampoline" "arm_sp c' = stack_top" "xreg c' 19 = entry" "xreg c' 20 = arg" "arm_irq_field c new = 1"
    using assms(1) by (simp_all add: arm_switched_def arm_live_def upt_12)
qed

lemma arm_trampoline_run:
  "arm_run 2 arm_bullfinch_thread_trampoline 0 c = Some (xreg c 19, set_xreg 0 (xreg c 20) c)"
  by (simp add: arm_bullfinch_thread_trampoline_def arm_run_numeral)

section \<open>Properties\<close>

text \<open>
  C30. On ARM64 a suspended context is resumed where it called the switch, with exactly the
  callee-saved registers and the stack pointer it was suspended with, whatever other contexts ran
  and were switched in between, by the voluntary routine and the one on the trap-return path in any
  mixture. The routine that suspends it, every routine called in between and the one that switches
  back all return, each at the return address saved in the record it loads.
\<close>

theorem arm_context_resumed:
  assumes "a \<noteq> b"
  shows "\<exists>c1. arm_switch k a b c = Some (arm_saved c b ! 11, c1) \<and> arm_live c1 = arm_saved c b \<and>
    (\<forall>d c2. away arm_switch arm_saved a b c1 d c2 \<longrightarrow>
       (\<forall>k' n. n \<noteq> d \<longrightarrow> (\<exists>c3. arm_switch k' d n c2 = Some (arm_saved c2 n ! 11, c3))) \<and>
       (\<forall>k'. \<exists>c3. arm_switch k' d a c2 = Some (xreg c 30, c3) \<and> arm_live c3 = arm_live c))"
  unfolding arm_live_link using arm_contexts.suspended_resumes [OF assms] .

theorem arm_context_resumed_witness:
  "\<exists>pc c1 c3. arm_switch Voluntary 1 2 \<lparr>xreg = (\<lambda>r. if r = 30 then 0x4000 else of_nat r), arm_sp = 0x8000, arm_irq_masked = True, arm_memory = (\<lambda>p off. 0)\<rparr> = Some (pc, c1) \<and>
      arm_switch FromTrap 2 1 c1 = Some (0x4000, c3) \<and> xreg c3 19 = 19 \<and> arm_sp c3 = 0x8000"
proof -
  let ?c = "\<lparr>xreg = (\<lambda>r. if r = 30 then 0x4000 else of_nat r), arm_sp = 0x8000, arm_irq_masked = True, arm_memory = (\<lambda>p off. 0)\<rparr>"
  obtain c1 where c1: "arm_switch Voluntary 1 2 ?c = Some (arm_saved ?c 2 ! 11, c1)"
      "\<forall>d c2. away arm_switch arm_saved 1 2 c1 d c2 \<longrightarrow>
        (\<forall>k'. \<exists>c3. arm_switch k' d 1 c2 = Some (xreg ?c 30, c3) \<and> arm_live c3 = arm_live ?c)"
    using arm_context_resumed [of 1 2 Voluntary ?c] by auto
  have aw: "away arm_switch arm_saved 1 2 c1 2 c1"
    by (rule away_start) simp
  obtain c3 where c3: "arm_switch FromTrap 2 1 c1 = Some (0x4000, c3)" "arm_live c3 = arm_live ?c"
    using c1(2) [rule_format, OF aw, of FromTrap] by auto
  have "xreg c3 19 = arm_live c3 ! 0" "arm_sp c3 = arm_live c3 ! 12" "arm_live ?c ! 0 = 19" "arm_live ?c ! 12 = 0x8000"
    by (simp_all add: arm_live_def upt_12)
  then show ?thesis
    using c1 c3 by (intro exI [of _ "arm_saved ?c 2 ! 11"] exI [of _ c1] exI [of _ c3]) simp
qed

text \<open>
  C32. On ARM64 the first switch to a fresh thread context, by either routine, runs the trampoline on
  the thread's own stack, and the trampoline enters the thread's entry function with its argument in
  the first argument register. The voluntary routine, which boot uses to enter the idle thread,
  leaves interrupts enabled. The routine on the trap-return path, which first enters every other
  thread, leaves the interrupt state of the handler: with interrupts masked in the handler the thread
  starts with them masked.
\<close>

theorem arm_fresh_thread_entered:
  assumes "old \<noteq> new"
    and "arm_context_in c new (arm_set_entry_data (ArmContext_new trampoline stack_top) entry arg)"
  shows "\<exists>c' c''. arm_switch k old new c = Some (trampoline, c') \<and>
    arm_run 2 arm_bullfinch_thread_trampoline 0 c' = Some (entry, c'') \<and>
    xreg c'' 0 = arg \<and> arm_sp c'' = stack_top \<and> arm_saved c'' old = arm_live c \<and>
    (arm_irq_masked c'' \<longleftrightarrow> k = FromTrap \<and> arm_irq_masked c)"
proof -
  obtain c' where sw: "arm_switch k old new c = Some (arm_saved c new ! 11, c')"
      "arm_switched old new c (arm_saved c new ! 11) c'"
      "arm_irq_masked c' = (case k of Voluntary \<Rightarrow> arm_irq_field c new = 0 | FromTrap \<Rightarrow> arm_irq_masked c)"
    using arm_switch_outcome [OF assms(1)] by blast
  note fresh = arm_fresh_entry [OF sw(2) assms(2)]
  let ?c'' = "set_xreg 0 arg c'"
  have "arm_saved ?c'' old = arm_live c"
    using sw(2) by (simp add: arm_switched_def arm_saved_def)
  then show ?thesis
    using sw fresh arm_trampoline_run [of c'] by (cases k) auto
qed

theorem arm_fresh_thread_entered_witness:
  "\<exists>c' c''. arm_switch FromTrap 1 2 \<lparr>xreg = \<lambda>r. 0, arm_sp = 0, arm_irq_masked = True,
       arm_memory = \<lambda>p off. if off = 0 then 0x2000 else if off = 8 then 0x3000
         else if off = 88 then 0x1000 else if off = 96 then 0x8000 else if off = 104 then 1 else 0\<rparr> = Some (0x1000, c') \<and>
      arm_run 2 arm_bullfinch_thread_trampoline 0 c' = Some (0x2000, c'') \<and> xreg c'' 0 = 0x3000 \<and> arm_sp c'' = 0x8000 \<and> arm_irq_masked c''"
proof -
  let ?c = "\<lparr>xreg = \<lambda>r. 0, arm_sp = 0, arm_irq_masked = True,
       arm_memory = \<lambda>p off. if off = 0 then 0x2000 else if off = 8 then 0x3000
         else if off = 88 then 0x1000 else if off = 96 then 0x8000 else if off = 104 then 1 else 0\<rparr>"
  have "arm_context_in ?c 2 (arm_set_entry_data (ArmContext_new 0x1000 0x8000) 0x2000 0x3000)"
    by (simp add: arm_context_in_def arm_saved_def arm_irq_field_def upt_13 arm_offsets arm_set_entry_data_def
        ArmContext_new_def ArmContext_empty_def)
  then show ?thesis
    using arm_fresh_thread_entered [of 1 2 ?c "0x1000" "0x8000" "0x2000" "0x3000" FromTrap] by auto
qed

end
