(* ===== verification/Context_Riscv.thy ===== *)
theory Context_Riscv
  imports Kernel_Context
begin

text \<open>
  The RISC-V context frame and the assembly that switches it (\<open>arch/riscv64/context.rs\<close>), with the
  same conventions as the ARM64 one: a small-step semantics of the instructions used, and memory
  addressed by the context record and the byte offset of a field.
\<close>

section \<open>Context records\<close>

record RvContext =
  rv_s0 :: u64
  rv_s1 :: u64
  rv_s2 :: u64
  rv_s3 :: u64
  rv_s4 :: u64
  rv_s5 :: u64
  rv_s6 :: u64
  rv_s7 :: u64
  rv_s8 :: u64
  rv_s9 :: u64
  rv_s10 :: u64
  rv_s11 :: u64
  rv_return_address :: u64
  rv_stack_pointer :: u64
  rv_irq_enabled :: u64
  rv_pad :: "u8 list"

definition RvContext_empty :: RvContext where
  "RvContext_empty =
     \<lparr>rv_s0 = 0, rv_s1 = 0, rv_s2 = 0, rv_s3 = 0, rv_s4 = 0, rv_s5 = 0,
      rv_s6 = 0, rv_s7 = 0, rv_s8 = 0, rv_s9 = 0, rv_s10 = 0, rv_s11 = 0,
      rv_return_address = 0, rv_stack_pointer = 0, rv_irq_enabled = 1, rv_pad = replicate 8 0\<rparr>"

definition RvContext_new :: "usize \<Rightarrow> usize \<Rightarrow> RvContext" where
  "RvContext_new entry_pc stack_top =
     RvContext_empty\<lparr>rv_return_address := entry_pc, rv_stack_pointer := stack_top, rv_irq_enabled := 1\<rparr>"

definition rv_set_entry_data :: "RvContext \<Rightarrow> usize \<Rightarrow> usize \<Rightarrow> RvContext" where
  "rv_set_entry_data context entry arg = context\<lparr>rv_s1 := entry, rv_s2 := arg\<rparr>"

definition rv_context_stack_pointer :: "RvContext \<Rightarrow> usize" where
  "rv_context_stack_pointer context = rv_stack_pointer context"

text \<open>Offsets of the fields in the \<open>repr(C)\<close> layout.\<close>

definition RV_S0_OFFSET :: nat where
  "RV_S0_OFFSET = 0"

definition RV_S1_OFFSET :: nat where
  "RV_S1_OFFSET = 8"

definition RV_S2_OFFSET :: nat where
  "RV_S2_OFFSET = 16"

definition RV_S3_OFFSET :: nat where
  "RV_S3_OFFSET = 24"

definition RV_S4_OFFSET :: nat where
  "RV_S4_OFFSET = 32"

definition RV_S5_OFFSET :: nat where
  "RV_S5_OFFSET = 40"

definition RV_S6_OFFSET :: nat where
  "RV_S6_OFFSET = 48"

definition RV_S7_OFFSET :: nat where
  "RV_S7_OFFSET = 56"

definition RV_S8_OFFSET :: nat where
  "RV_S8_OFFSET = 64"

definition RV_S9_OFFSET :: nat where
  "RV_S9_OFFSET = 72"

definition RV_S10_OFFSET :: nat where
  "RV_S10_OFFSET = 80"

definition RV_S11_OFFSET :: nat where
  "RV_S11_OFFSET = 88"

definition RV_RETURN_ADDRESS_OFFSET :: nat where
  "RV_RETURN_ADDRESS_OFFSET = 96"

definition RV_STACK_POINTER_OFFSET :: nat where
  "RV_STACK_POINTER_OFFSET = 104"

definition RV_IRQ_ENABLED_OFFSET :: nat where
  "RV_IRQ_ENABLED_OFFSET = 112"

lemmas rv_offsets =
  RV_S0_OFFSET_def
  RV_S1_OFFSET_def
  RV_S2_OFFSET_def
  RV_S3_OFFSET_def
  RV_S4_OFFSET_def
  RV_S5_OFFSET_def
  RV_S6_OFFSET_def
  RV_S7_OFFSET_def
  RV_S8_OFFSET_def
  RV_S9_OFFSET_def
  RV_S10_OFFSET_def
  RV_S11_OFFSET_def
  RV_RETURN_ADDRESS_OFFSET_def
  RV_STACK_POINTER_OFFSET_def
  RV_IRQ_ENABLED_OFFSET_def

section \<open>Machine\<close>

datatype rv_reg = Ra | Sp | T0 | A0 | A1 | S nat

record RvCpu =
  rvreg :: "rv_reg \<Rightarrow> u64"
  rv_sie :: bool
  rv_memory :: "u64 \<Rightarrow> nat \<Rightarrow> u64"

datatype rv_insn =
  Sd rv_reg nat rv_reg
| Ld rv_reg nat rv_reg
| Mv rv_reg rv_reg
| CsrsiSie
| CsrciSie
| Beqz rv_reg nat
| J nat
| RvRet
| Jr rv_reg

abbreviation set_rvreg :: "rv_reg \<Rightarrow> u64 \<Rightarrow> RvCpu \<Rightarrow> RvCpu" where
  "set_rvreg r v c \<equiv> c\<lparr>rvreg := (rvreg c)(r := v)\<rparr>"

fun rv_exec :: "rv_insn \<Rightarrow> RvCpu \<Rightarrow> RvCpu" where
  "rv_exec (Sd r off base) c =
     c\<lparr>rv_memory := (rv_memory c)(rvreg c base := (rv_memory c (rvreg c base))(off := rvreg c r))\<rparr>"
| "rv_exec (Ld r off base) c = set_rvreg r (rv_memory c (rvreg c base) off) c"
| "rv_exec (Mv d r) c = set_rvreg d (rvreg c r) c"
| "rv_exec CsrsiSie c = c\<lparr>rv_sie := True\<rparr>"
| "rv_exec CsrciSie c = c\<lparr>rv_sie := False\<rparr>"
| "rv_exec _ c = c"

text \<open>
  Running a routine from the instruction at index \<open>i\<close> until it leaves, with the address it jumps
  to. Each instruction takes one unit of fuel.
\<close>

fun rv_run :: "nat \<Rightarrow> rv_insn list \<Rightarrow> nat \<Rightarrow> RvCpu \<Rightarrow> (u64 \<times> RvCpu) option" where
  "rv_run 0 prog i c = None"
| "rv_run (Suc fuel) prog i c =
     (if length prog \<le> i then None
      else
        (case prog ! i of
           RvRet \<Rightarrow> Some (rvreg c Ra, c)
         | Jr r \<Rightarrow> Some (rvreg c r, c)
         | Beqz r target \<Rightarrow> rv_run fuel prog (if rvreg c r = 0 then target else i + 1) c
         | J target \<Rightarrow> rv_run fuel prog target c
         | insn \<Rightarrow> rv_run fuel prog (i + 1) (rv_exec insn c)))"

section \<open>The routines\<close>

text \<open>Storing to the record at \<open>a0\<close> and loading from the record at \<open>a1\<close>, the same in both routines.\<close>

definition rv_save_insns :: "rv_insn list" where
  "rv_save_insns =
     [Sd (S 0) RV_S0_OFFSET A0, Sd (S 1) RV_S1_OFFSET A0, Sd (S 2) RV_S2_OFFSET A0,
      Sd (S 3) RV_S3_OFFSET A0, Sd (S 4) RV_S4_OFFSET A0, Sd (S 5) RV_S5_OFFSET A0,
      Sd (S 6) RV_S6_OFFSET A0, Sd (S 7) RV_S7_OFFSET A0, Sd (S 8) RV_S8_OFFSET A0,
      Sd (S 9) RV_S9_OFFSET A0, Sd (S 10) RV_S10_OFFSET A0, Sd (S 11) RV_S11_OFFSET A0,
      Sd Ra RV_RETURN_ADDRESS_OFFSET A0, Sd Sp RV_STACK_POINTER_OFFSET A0]"

definition rv_load_insns :: "rv_insn list" where
  "rv_load_insns =
     [Ld (S 0) RV_S0_OFFSET A1, Ld (S 1) RV_S1_OFFSET A1, Ld (S 2) RV_S2_OFFSET A1,
      Ld (S 3) RV_S3_OFFSET A1, Ld (S 4) RV_S4_OFFSET A1, Ld (S 5) RV_S5_OFFSET A1,
      Ld (S 6) RV_S6_OFFSET A1, Ld (S 7) RV_S7_OFFSET A1, Ld (S 8) RV_S8_OFFSET A1,
      Ld (S 9) RV_S9_OFFSET A1, Ld (S 10) RV_S10_OFFSET A1, Ld (S 11) RV_S11_OFFSET A1,
      Ld Ra RV_RETURN_ADDRESS_OFFSET A1, Ld Sp RV_STACK_POINTER_OFFSET A1]"

definition rv_bullfinch_switch_context :: "rv_insn list" where
  "rv_bullfinch_switch_context =
     rv_save_insns @ rv_load_insns @
     [Ld T0 RV_IRQ_ENABLED_OFFSET A1, Beqz T0 32, CsrsiSie, J 33, CsrciSie, RvRet]"

definition rv_bullfinch_switch_context_from_trap :: "rv_insn list" where
  "rv_bullfinch_switch_context_from_trap = rv_save_insns @ rv_load_insns @ [RvRet]"

definition rv_bullfinch_thread_trampoline :: "rv_insn list" where
  "rv_bullfinch_thread_trampoline = [Mv A0 (S 2), Jr (S 1)]"

text \<open>The Rust wrappers call the routines with the two records in \<open>a0\<close> and \<open>a1\<close>.\<close>

definition rv_call :: "rv_insn list \<Rightarrow> u64 \<Rightarrow> u64 \<Rightarrow> RvCpu \<Rightarrow> (u64 \<times> RvCpu) option" where
  "rv_call prog old new c = rv_run 40 prog 0 (set_rvreg A1 new (set_rvreg A0 old c))"

definition rv_switch_context :: "u64 \<Rightarrow> u64 \<Rightarrow> RvCpu \<Rightarrow> (u64 \<times> RvCpu) option" where
  "rv_switch_context old new c = rv_call rv_bullfinch_switch_context old new c"

definition rv_switch_context_from_trap :: "u64 \<Rightarrow> u64 \<Rightarrow> RvCpu \<Rightarrow> (u64 \<times> RvCpu) option" where
  "rv_switch_context_from_trap old new c = rv_call rv_bullfinch_switch_context_from_trap old new c"

section \<open>What the routines do\<close>

text \<open>The registers a switch preserves: \<open>s0\<close> to \<open>s11\<close>, the return address and the stack pointer.\<close>

definition rv_live :: "RvCpu \<Rightarrow> u64 list" where
  "rv_live c = map (\<lambda>i. rvreg c (S i)) [0..<12] @ [rvreg c Ra, rvreg c Sp]"

definition rv_saved :: "RvCpu \<Rightarrow> u64 \<Rightarrow> u64 list" where
  "rv_saved c p = map (\<lambda>i. rv_memory c p (8 * i)) [0..<14]"

definition rv_irq_field :: "RvCpu \<Rightarrow> u64 \<Rightarrow> u64" where
  "rv_irq_field c p = rv_memory c p RV_IRQ_ENABLED_OFFSET"

lemma rv_upt_12: "[0..<12] = [0, 1, 2, 3, 4, 5, 6, 7, 8, 9, 10, 11::nat]"
  and rv_upt_14: "[0..<14] = [0, 1, 2, 3, 4, 5, 6, 7, 8, 9, 10, 11, 12, 13::nat]"
  by (simp_all add: upt_rec)

fun rv_straight :: "rv_insn \<Rightarrow> bool" where
  "rv_straight (Beqz r t) = False"
| "rv_straight (J t) = False"
| "rv_straight RvRet = False"
| "rv_straight (Jr r) = False"
| "rv_straight _ = True"

lemma rv_run_straight:
  "rv_straight (prog ! i) \<Longrightarrow> i < length prog \<Longrightarrow>
   rv_run (Suc fuel) prog i c = rv_run fuel prog (Suc i) (rv_exec (prog ! i) c)"
  by (cases "prog ! i") auto

lemma rv_run_block:
  "list_all rv_straight xs \<Longrightarrow>
   rv_run (length xs + fuel) (pre @ xs @ post) (length pre) c =
   rv_run fuel (pre @ xs @ post) (length pre + length xs) (fold rv_exec xs c)"
proof (induction xs arbitrary: pre c)
  case (Cons x xs)
  have "(pre @ (x # xs) @ post) ! length pre = x"
    by simp
  then show ?case
    using Cons.prems rv_run_straight [of "pre @ (x # xs) @ post" "length pre" "length xs + fuel" c]
      Cons.IH [of "pre @ [x]" "rv_exec x c"] by simp
qed simp

definition rv_block :: "u64 \<Rightarrow> u64 \<Rightarrow> RvCpu \<Rightarrow> RvCpu" where
  "rv_block old new c =
     fold rv_exec (rv_save_insns @ rv_load_insns) (set_rvreg A1 new (set_rvreg A0 old c))"

lemma rv_block_memory:
  "old \<noteq> new \<Longrightarrow> rv_memory (rv_block old new c) =
     (rv_memory c)(old := (rv_memory c old)
       (0 := rvreg c (S 0), 8 := rvreg c (S 1), 16 := rvreg c (S 2), 24 := rvreg c (S 3), 32 := rvreg c (S 4), 40 := rvreg c (S 5),
        48 := rvreg c (S 6), 56 := rvreg c (S 7), 64 := rvreg c (S 8), 72 := rvreg c (S 9), 80 := rvreg c (S 10), 88 := rvreg c (S 11),
        96 := rvreg c Ra, 104 := rvreg c Sp))"
  by (simp add: rv_block_def rv_save_insns_def rv_load_insns_def rv_offsets)

lemma rv_block_registers:
  assumes "old \<noteq> new"
  shows "rv_live (rv_block old new c) = rv_saved c new" "rvreg (rv_block old new c) A1 = new"
    "rv_sie (rv_block old new c) = rv_sie c"
  using assms
  by (simp_all add: rv_live_def rv_saved_def rv_block_def rv_save_insns_def rv_load_insns_def rv_offsets
      rv_upt_12 rv_upt_14)

lemma rv_block_saved:
  assumes "old \<noteq> new"
  shows "rv_saved (rv_block old new c) old = rv_live c"
    "p \<noteq> old \<Longrightarrow> rv_memory (rv_block old new c) p = rv_memory c p"
    "rv_irq_field (rv_block old new c) p = rv_irq_field c p"
  using assms by (simp_all add: rv_saved_def rv_live_def rv_irq_field_def rv_block_memory rv_offsets rv_upt_12 rv_upt_14)

lemma rv_live_link: "rvreg c Ra = rv_live c ! 12"
  by (simp add: rv_live_def rv_upt_12)

text \<open>What both routines have in common: who is resumed where, and what the old record holds.\<close>

definition rv_switched :: "u64 \<Rightarrow> u64 \<Rightarrow> RvCpu \<Rightarrow> u64 \<Rightarrow> RvCpu \<Rightarrow> bool" where
  "rv_switched old new c pc c' \<longleftrightarrow>
     pc = rv_saved c new ! 12 \<and> rv_live c' = rv_saved c new \<and> rv_saved c' old = rv_live c \<and>
     (\<forall>p. p \<noteq> old \<longrightarrow> rv_memory c' p = rv_memory c p) \<and>
     (\<forall>p. rv_irq_field c' p = rv_irq_field c p)"

lemma rv_block_switched:
  assumes "old \<noteq> new" "rvreg c' = rvreg (rv_block old new c) \<or> rvreg c' = (rvreg (rv_block old new c))(T0 := v)"
    "rv_memory c' = rv_memory (rv_block old new c)"
  shows "rv_switched old new c (rvreg c' Ra) c'"
proof -
  have "rv_live c' = rv_live (rv_block old new c)"
    using assms(2) by (auto simp: rv_live_def rv_upt_12)
  moreover have "rv_saved c' p = rv_saved (rv_block old new c) p"
    "rv_irq_field c' p = rv_irq_field (rv_block old new c) p" for p
    using assms(3) by (simp_all add: rv_saved_def rv_irq_field_def)
  ultimately show ?thesis
    using rv_block_registers [OF assms(1)] rv_block_saved [OF assms(1)] assms(3)
    by (simp add: rv_switched_def rv_live_link)
qed

lemma rv_straight: "list_all rv_straight (rv_save_insns @ rv_load_insns)"
  and rv_block_length: "length (rv_save_insns @ rv_load_insns) = 28"
  by (simp_all add: rv_save_insns_def rv_load_insns_def)

lemma rv_call_block:
  assumes "prog = (rv_save_insns @ rv_load_insns) @ post"
  shows "rv_call prog old new c = rv_run 12 prog 28 (rv_block old new c)"
  using rv_run_block [OF rv_straight, of 12 "[]" post, unfolded rv_block_length]
  by (simp add: rv_call_def rv_block_def assms del: fold_append)

lemmas rv_run_numeral = rv_run.simps(2) [of "pred_numeral k" for k, folded numeral_eq_Suc]

lemma rv_from_trap_effect:
  assumes "old \<noteq> new"
  shows "\<exists>pc c'. rv_switch_context_from_trap old new c = Some (pc, c') \<and> rv_switched old new c pc c' \<and>
    rv_sie c' = rv_sie c"
proof -
  have "rv_switch_context_from_trap old new c =
      rv_run 12 rv_bullfinch_switch_context_from_trap 28 (rv_block old new c)"
    using rv_call_block [of rv_bullfinch_switch_context_from_trap "[RvRet]"]
    by (simp add: rv_switch_context_from_trap_def rv_bullfinch_switch_context_from_trap_def)
  moreover have "rv_bullfinch_switch_context_from_trap ! 28 = RvRet"
      "28 < length rv_bullfinch_switch_context_from_trap"
    by (simp_all add: rv_bullfinch_switch_context_from_trap_def rv_save_insns_def rv_load_insns_def)
  ultimately have "rv_switch_context_from_trap old new c =
      Some (rvreg (rv_block old new c) Ra, rv_block old new c)"
    by (simp add: rv_run_numeral)
  then show ?thesis
    using rv_block_switched [OF assms, of "rv_block old new c"] rv_block_registers(3) [OF assms] by simp
qed

lemma rv_switch_effect:
  assumes "old \<noteq> new"
  shows "\<exists>pc c'. rv_switch_context old new c = Some (pc, c') \<and> rv_switched old new c pc c' \<and>
    rv_sie c' = (rv_irq_field c new \<noteq> 0)"
proof -
  let ?prog = rv_bullfinch_switch_context and ?b = "rv_block old new c"
  let ?v = "rv_irq_field c new"
  have "rv_switch_context old new c = rv_run 12 ?prog 28 ?b"
    using rv_call_block [of ?prog]
    by (simp add: rv_switch_context_def rv_bullfinch_switch_context_def)
  moreover have nth: "?prog ! 28 = Ld T0 RV_IRQ_ENABLED_OFFSET A1" "?prog ! 29 = Beqz T0 32" "?prog ! 30 = CsrsiSie"
      "?prog ! 31 = J 33" "?prog ! 32 = CsrciSie" "?prog ! 33 = RvRet" "length ?prog = 34"
    by (simp_all add: rv_bullfinch_switch_context_def rv_save_insns_def rv_load_insns_def)
  moreover have irq: "rv_memory ?b (rvreg ?b A1) RV_IRQ_ENABLED_OFFSET = ?v"
    using rv_block_registers(2) [OF assms] rv_block_saved(3) [OF assms] by (simp add: rv_irq_field_def)
  ultimately have "\<exists>c'. rv_switch_context old new c = Some (rvreg c' Ra, c') \<and>
      rvreg c' = (rvreg ?b)(T0 := ?v) \<and> rv_memory c' = rv_memory ?b \<and>
      rv_sie c' = (?v \<noteq> 0)"
    by (cases "?v = 0") (simp_all add: rv_run_numeral)
  then show ?thesis
    using rv_block_switched [OF assms] by metis
qed

section \<open>Interface\<close>

text \<open>Both routines, each with the address it continues at.\<close>

fun rv_switch :: "RvCpu switch_routines" where
  "rv_switch Voluntary = rv_switch_context"
| "rv_switch FromTrap = rv_switch_context_from_trap"

lemma rv_switch_outcome:
  assumes "old \<noteq> new"
  shows "\<exists>c'. rv_switch k old new c = Some (rv_saved c new ! 12, c') \<and> rv_switched old new c (rv_saved c new ! 12) c' \<and>
    rv_sie c' = (case k of Voluntary \<Rightarrow> rv_irq_field c new \<noteq> 0 | FromTrap \<Rightarrow> rv_sie c)"
  using rv_switch_effect [OF assms, of c] rv_from_trap_effect [OF assms, of c]
  by (cases k) (auto simp: rv_switched_def)

lemma rv_switched_saved: "rv_switched old new c pc c' \<Longrightarrow> p \<noteq> old \<Longrightarrow> rv_saved c' p = rv_saved c p"
  by (simp add: rv_switched_def rv_saved_def)

interpretation rv_contexts: context_switch rv_switch rv_saved rv_live "\<lambda>r. r ! 12"
proof
  fix k and old new p pc :: u64 and c c'
  assume ne: "old \<noteq> new"
  show "\<exists>c'. rv_switch k old new c = Some (rv_saved c new ! 12, c')"
    using rv_switch_outcome [OF ne] by blast
  assume "rv_switch k old new c = Some (pc, c')"
  then have sw: "rv_switched old new c pc c'"
    using rv_switch_outcome [OF ne, of k c] by auto
  then show "rv_live c' = rv_saved c new" "rv_saved c' old = rv_live c"
    by (auto simp: rv_switched_def)
  show "p \<noteq> old \<Longrightarrow> rv_saved c' p = rv_saved c p"
    using sw rv_switched_saved by blast
qed

section \<open>First run of a thread\<close>

definition rv_context_in :: "RvCpu \<Rightarrow> u64 \<Rightarrow> RvContext \<Rightarrow> bool" where
  "rv_context_in c p ctx \<longleftrightarrow>
     rv_saved c p =
       [rv_s0 ctx, rv_s1 ctx, rv_s2 ctx, rv_s3 ctx, rv_s4 ctx, rv_s5 ctx, rv_s6 ctx, rv_s7 ctx, rv_s8 ctx,
        rv_s9 ctx, rv_s10 ctx, rv_s11 ctx, rv_return_address ctx, rv_stack_pointer ctx] \<and>
     rv_irq_field c p = rv_irq_enabled ctx"

lemma rv_fresh_entry:
  assumes "rv_switched old new c pc c'"
    and "rv_context_in c new (rv_set_entry_data (RvContext_new trampoline stack_top) entry arg)"
  shows "pc = trampoline" "rvreg c' Sp = stack_top" "rvreg c' (S 1) = entry" "rvreg c' (S 2) = arg" "rv_irq_field c new = 1"
proof -
  have "rv_saved c new = [0, entry, arg, 0, 0, 0, 0, 0, 0, 0, 0, 0, trampoline, stack_top]"
    "rv_irq_field c new = 1"
    using assms(2) by (simp_all add: rv_context_in_def rv_set_entry_data_def RvContext_new_def RvContext_empty_def)
  then show "pc = trampoline" "rvreg c' Sp = stack_top" "rvreg c' (S 1) = entry" "rvreg c' (S 2) = arg" "rv_irq_field c new = 1"
    using assms(1) by (simp_all add: rv_switched_def rv_live_def rv_upt_12)
qed

lemma rv_trampoline_run:
  "rv_run 2 rv_bullfinch_thread_trampoline 0 c = Some (rvreg c (S 1), set_rvreg A0 (rvreg c (S 2)) c)"
  by (simp add: rv_bullfinch_thread_trampoline_def rv_run_numeral)

section \<open>Properties\<close>

text \<open>
  C31. On RISC-V a suspended context is resumed where it called the switch, with exactly the
  callee-saved registers and the stack pointer it was suspended with, whatever other contexts ran
  and were switched in between, by the voluntary routine and the one on the trap-return path in any
  mixture. The routine that suspends it, every routine called in between and the one that switches
  back all return, each at the return address saved in the record it loads.
\<close>

theorem rv_context_resumed:
  assumes "a \<noteq> b"
  shows "\<exists>c1. rv_switch k a b c = Some (rv_saved c b ! 12, c1) \<and> rv_live c1 = rv_saved c b \<and>
    (\<forall>d c2. away rv_switch rv_saved a b c1 d c2 \<longrightarrow>
       (\<forall>k' n. n \<noteq> d \<longrightarrow> (\<exists>c3. rv_switch k' d n c2 = Some (rv_saved c2 n ! 12, c3))) \<and>
       (\<forall>k'. \<exists>c3. rv_switch k' d a c2 = Some (rvreg c Ra, c3) \<and> rv_live c3 = rv_live c))"
  unfolding rv_live_link using rv_contexts.suspended_resumes [OF assms] .

theorem rv_context_resumed_witness:
  "\<exists>pc c1 c3. rv_switch Voluntary 1 2 \<lparr>rvreg = (\<lambda>r. case r of S i \<Rightarrow> of_nat i | Sp \<Rightarrow> 0x8000 | Ra \<Rightarrow> 0x4000 | _ \<Rightarrow> 0), rv_sie = False, rv_memory = (\<lambda>p off. 0)\<rparr> = Some (pc, c1) \<and>
      rv_switch FromTrap 2 1 c1 = Some (0x4000, c3) \<and> rvreg c3 (S 3) = 3 \<and> rvreg c3 Sp = 0x8000"
proof -
  let ?c = "\<lparr>rvreg = (\<lambda>r. case r of S i \<Rightarrow> of_nat i | Sp \<Rightarrow> 0x8000 | Ra \<Rightarrow> 0x4000 | _ \<Rightarrow> 0), rv_sie = False, rv_memory = (\<lambda>p off. 0)\<rparr>"
  obtain c1 where c1: "rv_switch Voluntary 1 2 ?c = Some (rv_saved ?c 2 ! 12, c1)"
      "\<forall>d c2. away rv_switch rv_saved 1 2 c1 d c2 \<longrightarrow>
        (\<forall>k'. \<exists>c3. rv_switch k' d 1 c2 = Some (rvreg ?c Ra, c3) \<and> rv_live c3 = rv_live ?c)"
    using rv_context_resumed [of 1 2 Voluntary ?c] by auto
  have aw: "away rv_switch rv_saved 1 2 c1 2 c1"
    by (rule away_start) simp
  obtain c3 where c3: "rv_switch FromTrap 2 1 c1 = Some (0x4000, c3)" "rv_live c3 = rv_live ?c"
    using c1(2) [rule_format, OF aw, of FromTrap] by auto
  have "rvreg c3 (S 3) = rv_live c3 ! 3" "rvreg c3 Sp = rv_live c3 ! 13" "rv_live ?c ! 3 = 3" "rv_live ?c ! 13 = 0x8000"
    by (simp_all add: rv_live_def rv_upt_12)
  then show ?thesis
    using c1 c3 by (intro exI [of _ "rv_saved ?c 2 ! 12"] exI [of _ c1] exI [of _ c3]) simp
qed

text \<open>
  C33. On RISC-V the first switch to a fresh thread context, by either routine, runs the trampoline on
  the thread's own stack, and the trampoline enters the thread's entry function with its argument in
  the first argument register. The voluntary routine, which boot uses to enter the idle thread,
  leaves interrupts enabled. The routine on the trap-return path, which first enters every other
  thread, leaves the interrupt state of the handler: with interrupts masked in the handler the thread
  starts with them masked.
\<close>

theorem rv_fresh_thread_entered:
  assumes "old \<noteq> new"
    and "rv_context_in c new (rv_set_entry_data (RvContext_new trampoline stack_top) entry arg)"
  shows "\<exists>c' c''. rv_switch k old new c = Some (trampoline, c') \<and>
    rv_run 2 rv_bullfinch_thread_trampoline 0 c' = Some (entry, c'') \<and>
    rvreg c'' A0 = arg \<and> rvreg c'' Sp = stack_top \<and> rv_saved c'' old = rv_live c \<and>
    (rv_sie c'' \<longleftrightarrow> k = Voluntary \<or> rv_sie c)"
proof -
  obtain c' where sw: "rv_switch k old new c = Some (rv_saved c new ! 12, c')"
      "rv_switched old new c (rv_saved c new ! 12) c'"
      "rv_sie c' = (case k of Voluntary \<Rightarrow> rv_irq_field c new \<noteq> 0 | FromTrap \<Rightarrow> rv_sie c)"
    using rv_switch_outcome [OF assms(1)] by blast
  note fresh = rv_fresh_entry [OF sw(2) assms(2)]
  let ?c'' = "set_rvreg A0 arg c'"
  have "rv_saved ?c'' old = rv_live c"
    using sw(2) by (simp add: rv_switched_def rv_saved_def)
  then show ?thesis
    using sw fresh rv_trampoline_run [of c'] by (cases k) auto
qed

theorem rv_fresh_thread_entered_witness:
  "\<exists>c' c''. rv_switch FromTrap 1 2 \<lparr>rvreg = \<lambda>r. 0, rv_sie = False,
       rv_memory = \<lambda>p off. if off = 8 then 0x2000 else if off = 16 then 0x3000
         else if off = 96 then 0x1000 else if off = 104 then 0x8000 else if off = 112 then 1 else 0\<rparr> = Some (0x1000, c') \<and>
      rv_run 2 rv_bullfinch_thread_trampoline 0 c' = Some (0x2000, c'') \<and> rvreg c'' A0 = 0x3000 \<and> rvreg c'' Sp = 0x8000 \<and> \<not> rv_sie c''"
proof -
  let ?c = "\<lparr>rvreg = \<lambda>r. 0, rv_sie = False,
       rv_memory = \<lambda>p off. if off = 8 then 0x2000 else if off = 16 then 0x3000
         else if off = 96 then 0x1000 else if off = 104 then 0x8000 else if off = 112 then 1 else 0\<rparr>"
  have "rv_context_in ?c 2 (rv_set_entry_data (RvContext_new 0x1000 0x8000) 0x2000 0x3000)"
    by (simp add: rv_context_in_def rv_saved_def rv_irq_field_def rv_upt_14 rv_offsets rv_set_entry_data_def
        RvContext_new_def RvContext_empty_def)
  then show ?thesis
    using rv_fresh_thread_entered [of 1 2 ?c "0x1000" "0x8000" "0x2000" "0x3000" FromTrap] by auto
qed

end
