(* ===== verification/Kernel_Time.thy ===== *)
theory Kernel_Time
  imports Rust_Prelude
begin

text \<open>
  \<open>time/mod.rs\<close> and \<open>clock/mod.rs\<close>: timer units, the tick interval, and the advance of the
  absolute tick deadline. \<open>Frequency\<close> and \<open>TickInterval\<close> wrap a \<open>NonZeroU64\<close>; their
  constructors return \<open>None\<close> on zero, and the lemmas that need it say that the value is not zero.
  The 128-bit products of the unit conversions are natural numbers, cut to 64 bits by \<open>as u64\<close>.
\<close>

type_synonym Frequency = u64
type_synonym Ticks = u64
type_synonym TickInterval = u64
type_synonym Deadline = u64

datatype TimerError = DeadlineRejected

definition Frequency_try_from_hz :: "u64 \<Rightarrow> Frequency option" where
  "Frequency_try_from_hz hz = (if hz = 0 then None else Some hz)"

definition TickInterval_try_from_ticks :: "Ticks \<Rightarrow> TickInterval option" where
  "TickInterval_try_from_ticks ticks = (if ticks = 0 then None else Some ticks)"

definition checked_after :: "Deadline \<Rightarrow> TickInterval \<Rightarrow> Deadline option" where
  "checked_after d interval = checked_add d interval"

definition TICK_RATE_HZ :: u64 where
  "TICK_RATE_HZ = 100"

record TickAdvance =
  elapsed_ticks :: u64
  next_tick :: Deadline

definition ticks_per_interval :: "Frequency \<Rightarrow> TickInterval option" where
  "ticks_per_interval freq =
     (if freq < TICK_RATE_HZ then None
      else TickInterval_try_from_ticks (freq div TICK_RATE_HZ))"

definition advance_tick_state :: "Ticks \<Rightarrow> Deadline \<Rightarrow> TickInterval \<Rightarrow> TickAdvance option panics" where
  "advance_tick_state now scheduled_tick interval =
     (case checked_after scheduled_tick interval of
        None \<Rightarrow> Inr None
      | Some deadline \<Rightarrow>
          if deadline \<le> now then
            bind_panic (sub_words now deadline) (\<lambda>late.
            bind_panic (add_words (late div interval) 1) (\<lambda>missed.
            bind_panic (add_words 1 missed) (\<lambda>elapsed.
            case checked_mul missed interval of
              None \<Rightarrow> Inr None
            | Some m \<Rightarrow>
                (case checked_add deadline m of
                   None \<Rightarrow> Inr None
                 | Some d \<Rightarrow> Inr (Some \<lparr>elapsed_ticks = elapsed, next_tick = d\<rparr>)))))
          else Inr (Some \<lparr>elapsed_ticks = 1, next_tick = deadline\<rparr>))"

definition ticks_to_ns :: "Ticks \<Rightarrow> Frequency \<Rightarrow> u64" where
  "ticks_to_ns ticks frequency = of_nat (unat ticks * 1000000000 div unat frequency)"

definition ticks_to_us :: "Ticks \<Rightarrow> Frequency \<Rightarrow> u64" where
  "ticks_to_us ticks frequency = of_nat (unat ticks * 1000000 div unat frequency)"

definition ns_to_ticks :: "u64 \<Rightarrow> Frequency \<Rightarrow> Ticks" where
  "ns_to_ticks ns frequency = of_nat (unat ns * unat frequency div 1000000000)"

section \<open>The tick interval\<close>

lemma ticks_per_interval_unat:
  assumes "ticks_per_interval freq = Some i"
  shows "unat i = unat freq div 100" and "0 < unat i"
  using assms
  by (auto simp: ticks_per_interval_def TickInterval_try_from_ticks_def TICK_RATE_HZ_def
      unat_div_distrib unat_gt_0 split: if_splits)

lemma ticks_per_interval_None_iff: "ticks_per_interval freq = None \<longleftrightarrow> unat freq < 100"
proof -
  have "freq div 100 = 0 \<longleftrightarrow> unat freq < 100"
    by (simp add: word_unat_eq_iff unat_div_distrib div_eq_0_iff)
  then show ?thesis
    by (auto simp: ticks_per_interval_def TickInterval_try_from_ticks_def TICK_RATE_HZ_def
        word_less_nat_alt)
qed

section \<open>The tick deadline\<close>

text \<open>The number of intervals the deadline moves by, and when the move overflows.\<close>

definition tick_steps :: "nat \<Rightarrow> nat \<Rightarrow> nat \<Rightarrow> nat" where
  "tick_steps now sched i = (if sched + i \<le> now then (now - (sched + i)) div i + 2 else 1)"

lemma tick_steps_least:
  assumes "0 < i"
  shows "now < sched + tick_steps now sched i * i"
    and "1 < tick_steps now sched i \<Longrightarrow> sched + (tick_steps now sched i - 1) * i \<le> now"
proof -
  let ?m = "now - (sched + i)"
  have lt: "?m < (?m div i + 1) * i"
    using assms by (simp add: dividend_less_div_times)
  have le: "i * (?m div i) \<le> ?m"
    by simp
  show "now < sched + tick_steps now sched i * i"
    using lt by (auto simp: tick_steps_def algebra_simps)
  have "sched + i \<le> now \<Longrightarrow> sched + (i + i * (?m div i)) \<le> now"
    using le by linarith
  then show "1 < tick_steps now sched i \<Longrightarrow> sched + (tick_steps now sched i - 1) * i \<le> now"
    by (cases "sched + i \<le> now") (simp_all add: tick_steps_def mult.commute)
qed

lemma tick_steps_past:
  assumes "0 < i" "1 \<le> j" "j < tick_steps now sched i"
  shows "sched + j * i \<le> now"
proof -
  have "j * i \<le> (tick_steps now sched i - 1) * i"
    using assms by (intro mult_le_mono1) simp
  moreover have "sched + (tick_steps now sched i - 1) * i \<le> now"
    using assms by (intro tick_steps_least(2)) simp_all
  ultimately show ?thesis
    by linarith
qed

lemma tick_steps_bound:
  assumes "0 < i" "now < 2 ^ 64"
  shows "tick_steps now sched i \<le> 2 ^ 64"
    and "tick_steps now sched i = 2 ^ 64 \<longleftrightarrow> now = 2 ^ 64 - 1 \<and> sched = 0 \<and> i = 1"
proof -
  let ?m = "now - (sched + i)"
  have le: "?m div i \<le> ?m"
    by (rule div_le_dividend)
  show "tick_steps now sched i \<le> 2 ^ 64"
  proof (cases "sched + i \<le> now")
    case True
    then have "?m div i + 2 \<le> 2 ^ 64"
      using assms le by linarith
    then show ?thesis
      using True by (simp add: tick_steps_def)
  qed (simp add: tick_steps_def)
  show "tick_steps now sched i = 2 ^ 64 \<longleftrightarrow> now = 2 ^ 64 - 1 \<and> sched = 0 \<and> i = 1"
  proof (cases "sched + i \<le> now")
    case True
    then have "?m div i + 2 = 2 ^ 64 \<longrightarrow> now = 2 ^ 64 - 1 \<and> sched = 0 \<and> i = 1"
      using assms le by linarith
    then show ?thesis
      using True by (auto simp: tick_steps_def)
  qed (auto simp: tick_steps_def)
qed

lemma advance_tick_state_value:
  assumes i: "0 < unat interval"
    and k: "k = tick_steps (unat now) (unat sched) (unat interval)"
  shows "advance_tick_state now sched interval =
           (if k = 2 ^ 64 then Inl ''attempt to add with overflow''
            else if unat sched + k * unat interval < 2 ^ 64
            then Inr (Some \<lparr>elapsed_ticks = of_nat k, next_tick = of_nat (unat sched + k * unat interval)\<rparr>)
            else Inr None)"
proof (cases "unat sched + unat interval < 2 ^ 64")
  case False
  moreover have "unat interval \<le> k * unat interval"
    using k by (simp add: tick_steps_def)
  ultimately have "\<not> unat sched + k * unat interval < 2 ^ 64"
    by linarith
  moreover have "k = 1"
    using False k unat_bound64 [of now] by (simp add: tick_steps_def)
  ultimately show ?thesis
    using False by (simp add: advance_tick_state_def checked_after_def checked_add_def)
next
  case True
  define dl where "dl = sched + interval"
  have dl: "unat dl = unat sched + unat interval"
    using True by (simp add: dl_def unat_add_no_overflow)
  have first: "checked_after sched interval = Some dl"
    using True by (simp add: checked_after_def checked_add_def dl_def)
  show ?thesis
  proof (cases "unat dl \<le> unat now")
    case False
    then have "k = 1"
      using k dl by (simp add: tick_steps_def)
    with False True show ?thesis
      by (simp add: advance_tick_state_def first word_le_nat_alt dl_def)
  next
    case late: True
    define m where "m = (now - dl) div interval + 1"
    have diff: "unat (now - dl) = unat now - unat dl"
      using late by (simp add: unat_sub word_le_nat_alt)
    have "(unat now - unat dl) div unat interval \<le> unat now - unat dl"
      by (rule div_le_dividend)
    moreover have "0 < unat dl" "unat now < 2 ^ 64"
      using dl i unat_bound [of now] by simp_all
    ultimately have small: "(unat now - unat dl) div unat interval + 1 < 2 ^ 64"
      using late by linarith
    have q: "unat ((now - dl) div interval) = (unat now - unat dl) div unat interval"
      by (simp add: unat_div_distrib diff)
    have m: "unat m = (unat now - unat dl) div unat interval + 1"
      using small by (simp add: m_def unat_add_no_overflow q)
    have km: "k = unat m + 1"
      using k late dl m by (simp add: tick_steps_def)
    have sum: "unat sched + k * unat interval = unat dl + unat m * unat interval"
      using dl km by (simp add: algebra_simps)
    have steps: "sub_words now dl = Inr (now - dl)" "add_words ((now - dl) div interval) 1 = Inr m"
        "add_words 1 m = (if k = 2 ^ 64 then Inl ''attempt to add with overflow'' else Inr (of_nat k))"
      using late small km unat_bound64 [of m]
      by (auto simp: sub_words_def add_words_def word_le_nat_alt q m_def [symmetric])
    have "unat m * unat interval < 2 ^ 64 \<Longrightarrow> unat (m * interval) = unat m * unat interval"
      by (simp add: unat_mult_no_overflow)
    then show ?thesis
      using late unfolding advance_tick_state_def first option.case steps bind_panic_simps
      by (auto simp: word_le_nat_alt checked_mul_def checked_add_def sum steps)
  qed
qed

text \<open>
  C24. The tick deadline advances to the first multiple of the interval after the scheduled tick
  that lies strictly in the future, and reports how many intervals that is. The result is \<open>None\<close>
  when that deadline does not fit in 64 bits, except that the count itself overflows, a panic, in
  the one case of the last counter value with deadline 0 and interval 1.
\<close>

theorem advance_tick_state_first_future:
  assumes "interval \<noteq> 0"
  shows "case advance_tick_state now sched interval of
      Inl _ \<Rightarrow> now = - 1 \<and> sched = 0 \<and> interval = 1
    | Inr None \<Rightarrow> \<not> (now = - 1 \<and> sched = 0 \<and> interval = 1) \<and>
        (\<forall>k. 1 \<le> k \<and> unat now < unat sched + k * unat interval \<longrightarrow>
             2 ^ 64 \<le> unat sched + k * unat interval)
    | Inr (Some a) \<Rightarrow> 1 \<le> unat (elapsed_ticks a) \<and> now < next_tick a \<and>
        unat (next_tick a) = unat sched + unat (elapsed_ticks a) * unat interval \<and>
        (\<forall>k. 1 \<le> k \<and> k < unat (elapsed_ticks a) \<longrightarrow> unat sched + k * unat interval \<le> unat now)"
proof -
  define i where "i = unat interval"
  define k where "k = tick_steps (unat now) (unat sched) i"
  have i: "0 < i"
    using assms by (simp add: i_def unat_gt_0)
  have k1: "1 \<le> k"
    by (simp add: k_def tick_steps_def)
  have future: "unat now < unat sched + k * i"
    using tick_steps_least(1) [OF i] by (simp add: k_def)
  have past: "unat sched + j * i \<le> unat now" if "1 \<le> j" "j < k" for j
    using tick_steps_past [OF i, of j] that by (simp add: k_def)
  have extreme: "k = 2 ^ 64 \<longleftrightarrow> now = - 1 \<and> sched = 0 \<and> interval = 1"
    unfolding k_def tick_steps_bound(2) [OF i unat_bound64]
    by (simp add: i_def word_unat_eq_iff unsigned_minus_1_eq_mask mask_eq_exp_minus_1)
  have val: "advance_tick_state now sched interval =
      (if k = 2 ^ 64 then Inl ''attempt to add with overflow''
       else if unat sched + k * i < 2 ^ 64
       then Inr (Some \<lparr>elapsed_ticks = of_nat k, next_tick = of_nat (unat sched + k * i)\<rparr>) else Inr None)"
    using advance_tick_state_value [of interval k now sched] i by (simp add: i_def k_def)
  show ?thesis
  proof (cases "unat sched + k * i < 2 ^ 64")
    case True
    have "k * 1 \<le> k * i"
      using i by (intro mult_le_mono2) simp
    then have lt: "k < 2 ^ 64"
      using True by linarith
    then have "unat (of_nat k :: 64 word) = k" "k \<noteq> 2 ^ 64"
        "unat (of_nat (unat sched + k * i) :: 64 word) = unat sched + k * i"
      using True by (simp_all add: unat_of_nat_lt del: of_nat_add of_nat_mult)
    then show ?thesis
      using True k1 future past val
      by (simp add: i_def [symmetric] word_less_nat_alt del: of_nat_add of_nat_mult)
  next
    case False
    have "2 ^ 64 \<le> unat sched + j * i" if j: "1 \<le> j" "unat now < unat sched + j * i" for j
    proof -
      have "k \<le> j"
        using past [of j] j by linarith
      then have "k * i \<le> j * i"
        by simp
      with False show ?thesis
        by linarith
    qed
    then show ?thesis
      using False val extreme by (simp add: i_def [symmetric])
  qed
qed

theorem advance_tick_state_first_future_witness:
  "advance_tick_state 1305 1000 100 = Inr (Some \<lparr>elapsed_ticks = 4, next_tick = 1400\<rparr>) \<and>
   unat (1000 :: u64) + 3 * unat (100 :: u64) \<le> unat (1305 :: u64)"
proof -
  have val: "advance_tick_state 1305 1000 100 = Inr (Some \<lparr>elapsed_ticks = 4, next_tick = 1400\<rparr>)"
    by (simp add: advance_tick_state_def checked_after_def checked_add_def checked_mul_def sub_words_def add_words_def)
  show ?thesis
    using advance_tick_state_first_future [of 100 1305 1000, unfolded val sum.case option.case] val
    by simp
qed

text \<open>
  C29. Up to one tick per nanosecond, converting ticks to nanoseconds and back loses at most one
  tick and never gains one, as long as the nanosecond count fits in 64 bits.
\<close>

theorem ns_round_trip:
  assumes "f \<noteq> 0" and "unat f \<le> 1000000000" and "unat t * 1000000000 div unat f < 2 ^ 64"
  shows "ns_to_ticks (ticks_to_ns t f) f \<le> t \<and>
         unat t \<le> unat (ns_to_ticks (ticks_to_ns t f) f) + 1"
proof -
  define n where "n = unat t * 1000000000 div unat f"
  define r where "r = n * unat f div 1000000000"
  have f: "0 < unat f"
    using assms(1) by (simp add: unat_gt_0)
  have n: "n * unat f \<le> unat t * 1000000000" "unat t * 1000000000 < n * unat f + unat f"
    using f div_times_less_eq_dividend dividend_less_div_times [OF f]
    by (simp_all add: n_def add.commute)
  have r: "r * 1000000000 \<le> n * unat f" "n * unat f < r * 1000000000 + 1000000000"
    unfolding r_def by (simp_all add: dividend_less_div_times add.commute)
  have le: "r \<le> unat t" "unat t \<le> r + 1"
    using n r assms(2) by linarith+
  have "unat (ticks_to_ns t f) = n"
    using assms(3) unfolding ticks_to_ns_def n_def by (rule unat_of_nat_lt)
  then have "ns_to_ticks (ticks_to_ns t f) f = of_nat r"
    by (simp only: ns_to_ticks_def r_def)
  moreover have "unat (of_nat r :: 64 word) = r"
    using le(1) unat_bound64 [of t] by (intro unat_of_nat_lt) linarith
  ultimately show ?thesis
    using le by (simp add: word_le_nat_alt)
qed

theorem ns_round_trip_witness:
  "ticks_to_ns 1001 62500000 = 16016 \<and> ns_to_ticks 16016 62500000 \<le> 1001 \<and>
   1001 \<le> unat (ns_to_ticks 16016 62500000) + 1"
proof -
  have val: "ticks_to_ns 1001 62500000 = 16016"
    by (simp add: ticks_to_ns_def)
  show ?thesis
    using ns_round_trip [of 62500000 1001, unfolded val] val by simp
qed

end
