(* ===== verification/Address.thy ===== *)
theory Address
  imports Rust_Prelude
begin

text \<open>
  \<open>mmu/address.rs\<close>: page size, addresses, page offsets and page counts. The newtypes
  \<open>PhysicalAddress\<close>, \<open>VirtualAddress\<close>, \<open>PageCount\<close> and \<open>PageOffset\<close> are
  \<open>repr(transparent)\<close> wrappers of \<open>usize\<close>; here they are synonyms of the 64-bit word, so the
  two \<open>impl\<close> blocks of the address types, which have the same bodies, share one definition.
  The lemmas give every operation its value as a natural number.
\<close>

type_synonym PhysicalAddress = usize
type_synonym VirtualAddress = usize
type_synonym PageCount = usize
type_synonym PageOffset = usize

definition PAGE_SIZE :: usize where
  "PAGE_SIZE = 4096"

definition PAGE_MASK :: usize where
  "PAGE_MASK = PAGE_SIZE - 1"

definition try_from_u64 :: "u64 \<Rightarrow> PhysicalAddress option" where
  "try_from_u64 raw = Some raw"

definition page_offset :: "usize \<Rightarrow> PageOffset" where
  "page_offset a = a AND PAGE_MASK"

definition is_page_aligned :: "usize \<Rightarrow> bool" where
  "is_page_aligned a \<longleftrightarrow> page_offset a = 0"

definition align_down :: "usize \<Rightarrow> usize" where
  "align_down a = a AND NOT PAGE_MASK"

definition align_up :: "usize \<Rightarrow> usize option" where
  "align_up a = (case checked_add a PAGE_MASK of None \<Rightarrow> None | Some s \<Rightarrow> Some (s AND NOT PAGE_MASK))"

definition PageAligned_new :: "usize \<Rightarrow> usize option" where
  "PageAligned_new a = (if is_page_aligned a then Some a else None)"

definition from_bytes_round_up :: "usize \<Rightarrow> PageCount option" where
  "from_bytes_round_up bytes =
     (case checked_add bytes PAGE_MASK of None \<Rightarrow> None | Some v \<Rightarrow> Some (v div PAGE_SIZE))"

definition to_bytes :: "PageCount \<Rightarrow> usize option" where
  "to_bytes n = checked_mul n PAGE_SIZE"

definition PageOffset_new :: "usize \<Rightarrow> PageOffset option" where
  "PageOffset_new raw = (if raw < PAGE_SIZE then Some raw else None)"

section \<open>Values as naturals\<close>

lemma unat_PAGE_SIZE [simp, unat_rules]: "unat PAGE_SIZE = 4096"
  by (simp add: PAGE_SIZE_def)

lemma unat_PAGE_MASK [simp, unat_rules]: "unat PAGE_MASK = 4095"
  by (simp add: PAGE_MASK_def PAGE_SIZE_def)

lemma PAGE_MASK_mask: "PAGE_MASK = mask 12"
  by (simp add: PAGE_MASK_def PAGE_SIZE_def mask_eq_exp_minus_1)

lemma unat_and_mask: "unat (a AND mask n) = unat a mod 2 ^ n"
  by (metis take_bit_eq_mask take_bit_eq_mod unsigned_take_bit_eq)

lemma unat_and_not_mask: "unat (a AND NOT (mask n)) = unat a - unat a mod 2 ^ n"
proof -
  have "a - (a AND mask n) = a AND NOT (mask n)"
  proof -
    have "(a AND mask n) AND (a AND NOT (mask n)) = 0"
      by (rule bit_word_eqI) (simp add: bit_simps)
    moreover have "(a AND mask n) OR (a AND NOT (mask n)) = a"
      by (rule bit_word_eqI) (auto simp: bit_simps)
    ultimately have "(a AND mask n) + (a AND NOT (mask n)) = a"
      by (simp add: disjunctive_add_eq_or)
    then show ?thesis
      by (metis add_diff_cancel_left')
  qed
  moreover have "a AND mask n \<le> a"
    by (rule word_and_le2)
  ultimately show ?thesis
    by (metis unat_and_mask unat_sub)
qed

lemma unat_page_offset [unat_rules]: "unat (page_offset a) = unat a mod 4096"
  by (simp add: page_offset_def PAGE_MASK_mask unat_and_mask)

lemma is_page_aligned_iff: "is_page_aligned a \<longleftrightarrow> unat a mod 4096 = 0"
  by (simp add: is_page_aligned_def word_unat_eq_iff unat_page_offset)

lemma unat_align_down [unat_rules]: "unat (align_down a) = unat a - unat a mod 4096"
  by (simp add: align_down_def PAGE_MASK_mask unat_and_not_mask)

lemma align_up_eq_None: "align_up a = None \<longleftrightarrow> 2 ^ 64 \<le> unat a + 4095"
  by (auto simp: align_up_def checked_add_def)

lemma align_up_unat:
  assumes "align_up a = Some b"
  shows "unat b = (unat a + 4095) div 4096 * 4096"
proof -
  from assms obtain s where s: "checked_add a PAGE_MASK = Some s" and b: "b = align_down s"
    by (auto simp: align_up_def align_down_def split: option.splits)
  from s have "unat s = unat a + 4095"
    by (simp add: checked_add_eq_Some)
  with b show ?thesis
    by (simp add: unat_align_down minus_mod_eq_div_mult)
qed

section \<open>Alignment\<close>

lemma align_down_aligned [simp]: "is_page_aligned (align_down a)"
  by (simp add: is_page_aligned_iff unat_align_down minus_mod_eq_div_mult)

lemma align_down_le: "align_down a \<le> a"
  by (simp add: word_le_nat_alt unat_align_down)

lemma align_up_aligned: "align_up a = Some b \<Longrightarrow> is_page_aligned b"
  by (simp add: is_page_aligned_iff align_up_unat)

lemma align_up_ge: "align_up a = Some b \<Longrightarrow> a \<le> b"
  using align_up_unat [of a b] by (simp add: word_le_nat_alt)

lemma page_aligned_multiple:
  assumes "is_page_aligned c"
  obtains q where "unat c = 4096 * q" and "q < 2 ^ 52"
proof -
  from assms obtain q where q: "unat c = 4096 * q"
    by (auto simp: is_page_aligned_iff mod_eq_0_iff_dvd elim: dvdE)
  with unat_bound [of c] have "q < 2 ^ 52"
    by simp
  with q show thesis ..
qed

lemma align_up_None_above:
  assumes "align_up a = None" and "is_page_aligned c"
  shows "c < a"
proof -
  obtain q where "unat c = 4096 * q" and "q < 2 ^ 52"
    using assms(2) by (rule page_aligned_multiple)
  with assms(1) show ?thesis
    by (simp add: word_less_nat_alt align_up_eq_None)
qed

lemma align_up_least:
  assumes "align_up a = Some b" and "is_page_aligned c" and "a \<le> c"
  shows "b \<le> c"
proof -
  obtain q where q: "unat c = 4096 * q"
    using assms(2) by (rule page_aligned_multiple)
  have "(unat a + 4095) div 4096 \<le> (4096 * q + 4095) div 4096"
    using assms(3) q by (intro div_le_mono) (simp add: word_le_nat_alt)
  with q align_up_unat [OF assms(1)] show ?thesis
    by (simp add: word_le_nat_alt)
qed

lemma align_down_greatest:
  assumes "is_page_aligned c" and "c \<le> a"
  shows "c \<le> align_down a"
proof -
  obtain q where q: "unat c = 4096 * q"
    using assms(1) by (rule page_aligned_multiple)
  have "(4096 * q) div 4096 \<le> unat a div 4096"
    using assms(2) q by (intro div_le_mono) (simp add: word_le_nat_alt)
  with q show ?thesis
    by (simp add: word_le_nat_alt unat_align_down minus_mod_eq_mult_div)
qed

text \<open>
  C28. \<open>align_down\<close> returns the greatest page-aligned address at or below its argument.
  \<open>align_up\<close> returns the least page-aligned address at or above it, and reports overflow exactly
  when there is no such address.
\<close>

theorem alignment_is_extremal:
  "is_page_aligned (align_down a) \<and> align_down a \<le> a
   \<and> (\<forall>c. is_page_aligned c \<and> c \<le> a \<longrightarrow> c \<le> align_down a)
   \<and> (case align_up a of
        None \<Rightarrow> \<forall>c. is_page_aligned c \<longrightarrow> c < a
      | Some b \<Rightarrow> is_page_aligned b \<and> a \<le> b \<and> (\<forall>c. is_page_aligned c \<and> a \<le> c \<longrightarrow> b \<le> c))"
proof (cases "align_up a")
  case None
  then show ?thesis
    using align_down_le align_down_greatest align_up_None_above by simp
next
  case (Some b)
  then show ?thesis
    using align_down_le align_down_greatest align_up_aligned align_up_ge align_up_least by simp
qed

theorem alignment_is_extremal_witness:
  "align_up 0x4001 = Some 0x5000 \<and> is_page_aligned 0x5000 \<and> is_page_aligned 0x7000
   \<and> 0x5000 \<le> (0x7000 :: usize) \<and> 0x4000 \<le> align_down 0x4001"
proof -
  have up: "align_up 0x4001 = Some 0x5000"
    by (simp add: align_up_def checked_add_def PAGE_MASK_def PAGE_SIZE_def)
  have al: "is_page_aligned 0x7000" "is_page_aligned 0x4000" "is_page_aligned 0x5000"
    by (simp_all add: is_page_aligned_def page_offset_def PAGE_MASK_def PAGE_SIZE_def)
  have le: "(0x4001 :: usize) \<le> 0x7000" "(0x4000 :: usize) \<le> 0x4001"
    by simp_all
  note ext = alignment_is_extremal [of "0x4001", unfolded up option.case]
  have "(0x5000 :: usize) \<le> 0x7000" and "0x4000 \<le> align_down 0x4001"
    using ext al le by blast+
  with up al show ?thesis by blast
qed

lemma from_bytes_round_up_unat:
  "from_bytes_round_up bytes = Some n \<Longrightarrow> unat n = (unat bytes + 4095) div 4096"
  by (auto simp: from_bytes_round_up_def checked_add_eq_Some unat_div_distrib split: option.splits)

text \<open>
  Counting the pages of a byte size and turning the count back into bytes is rounding the size
  up to a page: the two conversions of \<open>PageCount\<close> agree with \<open>align_up\<close>, overflow included.
\<close>

lemma page_count_round_trip:
  "(case from_bytes_round_up bytes of None \<Rightarrow> None | Some n \<Rightarrow> to_bytes n) = align_up bytes"
proof (cases "from_bytes_round_up bytes")
  case None
  then show ?thesis
    by (auto simp: from_bytes_round_up_def align_up_def split: option.splits)
next
  case (Some n)
  then have n: "unat n = (unat bytes + 4095) div 4096"
    by (rule from_bytes_round_up_unat)
  have lt: "unat bytes + 4095 < 2 ^ 64"
    using Some by (cases "unat bytes + 4095 < 2 ^ 64")
      (simp_all add: from_bytes_round_up_def checked_add_def)
  obtain b where b: "align_up bytes = Some b"
    using lt align_up_eq_None [of bytes] by fastforce
  have "unat n * 4096 \<le> unat bytes + 4095"
    using n by simp
  with lt have le: "unat n * 4096 < 2 ^ 64"
    by linarith
  then have "to_bytes n = Some (n * PAGE_SIZE)"
    by (simp add: to_bytes_def checked_mul_def)
  moreover have "unat (n * PAGE_SIZE) = unat b"
    using le n align_up_unat [OF b] by (simp add: unat_mult_no_overflow)
  ultimately show ?thesis
    using Some b by (simp add: word_unat_eq_iff)
qed

end
