(* ===== verification/Hwinfo.thy ===== *)
theory Hwinfo
  imports Address Kernel_Time "HOL-Library.Multiset"
begin

text \<open>
  \<open>hwinfo/mod.rs\<close> and \<open>fdt/cells.rs\<close>: the hardware snapshot boot takes from the device tree.
  The \<open>fdt\<close> crate is not part of the sources; what the kernel asks of it is the record
  \<open>'n Fdt\<close>, whose fields are the parser's answers for nodes of an arbitrary type \<open>'n\<close>. A
  \<open>reg\<close> entry that the parser reports as an error is \<open>None\<close>.

  The fixed arrays of \<open>HardwareInfo\<close> are lists of their length; the source's slices up to a count
  are \<open>take\<close>. The lemmas show that region collection keeps the first entries that fit, sorts the
  memory regions by size and counts what it drops, that the reservation block is parsed up to its
  terminator and a truncated one is reported as dropped, and that the ISA string search finds
  exactly the underscore-separated components.
\<close>

section \<open>Definitions\<close>

definition MAX_MEMORY_ARENAS :: nat where
  "MAX_MEMORY_ARENAS = 4"

definition MAX_RESERVED_REGIONS :: nat where
  "MAX_RESERVED_REGIONS = 8"

record MemoryRegion =
  region_base :: PhysicalAddress
  region_size :: usize

definition from_fdt_reg :: "u64 \<Rightarrow> u64 \<Rightarrow> MemoryRegion option" where
  "from_fdt_reg address len =
     (case try_from_u64 address of
        None \<Rightarrow> None
      | Some base \<Rightarrow> Some \<lparr>region_base = base, region_size = len\<rparr>)"

definition region_end :: "MemoryRegion \<Rightarrow> PhysicalAddress option" where
  "region_end r = checked_add (region_base r) (region_size r)"

datatype InterruptControllerInfo =
  GicV2 (v2_distributor_base: PhysicalAddress) (cpu_interface_base: "PhysicalAddress option")
| GicV3 (v3_distributor_base: PhysicalAddress) (redistributor_base: "PhysicalAddress option")

record Features =
  hardware_random :: bool
  interrupt_controller :: "InterruptControllerInfo option"

record HardwareInfo =
  dtb_phys :: PhysicalAddress
  dtb_size :: usize
  memory_regions_array :: "MemoryRegion list"
  memory_region_count :: nat
  dropped_memory_regions :: usize
  total_memory :: usize
  reserved_regions_array :: "MemoryRegion list"
  reserved_region_count :: nat
  dropped_reserved_regions :: usize
  info_timer_frequency :: "Frequency option"
  info_cpu_count :: nat
  info_uart_base :: "PhysicalAddress option"
  features :: Features

record 'n Fdt =
  total_size :: usize
  memory_reserve_map_offset :: u32
  find_node :: "string \<Rightarrow> 'n option"
  node_reg :: "'n \<Rightarrow> (u64 \<times> u64) option list option"
  node_children :: "'n \<Rightarrow> 'n list"
  node_name :: "'n \<Rightarrow> string"
  raw_property :: "'n \<Rightarrow> string \<Rightarrow> u8 list option"
  all_compatible :: "string list \<Rightarrow> 'n list"

definition empty_region :: MemoryRegion where
  "empty_region = \<lparr>region_base = 0, region_size = 0\<rparr>"

definition HardwareInfo_empty :: "PhysicalAddress \<Rightarrow> HardwareInfo" where
  "HardwareInfo_empty phys =
     \<lparr>dtb_phys = phys, dtb_size = 0,
      memory_regions_array = replicate MAX_MEMORY_ARENAS empty_region, memory_region_count = 0,
      dropped_memory_regions = 0, total_memory = 0,
      reserved_regions_array = replicate MAX_RESERVED_REGIONS empty_region,
      reserved_region_count = 0, dropped_reserved_regions = 0,
      info_timer_frequency = None, info_cpu_count = 0, info_uart_base = None,
      features = \<lparr>hardware_random = False, interrupt_controller = None\<rparr>\<rparr>"

definition memory_regions :: "HardwareInfo \<Rightarrow> MemoryRegion list" where
  "memory_regions info = take (memory_region_count info) (memory_regions_array info)"

definition reserved_regions :: "HardwareInfo \<Rightarrow> MemoryRegion list" where
  "reserved_regions info = take (reserved_region_count info) (reserved_regions_array info)"

definition max_memory_end :: "HardwareInfo \<Rightarrow> PhysicalAddress" where
  "max_memory_end info =
     (case List.map_filter region_end (memory_regions info) of
        [] \<Rightarrow> 0
      | e # es \<Rightarrow> fold max es e)"

definition push_memory_region :: "HardwareInfo \<Rightarrow> MemoryRegion \<Rightarrow> HardwareInfo" where
  "push_memory_region info region =
     (if length (memory_regions_array info) \<le> memory_region_count info then
        info\<lparr>dropped_memory_regions := saturating_add (dropped_memory_regions info) 1\<rparr>
      else
        info\<lparr>memory_regions_array :=
               (memory_regions_array info)[memory_region_count info := region],
             memory_region_count := memory_region_count info + 1,
             total_memory := saturating_add (total_memory info) (region_size region)\<rparr>)"

definition drop_reserved_region :: "HardwareInfo \<Rightarrow> HardwareInfo" where
  "drop_reserved_region info =
     info\<lparr>dropped_reserved_regions := saturating_add (dropped_reserved_regions info) 1\<rparr>"

definition push_reserved_region :: "HardwareInfo \<Rightarrow> MemoryRegion \<Rightarrow> HardwareInfo" where
  "push_reserved_region info region =
     (if length (reserved_regions_array info) \<le> reserved_region_count info then
        drop_reserved_region info
      else
        info\<lparr>reserved_regions_array :=
               (reserved_regions_array info)[reserved_region_count info := region],
             reserved_region_count := reserved_region_count info + 1\<rparr>)"

text \<open>The two nested loops of the insertion sort: the inner one shifts smaller regions up.\<close>

fun sort_shift :: "MemoryRegion list \<Rightarrow> MemoryRegion \<Rightarrow> nat \<Rightarrow> MemoryRegion list" where
  "sort_shift regions key 0 = regions[0 := key]"
| "sort_shift regions key (Suc j) =
     (if region_size (regions ! j) < region_size key
      then sort_shift (regions[Suc j := regions ! j]) key j
      else regions[Suc j := key])"

definition sort_regions_by_size :: "MemoryRegion list \<Rightarrow> MemoryRegion list" where
  "sort_regions_by_size regions =
     fold (\<lambda>i rs. sort_shift rs (rs ! i) i) [1..<length regions] regions"

text \<open>The body of the two loops over \<open>reg\<close> entries: skip the erroneous ones, push the others.\<close>

definition collect_entries ::
  "(HardwareInfo \<Rightarrow> MemoryRegion \<Rightarrow> HardwareInfo) \<Rightarrow> (u64 \<times> u64) option list \<Rightarrow> HardwareInfo \<Rightarrow> HardwareInfo"
where
  "collect_entries push reg info =
     fold (\<lambda>entry info.
         case entry of
           None \<Rightarrow> info
         | Some (address, len) \<Rightarrow>
             (case from_fdt_reg address len of
                None \<Rightarrow> info
              | Some region \<Rightarrow> push info region)) reg info"

definition collect_memory_regions :: "HardwareInfo \<Rightarrow> 'n Fdt \<Rightarrow> HardwareInfo" where
  "collect_memory_regions info fdt =
     (case find_node fdt ''/memory'' of
        None \<Rightarrow> info
      | Some memory \<Rightarrow>
          (case node_reg fdt memory of
             None \<Rightarrow> info
           | Some reg \<Rightarrow>
               (let info = collect_entries push_memory_region reg info in
                info\<lparr>memory_regions_array :=
                       sort_regions_by_size (memory_regions info)
                       @ drop (memory_region_count info) (memory_regions_array info)\<rparr>)))"

definition from_be_bytes :: "u8 list \<Rightarrow> 'a::len word" where
  "from_be_bytes bytes = foldl (\<lambda>acc b. acc * 256 + ucast b) 0 bytes"

definition read_be_u64 :: "u8 list \<Rightarrow> u64 option" where
  "read_be_u64 bytes = (if length bytes < 8 then None else Some (from_be_bytes (take 8 bytes)))"

definition read_cells :: "u8 list \<Rightarrow> nat \<Rightarrow> u64 option" where
  "read_cells data cells =
     (if cells = 1 then
        (if length data < 4 then None else Some (ucast (from_be_bytes (take 4 data) :: u32)))
      else if cells = 2 then
        (if length data < 8 then None else Some (from_be_bytes (take 8 data)))
      else None)"

function reservation_loop :: "HardwareInfo \<Rightarrow> u8 list \<Rightarrow> HardwareInfo" where
  "reservation_loop info block =
     (if 16 \<le> length block then
        (case read_be_u64 block of
           None \<Rightarrow> drop_reserved_region info
         | Some address \<Rightarrow>
             (case read_be_u64 (drop 8 block) of
                None \<Rightarrow> drop_reserved_region info
              | Some len \<Rightarrow>
                  if address = 0 \<and> len = 0 then info
                  else
                    (case from_fdt_reg address len of
                       None \<Rightarrow> reservation_loop (drop_reserved_region info) (drop 16 block)
                     | Some region \<Rightarrow>
                         reservation_loop (push_reserved_region info region) (drop 16 block))))
      else drop_reserved_region info)"
  by pat_completeness auto
termination
  by (relation "measure (\<lambda>(info, block). length block)") auto

declare reservation_loop.simps [simp del]

definition collect_memory_reservation_block :: "HardwareInfo \<Rightarrow> 'n Fdt \<Rightarrow> u8 list \<Rightarrow> HardwareInfo" where
  "collect_memory_reservation_block info fdt dtb_blob =
     (let offset = unat (memory_reserve_map_offset fdt) in
      if length dtb_blob < offset then drop_reserved_region info
      else reservation_loop info (drop offset dtb_blob))"

definition collect_reserved_memory_node :: "HardwareInfo \<Rightarrow> 'n Fdt \<Rightarrow> HardwareInfo" where
  "collect_reserved_memory_node info fdt =
     (case find_node fdt ''/reserved-memory'' of
        None \<Rightarrow> info
      | Some parent \<Rightarrow>
          fold (\<lambda>child info.
              case node_reg fdt child of
                None \<Rightarrow> info
              | Some reg \<Rightarrow> collect_entries push_reserved_region reg info)
            (node_children fdt parent) info)"

definition collect_reserved_regions :: "HardwareInfo \<Rightarrow> 'n Fdt \<Rightarrow> u8 list \<Rightarrow> HardwareInfo" where
  "collect_reserved_regions info fdt dtb_blob =
     collect_reserved_memory_node (collect_memory_reservation_block info fdt dtb_blob) fdt"

definition parse_timer_frequency :: "u8 list \<Rightarrow> u64 option" where
  "parse_timer_frequency prop =
     (if length prop \<le> 3 then None
      else if length prop \<le> 7 then read_cells prop 1
      else read_cells prop 2)"

definition timer_frequency :: "'n Fdt \<Rightarrow> Frequency option" where
  "timer_frequency fdt =
     (case find_node fdt ''/cpus'' of
        None \<Rightarrow> None
      | Some cpus \<Rightarrow>
          (case raw_property fdt cpus ''timebase-frequency'' of
             None \<Rightarrow> None
           | Some prop \<Rightarrow> Option.bind (parse_timer_frequency prop) Frequency_try_from_hz))"

definition cpu_count :: "'n Fdt \<Rightarrow> nat" where
  "cpu_count fdt =
     (case find_node fdt ''/cpus'' of
        None \<Rightarrow> 0
      | Some cpus \<Rightarrow> length (filter (\<lambda>node. node_name fdt node = ''cpu'') (node_children fdt cpus)))"

definition first_cpu_node :: "'n Fdt \<Rightarrow> 'n option" where
  "first_cpu_node fdt =
     (case find_node fdt ''/cpus'' of
        None \<Rightarrow> None
      | Some cpus \<Rightarrow> List.find (\<lambda>node. node_name fdt node = ''cpu'') (node_children fdt cpus))"

definition as_bytes :: "string \<Rightarrow> u8 list" where
  "as_bytes s = map of_char s"

text \<open>\<open>slice::split\<close>: the segments between separators; an empty slice has one, empty, segment.\<close>

fun split_bytes :: "'a \<Rightarrow> 'a list \<Rightarrow> 'a list list" where
  "split_bytes d [] = [[]]"
| "split_bytes d (x # xs) =
     (if x = d then [] # split_bytes d xs
      else (case split_bytes d xs of [] \<Rightarrow> [[x]] | s # ss \<Rightarrow> (x # s) # ss))"

definition has_string_list_entry :: "u8 list \<Rightarrow> string \<Rightarrow> bool" where
  "has_string_list_entry prop entry =
     list_ex (\<lambda>item. item \<noteq> [] \<and> item = as_bytes entry) (split_bytes 0 prop)"

definition trim_prop_string :: "u8 list \<Rightarrow> u8 list" where
  "trim_prop_string prop = (case split_bytes 0 prop of [] \<Rightarrow> prop | item # _ \<Rightarrow> item)"

text \<open>\<open>windows(n).position(\<dots>)\<close> for a non-empty needle.\<close>

fun find_subslice :: "u8 list \<Rightarrow> u8 list \<Rightarrow> nat option" where
  "find_subslice [] needle = None"
| "find_subslice (x # xs) needle =
     (if length needle \<le> length (x # xs) then
        (if take (length needle) (x # xs) = needle then Some 0
         else map_option Suc (find_subslice xs needle))
      else None)"

function isa_search :: "u8 list \<Rightarrow> u8 list \<Rightarrow> nat \<Rightarrow> bool" where
  "isa_search isa ext pos =
     (case find_subslice (drop pos isa) ext of
        None \<Rightarrow> False
      | Some relative \<Rightarrow>
          (let idx = pos + relative;
               before_ok = (idx = 0 \<or> isa ! (idx - 1) = of_char (CHR ''_''));
               after_ix = idx + length ext;
               after_ok = (after_ix = length isa \<or> isa ! after_ix = of_char (CHR ''_''))
           in if before_ok \<and> after_ok then True else isa_search isa ext (idx + 1)))"
  by pat_completeness auto

termination
proof (relation "measure (\<lambda>(isa, ext, pos). length isa - pos)")
  fix isa ext pos relative idx before_ok after_ix after_ok
  assume "find_subslice (drop pos isa) ext = Some relative" and "idx = pos + relative"
  then show "((isa, ext, idx + 1), isa, ext, pos) \<in> measure (\<lambda>(isa, ext, pos). length isa - pos)"
    by (cases "pos < length isa") auto
qed auto

declare isa_search.simps [simp del]

definition isa_string_has_extension :: "u8 list \<Rightarrow> string \<Rightarrow> bool" where
  "isa_string_has_extension isa ext =
     (if ext = [] \<or> length isa < length ext then False
      else isa_search isa (as_bytes ext) 0)"

definition has_hardware_random :: "'n Fdt \<Rightarrow> bool" where
  "has_hardware_random fdt =
     (case first_cpu_node fdt of
        None \<Rightarrow> False
      | Some cpu \<Rightarrow>
          if (case raw_property fdt cpu ''riscv,isa-extensions'' of
                None \<Rightarrow> False | Some prop \<Rightarrow> has_string_list_entry prop ''zkr'')
          then True
          else (case raw_property fdt cpu ''riscv,isa'' of
                  None \<Rightarrow> False
                | Some prop \<Rightarrow> isa_string_has_extension (trim_prop_string prop) ''zkr''))"

definition find_compatible :: "'n Fdt \<Rightarrow> string list \<Rightarrow> 'n option" where
  "find_compatible fdt compatible =
     (case all_compatible fdt compatible of [] \<Rightarrow> None | node # _ \<Rightarrow> Some node)"

definition parse_gic_regs :: "'n Fdt \<Rightarrow> 'n \<Rightarrow> nat \<Rightarrow> InterruptControllerInfo option" where
  "parse_gic_regs fdt node version =
     (case node_reg fdt node of
        Some (Some (address, _) # rest) \<Rightarrow>
          (let second = (case rest of Some (address2, _) # _ \<Rightarrow> try_from_u64 address2 | _ \<Rightarrow> None) in
           case try_from_u64 address of
             None \<Rightarrow> None
           | Some distributor_base \<Rightarrow>
               if version = 2 then Some (GicV2 distributor_base second)
               else if version = 3 then Some (GicV3 distributor_base second)
               else None)
      | _ \<Rightarrow> None)"

definition interrupt_controller_info :: "'n Fdt \<Rightarrow> InterruptControllerInfo option" where
  "interrupt_controller_info fdt =
     (case Option.bind (find_compatible fdt [''arm,gic-v3'']) (\<lambda>node. parse_gic_regs fdt node 3) of
        Some controller \<Rightarrow> Some controller
      | None \<Rightarrow> Option.bind (find_compatible fdt [''arm,cortex-a15-gic'', ''arm,gic-400''])
                  (\<lambda>node. parse_gic_regs fdt node 2))"

definition device_base :: "'n Fdt \<Rightarrow> 'n \<Rightarrow> PhysicalAddress option" where
  "device_base fdt node =
     (case node_reg fdt node of
        Some (Some (address, _) # _) \<Rightarrow> try_from_u64 address
      | _ \<Rightarrow> None)"

definition uart_base :: "'n Fdt \<Rightarrow> PhysicalAddress option" where
  "uart_base fdt =
     Option.bind (find_compatible fdt [''arm,pl011'', ''ns16550a'']) (device_base fdt)"

definition from_fdt :: "PhysicalAddress \<Rightarrow> 'n Fdt \<Rightarrow> u8 list \<Rightarrow> HardwareInfo" where
  "from_fdt phys fdt dtb_blob =
     (let info = HardwareInfo_empty phys;
          info = info\<lparr>dtb_size := total_size fdt\<rparr>;
          info = collect_memory_regions info fdt;
          info = collect_reserved_regions info fdt dtb_blob;
          info = info\<lparr>info_timer_frequency := timer_frequency fdt\<rparr>;
          info = info\<lparr>info_cpu_count := cpu_count fdt\<rparr>;
          info = info\<lparr>features := (features info)\<lparr>hardware_random := has_hardware_random fdt\<rparr>\<rparr>;
          info = info\<lparr>features := (features info)
                    \<lparr>interrupt_controller := interrupt_controller_info fdt\<rparr>\<rparr>
      in info\<lparr>info_uart_base := uart_base fdt\<rparr>)"

section \<open>Sorting by size\<close>

abbreviation sorted_by_size :: "MemoryRegion list \<Rightarrow> bool" where
  "sorted_by_size \<equiv> sorted_wrt (\<lambda>a b. region_size b \<le> region_size a)"

lemma sort_shift_partition:
  assumes "j < length rs" and "sorted_by_size (take j rs)"
  shows "sort_shift rs key j =
           filter (\<lambda>r. region_size key \<le> region_size r) (take j rs) @ key #
           filter (\<lambda>r. region_size r < region_size key) (take j rs) @ drop (Suc j) rs"
  using assms
proof (induction j arbitrary: rs)
  case 0
  then show ?case
    by (cases rs) auto
next
  case (Suc j)
  have take: "take (Suc j) rs = take j rs @ [rs ! j]"
    using Suc.prems by (simp add: take_Suc_conv_app_nth)
  show ?case
  proof (cases "region_size (rs ! j) < region_size key")
    case True
    let ?rs = "rs[Suc j := rs ! j]"
    have "drop (Suc j) ?rs = rs ! j # drop (Suc (Suc j)) rs"
      using Suc.prems by (simp add: upd_conv_take_nth_drop)
    moreover have "sort_shift ?rs key j =
        filter (\<lambda>r. region_size key \<le> region_size r) (take j ?rs) @ key #
        filter (\<lambda>r. region_size r < region_size key) (take j ?rs) @ drop (Suc j) ?rs"
      using Suc.prems take by (intro Suc.IH) (auto simp: sorted_wrt_append)
    ultimately show ?thesis
      using True take by (simp add: not_le)
  next
    case False
    then have ge: "\<forall>r \<in> set (take (Suc j) rs). region_size key \<le> region_size r"
      using Suc.prems(2) take by (auto simp: sorted_wrt_append not_less intro: order_trans)
    then have "filter (\<lambda>r. region_size key \<le> region_size r) (take (Suc j) rs) = take (Suc j) rs"
      and "filter (\<lambda>r. region_size r < region_size key) (take (Suc j) rs) = []"
      by (auto simp: filter_empty_conv filter_id_conv not_less)
    then show ?thesis
      using False Suc.prems(1) by (simp add: upd_conv_take_nth_drop)
  qed
qed

lemma sort_shift_step:
  assumes "j < length rs" and "sorted_by_size (take j rs)"
  shows "length (sort_shift rs (rs ! j) j) = length rs"
    and "mset (sort_shift rs (rs ! j) j) = mset rs"
    and "sorted_by_size (take (Suc j) (sort_shift rs (rs ! j) j))"
proof -
  let ?k = "rs ! j"
  let ?hi = "filter (\<lambda>r. region_size ?k \<le> region_size r) (take j rs)"
  let ?lo = "filter (\<lambda>r. region_size r < region_size ?k) (take j rs)"
  have eq: "sort_shift rs ?k j = ?hi @ ?k # ?lo @ drop (Suc j) rs"
    using assms by (rule sort_shift_partition)
  have rs: "rs = take j rs @ ?k # drop (Suc j) rs"
    using assms(1) by (rule id_take_nth_drop)
  have "mset (take j rs) = mset ?hi + mset ?lo"
    using mset_filter [of "\<lambda>r. region_size ?k \<le> region_size r" "take j rs"]
      mset_filter [of "\<lambda>r. region_size r < region_size ?k" "take j rs"]
      multiset_partition [of "mset (take j rs)" "\<lambda>r. region_size ?k \<le> region_size r"]
    by (simp add: not_le)
  then show m: "mset (sort_shift rs ?k j) = mset rs"
    using arg_cong [OF rs, of mset] by (simp add: eq)
  from mset_eq_length [OF m] show "length (sort_shift rs ?k j) = length rs" .
  have "length ?hi + length ?lo = j"
    using \<open>mset (take j rs) = _\<close> assms(1) by (metis length_take less_imp_le_nat min.absorb2 size_mset size_union)
  then have len: "Suc j = length (?hi @ ?k # ?lo)"
    by simp
  have "take (length (?hi @ ?k # ?lo)) ((?hi @ ?k # ?lo) @ ys) = ?hi @ ?k # ?lo" for ys
    by simp
  then have "take (Suc j) (sort_shift rs ?k j) = ?hi @ ?k # ?lo"
    unfolding eq len by simp
  moreover have "sorted_by_size ?hi" "sorted_by_size ?lo"
    using assms(2) by (simp_all add: sorted_wrt_filter)
  ultimately show "sorted_by_size (take (Suc j) (sort_shift rs ?k j))"
    by (auto simp: sorted_wrt_append intro: order_trans less_imp_le)
qed

lemma sort_regions_prefix:
  assumes "n \<le> length rs"
  shows "let rs' = fold (\<lambda>i rs. sort_shift rs (rs ! i) i) [1..<n] rs in
         length rs' = length rs \<and> mset rs' = mset rs \<and> sorted_by_size (take n rs')"
  using assms
proof (induction n)
  case (Suc n)
  show ?case
  proof (cases "n = 0")
    case True
    then show ?thesis
      by (cases rs) auto
  next
    case False
    then have "[1..<Suc n] = [1..<n] @ [n]"
      by simp
    then show ?thesis
      using Suc sort_shift_step [of n "fold (\<lambda>i rs. sort_shift rs (rs ! i) i) [1..<n] rs"]
      by (simp add: Let_def)
  qed
qed simp

lemma sort_regions_by_size_correct:
  "mset (sort_regions_by_size rs) = mset rs \<and> sorted_by_size (sort_regions_by_size rs)"
proof -
  define rs' where "rs' = sort_regions_by_size rs"
  have "length rs' = length rs \<and> mset rs' = mset rs \<and> sorted_by_size (take (length rs) rs')"
    using sort_regions_prefix [of "length rs" rs]
    unfolding rs'_def sort_regions_by_size_def Let_def by blast
  then show ?thesis
    by (metis order_refl rs'_def take_all)
qed

lemma length_sort_regions_by_size [simp]: "length (sort_regions_by_size rs) = length rs"
  using sort_regions_by_size_correct [of rs] by (metis mset_eq_length)

section \<open>Collecting regions\<close>

definition region_of :: "u64 \<times> u64 \<Rightarrow> MemoryRegion" where
  "region_of e = \<lparr>region_base = fst e, region_size = snd e\<rparr>"

definition reg_regions :: "(u64 \<times> u64) option list \<Rightarrow> MemoryRegion list" where
  "reg_regions reg = map region_of (List.map_filter id reg)"

lemma from_fdt_reg_region [simp]: "from_fdt_reg a l = Some (region_of (a, l))"
  by (simp add: from_fdt_reg_def try_from_u64_def region_of_def)

lemma collect_entries_push:
  "collect_entries push reg info = fold (\<lambda>r i. push i r) (reg_regions reg) info"
  by (induction reg arbitrary: info)
    (auto simp: collect_entries_def reg_regions_def List.map_filter_simps split: option.split)

lemma take_append_update:
  "n < length xs \<Longrightarrow> take (Suc n) (xs[n := x]) = take n xs @ [x]"
  by (simp add: take_Suc_conv_app_nth)

definition saturated :: "nat \<Rightarrow> nat" where
  "saturated n = min n (2 ^ 64 - 1)"

lemma saturated_step: "saturated (saturated a + b) = saturated (a + b)"
  unfolding saturated_def by linarith

lemma saturated_Suc: "saturated (Suc (saturated a)) = saturated (Suc a)"
  using saturated_step [of a 1] by simp

lemma saturated_unat [simp]: "saturated (unat (a :: 64 word)) = unat a"
  using unat_bound64 [of a] unfolding saturated_def by linarith

lemma unat_saturating_add64: "unat (saturating_add a b :: 64 word) = saturated (unat a + unat b)"
  by (simp only: unat_saturating_add saturated_def len_of_numeral_defs) simp

text \<open>What pushing one region does to the observable lists and counters.\<close>

definition info_wf :: "HardwareInfo \<Rightarrow> bool" where
  "info_wf info \<longleftrightarrow>
     length (memory_regions_array info) = MAX_MEMORY_ARENAS \<and>
     memory_region_count info \<le> MAX_MEMORY_ARENAS \<and>
     length (reserved_regions_array info) = MAX_RESERVED_REGIONS \<and>
     reserved_region_count info \<le> MAX_RESERVED_REGIONS"

lemma push_memory_region_memory:
  assumes "info_wf info"
  shows "info_wf (push_memory_region info r)"
    and "memory_regions (push_memory_region info r) = take MAX_MEMORY_ARENAS (memory_regions info @ [r])"
    and "unat (dropped_memory_regions (push_memory_region info r)) =
      saturated (unat (dropped_memory_regions info)
        + (length (memory_regions info @ [r]) - MAX_MEMORY_ARENAS))"
    and "unat (total_memory (push_memory_region info r)) =
      saturated (unat (total_memory info) + (if length (memory_regions info) < MAX_MEMORY_ARENAS
                                             then unat (region_size r) else 0))"
  using assms
  by (cases "memory_region_count info < MAX_MEMORY_ARENAS";
      simp add: push_memory_region_def info_wf_def memory_regions_def
        take_append_update unat_saturating_add64)+

lemma push_memory_region_reserved:
  "reserved_regions (push_memory_region info r) = reserved_regions info"
  "dropped_reserved_regions (push_memory_region info r) = dropped_reserved_regions info"
  by (simp_all add: push_memory_region_def reserved_regions_def)

lemma drop_reserved_region_simps:
  "info_wf (drop_reserved_region info) = info_wf info"
  "reserved_regions (drop_reserved_region info) = reserved_regions info"
  "unat (dropped_reserved_regions (drop_reserved_region info)) =
     saturated (unat (dropped_reserved_regions info) + 1)"
  by (simp_all add: drop_reserved_region_def info_wf_def reserved_regions_def unat_saturating_add64)

lemma push_reserved_region_reserved:
  assumes "info_wf info"
  shows "info_wf (push_reserved_region info r)"
    and "reserved_regions (push_reserved_region info r) =
      take MAX_RESERVED_REGIONS (reserved_regions info @ [r])"
    and "unat (dropped_reserved_regions (push_reserved_region info r)) =
      saturated (unat (dropped_reserved_regions info)
        + (length (reserved_regions info @ [r]) - MAX_RESERVED_REGIONS))"
  using assms
  by (cases "reserved_region_count info < MAX_RESERVED_REGIONS";
      simp add: push_reserved_region_def drop_reserved_region_def info_wf_def reserved_regions_def
        take_append_update unat_saturating_add64)+

lemma take_push: "take n (take n (xs @ [x]) @ ys) = take n (xs @ x # ys)"
  by (cases "length xs < n") (auto simp: take_append take_Cons' min_def)

lemma length_memory_regions: "info_wf info \<Longrightarrow> length (memory_regions info) = memory_region_count info"
  by (simp add: info_wf_def memory_regions_def)

lemma length_reserved_regions:
  "info_wf info \<Longrightarrow> length (reserved_regions info) = reserved_region_count info"
  by (simp add: info_wf_def reserved_regions_def)

lemma fold_push_memory:
  assumes "info_wf info"
    and "info' = fold (\<lambda>r i. push_memory_region i r) rs info"
    and "c = memory_region_count info"
  shows "info_wf info' \<and>
    memory_regions info' = take MAX_MEMORY_ARENAS (memory_regions info @ rs) \<and>
    unat (dropped_memory_regions info') =
      saturated (unat (dropped_memory_regions info) + (c + length rs - MAX_MEMORY_ARENAS)) \<and>
    unat (total_memory info') =
      saturated (unat (total_memory info)
        + sum_list (map (unat \<circ> region_size) (take (MAX_MEMORY_ARENAS - c) rs))) \<and>
    reserved_regions info' = reserved_regions info \<and>
    dropped_reserved_regions info' = dropped_reserved_regions info"
  using assms
proof (induction rs arbitrary: info c)
  case Nil
  then show ?case
    by (simp add: info_wf_def memory_regions_def)
next
  case (Cons r rs)
  define i1 where "i1 = push_memory_region info r"
  note p = push_memory_region_memory [OF Cons.prems(1), of r] push_memory_region_reserved [of info r]
  have c: "c \<le> MAX_MEMORY_ARENAS" "length (memory_regions info) = c"
    using Cons.prems length_memory_regions [of info] by (simp_all add: info_wf_def)
  have c1: "memory_region_count i1 = (if c < MAX_MEMORY_ARENAS then c + 1 else c)"
    using Cons.prems(1,3) by (simp add: i1_def push_memory_region_def info_wf_def)
  have IH: "info_wf info' \<and>
    memory_regions info' = take MAX_MEMORY_ARENAS (memory_regions i1 @ rs) \<and>
    unat (dropped_memory_regions info') =
      saturated (unat (dropped_memory_regions i1)
        + (memory_region_count i1 + length rs - MAX_MEMORY_ARENAS)) \<and>
    unat (total_memory info') =
      saturated (unat (total_memory i1)
        + sum_list (map (unat \<circ> region_size) (take (MAX_MEMORY_ARENAS - memory_region_count i1) rs))) \<and>
    reserved_regions info' = reserved_regions i1 \<and>
    dropped_reserved_regions info' = dropped_reserved_regions i1"
    using Cons.prems p(1) by (intro Cons.IH) (simp_all add: i1_def)
  have m: "memory_regions info' = take MAX_MEMORY_ARENAS (memory_regions info @ r # rs)"
    using IH p(2) by (simp only: i1_def take_push)
  have d: "unat (dropped_memory_regions info') =
      saturated (unat (dropped_memory_regions info) + (c + length (r # rs) - MAX_MEMORY_ARENAS))"
    using IH p(3) c c1 by (cases "c < MAX_MEMORY_ARENAS")
      (simp_all add: i1_def [symmetric] saturated_step add.assoc)
  have t: "unat (total_memory info') =
      saturated (unat (total_memory info)
        + sum_list (map (unat \<circ> region_size) (take (MAX_MEMORY_ARENAS - c) (r # rs))))"
    using IH p(4) c c1 by (cases "c < MAX_MEMORY_ARENAS")
      (simp_all add: i1_def [symmetric] saturated_step add.assoc take_Cons')
  have r: "reserved_regions info' = reserved_regions info"
      "dropped_reserved_regions info' = dropped_reserved_regions info"
    using IH p(5,6) by (simp_all only: i1_def)
  from IH m d t r show ?case
    by blast
qed

lemma fold_push_reserved:
  assumes "info_wf info"
    and "info' = fold (\<lambda>r i. push_reserved_region i r) rs info"
    and "c = reserved_region_count info"
  shows "info_wf info' \<and>
    reserved_regions info' = take MAX_RESERVED_REGIONS (reserved_regions info @ rs) \<and>
    unat (dropped_reserved_regions info') =
      saturated (unat (dropped_reserved_regions info) + (c + length rs - MAX_RESERVED_REGIONS))"
  using assms
proof (induction rs arbitrary: info c)
  case Nil
  then show ?case
    by (simp add: info_wf_def reserved_regions_def)
next
  case (Cons r rs)
  define i1 where "i1 = push_reserved_region info r"
  note p = push_reserved_region_reserved [OF Cons.prems(1), of r]
  have c: "c \<le> MAX_RESERVED_REGIONS" "length (reserved_regions info) = c"
    using Cons.prems length_reserved_regions [of info] by (simp_all add: info_wf_def)
  have c1: "reserved_region_count i1 = (if c < MAX_RESERVED_REGIONS then c + 1 else c)"
    using Cons.prems(1,3)
    by (simp add: i1_def push_reserved_region_def drop_reserved_region_def info_wf_def)
  have IH: "info_wf info' \<and>
    reserved_regions info' = take MAX_RESERVED_REGIONS (reserved_regions i1 @ rs) \<and>
    unat (dropped_reserved_regions info') =
      saturated (unat (dropped_reserved_regions i1)
        + (reserved_region_count i1 + length rs - MAX_RESERVED_REGIONS))"
    using Cons.prems p(1) by (intro Cons.IH) (simp_all add: i1_def)
  have m: "reserved_regions info' = take MAX_RESERVED_REGIONS (reserved_regions info @ r # rs)"
    using IH p(2) by (simp only: i1_def take_push)
  have d: "unat (dropped_reserved_regions info') =
      saturated (unat (dropped_reserved_regions info) + (c + length (r # rs) - MAX_RESERVED_REGIONS))"
    using IH p(3) c c1 by (cases "c < MAX_RESERVED_REGIONS")
      (simp_all add: i1_def [symmetric] saturated_step add.assoc)
  from IH m d show ?case
    by blast
qed

lemma HardwareInfo_empty_wf: "info_wf (HardwareInfo_empty phys)"
  by (simp add: info_wf_def HardwareInfo_empty_def)

lemma HardwareInfo_empty_simps [simp]:
  "memory_region_count (HardwareInfo_empty phys) = 0"
  "memory_regions (HardwareInfo_empty phys) = []"
  "reserved_regions (HardwareInfo_empty phys) = []"
  "dropped_memory_regions (HardwareInfo_empty phys) = 0"
  "dropped_reserved_regions (HardwareInfo_empty phys) = 0"
  "total_memory (HardwareInfo_empty phys) = 0"
  by (simp_all add: HardwareInfo_empty_def memory_regions_def reserved_regions_def)

text \<open>The reserved-region operations leave the memory regions alone.\<close>

definition memory_view :: "HardwareInfo \<Rightarrow> MemoryRegion list \<times> usize \<times> usize" where
  "memory_view info = (memory_regions info, dropped_memory_regions info, total_memory info)"

lemma memory_view_reserved [simp]:
  "memory_view (drop_reserved_region info) = memory_view info"
  "memory_view (push_reserved_region info r) = memory_view info"
  by (simp_all add: memory_view_def memory_regions_def drop_reserved_region_def
      push_reserved_region_def)

lemma memory_view_fold_push [simp]:
  "memory_view (fold (\<lambda>r i. push_reserved_region i r) rs info) = memory_view info"
  by (induction rs arbitrary: info) simp_all

lemma memory_view_reservation_loop [simp]:
  "memory_view (reservation_loop info block) = memory_view info"
  by (induction info block rule: reservation_loop.induct)
    (subst reservation_loop.simps, simp split: option.splits)

lemma memory_view_collect_reserved [simp]:
  "memory_view (collect_reserved_regions info fdt blob) = memory_view info"
proof -
  have "memory_view (fold (\<lambda>child info. case node_reg fdt child of
            None \<Rightarrow> info | Some reg \<Rightarrow> collect_entries push_reserved_region reg info) children i)
        = memory_view i" for children i
    by (induction children arbitrary: i) (simp_all add: collect_entries_push split: option.split)
  then show ?thesis
    by (simp add: collect_reserved_regions_def collect_reserved_memory_node_def
        collect_memory_reservation_block_def Let_def split: option.split)
qed

lemma from_fdt_memory_view:
  "memory_view (from_fdt phys fdt blob) =
   memory_view (collect_memory_regions ((HardwareInfo_empty phys)\<lparr>dtb_size := total_size fdt\<rparr>) fdt)"
proof -
  have "memory_view (from_fdt phys fdt blob) = memory_view (collect_reserved_regions
      (collect_memory_regions ((HardwareInfo_empty phys)\<lparr>dtb_size := total_size fdt\<rparr>) fdt) fdt blob)"
    by (simp add: from_fdt_def Let_def memory_view_def memory_regions_def)
  then show ?thesis
    by simp
qed

text \<open>
  C26. The memory regions boot works with are the first four well-formed \<open>reg\<close> entries of the one
  memory node that the lookup finds, sorted by decreasing size. Every further entry of that node is
  counted as dropped, and the total is the saturated sum of the kept sizes. A device tree with
  several memory nodes loses the others, which are neither kept nor counted as dropped.
\<close>

theorem from_fdt_memory_regions:
  assumes "find_node fdt ''/memory'' = Some node" and "node_reg fdt node = Some reg"
    and "rs = take MAX_MEMORY_ARENAS (reg_regions reg)"
  shows "mset (memory_regions (from_fdt phys fdt blob)) = mset rs \<and>
    sorted_by_size (memory_regions (from_fdt phys fdt blob)) \<and>
    unat (dropped_memory_regions (from_fdt phys fdt blob)) =
      saturated (length (reg_regions reg) - MAX_MEMORY_ARENAS) \<and>
    unat (total_memory (from_fdt phys fdt blob)) = saturated (sum_list (map (unat \<circ> region_size) rs))"
proof -
  define i0 where "i0 = (HardwareInfo_empty phys)\<lparr>dtb_size := total_size fdt\<rparr>"
  define i1 where "i1 = fold (\<lambda>r i. push_memory_region i r) (reg_regions reg) i0"
  define i2 where "i2 = i1\<lparr>memory_regions_array := sort_regions_by_size (memory_regions i1)
      @ drop (memory_region_count i1) (memory_regions_array i1)\<rparr>"
  have i0: "info_wf i0" "memory_region_count i0 = 0" "memory_regions i0 = []"
      "dropped_memory_regions i0 = 0" "total_memory i0 = 0"
    using HardwareInfo_empty_wf [of phys]
    by (simp_all add: i0_def info_wf_def memory_regions_def HardwareInfo_empty_def)
  note i1 = fold_push_memory [OF i0(1) i1_def i0(2) [symmetric]]
  have len: "memory_region_count i1 = length (memory_regions i1)"
    using i1 length_memory_regions [of i1] by metis
  have i2: "memory_regions i2 = sort_regions_by_size (memory_regions i1)"
    by (simp add: i2_def len memory_regions_def [of "_\<lparr>memory_regions_array := _\<rparr>"])
  have view: "memory_view (from_fdt phys fdt blob) = memory_view i2"
    using assms(1,2)
    by (simp add: from_fdt_memory_view collect_memory_regions_def Let_def collect_entries_push
        i0_def i1_def i2_def)
  then have v: "memory_regions (from_fdt phys fdt blob) = memory_regions i2"
      "dropped_memory_regions (from_fdt phys fdt blob) = dropped_memory_regions i1"
      "total_memory (from_fdt phys fdt blob) = total_memory i1"
    by (simp_all add: memory_view_def i2_def)
  show ?thesis
    using i1 sort_regions_by_size_correct [of "memory_regions i1"]
    by (simp add: v i2 i0 assms(3))
qed

definition sample_fdt :: "unit Fdt" where
  "sample_fdt =
     \<lparr>total_size = 0x1000, memory_reserve_map_offset = 40,
      find_node = (\<lambda>path. if path = ''/memory'' then Some () else None),
      node_reg = (\<lambda>_. Some [Some (0x40000000, 0x1000), None, Some (0x80000000, 0x4000)]),
      node_children = (\<lambda>_. []), node_name = (\<lambda>_. ''memory''), raw_property = (\<lambda>_ _. None),
      all_compatible = (\<lambda>_. [])\<rparr>"

theorem from_fdt_memory_regions_witness:
  "mset (memory_regions (from_fdt 0 sample_fdt [])) =
     {#region_of (0x40000000, 0x1000), region_of (0x80000000, 0x4000)#} \<and>
   unat (total_memory (from_fdt 0 sample_fdt [])) = 0x5000"
proof -
  have "find_node sample_fdt ''/memory'' = Some ()"
    and "node_reg sample_fdt () = Some [Some (0x40000000, 0x1000), None, Some (0x80000000, 0x4000)]"
    by (simp_all add: sample_fdt_def)
  from from_fdt_memory_regions [OF this refl, of 0 "[]"] show ?thesis
    by (simp add: reg_regions_def List.map_filter_simps MAX_MEMORY_ARENAS_def region_of_def
        saturated_def)
qed

section \<open>The memory reservation block\<close>

fun be_bytes :: "nat \<Rightarrow> nat \<Rightarrow> u8 list" where
  "be_bytes 0 n = []"
| "be_bytes (Suc k) n = be_bytes k (n div 256) @ [of_nat (n mod 256)]"

definition encode_entry :: "u64 \<times> u64 \<Rightarrow> u8 list" where
  "encode_entry e = be_bytes 8 (unat (fst e)) @ be_bytes 8 (unat (snd e))"

lemma length_be_bytes [simp]: "length (be_bytes k n) = k"
  by (induction k arbitrary: n) auto

lemma from_be_bytes_be_bytes:
  "n < 256 ^ k \<Longrightarrow> from_be_bytes (be_bytes k n) = (of_nat n :: 'a::len word)"
proof (induction k arbitrary: n)
  case 0
  then show ?case by (simp add: from_be_bytes_def)
next
  case (Suc k)
  have byte: "(ucast (of_nat (n mod 256) :: u8) :: 'a word) = of_nat (n mod 256)"
    by (simp add: unsigned_of_nat take_bit_eq_mod)
  have "n div 256 < 256 ^ k"
    using Suc.prems by (simp add: less_mult_imp_div_less mult.commute)
  then have "from_be_bytes (be_bytes (Suc k) n) =
      (of_nat (n div 256) * 256 + of_nat (n mod 256) :: 'a word)"
    using Suc.IH by (simp add: from_be_bytes_def byte)
  also have "\<dots> = of_nat (n div 256 * 256 + n mod 256)"
    by (simp only: of_nat_add of_nat_mult of_nat_numeral)
  finally show ?case
    by simp
qed

lemma read_be_u64_be_bytes [simp]: "read_be_u64 (be_bytes 8 (unat w) @ rest) = Some w"
proof -
  have "unat w < 256 ^ 8"
    using unat_bound64 [of w] by simp
  from from_be_bytes_be_bytes [OF this, where 'a = 64] show ?thesis
    by (simp add: read_be_u64_def)
qed

lemma be_bytes_zero: "be_bytes k 0 = replicate k 0"
  by (induction k) (simp_all add: replicate_append_same)

lemma encode_zero: "encode_entry (0, 0) = replicate 16 0"
  by (simp add: encode_entry_def be_bytes_zero replicate_add [symmetric])

lemma reservation_loop_encode:
  "reservation_loop info (encode_entry e @ rest) =
     (if e = (0, 0) then info else reservation_loop (push_reserved_region info (region_of e)) rest)"
  by (cases e) (subst reservation_loop.simps, simp add: encode_entry_def)

lemma reservation_loop_short:
  "length block < 16 \<Longrightarrow> reservation_loop info block = drop_reserved_region info"
  by (subst reservation_loop.simps) simp

lemma reservation_loop_entries:
  "(0, 0) \<notin> set es \<Longrightarrow>
   reservation_loop info (concat (map encode_entry es) @ tail) =
     reservation_loop (fold (\<lambda>r i. push_reserved_region i r) (map region_of es) info) tail"
  by (induction es arbitrary: info) (auto simp: reservation_loop_encode)

text \<open>
  C25. The memory reservation block is read entry by entry up to its all-zero terminator. Each
  entry is recorded while there is room and counted as dropped otherwise, and a block that ends
  without the terminator counts one more drop, so that it is never mistaken for a complete one.
\<close>

theorem reservation_block_parsed:
  assumes "info_wf info" and "unat (memory_reserve_map_offset fdt) = length pre"
    and "(0, 0) \<notin> set es"
    and "terminated \<longleftrightarrow> (\<exists>rest. tail = encode_entry (0, 0) @ rest)"
    and "terminated \<or> length tail < 16"
    and "info' = collect_memory_reservation_block info fdt (pre @ concat (map encode_entry es) @ tail)"
  shows "reserved_regions info' =
           take MAX_RESERVED_REGIONS (reserved_regions info @ map region_of es) \<and>
         unat (dropped_reserved_regions info') =
           saturated (unat (dropped_reserved_regions info)
             + (reserved_region_count info + length es - MAX_RESERVED_REGIONS)
             + (if terminated then 0 else 1))"
proof -
  define i1 where "i1 = fold (\<lambda>r i. push_reserved_region i r) (map region_of es) info"
  note i1 = fold_push_reserved [OF assms(1) i1_def refl]
  have "info' = reservation_loop i1 tail"
    using assms(2,3,6)
    by (simp add: collect_memory_reservation_block_def Let_def i1_def reservation_loop_entries)
  then have "info' = (if terminated then i1 else drop_reserved_region i1)"
    using assms(4,5) reservation_loop_encode [of i1 "(0, 0)"] by (auto simp: reservation_loop_short)
  then show ?thesis
    using i1 by (simp add: drop_reserved_region_simps saturated_Suc)
qed

theorem reservation_block_parsed_witness:
  "unat (dropped_reserved_regions (collect_memory_reservation_block (HardwareInfo_empty 0) sample_fdt
      (replicate 40 7 @ encode_entry (0x80000000, 0x2000)))) = 1 \<and>
   reserved_regions (collect_memory_reservation_block (HardwareInfo_empty 0) sample_fdt
      (replicate 40 7 @ encode_entry (0x80000000, 0x2000) @ encode_entry (0, 0) @ [1, 2])) =
     [region_of (0x80000000, 0x2000)]"
proof -
  have off: "unat (memory_reserve_map_offset sample_fdt) = length (replicate 40 (7 :: u8))"
    by (simp add: sample_fdt_def)
  define e :: "u64 \<times> u64" where "e = (0x80000000, 0x2000)"
  have no: "(0, 0) \<notin> set [e]"
    by (simp add: e_def)
  have f: "False \<longleftrightarrow> (\<exists>rest. [] = encode_entry (0, 0) @ rest)"
    by (simp add: encode_zero)
  have t: "True \<longleftrightarrow> (\<exists>rest. encode_entry (0, 0) @ [1, 2] = encode_entry (0, 0) @ rest)"
    by blast
  have c: "reserved_region_count (HardwareInfo_empty 0) = 0"
    by (simp add: HardwareInfo_empty_def)
  have "False \<or> length ([] :: u8 list) < 16"
    by simp
  from reservation_block_parsed [OF HardwareInfo_empty_wf off no f this refl]
  have 1: "unat (dropped_reserved_regions (collect_memory_reservation_block (HardwareInfo_empty 0)
      sample_fdt (replicate 40 7 @ encode_entry e))) = 1"
    by (simp only: c list.map concat.simps append_Nil2 HardwareInfo_empty_simps)
      (simp add: MAX_RESERVED_REGIONS_def saturated_def)
  have "True \<or> length (encode_entry (0, 0) @ [1, 2]) < 16"
    by simp
  from reservation_block_parsed [OF HardwareInfo_empty_wf off no t this refl]
  have "reserved_regions (collect_memory_reservation_block (HardwareInfo_empty 0)
      sample_fdt (replicate 40 7 @ encode_entry e @ encode_entry (0, 0) @ [1, 2])) = [region_of e]"
    by (simp only: c list.map concat.simps append_Nil2 append_Nil append_assoc HardwareInfo_empty_simps)
      (simp add: MAX_RESERVED_REGIONS_def)
  with 1 show ?thesis
    by (simp only: e_def)
qed

section \<open>The ISA string\<close>

definition occurs_at :: "'a list \<Rightarrow> 'a list \<Rightarrow> nat \<Rightarrow> bool" where
  "occurs_at h n i \<longleftrightarrow> i + length n \<le> length h \<and> take (length n) (drop i h) = n"

lemma occurs_at_drop:
  assumes "n \<noteq> []"
  shows "occurs_at (drop p h) n i \<longleftrightarrow> occurs_at h n (p + i)"
proof -
  have "0 < length n"
    using assms by simp
  then have "i + length n \<le> length h - p \<longleftrightarrow> p + i + length n \<le> length h"
    by linarith
  then show ?thesis
    by (simp add: occurs_at_def add.commute)
qed

lemma occurs_at_append: "occurs_at h n i \<longleftrightarrow> (\<exists>pre post. h = pre @ n @ post \<and> length pre = i)"
proof
  assume "occurs_at h n i"
  then have "h = take i h @ n @ drop (i + length n) h" and "length (take i h) = i"
    unfolding occurs_at_def by (metis add.commute append_take_drop_id drop_drop, simp)
  then show "\<exists>pre post. h = pre @ n @ post \<and> length pre = i"
    by blast
qed (auto simp: occurs_at_def)

lemma find_subslice_first:
  "n \<noteq> [] \<Longrightarrow> case find_subslice h n of
      None \<Rightarrow> \<forall>i. \<not> occurs_at h n i
    | Some i \<Rightarrow> occurs_at h n i \<and> (\<forall>j < i. \<not> occurs_at h n j)"
proof (induction h)
  case Nil
  then show ?case by (simp add: occurs_at_def)
next
  case (Cons x h)
  have step: "occurs_at (x # h) n i \<longleftrightarrow>
      (case i of 0 \<Rightarrow> occurs_at (x # h) n 0 | Suc j \<Rightarrow> occurs_at h n j)" for i
    by (cases i) (auto simp: occurs_at_def)
  have zero: "occurs_at (x # h) n 0 \<longleftrightarrow>
      length n \<le> length (x # h) \<and> take (length n) (x # h) = n"
    by (simp add: occurs_at_def)
  show ?case
  proof (cases "occurs_at (x # h) n 0")
    case True
    then show ?thesis
      using zero by simp
  next
    case False
    have long: "\<not> length n \<le> length (x # h) \<Longrightarrow> \<not> occurs_at (x # h) n i" for i
      by (auto simp: occurs_at_def)
    show ?thesis
      using Cons False zero long
      by (auto simp: step [of "Suc _"] less_Suc_eq_0_disj split: option.splits nat.splits)
        (metis step nat.exhaust nat.simps(4,5))+
  qed
qed

definition bounded_at :: "u8 list \<Rightarrow> u8 list \<Rightarrow> nat \<Rightarrow> bool" where
  "bounded_at isa ext i \<longleftrightarrow>
     (i = 0 \<or> isa ! (i - 1) = of_char (CHR ''_'')) \<and>
     (i + length ext = length isa \<or> isa ! (i + length ext) = of_char (CHR ''_''))"

lemma isa_search_iff:
  "ext \<noteq> [] \<Longrightarrow>
   isa_search isa ext pos \<longleftrightarrow> (\<exists>i \<ge> pos. occurs_at isa ext i \<and> bounded_at isa ext i)"
proof (induction isa ext pos rule: isa_search.induct)
  case (1 isa ext pos)
  show ?case
  proof (cases "find_subslice (drop pos isa) ext")
    case None
    then have "\<not> occurs_at isa ext (pos + j)" for j
      using find_subslice_first [OF "1.prems", of "drop pos isa"] "1.prems"
      by (simp add: occurs_at_drop)
    then have "\<not> occurs_at isa ext i" if "pos \<le> i" for i
      using that by (metis le_add_diff_inverse)
    then show ?thesis
      using None by (auto simp: isa_search.simps [of isa ext pos])
  next
    case (Some r)
    have at: "occurs_at isa ext (pos + r)" and before: "\<And>j. j < r \<Longrightarrow> \<not> occurs_at isa ext (pos + j)"
      using find_subslice_first [OF "1.prems", of "drop pos isa"] Some "1.prems"
      by (simp_all add: occurs_at_drop)
    have first: "pos + r \<le> i" if "pos \<le> i" "occurs_at isa ext i" for i
      using before [of "i - pos"] that by fastforce
    have eq: "isa_search isa ext pos =
        (if bounded_at isa ext (pos + r) then True else isa_search isa ext (pos + r + 1))"
      using Some by (simp add: isa_search.simps [of isa ext pos] bounded_at_def Let_def)
    show ?thesis
    proof (cases "bounded_at isa ext (pos + r)")
      case True
      then show ?thesis
        using eq at by (auto intro: exI [of _ "pos + r"])
    next
      case False
      have "isa_search isa ext (pos + r + 1) \<longleftrightarrow>
          (\<exists>i \<ge> pos + r + 1. occurs_at isa ext i \<and> bounded_at isa ext i)"
        using "1.IH" [OF Some refl refl refl refl] False "1.prems" by (simp add: bounded_at_def)
      also have "\<dots> \<longleftrightarrow> (\<exists>i \<ge> pos. occurs_at isa ext i \<and> bounded_at isa ext i)"
        using False first by (metis Suc_eq_plus1 Suc_leI add_leD1 le_neq_implies_less)
      finally show ?thesis
        using eq False by simp
    qed
  qed
qed

lemma split_bytes_not_Nil [simp]: "split_bytes d xs \<noteq> []"
  by (cases xs) (auto split: list.split)

lemma split_bytes_head:
  "\<exists>post. xs = hd (split_bytes d xs) @ post \<and> (post = [] \<or> hd post = d)"
proof (induction xs)
  case (Cons x xs)
  then obtain post where "xs = hd (split_bytes d xs) @ post" "post = [] \<or> hd post = d"
    by blast
  then show ?case
    by (cases "split_bytes d xs") (auto intro: exI [of _ "x # xs"])
qed simp

lemma split_bytes_tail:
  "s \<in> set (tl (split_bytes d xs)) \<Longrightarrow>
   \<exists>pre post. xs = pre @ d # s @ post \<and> (post = [] \<or> hd post = d)"
proof (induction xs)
  case (Cons x xs)
  show ?case
  proof (cases "s \<in> set (tl (split_bytes d xs))")
    case True
    then obtain pre post where "xs = pre @ d # s @ post" "post = [] \<or> hd post = d"
      using Cons.IH by blast
    then have "x # xs = (x # pre) @ d # s @ post"
      by simp
    with \<open>post = [] \<or> hd post = d\<close> show ?thesis
      by blast
  next
    case False
    then have "x = d" "s = hd (split_bytes d xs)"
      using Cons.prems by (cases "split_bytes d xs"; auto split: if_splits)+
    then show ?thesis
      using split_bytes_head [of xs d] by (metis append_Nil)
  qed
qed simp

lemma split_bytes_append: "split_bytes d (pre @ d # ys) = split_bytes d pre @ split_bytes d ys"
  by (induction pre) (auto split: list.split)

lemma split_bytes_first:
  "d \<notin> set s \<Longrightarrow> post = [] \<or> hd post = d \<Longrightarrow> s \<in> set (split_bytes d (s @ post))"
proof -
  assume "d \<notin> set s" and "post = [] \<or> hd post = d"
  then have "hd (split_bytes d (s @ post)) = s"
  proof (induction s)
    case Nil
    then show ?case by (cases post) auto
  next
    case (Cons x s)
    then show ?case by (auto split: list.split)
  qed
  then show "s \<in> set (split_bytes d (s @ post))"
    by (metis hd_in_set split_bytes_not_Nil)
qed

lemma split_bytes_mem_iff:
  assumes "d \<notin> set s"
  shows "s \<in> set (split_bytes d xs) \<longleftrightarrow>
    (\<exists>pre post. xs = pre @ s @ post \<and> (pre = [] \<or> last pre = d) \<and> (post = [] \<or> hd post = d))"
proof
  assume "s \<in> set (split_bytes d xs)"
  then consider "s = hd (split_bytes d xs)" | "s \<in> set (tl (split_bytes d xs))"
    by (metis list.exhaust_sel set_ConsD split_bytes_not_Nil)
  then show "\<exists>pre post. xs = pre @ s @ post \<and> (pre = [] \<or> last pre = d) \<and> (post = [] \<or> hd post = d)"
  proof cases
    case 1
    then show ?thesis
      using split_bytes_head [of xs d] by (metis append_Nil)
  next
    case 2
    then obtain pre post where "xs = (pre @ [d]) @ s @ post" "post = [] \<or> hd post = d"
      using split_bytes_tail by fastforce
    then show ?thesis
      by (metis last_snoc)
  qed
next
  assume "\<exists>pre post. xs = pre @ s @ post \<and> (pre = [] \<or> last pre = d) \<and> (post = [] \<or> hd post = d)"
  then obtain pre post where xs: "xs = pre @ s @ post" and pre: "pre = [] \<or> last pre = d"
    and post: "post = [] \<or> hd post = d"
    by blast
  have s: "s \<in> set (split_bytes d (s @ post))"
    using assms post by (rule split_bytes_first)
  show "s \<in> set (split_bytes d xs)"
  proof (cases "pre = []")
    case False
    then obtain p where "pre = p @ [d]"
      using pre by (metis append_butlast_last_id)
    then show ?thesis
      using s xs by (simp add: split_bytes_append)
  qed (use s xs in simp)
qed

lemma bounded_occurrence_iff:
  "(\<exists>i. occurs_at isa ext i \<and> bounded_at isa ext i) \<longleftrightarrow>
   (\<exists>pre post. isa = pre @ ext @ post \<and> (pre = [] \<or> last pre = of_char (CHR ''_'')) \<and>
      (post = [] \<or> hd post = of_char (CHR ''_'')))"
proof -
  have "bounded_at (pre @ ext @ post) ext (length pre) \<longleftrightarrow>
      (pre = [] \<or> last pre = of_char (CHR ''_'')) \<and> (post = [] \<or> hd post = of_char (CHR ''_''))"
    for pre post
  proof -
    have "pre \<noteq> [] \<Longrightarrow> (pre @ ext @ post) ! (length pre - 1) = last pre"
      by (simp add: nth_append last_conv_nth)
    moreover have "post \<noteq> [] \<Longrightarrow> (pre @ ext @ post) ! (length pre + length ext) = hd post"
      by (simp add: nth_append hd_conv_nth)
    ultimately show ?thesis
      unfolding bounded_at_def by (cases "pre = []"; cases "post = []") simp_all
  qed
  then show ?thesis
    unfolding occurs_at_append by blast
qed

text \<open>
  C27. The ISA string search reports an extension exactly when its name is one of the
  underscore-separated components of the string, for every name that has no underscore of its own.
\<close>

theorem isa_string_has_extension_iff:
  assumes "of_char (CHR ''_'') \<notin> set (as_bytes ext)"
  shows "isa_string_has_extension isa ext \<longleftrightarrow>
           ext \<noteq> [] \<and> as_bytes ext \<in> set (split_bytes (of_char (CHR ''_'')) isa)"
proof (cases "ext = []")
  case False
  then have ne: "as_bytes ext \<noteq> []"
    by (simp add: as_bytes_def)
  have "as_bytes ext \<in> set (split_bytes (of_char (CHR ''_'')) isa) \<longleftrightarrow>
      isa_search isa (as_bytes ext) 0"
    using isa_search_iff [OF ne, of isa 0] split_bytes_mem_iff [OF assms, of isa]
      bounded_occurrence_iff [of isa "as_bytes ext"] by simp
  moreover have "length ext \<le> length isa" if "isa_search isa (as_bytes ext) 0"
    using that isa_search_iff [OF ne, of isa 0] by (auto simp: occurs_at_def as_bytes_def)
  ultimately show ?thesis
    using False by (auto simp: isa_string_has_extension_def)
qed (simp add: isa_string_has_extension_def)

theorem isa_string_has_extension_iff_witness:
  "isa_string_has_extension (as_bytes ''rv64imac_zkr_zicsr'') ''zkr'' \<and>
   \<not> isa_string_has_extension (as_bytes ''rv64imac_zkrx'') ''zkr''"
proof -
  have "of_char (CHR ''_'') \<notin> set (as_bytes ''zkr'')"
    by (simp add: as_bytes_def)
  note iff = isa_string_has_extension_iff [OF this]
  show ?thesis
    unfolding iff by (simp add: as_bytes_def)
qed

end
