(* ===== verification/Pmm.thy ===== *)
theory Pmm
  imports Hwinfo
begin

text \<open>
  \<open>pmm/mod.rs\<close>: the physical page allocator, definitions only. The proofs are in
  \<open>Pmm_Ranges\<close> (reserved ranges and metadata placement), \<open>Pmm_Free_List\<close> (the free list and
  single pages), \<open>Pmm_Contiguous\<close> (page runs) and \<open>Pmm_Init\<close> (construction from the hardware
  snapshot).

  The manager is a record with the fields of \<open>PhysicalMemoryManager\<close>, plus \<open>page_memory\<close>, the
  memory the arenas' metadata pointers refer to: the slot of page \<open>i\<close> of a storage with pointer
  \<open>p\<close> is \<open>(p, i)\<close>. A Rust reference \<open>&mut Page\<close> is such a slot and writing through it is
  \<open>modify_page\<close>. Operations that can panic return \<open>panics\<close>; the source's \<open>Option\<close> and
  \<open>Result\<close> values are inside. The PMM lock serialises all entry points, so each is one step.
\<close>

section \<open>Data\<close>

datatype InitError =
  NoMemoryRegions | MetadataTooLarge | MetadataAddressUnavailable | TooManyReservedRanges
| DroppedReservedRegions | OverlappingMemoryRegions | AddressNotMapped | ArithmeticOverflow
| PageIndexTooLarge

datatype FreeContiguousError =
  NotContiguousHead | AddressNotInArena | NotAllocated | InvalidPageState

datatype PageState = Free | Allocated | Reserved

record PageHandle =
  handle_arena :: u8
  handle_page :: u32

record Page =
  previous_free :: PageHandle
  next_free :: PageHandle
  page_state :: PageState
  page_arena_index :: u8
  contiguous_head :: bool

record PageStorage =
  storage_ptr :: usize
  storage_len :: nat
  storage_arena_index :: u8

record Arena =
  arena_base :: PhysicalAddress
  page_count :: nat
  arena_pages :: PageStorage

record ReservedRange =
  range_start :: PhysicalAddress
  range_end :: PhysicalAddress

type_synonym page_slot = "usize \<times> nat"

record PhysicalMemoryManager =
  arenas :: "Arena list"
  arena_count :: nat
  reserved_ranges :: "ReservedRange list"
  reserved_count :: nat
  free_head :: PageHandle
  free_tail :: PageHandle
  total_pages :: usize
  free_pages :: nat
  initialized :: bool
  page_memory :: "page_slot \<Rightarrow> Page"

record PageRun =
  run_head :: PageHandle
  run_count :: nat

definition KERNEL_RESERVE_PAD :: usize where
  "KERNEL_RESERVE_PAD = 2 * 1024 * 1024"

text \<open>\<open>size_of::<Page>()\<close>: two eight-byte handles and three bytes, aligned to four.\<close>

definition PAGE_METADATA_SIZE :: usize where
  "PAGE_METADATA_SIZE = 20"

definition PageHandle_NONE :: PageHandle where
  "PageHandle_NONE = \<lparr>handle_arena = - 1, handle_page = - 1\<rparr>"

definition PageHandle_new :: "u8 \<Rightarrow> u32 \<Rightarrow> PageHandle" where
  "PageHandle_new arena_index page_index = \<lparr>handle_arena = arena_index, handle_page = page_index\<rparr>"

definition is_some_handle :: "PageHandle \<Rightarrow> bool" where
  "is_some_handle h \<longleftrightarrow> handle_page h \<noteq> - 1"

definition Page_new :: "u8 \<Rightarrow> PageState \<Rightarrow> Page" where
  "Page_new arena_index st =
     \<lparr>previous_free = PageHandle_NONE, next_free = PageHandle_NONE, page_state = st,
      page_arena_index = arena_index, contiguous_head = False\<rparr>"

definition PageStorage_empty :: PageStorage where
  "PageStorage_empty = \<lparr>storage_ptr = 0, storage_len = 0, storage_arena_index = - 1\<rparr>"

definition Arena_EMPTY :: Arena where
  "Arena_EMPTY = \<lparr>arena_base = 0, page_count = 0, arena_pages = PageStorage_empty\<rparr>"

definition ReservedRange_EMPTY :: ReservedRange where
  "ReservedRange_EMPTY = \<lparr>range_start = 0, range_end = 0\<rparr>"

definition ReservedRange_new :: "PhysicalAddress \<Rightarrow> PhysicalAddress \<Rightarrow> ReservedRange option" where
  "ReservedRange_new s e = (if s < e then Some \<lparr>range_start = s, range_end = e\<rparr> else None)"

definition range_contains :: "ReservedRange \<Rightarrow> PhysicalAddress \<Rightarrow> bool" where
  "range_contains r physical \<longleftrightarrow> range_start r \<le> physical \<and> physical < range_end r"

section \<open>Arenas\<close>

definition arena_index_of :: "Arena \<Rightarrow> u8" where
  "arena_index_of a = storage_arena_index (arena_pages a)"

definition physical_to_page :: "Arena \<Rightarrow> PhysicalAddress \<Rightarrow> PageHandle option" where
  "physical_to_page a physical =
     (if \<not> is_page_aligned physical \<or> physical < arena_base a then None
      else
        (case checked_sub physical (arena_base a) of
           None \<Rightarrow> None
         | Some offset \<Rightarrow>
             (let page_index = unat (offset div PAGE_SIZE) in
              if page_count a \<le> page_index then None
              else if page_index < 2 ^ 32
              then Some (PageHandle_new (arena_index_of a) (of_nat page_index))
              else None)))"

definition page_to_physical :: "Arena \<Rightarrow> PageHandle \<Rightarrow> PhysicalAddress option" where
  "page_to_physical a page =
     (if handle_arena page \<noteq> arena_index_of a then None
      else
        (let index = unat (handle_page page) in
         if page_count a \<le> index then None
         else
           (case checked_mul (of_nat index) PAGE_SIZE of
              None \<Rightarrow> None
            | Some offset \<Rightarrow> checked_add (arena_base a) offset)))"

definition contains_page :: "Arena \<Rightarrow> PageHandle \<Rightarrow> bool" where
  "contains_page a page \<longleftrightarrow>
     handle_arena page = arena_index_of a \<and> unat (handle_page page) < page_count a"

definition page_mut :: "Arena \<Rightarrow> PageHandle \<Rightarrow> page_slot option" where
  "page_mut a page =
     (if contains_page a page then Some (storage_ptr (arena_pages a), unat (handle_page page))
      else None)"

definition page_ref :: "PhysicalMemoryManager \<Rightarrow> Arena \<Rightarrow> PageHandle \<Rightarrow> Page option" where
  "page_ref pmm a page = map_option (page_memory pmm) (page_mut a page)"

definition modify_page :: "page_slot \<Rightarrow> (Page \<Rightarrow> Page) \<Rightarrow> PhysicalMemoryManager \<Rightarrow> PhysicalMemoryManager" where
  "modify_page slot f pmm =
     pmm\<lparr>page_memory := (page_memory pmm)(slot := f (page_memory pmm slot))\<rparr>"

definition arena_for :: "PhysicalMemoryManager \<Rightarrow> PageHandle \<Rightarrow> Arena option" where
  "arena_for pmm page =
     (let index = unat (handle_arena page) in
      if index < length (arenas pmm) then
        (let a = arenas pmm ! index in if contains_page a page then Some a else None)
      else None)"

definition arena_for_physical :: "PhysicalMemoryManager \<Rightarrow> PhysicalAddress \<Rightarrow> Arena option" where
  "arena_for_physical pmm physical =
     List.find (\<lambda>a. physical_to_page a physical \<noteq> None) (take (arena_count pmm) (arenas pmm))"

section \<open>The free list\<close>

definition push_free :: "PhysicalMemoryManager \<Rightarrow> PageHandle \<Rightarrow> PhysicalMemoryManager panics" where
  "push_free pmm handle =
     bind_panic (expect ''pmm: free page has arena'' (arena_for pmm handle)) (\<lambda>a.
     bind_panic (expect ''pmm: free page has metadata'' (page_mut a handle)) (\<lambda>slot.
     let tail = free_tail pmm;
         pmm = modify_page slot
                 (\<lambda>p. p\<lparr>previous_free := tail, next_free := PageHandle_NONE\<rparr>) pmm
     in if is_some_handle tail then
          bind_panic (expect ''pmm: tail has arena'' (arena_for pmm tail)) (\<lambda>tail_arena.
          bind_panic (expect ''pmm: tail has metadata'' (page_mut tail_arena tail)) (\<lambda>tail_slot.
          Inr ((modify_page tail_slot (\<lambda>p. p\<lparr>next_free := handle\<rparr>) pmm)\<lparr>free_tail := handle\<rparr>)))
        else Inr (pmm\<lparr>free_head := handle, free_tail := handle\<rparr>)))"

definition set_next_of_previous ::
  "PhysicalMemoryManager \<Rightarrow> PageHandle \<Rightarrow> PageHandle \<Rightarrow> PhysicalMemoryManager panics" where
  "set_next_of_previous pmm previous nxt =
     (if is_some_handle previous then
        bind_panic (expect ''pmm: previous has arena'' (arena_for pmm previous)) (\<lambda>a.
        bind_panic (expect ''pmm: previous has metadata'' (page_mut a previous)) (\<lambda>slot.
        Inr (modify_page slot (\<lambda>p. p\<lparr>next_free := nxt\<rparr>) pmm)))
      else Inr (pmm\<lparr>free_head := nxt\<rparr>))"

definition set_previous_of_next ::
  "PhysicalMemoryManager \<Rightarrow> PageHandle \<Rightarrow> PageHandle \<Rightarrow> PhysicalMemoryManager panics" where
  "set_previous_of_next pmm previous nxt =
     (if is_some_handle nxt then
        bind_panic (expect ''pmm: next has arena'' (arena_for pmm nxt)) (\<lambda>a.
        bind_panic (expect ''pmm: next has metadata'' (page_mut a nxt)) (\<lambda>slot.
        Inr (modify_page slot (\<lambda>p. p\<lparr>previous_free := previous\<rparr>) pmm)))
      else Inr (pmm\<lparr>free_tail := previous\<rparr>))"

definition remove_free :: "PhysicalMemoryManager \<Rightarrow> PageHandle \<Rightarrow> PhysicalMemoryManager panics" where
  "remove_free pmm handle =
     bind_panic (expect ''pmm: free page has arena'' (arena_for pmm handle)) (\<lambda>a.
     bind_panic (expect ''pmm: free page has metadata'' (page_mut a handle)) (\<lambda>slot.
     let previous = previous_free (page_memory pmm slot);
         nxt = next_free (page_memory pmm slot)
     in bind_panic (set_next_of_previous pmm previous nxt) (\<lambda>pmm.
        bind_panic (set_previous_of_next pmm previous nxt) (\<lambda>pmm.
        Inr (modify_page slot
               (\<lambda>p. p\<lparr>previous_free := PageHandle_NONE, next_free := PageHandle_NONE\<rparr>) pmm)))))"

definition pop_free :: "PhysicalMemoryManager \<Rightarrow> (PageHandle option \<times> PhysicalMemoryManager) panics" where
  "pop_free pmm =
     (let head = free_head pmm in
      if \<not> is_some_handle head then Inr (None, pmm)
      else bind_panic (remove_free pmm head) (\<lambda>pmm. Inr (Some head, pmm)))"

section \<open>Single pages\<close>

definition alloc_page :: "PhysicalMemoryManager \<Rightarrow> (PageHandle option \<times> PhysicalMemoryManager) panics" where
  "alloc_page pmm =
     bind_panic (pop_free pmm) (\<lambda>(popped, pmm).
       case popped of
         None \<Rightarrow> Inr (None, pmm)
       | Some page \<Rightarrow>
           (case arena_for pmm page of
              None \<Rightarrow> Inr (None, pmm)
            | Some a \<Rightarrow>
                (case page_mut a page of
                   None \<Rightarrow> Inr (None, pmm)
                 | Some slot \<Rightarrow>
                     (let pmm = modify_page slot (\<lambda>p. p\<lparr>page_state := Allocated\<rparr>) pmm in
                      bind_panic (sub_or_panic (free_pages pmm) 1) (\<lambda>n.
                      Inr (Some page, pmm\<lparr>free_pages := n\<rparr>))))))"

definition free_page :: "PhysicalMemoryManager \<Rightarrow> PageHandle \<Rightarrow> PhysicalMemoryManager panics" where
  "free_page pmm page =
     bind_panic (expect ''pmm: address not in any managed arena'' (arena_for pmm page)) (\<lambda>a.
     bind_panic (expect ''called `Option::unwrap()` on a `None` value'' (page_mut a page)) (\<lambda>slot.
     case page_state (page_memory pmm slot) of
       Free \<Rightarrow> Inl ''pmm: double-free detected''
     | Reserved \<Rightarrow> Inl ''pmm: cannot free reserved page''
     | Allocated \<Rightarrow>
         (let pmm = modify_page slot
                      (\<lambda>p. p\<lparr>page_state := Free, contiguous_head := False\<rparr>) pmm in
          bind_panic (push_free pmm page) (\<lambda>pmm.
          Inr (pmm\<lparr>free_pages := free_pages pmm + 1\<rparr>)))))"

section \<open>Contiguous runs\<close>

text \<open>
  How the scan of one arena ends: the early return of \<open>?\<close>, a run that starts at an index, or the
  end of the arena.
\<close>

datatype ScanResult = ScanAbort | ScanFound nat | ScanEnd

fun scan_run ::
  "PhysicalMemoryManager \<Rightarrow> Arena \<Rightarrow> usize \<Rightarrow> nat \<Rightarrow> nat list \<Rightarrow> nat option \<Rightarrow> nat \<Rightarrow> ScanResult" where
  "scan_run pmm a alignment cnt [] run_start run_length = ScanEnd"
| "scan_run pmm a alignment cnt (index # rest) run_start run_length =
     (let handle = PageHandle_new (arena_index_of a) (of_nat index) in
      case page_ref pmm a handle of
        None \<Rightarrow> ScanAbort
      | Some page \<Rightarrow>
          if page_state page \<noteq> Free then scan_run pmm a alignment cnt rest None 0
          else
            (case run_start of
               None \<Rightarrow>
                 (case page_to_physical a handle of
                    None \<Rightarrow> ScanAbort
                  | Some physical \<Rightarrow>
                      if physical AND (alignment - 1) \<noteq> 0
                      then scan_run pmm a alignment cnt rest None run_length
                      else if cnt \<le> 1 then ScanFound index
                      else scan_run pmm a alignment cnt rest (Some index) 1)
             | Some start \<Rightarrow>
                 if cnt \<le> run_length + 1 then ScanFound start
                 else scan_run pmm a alignment cnt rest (Some start) (run_length + 1)))"

text \<open>The loop that unlinks the run; \<open>False\<close> is the early return of its \<open>?\<close>.\<close>

fun take_run ::
  "PhysicalMemoryManager \<Rightarrow> Arena \<Rightarrow> nat list \<Rightarrow> (bool \<times> PhysicalMemoryManager) panics" where
  "take_run pmm a [] = Inr (True, pmm)"
| "take_run pmm a (index # rest) =
     (let handle = PageHandle_new (arena_index_of a) (of_nat index) in
      bind_panic (remove_free pmm handle) (\<lambda>pmm.
        case page_mut a handle of
          None \<Rightarrow> Inr (False, pmm)
        | Some slot \<Rightarrow>
            take_run (modify_page slot (\<lambda>p. p\<lparr>page_state := Allocated\<rparr>) pmm) a rest))"

text \<open>What happens once a run is found: unlink it, mark its head, adjust the counter.\<close>

definition commit_run ::
  "PhysicalMemoryManager \<Rightarrow> Arena \<Rightarrow> nat \<Rightarrow> nat \<Rightarrow> (PageRun option \<times> PhysicalMemoryManager) panics"
where
  "commit_run pmm a start cnt =
     bind_panic (take_run pmm a [start..<start + cnt]) (\<lambda>(completed, pmm).
       if \<not> completed then Inr (None, pmm)
       else
         (let head = PageHandle_new (arena_index_of a) (of_nat start) in
          case page_mut a head of
            None \<Rightarrow> Inr (None, pmm)
          | Some slot \<Rightarrow>
              (let pmm = modify_page slot (\<lambda>p. p\<lparr>contiguous_head := True\<rparr>) pmm in
               bind_panic (sub_or_panic (free_pages pmm) cnt) (\<lambda>n.
               Inr (Some \<lparr>run_head = head, run_count = cnt\<rparr>, pmm\<lparr>free_pages := n\<rparr>)))))"

fun alloc_in_arenas ::
  "PhysicalMemoryManager \<Rightarrow> usize \<Rightarrow> nat \<Rightarrow> Arena list \<Rightarrow> (PageRun option \<times> PhysicalMemoryManager) panics"
where
  "alloc_in_arenas pmm alignment cnt [] = Inr (None, pmm)"
| "alloc_in_arenas pmm alignment cnt (a # rest) =
     (if page_count a < cnt then alloc_in_arenas pmm alignment cnt rest
      else
        (case scan_run pmm a alignment cnt [0..<page_count a] None 0 of
           ScanAbort \<Rightarrow> Inr (None, pmm)
         | ScanEnd \<Rightarrow> alloc_in_arenas pmm alignment cnt rest
         | ScanFound start \<Rightarrow> commit_run pmm a start cnt))"

definition alloc_contiguous ::
  "PhysicalMemoryManager \<Rightarrow> nat \<Rightarrow> u8 \<Rightarrow> (PageRun option \<times> PhysicalMemoryManager) panics" where
  "alloc_contiguous pmm cnt alignment_log2 =
     (if cnt = 0 \<or> 64 \<le> alignment_log2 then Inr (None, pmm)
      else
        (let alignment = push_bit (unat alignment_log2) 1;
             alignment = max alignment PAGE_SIZE
         in alloc_in_arenas pmm alignment cnt (take (arena_count pmm) (arenas pmm))))"

fun check_run ::
  "PhysicalMemoryManager \<Rightarrow> Arena \<Rightarrow> u8 \<Rightarrow> nat \<Rightarrow> nat list \<Rightarrow> FreeContiguousError option" where
  "check_run pmm a arena_index start [] = None"
| "check_run pmm a arena_index start (index # rest) =
     (case page_ref pmm a (PageHandle_new arena_index (of_nat index)) of
        None \<Rightarrow> Some AddressNotInArena
      | Some page \<Rightarrow>
          if page_state page \<noteq> Allocated then Some NotAllocated
          else if index \<noteq> start \<and> contiguous_head page then Some InvalidPageState
          else check_run pmm a arena_index start rest)"

fun free_pages_from ::
  "PhysicalMemoryManager \<Rightarrow> u8 \<Rightarrow> nat list \<Rightarrow> PhysicalMemoryManager panics" where
  "free_pages_from pmm arena_index [] = Inr pmm"
| "free_pages_from pmm arena_index (index # rest) =
     bind_panic (free_page pmm (PageHandle_new arena_index (of_nat index))) (\<lambda>pmm.
     free_pages_from pmm arena_index rest)"

definition free_contiguous ::
  "PhysicalMemoryManager \<Rightarrow> PageHandle \<Rightarrow> nat \<Rightarrow> ((FreeContiguousError + unit) \<times> PhysicalMemoryManager) panics"
where
  "free_contiguous pmm head cnt =
     (if cnt = 0 then Inr (Inr (), pmm)
      else
        (case arena_for pmm head of
           None \<Rightarrow> Inr (Inl AddressNotInArena, pmm)
         | Some a \<Rightarrow>
             (case page_ref pmm a head of
                None \<Rightarrow> Inr (Inl AddressNotInArena, pmm)
              | Some head_page \<Rightarrow>
                  if \<not> contiguous_head head_page then Inr (Inl NotContiguousHead, pmm)
                  else
                    (let start = unat (handle_page head); stop = start + cnt in
                     if \<not> stop < 2 ^ 64 then Inr (Inl AddressNotInArena, pmm)
                     else if page_count a < stop then Inr (Inl AddressNotInArena, pmm)
                     else
                       (case check_run pmm a (handle_arena head) start [start..<stop] of
                          Some e \<Rightarrow> Inr (Inl e, pmm)
                        | None \<Rightarrow>
                            bind_panic (expect ''called `Option::unwrap()` on a `None` value''
                                          (page_mut a head)) (\<lambda>slot.
                            let pmm = modify_page slot (\<lambda>p. p\<lparr>contiguous_head := False\<rparr>) pmm in
                            bind_panic (free_pages_from pmm (handle_arena head) [start..<stop]) (\<lambda>pmm.
                            Inr (Inr (), pmm))))))))"

section \<open>Reserved ranges\<close>

definition ranges_overlap ::
  "PhysicalAddress \<Rightarrow> PhysicalAddress \<Rightarrow> PhysicalAddress \<Rightarrow> PhysicalAddress \<Rightarrow> bool" where
  "ranges_overlap left_start left_end right_start right_end \<longleftrightarrow>
     left_start < right_end \<and> right_start < left_end"

definition ranges_overlap_or_touch ::
  "PhysicalAddress \<Rightarrow> PhysicalAddress \<Rightarrow> PhysicalAddress \<Rightarrow> PhysicalAddress \<Rightarrow> bool" where
  "ranges_overlap_or_touch left_start left_end right_start right_end \<longleftrightarrow>
     left_start \<le> right_end \<and> right_start \<le> left_end"

fun check_against ::
  "PhysicalAddress \<Rightarrow> PhysicalAddress \<Rightarrow> MemoryRegion list \<Rightarrow> InitError + unit" where
  "check_against left_base left_end [] = Inr ()"
| "check_against left_base left_end (right # rest) =
     (case region_end right of
        None \<Rightarrow> Inl ArithmeticOverflow
      | Some right_end \<Rightarrow>
          if ranges_overlap left_base left_end (region_base right) right_end
          then Inl OverlappingMemoryRegions
          else check_against left_base left_end rest)"

fun validate_memory_regions :: "MemoryRegion list \<Rightarrow> InitError + unit" where
  "validate_memory_regions [] = Inr ()"
| "validate_memory_regions (left # rest) =
     (case region_end left of
        None \<Rightarrow> Inl ArithmeticOverflow
      | Some left_end \<Rightarrow>
          (case check_against (region_base left) left_end rest of
             Inl e \<Rightarrow> Inl e
           | Inr _ \<Rightarrow> validate_memory_regions rest))"

definition remove_reserved :: "PhysicalMemoryManager \<Rightarrow> nat \<Rightarrow> PhysicalMemoryManager" where
  "remove_reserved pmm index =
     (let shifted = fold (\<lambda>current rs. rs[current := rs ! (current + 1)])
                      [index..<reserved_count pmm - 1] (reserved_ranges pmm);
          n = reserved_count pmm - 1
      in pmm\<lparr>reserved_ranges := shifted[n := ReservedRange_EMPTY], reserved_count := n\<rparr>)"

function merge_reserved ::
  "PhysicalMemoryManager \<Rightarrow> ReservedRange \<Rightarrow> nat \<Rightarrow> ReservedRange \<times> PhysicalMemoryManager" where
  "merge_reserved pmm rng index =
     (if index < reserved_count pmm then
        (let existing = reserved_ranges pmm ! index in
         if \<not> ranges_overlap_or_touch (range_start rng) (range_end rng)
                (range_start existing) (range_end existing)
         then merge_reserved pmm rng (index + 1)
         else merge_reserved (remove_reserved pmm index)
                \<lparr>range_start = min (range_start rng) (range_start existing),
                 range_end = max (range_end rng) (range_end existing)\<rparr> index)
      else (rng, pmm))"
  by pat_completeness auto
termination
  by (relation "measure (\<lambda>(pmm, rng, index). reserved_count pmm - index)")
    (auto simp: remove_reserved_def Let_def)

declare merge_reserved.simps [simp del]

definition record_reserved ::
  "PhysicalMemoryManager \<Rightarrow> PhysicalAddress \<Rightarrow> PhysicalAddress \<Rightarrow> (InitError + unit) \<times> PhysicalMemoryManager"
where
  "record_reserved pmm s e =
     (case ReservedRange_new s e of
        None \<Rightarrow> (Inr (), pmm)
      | Some rng \<Rightarrow>
          (let (rng, pmm) = merge_reserved pmm rng 0 in
           if length (reserved_ranges pmm) \<le> reserved_count pmm
           then (Inl TooManyReservedRanges, pmm)
           else (Inr (),
                 pmm\<lparr>reserved_ranges := (reserved_ranges pmm)[reserved_count pmm := rng],
                      reserved_count := reserved_count pmm + 1\<rparr>)))"

text \<open>\<open>max_by_key\<close>: the last of the ranges with the greatest start.\<close>

definition overlapping_reserved_range ::
  "PhysicalMemoryManager \<Rightarrow> PhysicalAddress \<Rightarrow> PhysicalAddress \<Rightarrow> ReservedRange option" where
  "overlapping_reserved_range pmm s e =
     fold (\<lambda>r best.
         case best of
           None \<Rightarrow> Some r
         | Some b \<Rightarrow> if range_start b \<le> range_start r then Some r else Some b)
       (filter (\<lambda>r. ranges_overlap s e (range_start r) (range_end r))
          (take (reserved_count pmm) (reserved_ranges pmm))) None"

definition is_reserved :: "PhysicalMemoryManager \<Rightarrow> PhysicalAddress \<Rightarrow> bool" where
  "is_reserved pmm physical =
     list_ex (\<lambda>r. range_contains r physical) (take (reserved_count pmm) (reserved_ranges pmm))"

section \<open>Construction\<close>

lemma overlapping_reserved_range_SomeD:
  assumes "overlapping_reserved_range pmm s e = Some r"
  shows "ranges_overlap s e (range_start r) (range_end r)"
proof -
  have fold: "fold (\<lambda>r best. case best of None \<Rightarrow> Some r
        | Some b \<Rightarrow> if range_start b \<le> range_start r then Some r else Some b) rs best = Some r
      \<Longrightarrow> r \<in> set rs \<or> best = Some r" for rs best
    by (induction rs arbitrary: best) (auto split: option.splits if_splits)
  from fold [OF assms [unfolded overlapping_reserved_range_def]] show ?thesis
    by simp
qed

function metadata_search ::
  "PhysicalMemoryManager \<Rightarrow> usize \<Rightarrow> PhysicalAddress \<Rightarrow> PhysicalAddress \<Rightarrow> (InitError + PhysicalAddress option) panics"
where
  "metadata_search pmm metadata_bytes minimum_end candidate_start =
     (case checked_add candidate_start metadata_bytes of
        None \<Rightarrow> Inr (Inl ArithmeticOverflow)
      | Some candidate_end \<Rightarrow>
          (case overlapping_reserved_range pmm candidate_start candidate_end of
             None \<Rightarrow> Inr (Inr (Some candidate_start))
           | Some overlap \<Rightarrow>
               (let new_end = align_down (range_start overlap) in
                if new_end < minimum_end then Inr (Inr None)
                else if metadata_bytes \<le> new_end
                then metadata_search pmm metadata_bytes minimum_end (new_end - metadata_bytes)
                else Inl ''attempt to subtract with overflow'')))"
  by pat_completeness auto
termination
proof (relation "measure (\<lambda>(pmm, mb, me, cs). unat cs)")
  fix pmm mb me cs ce overlap new_end
  assume "checked_add cs mb = Some ce" and "overlapping_reserved_range pmm cs ce = Some overlap"
    and "new_end = align_down (range_start overlap)" and "mb \<le> new_end"
  then have "unat ce = unat cs + unat mb" and "range_start overlap < ce"
    and "new_end \<le> range_start overlap" and "unat (new_end - mb) = unat new_end - unat mb"
    and "unat mb \<le> unat new_end"
    using overlapping_reserved_range_SomeD align_down_le
    by (auto simp: checked_add_eq_Some ranges_overlap_def unat_sub word_le_nat_alt)
  then show "((pmm, mb, me, new_end - mb), pmm, mb, me, cs) \<in> measure (\<lambda>(pmm, mb, me, cs). unat cs)"
    by (auto simp: word_le_nat_alt word_less_nat_alt)
qed auto

declare metadata_search.simps [simp del]

definition find_metadata_range ::
  "PhysicalMemoryManager \<Rightarrow> PhysicalAddress \<Rightarrow> usize \<Rightarrow> usize \<Rightarrow> (InitError + PhysicalAddress option) panics"
where
  "find_metadata_range pmm base n_pages metadata_pages =
     (if metadata_pages = 0 \<or> n_pages < metadata_pages then Inr (Inr None)
      else
        (case checked_mul metadata_pages PAGE_SIZE of
           None \<Rightarrow> Inr (Inl ArithmeticOverflow)
         | Some metadata_bytes \<Rightarrow>
        (case checked_mul n_pages PAGE_SIZE of
           None \<Rightarrow> Inr (Inl ArithmeticOverflow)
         | Some arena_bytes \<Rightarrow>
        (case checked_add base arena_bytes of
           None \<Rightarrow> Inr (Inl ArithmeticOverflow)
         | Some arena_end \<Rightarrow>
        (case checked_add base metadata_bytes of
           None \<Rightarrow> Inr (Inl ArithmeticOverflow)
         | Some minimum_end \<Rightarrow>
             bind_panic (sub_words arena_end metadata_bytes) (\<lambda>candidate_start.
             metadata_search pmm metadata_bytes minimum_end candidate_start))))))"

text \<open>The \<open>?\<close> operator of the functions that return \<open>Result<_, InitError>\<close> and change the manager.\<close>

type_synonym 'a init = "((InitError + 'a) \<times> PhysicalMemoryManager) panics"

definition bind_init :: "'a init \<Rightarrow> ('a \<Rightarrow> PhysicalMemoryManager \<Rightarrow> 'b init) \<Rightarrow> 'b init" where
  "bind_init m f =
     bind_panic m (\<lambda>(r, pmm). case r of Inl e \<Rightarrow> Inr (Inl e, pmm) | Inr x \<Rightarrow> f x pmm)"

text \<open>The loop that writes the metadata of a new arena.\<close>

definition write_metadata ::
  "PageStorage \<Rightarrow> u8 \<Rightarrow> nat \<Rightarrow> nat \<Rightarrow> PhysicalMemoryManager \<Rightarrow> PhysicalMemoryManager" where
  "write_metadata storage arena_index metadata_page_start metadata_page_end pmm =
     fold (\<lambda>index.
         modify_page (storage_ptr storage, index)
           (\<lambda>_. Page_new arena_index
                  (if metadata_page_start \<le> index \<and> index < metadata_page_end then Reserved
                   else Free)))
       [0..<storage_len storage] pmm"

definition init_arena ::
  "PhysicalMemoryManager \<Rightarrow> MemoryRegion \<Rightarrow> u8 \<Rightarrow> (PhysicalAddress \<Rightarrow> VirtualAddress) \<Rightarrow> Arena option init"
where
  "init_arena pmm region arena_index physical_to_virtual =
     (case align_up (region_base region) of
        None \<Rightarrow> Inr (Inl ArithmeticOverflow, pmm)
      | Some aligned_base \<Rightarrow>
     (case region_end region of
        None \<Rightarrow> Inr (Inl ArithmeticOverflow, pmm)
      | Some end_of_region \<Rightarrow>
     if end_of_region \<le> aligned_base then Inr (Inr None, pmm)
     else
       bind_panic (sub_words (align_down end_of_region) aligned_base) (\<lambda>aligned_size.
       let n_pages = aligned_size div PAGE_SIZE in
       if n_pages = 0 then Inr (Inr None, pmm)
       else if 0xffffffff < n_pages then Inr (Inl PageIndexTooLarge, pmm)
       else
         (case checked_mul n_pages PAGE_METADATA_SIZE of
            None \<Rightarrow> Inr (Inl ArithmeticOverflow, pmm)
          | Some metadata_bytes \<Rightarrow>
              (let metadata_pages = div_ceil metadata_bytes PAGE_SIZE in
               if n_pages \<le> metadata_pages then Inr (Inl MetadataTooLarge, pmm)
               else
                 bind_panic (find_metadata_range pmm aligned_base n_pages metadata_pages) (\<lambda>found.
                 case found of
                   Inl e \<Rightarrow> Inr (Inl e, pmm)
                 | Inr None \<Rightarrow> Inr (Inl MetadataAddressUnavailable, pmm)
                 | Inr (Some metadata_physical) \<Rightarrow>
                     (let metadata_virtual = physical_to_virtual metadata_physical in
                      if metadata_virtual = 0 then Inr (Inl AddressNotMapped, pmm)
                      else
                        (let storage = \<lparr>storage_ptr = metadata_virtual, storage_len = unat n_pages,
                                        storage_arena_index = arena_index\<rparr> in
                         bind_panic (sub_words metadata_physical aligned_base) (\<lambda>metadata_offset.
                         let metadata_page_start = unat (metadata_offset div PAGE_SIZE);
                             metadata_page_end = metadata_page_start + unat metadata_pages;
                             pmm = write_metadata storage arena_index
                                     metadata_page_start metadata_page_end pmm
                         in bind_panic (mul_words metadata_pages PAGE_SIZE) (\<lambda>metadata_size.
                            case checked_add metadata_physical metadata_size of
                              None \<Rightarrow> Inr (Inl ArithmeticOverflow, pmm)
                            | Some metadata_end \<Rightarrow>
                                bind_init (Inr (record_reserved pmm metadata_physical metadata_end))
                                  (\<lambda>_ pmm.
                                bind_panic (sub_words n_pages metadata_pages) (\<lambda>usable.
                                case checked_add (total_pages pmm) usable of
                                  None \<Rightarrow> Inr (Inl ArithmeticOverflow, pmm)
                                | Some new_total \<Rightarrow>
                                    Inr (Inr (Some \<lparr>arena_base = aligned_base,
                                                    page_count = unat n_pages,
                                                    arena_pages = storage\<rparr>),
                                         pmm\<lparr>total_pages := new_total\<rparr>)))))))))))))"

definition reserve_kernel ::
  "PhysicalMemoryManager \<Rightarrow> PhysicalAddress \<Rightarrow> PhysicalAddress \<Rightarrow> (InitError + unit) \<times> PhysicalMemoryManager"
where
  "reserve_kernel pmm kernel_start kernel_end =
     (case checked_add kernel_start KERNEL_RESERVE_PAD of
        None \<Rightarrow> (Inl ArithmeticOverflow, pmm)
      | Some padded_end \<Rightarrow> record_reserved pmm kernel_start (max kernel_end padded_end))"

definition reserve_device_tree ::
  "PhysicalMemoryManager \<Rightarrow> HardwareInfo \<Rightarrow> (InitError + unit) \<times> PhysicalMemoryManager" where
  "reserve_device_tree pmm info =
     (if dtb_phys info = 0 \<or> dtb_size info = 0 then (Inr (), pmm)
      else
        (case Option.bind (checked_add (dtb_phys info) (dtb_size info)) align_up of
           None \<Rightarrow> (Inl ArithmeticOverflow, pmm)
         | Some e \<Rightarrow> record_reserved pmm (dtb_phys info) e))"

fun reserve_regions ::
  "PhysicalMemoryManager \<Rightarrow> MemoryRegion list \<Rightarrow> (InitError + unit) \<times> PhysicalMemoryManager" where
  "reserve_regions pmm [] = (Inr (), pmm)"
| "reserve_regions pmm (region # rest) =
     (if region_size region = 0 then reserve_regions pmm rest
      else
        (case region_end region of
           None \<Rightarrow> (Inl ArithmeticOverflow, pmm)
         | Some e \<Rightarrow>
             (case record_reserved pmm (region_base region) e of
                (Inl err, pmm) \<Rightarrow> (Inl err, pmm)
              | (Inr _, pmm) \<Rightarrow> reserve_regions pmm rest)))"

definition reserve_firmware_regions ::
  "PhysicalMemoryManager \<Rightarrow> HardwareInfo \<Rightarrow> (InitError + unit) \<times> PhysicalMemoryManager" where
  "reserve_firmware_regions pmm info = reserve_regions pmm (reserved_regions info)"

text \<open>One range against one arena: the pages it intersects become reserved.\<close>

definition mark_range_in_arena ::
  "ReservedRange \<Rightarrow> Arena \<Rightarrow> PhysicalMemoryManager \<Rightarrow> PhysicalMemoryManager panics" where
  "mark_range_in_arena rng a pmm =
     bind_panic (mul_words (of_nat (page_count a)) PAGE_SIZE) (\<lambda>arena_bytes.
     case checked_add (arena_base a) arena_bytes of
       None \<Rightarrow> Inr pmm
     | Some arena_end \<Rightarrow>
         if range_end rng \<le> arena_base a \<or> arena_end \<le> range_start rng then Inr pmm
         else
           (let s = max (range_start rng) (arena_base a);
                e = min (range_end rng) arena_end
            in bind_panic (sub_words s (arena_base a)) (\<lambda>start_offset.
               bind_panic (sub_words e (arena_base a)) (\<lambda>end_offset.
               let start_index = unat (start_offset div PAGE_SIZE);
                   end_index = unat (div_ceil end_offset PAGE_SIZE)
               in Inr (fold (\<lambda>index pmm.
                      case page_mut a (PageHandle_new (arena_index_of a) (of_nat index)) of
                        None \<Rightarrow> pmm
                      | Some slot \<Rightarrow> modify_page slot (\<lambda>p. p\<lparr>page_state := Reserved\<rparr>) pmm)
                    [start_index..<min end_index (page_count a)] pmm)))))"

fun mark_all ::
  "(ReservedRange \<times> Arena) list \<Rightarrow> PhysicalMemoryManager \<Rightarrow> PhysicalMemoryManager panics" where
  "mark_all [] pmm = Inr pmm"
| "mark_all ((rng, a) # rest) pmm =
     bind_panic (mark_range_in_arena rng a pmm) (\<lambda>pmm. mark_all rest pmm)"

definition mark_reserved_ranges :: "PhysicalMemoryManager \<Rightarrow> PhysicalMemoryManager panics" where
  "mark_reserved_ranges pmm =
     mark_all (List.product (take (reserved_count pmm) (reserved_ranges pmm))
                 (take (arena_count pmm) (arenas pmm))) pmm"

fun build_free_list_arena ::
  "Arena \<Rightarrow> nat list \<Rightarrow> PhysicalMemoryManager \<Rightarrow> PhysicalMemoryManager panics" where
  "build_free_list_arena a [] pmm = Inr pmm"
| "build_free_list_arena a (index # rest) pmm =
     (let handle = PageHandle_new (arena_index_of a) (of_nat index) in
      case page_mut a handle of
        None \<Rightarrow> build_free_list_arena a rest pmm
      | Some slot \<Rightarrow>
          if page_state (page_memory pmm slot) = Reserved then build_free_list_arena a rest pmm
          else if is_reserved pmm (case page_to_physical a handle of None \<Rightarrow> 0 | Some p \<Rightarrow> p)
          then build_free_list_arena a rest
                 (modify_page slot (\<lambda>p. p\<lparr>page_state := Reserved\<rparr>) pmm)
          else
            bind_panic (push_free (modify_page slot (\<lambda>p. p\<lparr>page_state := Free\<rparr>) pmm) handle) (\<lambda>pmm.
            build_free_list_arena a rest (pmm\<lparr>free_pages := free_pages pmm + 1\<rparr>)))"

fun build_free_list_arenas :: "Arena list \<Rightarrow> PhysicalMemoryManager \<Rightarrow> PhysicalMemoryManager panics" where
  "build_free_list_arenas [] pmm = Inr pmm"
| "build_free_list_arenas (a # rest) pmm =
     bind_panic (build_free_list_arena a [0..<page_count a] pmm) (build_free_list_arenas rest)"

definition build_free_list :: "PhysicalMemoryManager \<Rightarrow> PhysicalMemoryManager panics" where
  "build_free_list pmm =
     build_free_list_arenas (take (arena_count pmm) (arenas pmm))
       (pmm\<lparr>free_head := PageHandle_NONE, free_tail := PageHandle_NONE, free_pages := 0\<rparr>)"

fun init_arenas ::
  "MemoryRegion list \<Rightarrow> (PhysicalAddress \<Rightarrow> VirtualAddress) \<Rightarrow> PhysicalMemoryManager \<Rightarrow> unit init" where
  "init_arenas [] physical_to_virtual pmm = Inr (Inr (), pmm)"
| "init_arenas (region # rest) physical_to_virtual pmm =
     (if length (arenas pmm) \<le> arena_count pmm then Inr (Inr (), pmm)
      else
        bind_init (init_arena pmm region (of_nat (arena_count pmm)) physical_to_virtual) (\<lambda>found pmm.
        case found of
          None \<Rightarrow> init_arenas rest physical_to_virtual pmm
        | Some a \<Rightarrow>
            init_arenas rest physical_to_virtual
              (pmm\<lparr>arenas := (arenas pmm)[arena_count pmm := a],
                   arena_count := arena_count pmm + 1\<rparr>)))"

definition pmm_empty :: "(page_slot \<Rightarrow> Page) \<Rightarrow> PhysicalMemoryManager" where
  "pmm_empty memory =
     \<lparr>arenas = replicate MAX_MEMORY_ARENAS Arena_EMPTY, arena_count = 0,
      reserved_ranges = replicate MAX_RESERVED_REGIONS ReservedRange_EMPTY, reserved_count = 0,
      free_head = PageHandle_NONE, free_tail = PageHandle_NONE, total_pages = 0, free_pages = 0,
      initialized = False, page_memory = memory\<rparr>"

definition pmm_reset :: "PhysicalMemoryManager \<Rightarrow> PhysicalMemoryManager" where
  "pmm_reset pmm = pmm_empty (page_memory pmm)"

definition pmm_init ::
  "PhysicalMemoryManager \<Rightarrow> HardwareInfo \<Rightarrow> PhysicalAddress \<Rightarrow> PhysicalAddress \<Rightarrow>
   (PhysicalAddress \<Rightarrow> VirtualAddress) \<Rightarrow> unit init" where
  "pmm_init pmm info kernel_start kernel_end physical_to_virtual =
     (let pmm = pmm_reset pmm in
      if dropped_reserved_regions info \<noteq> 0 then Inr (Inl DroppedReservedRegions, pmm)
      else
        bind_init (Inr (validate_memory_regions (memory_regions info), pmm)) (\<lambda>_ pmm.
        bind_init (Inr (reserve_kernel pmm kernel_start kernel_end)) (\<lambda>_ pmm.
        bind_init (Inr (reserve_device_tree pmm info)) (\<lambda>_ pmm.
        bind_init (Inr (reserve_firmware_regions pmm info)) (\<lambda>_ pmm.
        bind_init (init_arenas (memory_regions info) physical_to_virtual pmm) (\<lambda>_ pmm.
        if arena_count pmm = 0 then Inr (Inl NoMemoryRegions, pmm)
        else
          bind_panic (mark_reserved_ranges pmm) (\<lambda>pmm.
          bind_panic (build_free_list pmm) (\<lambda>pmm.
          Inr (Inr (), pmm\<lparr>initialized := True\<rparr>)))))))))"

section \<open>Entry points\<close>

definition assert_initialized :: "PhysicalMemoryManager \<Rightarrow> unit panics" where
  "assert_initialized pmm = (if initialized pmm then Inr () else Inl ''pmm: not initialized'')"

definition pmm_alloc_page ::
  "PhysicalMemoryManager \<Rightarrow> (PageHandle option \<times> PhysicalMemoryManager) panics" where
  "pmm_alloc_page pmm = bind_panic (assert_initialized pmm) (\<lambda>_. alloc_page pmm)"

definition free_page_handle ::
  "PhysicalMemoryManager \<Rightarrow> PageHandle \<Rightarrow> PhysicalMemoryManager panics" where
  "free_page_handle pmm page = bind_panic (assert_initialized pmm) (\<lambda>_. free_page pmm page)"

definition pmm_alloc_contiguous ::
  "PhysicalMemoryManager \<Rightarrow> nat \<Rightarrow> u8 \<Rightarrow> (PageRun option \<times> PhysicalMemoryManager) panics" where
  "pmm_alloc_contiguous pmm cnt alignment_log2 =
     bind_panic (assert_initialized pmm) (\<lambda>_. alloc_contiguous pmm cnt alignment_log2)"

definition free_contiguous_parts ::
  "PhysicalMemoryManager \<Rightarrow> PageHandle \<Rightarrow> nat \<Rightarrow> ((FreeContiguousError + unit) \<times> PhysicalMemoryManager) panics"
where
  "free_contiguous_parts pmm head cnt =
     bind_panic (assert_initialized pmm) (\<lambda>_. free_contiguous pmm head cnt)"

definition page_to_physical_handle ::
  "PhysicalMemoryManager \<Rightarrow> PageHandle \<Rightarrow> PhysicalAddress option panics" where
  "page_to_physical_handle pmm page =
     bind_panic (assert_initialized pmm) (\<lambda>_.
     Inr (Option.bind (arena_for pmm page) (\<lambda>a. page_to_physical a page)))"

definition free_physical_page ::
  "PhysicalMemoryManager \<Rightarrow> PhysicalAddress \<Rightarrow> PhysicalMemoryManager panics" where
  "free_physical_page pmm physical =
     bind_panic (assert_initialized pmm) (\<lambda>_.
     bind_panic (expect ''pmm: physical page not managed by PMM''
                   (Option.bind (arena_for_physical pmm physical)
                      (\<lambda>a. physical_to_page a physical))) (\<lambda>handle.
     free_page pmm handle))"

text \<open>The address of page \<open>index\<close> of a run, and what dropping a run does.\<close>

definition PageRun_physical_address ::
  "PhysicalMemoryManager \<Rightarrow> PageRun \<Rightarrow> nat \<Rightarrow> PhysicalAddress option panics" where
  "PageRun_physical_address pmm run index =
     (if run_count run \<le> index then Inr None
      else if \<not> index < 2 ^ 32 then Inr None
      else
        (case checked_add (handle_page (run_head run)) (of_nat index) of
           None \<Rightarrow> Inr None
         | Some page_index \<Rightarrow>
             page_to_physical_handle pmm (PageHandle_new (handle_arena (run_head run)) page_index)))"

definition PageRun_drop :: "PhysicalMemoryManager \<Rightarrow> PageRun \<Rightarrow> PhysicalMemoryManager panics" where
  "PageRun_drop pmm run =
     (if run_count run = 0 then Inr pmm
      else bind_panic (free_contiguous_parts pmm (run_head run) (run_count run))
             (\<lambda>(_, pmm). Inr pmm))"

end
