(* ===== verification/Pmm_Ranges.thy ===== *)
theory Pmm_Ranges
  imports Pmm
begin

text \<open>
  The reserved ranges of the page allocator and the placement of arena metadata. The live ranges are
  the first \<open>reserved_count\<close> entries of the table; \<open>reserved_ok\<close> says that they are non-empty and
  that no two of them overlap or touch. Recording a range keeps that and adds exactly its bytes. The
  metadata search returns the highest free page-aligned span of an arena.
\<close>

section \<open>Live ranges\<close>

definition live_ranges :: "PhysicalMemoryManager \<Rightarrow> ReservedRange list" where
  "live_ranges pmm = take (reserved_count pmm) (reserved_ranges pmm)"

definition range_bytes :: "ReservedRange \<Rightarrow> PhysicalAddress set" where
  "range_bytes r = {x. range_contains r x}"

definition reserved_bytes :: "PhysicalMemoryManager \<Rightarrow> PhysicalAddress set" where
  "reserved_bytes pmm = (\<Union>r \<in> set (live_ranges pmm). range_bytes r)"

definition touches :: "ReservedRange \<Rightarrow> ReservedRange \<Rightarrow> bool" where
  "touches a b \<longleftrightarrow> ranges_overlap_or_touch (range_start a) (range_end a) (range_start b) (range_end b)"

definition nonempty :: "ReservedRange \<Rightarrow> bool" where
  "nonempty r \<longleftrightarrow> range_start r < range_end r"

definition apart :: "ReservedRange list \<Rightarrow> bool" where
  "apart rs \<longleftrightarrow> (\<forall>r \<in> set rs. nonempty r) \<and> sorted_wrt (\<lambda>a b. \<not> touches a b) rs"

definition reserved_ok :: "PhysicalMemoryManager \<Rightarrow> bool" where
  "reserved_ok pmm \<longleftrightarrow>
     length (reserved_ranges pmm) = MAX_RESERVED_REGIONS \<and>
     reserved_count pmm \<le> MAX_RESERVED_REGIONS \<and> apart (live_ranges pmm)"

lemma touches_sym: "touches a b = touches b a"
  by (auto simp: touches_def ranges_overlap_or_touch_def)

lemma touches_unfold: "touches a b \<longleftrightarrow> range_start a \<le> range_end b \<and> range_start b \<le> range_end a"
  by (simp add: touches_def ranges_overlap_or_touch_def)

lemma range_bytes_unfold: "range_bytes r = {range_start r..<range_end r}"
  by (auto simp: range_bytes_def range_contains_def)

lemma length_live_ranges: "reserved_ok pmm \<Longrightarrow> length (live_ranges pmm) = reserved_count pmm"
  by (simp add: reserved_ok_def live_ranges_def)

section \<open>Removing and merging\<close>

lemma shift_down:
  "i \<le> m \<Longrightarrow> m < length rs \<Longrightarrow>
   fold (\<lambda>c rs. rs[c := rs ! (c + 1)]) [i..<m] rs =
     take i rs @ take (m - i) (drop (Suc i) rs) @ drop m rs"
proof (induction m)
  case (Suc m)
  show ?case
  proof (cases "i = Suc m")
    case False
    then have i: "i \<le> m" and m: "Suc m < length rs"
      using Suc.prems by simp_all
    define x where "x = take i rs @ take (m - i) (drop (Suc i) rs)"
    have len: "length x = m"
      using i m by (simp add: x_def)
    have d: "drop m rs = rs ! m # rs ! Suc m # drop (Suc (Suc m)) rs"
        "drop (Suc m) rs = rs ! Suc m # drop (Suc (Suc m)) rs"
      using m by (simp_all add: Cons_nth_drop_Suc)
    have "(x @ a # b # ys)[length x := (x @ a # b # ys) ! (length x + 1)] = x @ [b] @ b # ys" for a b ys
      by (simp add: nth_append)
    then have "(x @ drop m rs)[m := (x @ drop m rs) ! (m + 1)] = x @ [rs ! Suc m] @ drop (Suc m) rs"
      unfolding d len by blast
    moreover have "take (Suc m - i) (drop (Suc i) rs) = take (m - i) (drop (Suc i) rs) @ [rs ! Suc m]"
      using i m by (simp add: Suc_diff_le take_Suc_conv_app_nth)
    moreover have "fold (\<lambda>c rs. rs[c := rs ! (c + 1)]) [i..<m] rs = x @ drop m rs"
      using Suc.IH i m by (simp add: x_def)
    ultimately show ?thesis
      using i by (simp add: x_def)
  qed simp
qed simp

lemma remove_reserved_live:
  assumes "reserved_ok pmm" "index < reserved_count pmm"
  shows "live_ranges (remove_reserved pmm index) =
      take index (live_ranges pmm) @ drop (Suc index) (live_ranges pmm)"
    and "length (reserved_ranges (remove_reserved pmm index)) = length (reserved_ranges pmm)"
    and "reserved_count (remove_reserved pmm index) = reserved_count pmm - 1"
proof -
  let ?rs = "reserved_ranges pmm" and ?m = "reserved_count pmm - 1"
  have m: "index \<le> ?m" "?m < length ?rs"
    using assms by (auto simp: reserved_ok_def)
  define y where "y = take index ?rs @ take (?m - index) (drop (Suc index) ?rs)"
  have len: "length y = ?m"
    using m by (simp add: y_def)
  have "take ?m (fold (\<lambda>c rs. rs[c := rs ! (c + 1)]) [index..<?m] ?rs) = take (length y) (y @ drop ?m ?rs)"
    using shift_down [OF m] by (simp only: y_def append_assoc len [unfolded y_def])
  then have "take ?m (fold (\<lambda>c rs. rs[c := rs ! (c + 1)]) [index..<?m] ?rs) = y"
    by simp
  moreover have "take index (live_ranges pmm) @ drop (Suc index) (live_ranges pmm) = y"
    using assms m by (simp add: live_ranges_def drop_take min_def y_def)
  ultimately show "live_ranges (remove_reserved pmm index) =
      take index (live_ranges pmm) @ drop (Suc index) (live_ranges pmm)"
    by (simp add: remove_reserved_def Let_def live_ranges_def)
  have "length (fold (\<lambda>c rs. rs[c := rs ! (c + 1)]) xs ys) = length ys"
    for xs and ys :: "ReservedRange list"
    by (induction xs arbitrary: ys) auto
  then show "length (reserved_ranges (remove_reserved pmm index)) = length ?rs"
    by (simp add: remove_reserved_def Let_def)
  show "reserved_count (remove_reserved pmm index) = reserved_count pmm - 1"
    by (simp add: remove_reserved_def Let_def)
qed

definition hull :: "ReservedRange \<Rightarrow> ReservedRange \<Rightarrow> ReservedRange" where
  "hull a b = \<lparr>range_start = min (range_start a) (range_start b),
               range_end = max (range_end a) (range_end b)\<rparr>"

lemma hull_nonempty: "nonempty a \<Longrightarrow> nonempty (hull a b)"
  by (auto simp: nonempty_def hull_def min_def max_def)

lemma hull_bytes:
  assumes "touches a b" "nonempty a" "nonempty b"
  shows "range_bytes (hull a b) = range_bytes a \<union> range_bytes b"
  using assms by (auto simp: range_bytes_unfold hull_def touches_unfold nonempty_def min_def max_def)

lemma hull_touches:
  assumes "touches a b" "nonempty a" "nonempty b" "nonempty g" "\<not> touches b g"
  shows "touches (hull a b) g \<longleftrightarrow> touches a g"
  using assms by (auto simp: hull_def touches_unfold nonempty_def min_def max_def)

lemma apart_nth:
  assumes "apart rs" "i < length rs" "j < length rs" "i \<noteq> j"
  shows "\<not> touches (rs ! i) (rs ! j)"
proof (cases "i < j")
  case True
  then show ?thesis
    using assms by (simp add: apart_def sorted_wrt_iff_nth_less)
next
  case False
  then have "\<not> touches (rs ! j) (rs ! i)"
    using assms by (simp add: apart_def sorted_wrt_iff_nth_less)
  then show ?thesis
    by (simp add: touches_sym)
qed

lemma apart_filter: "apart rs \<Longrightarrow> apart (filter P rs)"
  by (simp add: apart_def sorted_wrt_filter)

lemma apart_remove: "apart (xs @ r # ys) \<Longrightarrow> apart (xs @ ys)"
  by (auto simp: apart_def sorted_wrt_append)

text \<open>Managers that differ only in the table of reserved ranges.\<close>

definition ranges_only :: "PhysicalMemoryManager \<Rightarrow> PhysicalMemoryManager \<Rightarrow> bool" where
  "ranges_only pmm pmm' \<longleftrightarrow>
     pmm' = pmm\<lparr>reserved_ranges := reserved_ranges pmm', reserved_count := reserved_count pmm'\<rparr>"

lemma ranges_only_refl [simp]: "ranges_only pmm pmm"
  by (simp add: ranges_only_def)

lemma ranges_only_simps:
  assumes "ranges_only pmm pmm'"
  shows "arenas pmm' = arenas pmm" "arena_count pmm' = arena_count pmm"
    "free_head pmm' = free_head pmm" "free_tail pmm' = free_tail pmm"
    "total_pages pmm' = total_pages pmm" "free_pages pmm' = free_pages pmm"
    "initialized pmm' = initialized pmm" "page_memory pmm' = page_memory pmm"
proof -
  have eq: "pmm' = pmm\<lparr>reserved_ranges := reserved_ranges pmm', reserved_count := reserved_count pmm'\<rparr>"
    using assms by (simp only: ranges_only_def)
  show "arenas pmm' = arenas pmm" "arena_count pmm' = arena_count pmm"
    "free_head pmm' = free_head pmm" "free_tail pmm' = free_tail pmm"
    "total_pages pmm' = total_pages pmm" "free_pages pmm' = free_pages pmm"
    "initialized pmm' = initialized pmm" "page_memory pmm' = page_memory pmm"
    by (subst eq, simp)+
qed

lemma ranges_onlyI:
  assumes "arenas pmm' = arenas pmm" "arena_count pmm' = arena_count pmm"
    "free_head pmm' = free_head pmm" "free_tail pmm' = free_tail pmm"
    "total_pages pmm' = total_pages pmm" "free_pages pmm' = free_pages pmm"
    "initialized pmm' = initialized pmm" "page_memory pmm' = page_memory pmm"
  shows "ranges_only pmm pmm'"
  unfolding ranges_only_def using assms by (cases pmm; cases pmm'; simp)

lemma ranges_only_trans:
  assumes "ranges_only a b" "ranges_only b c"
  shows "ranges_only a c"
  by (rule ranges_onlyI) (simp_all add: ranges_only_simps [OF assms(1)] ranges_only_simps [OF assms(2)])

lemma remove_reserved_ranges_only: "ranges_only pmm (remove_reserved pmm index)"
  by (rule ranges_onlyI) (simp_all add: remove_reserved_def Let_def)

lemma merge_step:
  assumes ok: "reserved_ok pmm" and rng: "nonempty rng" and i: "index < reserved_count pmm"
    and t: "touches rng (live_ranges pmm ! index)"
    and p: "p = remove_reserved pmm index" and r: "r = hull rng (live_ranges pmm ! index)"
  shows "reserved_ok p" "nonempty r"
    "\<And>g. g \<in> set (live_ranges p) \<Longrightarrow> touches r g \<longleftrightarrow> touches rng g"
    "filter (\<lambda>g. \<not> touches rng g) (live_ranges p) = filter (\<lambda>g. \<not> touches rng g) (live_ranges pmm)"
    "range_bytes r \<union> reserved_bytes p = range_bytes rng \<union> reserved_bytes pmm"
proof -
  let ?L = "live_ranges pmm" and ?e = "live_ranges pmm ! index"
  have len: "index < length ?L"
    using i length_live_ranges [OF ok] by simp
  have L: "?L = take index ?L @ ?e # drop (Suc index) ?L"
    using len by (rule id_take_nth_drop)
  have L': "live_ranges p = take index ?L @ drop (Suc index) ?L"
    using remove_reserved_live(1) [OF ok i] by (simp add: p)
  have ap: "apart ?L"
    using ok by (simp add: reserved_ok_def)
  have "apart (live_ranges p)"
    using apart_remove [of "take index ?L" ?e "drop (Suc index) ?L"] ap L L' by simp
  then show "reserved_ok p"
    using ok remove_reserved_live(2,3) [OF ok i] by (auto simp: reserved_ok_def p)
  have ne: "nonempty ?e" "\<And>g. g \<in> set ?L \<Longrightarrow> nonempty g"
    using ap len by (auto simp: apart_def)
  show "nonempty r"
    using rng by (simp add: r hull_nonempty)
  have sub: "set (live_ranges p) \<subseteq> set ?L"
    using L' set_take_subset [of index ?L] set_drop_subset [of "Suc index" ?L] by auto
  have "\<not> touches ?e g" if "g \<in> set (live_ranges p)" for g
    using ap L that L' unfolding apart_def
    by (metis (no_types, lifting) sorted_wrt_append sorted_wrt.simps(2) Un_iff set_append
        touches_sym list.set_intros(1))
  then show "touches r g \<longleftrightarrow> touches rng g" if "g \<in> set (live_ranges p)" for g
    using hull_touches [OF t rng ne(1)] ne(2) sub that by (auto simp: r)
  have "filter (\<lambda>g. \<not> touches rng g) ?L =
      filter (\<lambda>g. \<not> touches rng g) (take index ?L @ ?e # drop (Suc index) ?L)"
    using L by simp
  then show "filter (\<lambda>g. \<not> touches rng g) (live_ranges p) = filter (\<lambda>g. \<not> touches rng g) ?L"
    using t by (simp add: L')
  have "set ?L = insert ?e (set (live_ranges p))"
    using arg_cong [OF L, of set] by (simp add: L')
  then show "range_bytes r \<union> reserved_bytes p = range_bytes rng \<union> reserved_bytes pmm"
    using hull_bytes [OF t rng ne(1)] by (auto simp: reserved_bytes_def r)
qed

lemma merge_reserved_spec:
  assumes "reserved_ok pmm" "nonempty rng" "merge_reserved pmm rng index = (rng', pmm')"
    and "index \<le> reserved_count pmm"
    and "\<And>i. i < index \<Longrightarrow> \<not> touches rng (live_ranges pmm ! i)"
  shows "live_ranges pmm' = filter (\<lambda>g. \<not> touches rng g) (live_ranges pmm) \<and> reserved_ok pmm' \<and>
    nonempty rng' \<and> (\<forall>g \<in> set (live_ranges pmm'). \<not> touches rng' g) \<and>
    range_bytes rng' \<union> reserved_bytes pmm' = range_bytes rng \<union> reserved_bytes pmm \<and>
    ranges_only pmm pmm' \<and>
    ((\<forall>g \<in> set (live_ranges pmm). \<not> touches rng g) \<longrightarrow> pmm' = pmm)"
  using assms
proof (induction pmm rng index rule: merge_reserved.induct)
  case (1 pmm rng index)
  let ?L = "live_ranges pmm"
  note len = length_live_ranges [OF "1.prems"(1)]
  show ?case
  proof (cases "index < reserved_count pmm")
    case False
    then have eq: "rng' = rng" "pmm' = pmm"
      using "1.prems"(3) by (simp_all add: merge_reserved.simps [of pmm])
    have "\<not> touches rng g" if "g \<in> set ?L" for g
      using that "1.prems"(4,5) False len by (auto simp: in_set_conv_nth)
    then show ?thesis
      using "1.prems"(1,2) by (simp add: eq filter_id_conv)
  next
    case True
    have e: "reserved_ranges pmm ! index = ?L ! index"
      using True by (simp add: live_ranges_def)
    show ?thesis
    proof (cases "touches rng (?L ! index)")
      case False
      have "merge_reserved pmm rng (index + 1) = (rng', pmm')"
        using "1.prems"(3) True False e
        by (simp add: merge_reserved.simps [of pmm rng index] touches_def)
      from "1.IH"(1) [OF True refl _ "1.prems"(1,2) this] show ?thesis
        using True False "1.prems"(5) e by (simp add: touches_def less_Suc_eq) blast
    next
      case t: True
      define p where "p = remove_reserved pmm index"
      define r where "r = hull rng (?L ! index)"
      note s = merge_step [OF "1.prems"(1,2) True t p_def r_def]
      have m: "merge_reserved p r index = (rng', pmm')"
        using "1.prems"(3) True t e
        by (simp add: merge_reserved.simps [of pmm rng index] touches_def p_def r_def hull_def Let_def)
      have c: "reserved_count p = reserved_count pmm - 1"
        using remove_reserved_live(3) [OF "1.prems"(1) True] by (simp add: p_def)
      have first: "\<not> touches r (live_ranges p ! i)" if "i < index" for i
      proof -
        have i: "i < length (live_ranges p)"
          using that c True length_live_ranges [OF s(1)] by simp
        moreover have "live_ranges p ! i = ?L ! i"
          using remove_reserved_live(1) [OF "1.prems"(1) True] that len True
          by (simp add: p_def nth_append)
        ultimately show ?thesis
          using s(3) [OF nth_mem [OF i]] "1.prems"(5) [OF that] by simp
      qed
      have filt: "filter (\<lambda>g. \<not> touches r g) (live_ranges p) = filter (\<lambda>g. \<not> touches rng g) (live_ranges p)"
        using s(3) by (intro filter_cong) auto
      have "?L ! index \<in> set ?L"
        using True len by simp
      then have some: "\<not> (\<forall>g \<in> set ?L. \<not> touches rng g)"
        using t by blast
      have IH: "live_ranges pmm' = filter (\<lambda>g. \<not> touches r g) (live_ranges p) \<and> reserved_ok pmm' \<and>
        nonempty rng' \<and> (\<forall>g \<in> set (live_ranges pmm'). \<not> touches rng' g) \<and>
        range_bytes rng' \<union> reserved_bytes pmm' = range_bytes r \<union> reserved_bytes p \<and>
        ranges_only p pmm' \<and>
        ((\<forall>g \<in> set (live_ranges p). \<not> touches r g) \<longrightarrow> pmm' = p)"
        using "1.IH"(2) [OF True refl] t e s(1,2) m first c True
        by (simp add: touches_def p_def r_def hull_def)
      have "ranges_only pmm pmm'"
        using IH ranges_only_trans [OF remove_reserved_ranges_only, of pmm index pmm']
        unfolding p_def by blast
      moreover have "live_ranges pmm' = filter (\<lambda>g. \<not> touches rng g) ?L"
        using IH filt s(4) by (elim conjE) simp
      moreover have "range_bytes rng' \<union> reserved_bytes pmm' = range_bytes rng \<union> reserved_bytes pmm"
        using IH s(5) by (elim conjE) simp
      ultimately show ?thesis
        using IH some by blast
    qed
  qed
qed

lemma record_reserved_outcome:
  assumes ok: "reserved_ok pmm" and rec: "record_reserved pmm s e = (res, pmm')"
  shows "case res of
      Inr u \<Rightarrow> reserved_ok pmm' \<and> reserved_bytes pmm' = reserved_bytes pmm \<union> {s..<e} \<and> ranges_only pmm pmm'
    | Inl err \<Rightarrow> err = TooManyReservedRanges \<and> pmm' = pmm \<and> s < e \<and>
        reserved_count pmm = MAX_RESERVED_REGIONS \<and>
        (\<forall>r \<in> set (live_ranges pmm). \<not> ranges_overlap_or_touch s e (range_start r) (range_end r))"
proof (cases "s < e")
  case False
  then have "res = Inr ()" "pmm' = pmm" "{s..<e} = {}"
    using rec by (simp_all add: record_reserved_def ReservedRange_new_def)
  then show ?thesis
    using ok by simp
next
  case True
  define rng where "rng = \<lparr>range_start = s, range_end = e\<rparr>"
  have ne: "nonempty rng"
    using True by (simp add: rng_def nonempty_def)
  obtain rng' p where m: "merge_reserved pmm rng 0 = (rng', p)"
    by (cases "merge_reserved pmm rng 0") auto
  have spec: "live_ranges p = filter (\<lambda>g. \<not> touches rng g) (live_ranges pmm)" "reserved_ok p"
      "nonempty rng'" "\<forall>g \<in> set (live_ranges p). \<not> touches rng' g"
      "range_bytes rng' \<union> reserved_bytes p = range_bytes rng \<union> reserved_bytes pmm"
      "ranges_only pmm p" "(\<forall>g \<in> set (live_ranges pmm). \<not> touches rng g) \<longrightarrow> p = pmm"
    using merge_reserved_spec [OF ok ne m] by simp_all
  have len: "length (reserved_ranges p) = MAX_RESERVED_REGIONS" "reserved_count p \<le> MAX_RESERVED_REGIONS"
    using spec(2) by (simp_all add: reserved_ok_def)
  show ?thesis
  proof (cases "reserved_count p = MAX_RESERVED_REGIONS")
    case full: True
    then have r: "res = Inl TooManyReservedRanges" "pmm' = p"
      using rec True m len by (simp_all add: record_reserved_def ReservedRange_new_def rng_def)
    have "length (live_ranges p) = MAX_RESERVED_REGIONS"
      using length_live_ranges [OF spec(2)] full by simp
    moreover have "length (live_ranges pmm) \<le> MAX_RESERVED_REGIONS"
      using length_live_ranges [OF ok] ok by (simp add: reserved_ok_def)
    ultimately have "length (filter (\<lambda>g. \<not> touches rng g) (live_ranges pmm)) = length (live_ranges pmm)"
      using spec(1) length_filter_le [of "\<lambda>g. \<not> touches rng g" "live_ranges pmm"] by simp
    then have none: "\<forall>g \<in> set (live_ranges pmm). \<not> touches rng g"
      by (metis length_filter_less less_irrefl)
    then show ?thesis
      using r spec(7) full True by (auto simp: touches_def rng_def)
  next
    case False
    define p' where "p' = p\<lparr>reserved_ranges := (reserved_ranges p)[reserved_count p := rng'],
      reserved_count := reserved_count p + 1\<rparr>"
    have r: "res = Inr ()" "pmm' = p'"
      using rec True m len False
      by (simp_all add: record_reserved_def ReservedRange_new_def rng_def p'_def)
    have live: "live_ranges p' = live_ranges p @ [rng']"
      using len False by (simp add: live_ranges_def p'_def take_Suc_conv_app_nth)
    have "apart (live_ranges p')"
      using spec(2-4) touches_sym by (auto simp: live apart_def reserved_ok_def sorted_wrt_append)
    then have "reserved_ok p'"
      using len False by (simp add: reserved_ok_def p'_def)
    moreover have "reserved_bytes p' = reserved_bytes pmm \<union> {s..<e}"
      using spec(5) live by (auto simp: reserved_bytes_def range_bytes_unfold rng_def)
    moreover have "ranges_only pmm p'"
      by (rule ranges_onlyI) (simp_all add: p'_def ranges_only_simps [OF spec(6)])
    ultimately show ?thesis
      by (simp add: r)
  qed
qed

section \<open>Metadata placement\<close>

lemma overlapping_None:
  assumes "overlapping_reserved_range pmm s e = None"
  shows "\<forall>r \<in> set (live_ranges pmm). \<not> ranges_overlap s e (range_start r) (range_end r)"
proof -
  let ?f = "\<lambda>r best. case best of None \<Rightarrow> Some r
      | Some b \<Rightarrow> if range_start b \<le> range_start r then Some r else Some b"
  have some: "fold ?f rs (Some b) \<noteq> None" for rs and b :: ReservedRange
    by (induction rs arbitrary: b) simp_all
  have "fold ?f rs None = None \<Longrightarrow> rs = []" for rs :: "ReservedRange list"
    using some by (cases rs) (simp_all del: fold.simps add: fold_Cons)
  then have "filter (\<lambda>r. ranges_overlap s e (range_start r) (range_end r)) (live_ranges pmm) = []"
    using assms unfolding overlapping_reserved_range_def live_ranges_def by blast
  then show ?thesis
    unfolding filter_empty_conv by blast
qed

lemma overlapping_Some_live:
  assumes "overlapping_reserved_range pmm s e = Some r"
  shows "r \<in> set (live_ranges pmm)"
proof -
  have fold: "fold (\<lambda>r best. case best of None \<Rightarrow> Some r
        | Some b \<Rightarrow> if range_start b \<le> range_start r then Some r else Some b) rs best = Some r
      \<Longrightarrow> r \<in> set rs \<or> best = Some r" for rs best
    by (induction rs arbitrary: best) (auto split: option.splits if_splits)
  from fold [OF assms [unfolded overlapping_reserved_range_def]] show ?thesis
    by (simp add: live_ranges_def)
qed

text \<open>The spans the search may return, for metadata of \<open>mb\<close> bytes in the arena \<open>[b, e)\<close>.\<close>

definition metadata_span :: "PhysicalMemoryManager \<Rightarrow> nat \<Rightarrow> nat \<Rightarrow> usize \<Rightarrow> PhysicalAddress \<Rightarrow> bool" where
  "metadata_span pmm b e mb c \<longleftrightarrow>
     is_page_aligned c \<and> b \<le> unat c \<and> unat c + unat mb \<le> e \<and>
     (\<forall>r \<in> set (live_ranges pmm). \<not> ranges_overlap c (c + mb) (range_start r) (range_end r))"

lemma span_below_overlap:
  assumes span: "metadata_span pmm b e mb c" and c: "c \<le> cs" and r: "r \<in> set (live_ranges pmm)"
    and over: "ranges_overlap cs ce (range_start r) (range_end r)" and mb: "4096 dvd unat mb"
    and e: "e < 2 ^ 64"
  shows "unat c + unat mb \<le> unat (align_down (range_start r))"
proof -
  have al: "is_page_aligned c" and end_c: "unat (c + mb) = unat c + unat mb"
    using span e by (auto simp: metadata_span_def unat_add_no_overflow)
  have "c < range_end r"
    using c over order_le_less_trans [of c cs] by (simp add: ranges_overlap_def)
  then have "c + mb \<le> range_start r"
    using span r by (auto simp: metadata_span_def ranges_overlap_def not_less)
  moreover have "is_page_aligned (c + mb)"
  proof -
    obtain q where "unat c = 4096 * q"
      using al by (rule page_aligned_multiple)
    then have "4096 dvd unat c + unat mb"
      using mb by simp
    then show ?thesis
      by (simp add: is_page_aligned_iff end_c mod_eq_0_iff_dvd)
  qed
  ultimately have "c + mb \<le> align_down (range_start r)"
    by (intro align_down_greatest)
  then show ?thesis
    by (simp add: word_le_nat_alt end_c)
qed

lemma metadata_search_spec:
  assumes mb: "4096 dvd unat mb" "0 < unat mb" and e: "e < 2 ^ 64"
    and me: "unat minimum_end = b + unat mb"
  shows "is_page_aligned cs \<Longrightarrow> b \<le> unat cs \<Longrightarrow> unat cs + unat mb \<le> e \<Longrightarrow>
    (\<And>c. metadata_span pmm b e mb c \<Longrightarrow> c \<le> cs) \<Longrightarrow>
    \<exists>r. metadata_search pmm mb minimum_end cs = Inr (Inr r) \<and>
      (case r of
         None \<Rightarrow> \<forall>c. \<not> metadata_span pmm b e mb c
       | Some c \<Rightarrow> metadata_span pmm b e mb c \<and> (\<forall>c'. metadata_span pmm b e mb c' \<longrightarrow> c' \<le> c))"
proof (induction "unat cs" arbitrary: cs rule: less_induct)
  case less
  have ce: "checked_add cs mb = Some (cs + mb)" "unat (cs + mb) = unat cs + unat mb"
    using less.prems(3) e by (simp_all add: checked_add_def unat_add_no_overflow)
  show ?case
  proof (cases "overlapping_reserved_range pmm cs (cs + mb)")
    case None
    then have "metadata_span pmm b e mb cs"
      using overlapping_None [OF None] less.prems by (simp add: metadata_span_def)
    moreover have "metadata_search pmm mb minimum_end cs = Inr (Inr (Some cs))"
      by (simp add: metadata_search.simps [of pmm mb minimum_end cs] ce None)
    ultimately show ?thesis
      using less.prems(4) by auto
  next
    case (Some r)
    define ne where "ne = align_down (range_start r)"
    have over: "ranges_overlap cs (cs + mb) (range_start r) (range_end r)"
      using overlapping_reserved_range_SomeD [OF Some] .
    have below: "unat c + unat mb \<le> unat ne" if "metadata_span pmm b e mb c" for c
      unfolding ne_def using span_below_overlap [OF that less.prems(4) [OF that]
          overlapping_Some_live [OF Some] over mb(1) e] .
    have ne_le: "unat ne < unat cs + unat mb"
      using over align_down_le [of "range_start r"] ce(2)
      by (simp add: ranges_overlap_def ne_def word_le_nat_alt word_less_nat_alt)
    show ?thesis
    proof (cases "ne < minimum_end")
      case True
      then have "\<not> metadata_span pmm b e mb c" for c
        using below [of c] me by (auto simp: word_less_nat_alt metadata_span_def)
      moreover have "metadata_search pmm mb minimum_end cs = Inr (Inr None)"
        using True by (simp add: metadata_search.simps [of pmm mb minimum_end cs] ce Some Let_def ne_def)
      ultimately show ?thesis
        by auto
    next
      case False
      then have lo: "b + unat mb \<le> unat ne"
        using me by (simp add: word_less_nat_alt)
      then have le: "mb \<le> ne"
        by (simp add: word_le_nat_alt)
      then have sub: "unat (ne - mb) = unat ne - unat mb"
        by (rule unat_sub)
      have "is_page_aligned ne"
        by (simp add: ne_def align_down_aligned)
      then obtain q where "unat ne = 4096 * q"
        by (rule page_aligned_multiple)
      then have "4096 dvd unat ne - unat mb"
        using mb(1) by (intro dvd_diff_nat) simp_all
      then have al: "is_page_aligned (ne - mb)"
        by (simp add: is_page_aligned_iff sub mod_eq_0_iff_dvd)
      have "metadata_search pmm mb minimum_end cs = metadata_search pmm mb minimum_end (ne - mb)"
        using False le
        by (simp add: metadata_search.simps [of pmm mb minimum_end cs] ce Some Let_def flip: ne_def)
      moreover have "\<exists>r. metadata_search pmm mb minimum_end (ne - mb) = Inr (Inr r) \<and>
        (case r of
           None \<Rightarrow> \<forall>c. \<not> metadata_span pmm b e mb c
         | Some c \<Rightarrow> metadata_span pmm b e mb c \<and> (\<forall>c'. metadata_span pmm b e mb c' \<longrightarrow> c' \<le> c))"
      proof (rule less.hyps)
        show "unat (ne - mb) < unat cs" "b \<le> unat (ne - mb)" "unat (ne - mb) + unat mb \<le> e"
          using sub lo ne_le less.prems(3) mb(2) by linarith+
        show "c \<le> ne - mb" if "metadata_span pmm b e mb c" for c
          using below [OF that] sub by (simp add: word_le_nat_alt)
      qed (rule al)
      ultimately show ?thesis
        by simp
    qed
  qed
qed

lemma find_metadata_range_spec:
  assumes "is_page_aligned base" and "0 < metadata_pages" and "metadata_pages \<le> n_pages"
    and "unat base + unat n_pages * 4096 < 2 ^ 64"
  shows "\<exists>r. find_metadata_range pmm base n_pages metadata_pages = Inr (Inr r) \<and>
    (let span = metadata_span pmm (unat base) (unat base + unat n_pages * 4096) (metadata_pages * PAGE_SIZE)
     in case r of
          None \<Rightarrow> \<forall>c. \<not> span c
        | Some c \<Rightarrow> span c \<and> (\<forall>c'. span c' \<longrightarrow> c' \<le> c))"
proof -
  let ?mb = "metadata_pages * PAGE_SIZE" and ?e = "unat base + unat n_pages * 4096"
  have le: "unat metadata_pages * 4096 \<le> unat n_pages * 4096"
    using assms(3) by (simp add: word_le_nat_alt)
  have mb: "unat ?mb = unat metadata_pages * 4096" and nb: "unat (n_pages * PAGE_SIZE) = unat n_pages * 4096"
    using le assms(4) by (simp_all add: unat_mult_no_overflow)
  have muls: "checked_mul metadata_pages PAGE_SIZE = Some ?mb"
      "checked_mul n_pages PAGE_SIZE = Some (n_pages * PAGE_SIZE)"
    using le assms(4) by (simp_all add: checked_mul_def)
  define me where "me = base + ?mb"
  define ae where "ae = base + n_pages * PAGE_SIZE"
  have adds: "checked_add base (n_pages * PAGE_SIZE) = Some ae" "checked_add base ?mb = Some me"
    using le assms(4) mb nb by (simp_all add: checked_add_def me_def ae_def)
  have me: "unat me = unat base + unat ?mb" and ae: "unat ae = ?e"
    using adds mb nb by (simp_all add: checked_add_eq_Some)
  have "?mb \<le> ae"
    using le mb ae by (simp add: word_le_nat_alt)
  then have cs: "unat (ae - ?mb) = ?e - unat ?mb" and sub: "sub_words ae ?mb = Inr (ae - ?mb)"
    using ae by (simp_all add: unat_sub sub_words_def)
  have find: "find_metadata_range pmm base n_pages metadata_pages = metadata_search pmm ?mb me (ae - ?mb)"
    using assms(2,3) muls adds sub by (auto simp: find_metadata_range_def)
  obtain q where q: "unat base = 4096 * q"
    using assms(1) by (rule page_aligned_multiple)
  have "?e - unat ?mb = 4096 * (q + (unat n_pages - unat metadata_pages))"
    using q mb le by (simp add: algebra_simps)
  then have al: "is_page_aligned (ae - ?mb)"
    by (simp add: is_page_aligned_iff cs)
  have "\<exists>r. metadata_search pmm ?mb me (ae - ?mb) = Inr (Inr r) \<and>
      (case r of
         None \<Rightarrow> \<forall>c. \<not> metadata_span pmm (unat base) ?e ?mb c
       | Some c \<Rightarrow> metadata_span pmm (unat base) ?e ?mb c \<and>
           (\<forall>c'. metadata_span pmm (unat base) ?e ?mb c' \<longrightarrow> c' \<le> c))"
  proof (rule metadata_search_spec [OF _ _ assms(4) me])
    show "unat base \<le> unat (ae - ?mb)" "unat (ae - ?mb) + unat ?mb \<le> ?e" "0 < unat ?mb"
      using cs mb le assms(2) by (simp_all add: word_less_nat_alt)
    show "c \<le> ae - ?mb" if "metadata_span pmm (unat base) ?e ?mb c" for c
    proof -
      have "unat c + unat ?mb \<le> ?e"
        using that by (simp only: metadata_span_def)
      then show ?thesis
        unfolding word_le_nat_alt cs by linarith
    qed
  qed (use al mb in simp_all)
  then show ?thesis
    unfolding find Let_def .
qed

lemma overlap_iff_bytes:
  assumes "c < d" "nonempty r"
  shows "ranges_overlap c d (range_start r) (range_end r) \<longleftrightarrow> {c..<d} \<inter> range_bytes r \<noteq> {}"
proof
  assume o: "ranges_overlap c d (range_start r) (range_end r)"
  have "max c (range_start r) \<in> {c..<d} \<inter> range_bytes r"
    using o assms by (auto simp: ranges_overlap_def range_bytes_unfold nonempty_def max_def)
  then show "{c..<d} \<inter> range_bytes r \<noteq> {}"
    by blast
next
  assume "{c..<d} \<inter> range_bytes r \<noteq> {}"
  then obtain x where "x \<in> {c..<d}" "x \<in> range_bytes r"
    by blast
  then have "c \<le> x" "x < d" "range_start r \<le> x" "x < range_end r"
    by (simp_all add: range_bytes_unfold)
  then show "ranges_overlap c d (range_start r) (range_end r)"
    unfolding ranges_overlap_def by (metis order_le_less_trans)
qed

lemma metadata_span_bytes:
  assumes ok: "reserved_ok pmm" and mb: "0 < unat mb" and e: "e < 2 ^ 64"
  shows "metadata_span pmm b e mb c \<longleftrightarrow>
    is_page_aligned c \<and> b \<le> unat c \<and> unat c + unat mb \<le> e \<and>
    {c..<c + mb} \<inter> reserved_bytes pmm = {}"
proof (cases "unat c + unat mb \<le> e")
  case True
  then have "c < c + mb"
    using mb e by (simp add: word_less_nat_alt unat_add_no_overflow)
  moreover have "\<And>r. r \<in> set (live_ranges pmm) \<Longrightarrow> nonempty r"
    using ok by (simp add: reserved_ok_def apart_def)
  ultimately have "(\<forall>r \<in> set (live_ranges pmm). \<not> ranges_overlap c (c + mb) (range_start r) (range_end r))
      \<longleftrightarrow> {c..<c + mb} \<inter> reserved_bytes pmm = {}"
    using overlap_iff_bytes [of c "c + mb"] unfolding reserved_bytes_def by blast
  then show ?thesis
    by (simp add: metadata_span_def)
qed (simp add: metadata_span_def)

section \<open>Properties\<close>

text \<open>
  C18. Recording a reserved range adds exactly its bytes to the reserved memory, and the table stays
  a list of non-empty ranges no two of which overlap or touch, at most eight of them. It fails,
  with nothing changed, exactly when the table is full and the new range touches none of its
  entries.
\<close>

theorem record_reserved_adds_bytes:
  assumes "reserved_ok pmm"
  shows "case record_reserved pmm s e of
      (Inr u, pmm') \<Rightarrow> reserved_ok pmm' \<and> reserved_bytes pmm' = reserved_bytes pmm \<union> {s..<e} \<and>
        ranges_only pmm pmm'
    | (Inl err, pmm') \<Rightarrow> err = TooManyReservedRanges \<and> pmm' = pmm \<and> s < e \<and>
        reserved_count pmm = MAX_RESERVED_REGIONS \<and>
        (\<forall>r \<in> set (live_ranges pmm). \<not> ranges_overlap_or_touch s e (range_start r) (range_end r))"
  using record_reserved_outcome [OF assms, of s e] by (auto split: prod.split sum.split)

lemma pmm_empty_reserved_ok: "reserved_ok (pmm_empty m)"
  by (simp add: reserved_ok_def pmm_empty_def live_ranges_def apart_def)

lemma pmm_empty_reserved_bytes: "reserved_bytes (pmm_empty m) = {}"
  by (simp add: reserved_bytes_def live_ranges_def pmm_empty_def)

theorem record_reserved_adds_bytes_witness:
  "\<exists>pmm'. record_reserved (pmm_empty (\<lambda>_. Page_new 0 Free)) 0x1000 0x3000 = (Inr (), pmm') \<and>
     reserved_bytes pmm' = {0x1000..<0x3000}"
proof -
  have "fst (record_reserved (pmm_empty (\<lambda>_. Page_new 0 Free)) 0x1000 0x3000) = Inr ()"
    by (simp add: record_reserved_def ReservedRange_new_def merge_reserved.simps pmm_empty_def
        MAX_RESERVED_REGIONS_def)
  then show ?thesis
    using record_reserved_adds_bytes
      [OF pmm_empty_reserved_ok, of "\<lambda>_. Page_new 0 Free" "0x1000" "0x3000"]
    by (auto simp: pmm_empty_reserved_bytes split: prod.splits sum.splits)
qed

text \<open>
  C19. The placement of an arena's metadata is the highest one there is: the search returns the
  greatest page-aligned address in the arena at which the metadata covers no reserved byte, and
  nothing exactly when there is no such address. The loop always ends and never underflows.
\<close>

theorem find_metadata_range_highest:
  assumes "reserved_ok pmm" and "is_page_aligned base" and "0 < metadata_pages"
    and "metadata_pages \<le> n_pages" and "unat base + unat n_pages * 4096 < 2 ^ 64"
    and "\<And>c. fits c \<longleftrightarrow> is_page_aligned c \<and> base \<le> c \<and>
      unat c + unat metadata_pages * 4096 \<le> unat base + unat n_pages * 4096 \<and>
      {c..<c + metadata_pages * PAGE_SIZE} \<inter> reserved_bytes pmm = {}"
  shows "\<exists>r. find_metadata_range pmm base n_pages metadata_pages = Inr (Inr r) \<and>
    (case r of None \<Rightarrow> \<forall>c. \<not> fits c | Some c \<Rightarrow> fits c \<and> (\<forall>c'. fits c' \<longrightarrow> c' \<le> c))"
proof -
  let ?e = "unat base + unat n_pages * 4096"
  have "unat metadata_pages * 4096 \<le> unat n_pages * 4096"
    using assms(4) by (simp add: word_le_nat_alt)
  then have mb: "unat (metadata_pages * PAGE_SIZE) = unat metadata_pages * 4096"
    using assms(5) by (simp add: unat_mult_no_overflow)
  then have "0 < unat (metadata_pages * PAGE_SIZE)"
    using assms(3) by (simp add: word_less_nat_alt)
  from metadata_span_bytes [OF assms(1) this assms(5)]
  have "metadata_span pmm (unat base) ?e (metadata_pages * PAGE_SIZE) c \<longleftrightarrow> fits c" for c
    unfolding assms(6) mb word_le_nat_alt by blast
  then show ?thesis
    using find_metadata_range_spec [OF assms(2-5), of pmm] by (simp only: Let_def)
qed

theorem find_metadata_range_highest_witness:
  "\<exists>r. find_metadata_range (pmm_empty (\<lambda>_. Page_new 0 Free)) 0x80000000 8 1 = Inr (Inr (Some r)) \<and>
     0x80007000 \<le> r"
proof -
  let ?pmm = "pmm_empty (\<lambda>_. Page_new 0 Free)"
  define fits where "fits c \<longleftrightarrow> is_page_aligned c \<and> 0x80000000 \<le> c \<and>
      unat c + unat (1 :: usize) * 4096 \<le> unat (0x80000000 :: usize) + unat (8 :: usize) * 4096 \<and>
      {c..<c + 1 * PAGE_SIZE} \<inter> reserved_bytes ?pmm = {}" for c
  have "fits 0x80007000"
    by (simp add: fits_def pmm_empty_reserved_bytes is_page_aligned_iff)
  moreover have "is_page_aligned 0x80000000"
    by (simp add: is_page_aligned_iff)
  ultimately show ?thesis
    using find_metadata_range_highest
      [OF pmm_empty_reserved_ok _ _ _ _ fits_def]
    by (auto split: option.splits)
qed

end
