(* ===== verification/Linked_List.thy ===== *)
theory Linked_List
  imports Main
begin

text \<open>
  Doubly linked lists in a store, as both the free list of \<open>pmm/mod.rs\<close> and the partial slab list
  of \<open>allocator/mod.rs\<close> keep them. The store is seen through two functions, the previous and the
  next link of a node. \<open>dll_seg prv nxt p ks n\<close> says that \<open>ks\<close> is a segment whose first node
  points back to \<open>p\<close> and whose last node points on to \<open>n\<close>. The lemmas describe the three
  mutations the code performs (append at the tail, insert at the head, unlink) by what the links of
  the remaining nodes are afterwards.
\<close>

definition first_or :: "'k list \<Rightarrow> 'k \<Rightarrow> 'k" where
  "first_or ks n = (case ks of [] \<Rightarrow> n | k # _ \<Rightarrow> k)"

definition last_or :: "'k \<Rightarrow> 'k list \<Rightarrow> 'k" where
  "last_or p ks = (if ks = [] then p else last ks)"

fun dll_seg :: "('k \<Rightarrow> 'k) \<Rightarrow> ('k \<Rightarrow> 'k) \<Rightarrow> 'k \<Rightarrow> 'k list \<Rightarrow> 'k \<Rightarrow> bool" where
  "dll_seg prv nxt p [] n \<longleftrightarrow> True"
| "dll_seg prv nxt p (k # ks) n \<longleftrightarrow>
     prv k = p \<and> nxt k = first_or ks n \<and> dll_seg prv nxt k ks n"

lemma first_or_simps [simp]:
  "first_or [] n = n" "first_or (k # ks) n = k"
  by (simp_all add: first_or_def)

lemma last_or_simps [simp]:
  "last_or p [] = p" "last_or p (ks @ [k]) = k"
  by (simp_all add: last_or_def)

lemma last_or_Cons [simp]: "last_or p (k # ks) = last_or k ks"
  by (simp add: last_or_def)

lemma first_or_append: "first_or (xs @ ys) n = first_or xs (first_or ys n)"
  by (cases xs) auto

lemma last_or_append: "last_or p (xs @ ys) = last_or (last_or p xs) ys"
  by (induction xs arbitrary: p) auto

lemma first_or_in: "ks \<noteq> [] \<Longrightarrow> first_or ks n \<in> set ks"
  by (cases ks) auto

lemma last_or_in: "ks \<noteq> [] \<Longrightarrow> last_or p ks \<in> set ks"
  by (simp add: last_or_def)

lemma first_or_eq_null: "n \<notin> set ks \<Longrightarrow> first_or ks n = n \<longleftrightarrow> ks = []"
  by (cases ks) auto

lemma last_or_eq_null: "p \<notin> set ks \<Longrightarrow> last_or p ks = p \<longleftrightarrow> ks = []"
  by (auto simp: last_or_def)

lemma dll_seg_append:
  "dll_seg P N p (xs @ ys) n \<longleftrightarrow>
     dll_seg P N p xs (first_or ys n) \<and> dll_seg P N (last_or p xs) ys n"
  by (induction xs arbitrary: p) (auto simp: first_or_append)

lemma dll_seg_cong:
  assumes "\<And>k. k \<in> set ks \<Longrightarrow> P' k = P k \<and> N' k = N k"
  shows "dll_seg P' N' p ks n = dll_seg P N p ks n"
  using assms by (induction ks arbitrary: p) auto

text \<open>Redirecting the two ends of a segment.\<close>

lemma dll_seg_set_next:
  assumes "dll_seg P N p ks n" and "distinct ks"
    and "\<And>k. k \<in> set ks \<Longrightarrow> P' k = P k"
    and "\<And>k. k \<in> set ks \<Longrightarrow> N' k = (if k = last ks then n' else N k)"
  shows "dll_seg P' N' p ks n'"
  using assms
proof (induction ks arbitrary: p)
  case (Cons k ks)
  show ?case
  proof (cases "ks = []")
    case False
    then have "k \<noteq> last ks"
      using Cons.prems(2) by auto
    moreover have "dll_seg P' N' k ks n'"
      using Cons.prems False by (intro Cons.IH) auto
    ultimately show ?thesis
      using Cons.prems False by (cases ks) auto
  qed (use Cons.prems in auto)
qed simp

lemma dll_seg_set_prev:
  assumes "dll_seg P N p ks n" and "distinct ks"
    and "\<And>k. k \<in> set ks \<Longrightarrow> P' k = (if k = hd ks then p' else P k)"
    and "\<And>k. k \<in> set ks \<Longrightarrow> N' k = N k"
  shows "dll_seg P' N' p' ks n"
proof (cases ks)
  case (Cons k js)
  have "dll_seg P' N' k js n = dll_seg P N k js n"
    using assms Cons by (intro dll_seg_cong) auto
  then show ?thesis
    using assms Cons by simp
qed simp

lemma dll_seg_push_back:
  assumes "dll_seg P N p ks n" and "distinct ks"
    and "\<And>j. j \<in> set ks \<Longrightarrow> P' j = P j"
    and "\<And>j. j \<in> set ks \<Longrightarrow> N' j = (if j = last ks then k else N j)"
    and "P' k = last_or p ks" and "N' k = n'"
  shows "dll_seg P' N' p (ks @ [k]) n'"
  using assms dll_seg_set_next [of P N p ks n P' N' k] by (simp add: dll_seg_append)

lemma dll_seg_push_front:
  assumes "dll_seg P N p ks n" and "distinct ks"
    and "\<And>j. j \<in> set ks \<Longrightarrow> P' j = (if j = hd ks then k else P j)"
    and "\<And>j. j \<in> set ks \<Longrightarrow> N' j = N j"
    and "P' k = p'" and "N' k = first_or ks n"
  shows "dll_seg P' N' p' (k # ks) n"
  using assms dll_seg_set_prev [of P N p ks n P' k N'] by simp

lemma dll_seg_remove:
  assumes "dll_seg P N p (xs @ k # ys) n" and "distinct (xs @ k # ys)"
    and P': "\<And>j. j \<in> set (xs @ ys) \<Longrightarrow>
      P' j = (if ys \<noteq> [] \<and> j = hd ys then last_or p xs else P j)"
    and N': "\<And>j. j \<in> set (xs @ ys) \<Longrightarrow>
      N' j = (if xs \<noteq> [] \<and> j = last xs then first_or ys n else N j)"
  shows "dll_seg P' N' p (xs @ ys) n"
proof -
  have xs: "dll_seg P N p xs k" and ys: "dll_seg P N k ys n"
    using assms(1) by (simp_all add: dll_seg_append)
  have "dll_seg P' N' p xs (first_or ys n)"
    using xs
  proof (rule dll_seg_set_next)
    show "distinct xs" using assms(2) by simp
    fix j assume j: "j \<in> set xs"
    then have "ys \<noteq> [] \<Longrightarrow> j \<noteq> hd ys"
      using assms(2) by (cases ys) auto
    then show "P' j = P j"
      using P' j by auto
    show "N' j = (if j = last xs then first_or ys n else N j)"
      using N' j by auto
  qed
  moreover have "dll_seg P' N' (last_or p xs) ys n"
    using ys
  proof (rule dll_seg_set_prev)
    show "distinct ys" using assms(2) by simp
    fix j assume j: "j \<in> set ys"
    then have "xs \<noteq> [] \<Longrightarrow> j \<noteq> last xs"
      using assms(2) last_in_set [of xs] by (auto simp: disjoint_iff)
    then show "N' j = N j"
      using N' j by auto
    show "P' j = (if j = hd ys then last_or p xs else P j)"
      using P' j by auto
  qed
  ultimately show ?thesis
    by (simp add: dll_seg_append)
qed

text \<open>What the links of a node in the middle of a segment are.\<close>

lemma dll_seg_middle:
  assumes "dll_seg P N p (xs @ k # ys) n"
  shows "P k = last_or p xs" and "N k = first_or ys n"
  using assms by (simp_all add: dll_seg_append)

end
