(* ===== verification/Pmm_Free_List.thy ===== *)
theory Pmm_Free_List
  imports Pmm Linked_List
begin

text \<open>
  The free list of the page allocator. \<open>arenas_wf\<close> is what construction guarantees of the arena
  table; \<open>list_inv pmm fl\<close> says that the links in the metadata form the doubly linked list of
  the handles \<open>fl\<close>; \<open>pmm_inv pmm fl\<close> adds that \<open>fl\<close> holds exactly the free pages and that the
  counter agrees. The links are then invisible: \<open>free_list\<close> reads the list back from the state,
  and the operations are a queue, popped at the head and pushed at the tail.
\<close>

section \<open>Handles and slots\<close>

definition arena_ok :: "nat \<Rightarrow> Arena \<Rightarrow> bool" where
  "arena_ok i a \<longleftrightarrow>
     arena_index_of a = of_nat i \<and> page_count a \<le> 0xffffffff \<and> is_page_aligned (arena_base a) \<and>
     unat (arena_base a) + page_count a * 4096 < 2 ^ 64"

definition arenas_apart :: "Arena \<Rightarrow> Arena \<Rightarrow> bool" where
  "arenas_apart a b \<longleftrightarrow>
     unat (arena_base a) + page_count a * 4096 \<le> unat (arena_base b) \<or>
     unat (arena_base b) + page_count b * 4096 \<le> unat (arena_base a)"

definition arenas_wf :: "PhysicalMemoryManager \<Rightarrow> bool" where
  "arenas_wf pmm \<longleftrightarrow>
     length (arenas pmm) = MAX_MEMORY_ARENAS \<and> arena_count pmm \<le> MAX_MEMORY_ARENAS \<and>
     (\<forall>i < arena_count pmm. arena_ok i (arenas pmm ! i)) \<and>
     (\<forall>i. arena_count pmm \<le> i \<and> i < MAX_MEMORY_ARENAS \<longrightarrow> page_count (arenas pmm ! i) = 0) \<and>
     (\<forall>i < arena_count pmm. \<forall>j < i.
        storage_ptr (arena_pages (arenas pmm ! j)) \<noteq> storage_ptr (arena_pages (arenas pmm ! i)) \<and>
        arenas_apart (arenas pmm ! j) (arenas pmm ! i))"

definition arena_at :: "PhysicalMemoryManager \<Rightarrow> PageHandle \<Rightarrow> Arena" where
  "arena_at pmm h = arenas pmm ! unat (handle_arena h)"

definition slot_of :: "PhysicalMemoryManager \<Rightarrow> PageHandle \<Rightarrow> page_slot" where
  "slot_of pmm h = (storage_ptr (arena_pages (arena_at pmm h)), unat (handle_page h))"

definition managed :: "PhysicalMemoryManager \<Rightarrow> PageHandle \<Rightarrow> bool" where
  "managed pmm h \<longleftrightarrow>
     unat (handle_arena h) < arena_count pmm \<and> unat (handle_page h) < page_count (arena_at pmm h)"

abbreviation page_at :: "PhysicalMemoryManager \<Rightarrow> PageHandle \<Rightarrow> Page" where
  "page_at pmm h \<equiv> page_memory pmm (slot_of pmm h)"

lemma arenas_wf_arena_ok:
  "arenas_wf pmm \<Longrightarrow> managed pmm h \<Longrightarrow> arena_ok (unat (handle_arena h)) (arena_at pmm h)"
  by (simp add: arenas_wf_def managed_def arena_at_def)

lemma managed_contains:
  assumes "arenas_wf pmm" "managed pmm h"
  shows "contains_page (arena_at pmm h) h"
  using arenas_wf_arena_ok [OF assms] assms(2)
  by (simp add: contains_page_def arena_ok_def managed_def)

lemma arena_for_managed [simp]:
  assumes "arenas_wf pmm" "managed pmm h"
  shows "arena_for pmm h = Some (arena_at pmm h)"
  using assms managed_contains [OF assms]
  by (simp add: arena_for_def arena_at_def arenas_wf_def managed_def)

lemma arena_for_None_iff:
  assumes "arenas_wf pmm"
  shows "arena_for pmm h = None \<longleftrightarrow> \<not> managed pmm h"
proof (cases "managed pmm h")
  case False
  then have "arena_count pmm \<le> unat (handle_arena h) \<or>
      page_count (arenas pmm ! unat (handle_arena h)) \<le> unat (handle_page h)"
    by (auto simp: managed_def arena_at_def)
  with assms have "unat (handle_arena h) < length (arenas pmm) \<Longrightarrow>
      page_count (arenas pmm ! unat (handle_arena h)) \<le> unat (handle_page h)"
    by (auto simp: arenas_wf_def)
  then show ?thesis
    using False by (auto simp: arena_for_def contains_page_def Let_def)
qed (simp add: assms)

lemma page_mut_managed [simp]:
  assumes "arenas_wf pmm" "managed pmm h"
  shows "page_mut (arena_at pmm h) h = Some (slot_of pmm h)"
  using managed_contains [OF assms] by (simp add: page_mut_def slot_of_def)

lemma page_ref_managed [simp]:
  assumes "arenas_wf pmm" "managed pmm h"
  shows "page_ref pmm (arena_at pmm h) h = Some (page_at pmm h)"
  using assms by (simp add: page_ref_def)

lemma PageHandle_eqI:
  "handle_arena h = handle_arena k \<Longrightarrow> handle_page h = handle_page k \<Longrightarrow> h = (k :: PageHandle)"
  by simp

lemma slot_of_inj:
  assumes "arenas_wf pmm" "managed pmm h" "managed pmm k" "slot_of pmm h = slot_of pmm k"
  shows "h = k"
proof -
  have "unat (handle_page h) = unat (handle_page k)"
    and ptr: "storage_ptr (arena_pages (arenas pmm ! unat (handle_arena h))) =
      storage_ptr (arena_pages (arenas pmm ! unat (handle_arena k)))"
    using assms(4) by (simp_all add: slot_of_def arena_at_def)
  moreover have "unat (handle_arena h) = unat (handle_arena k)"
    using assms(1-3) ptr unfolding arenas_wf_def managed_def by (metis linorder_neqE_nat)
  ultimately show ?thesis
    by (intro PageHandle_eqI) (simp_all add: word_unat_eq_iff)
qed

lemma unat_max32: "unat (- 1 :: 32 word) = 0xffffffff"
  by (simp add: unsigned_minus_1_eq_mask mask_eq_exp_minus_1)

lemma is_some_managed: "arenas_wf pmm \<Longrightarrow> managed pmm h \<Longrightarrow> is_some_handle h"
  using arenas_wf_arena_ok [of pmm h] unat_max32
  by (auto simp: is_some_handle_def managed_def arena_ok_def)

lemma is_some_NONE [simp]: "\<not> is_some_handle PageHandle_NONE"
  by (simp add: is_some_handle_def PageHandle_NONE_def)

lemma NONE_not_managed: "arenas_wf pmm \<Longrightarrow> \<not> managed pmm PageHandle_NONE"
  using is_some_managed is_some_NONE by blast

section \<open>Updates that keep the arena table\<close>

text \<open>Two managers that agree but for the links of the free list.\<close>

definition links_only :: "PhysicalMemoryManager \<Rightarrow> PhysicalMemoryManager \<Rightarrow> bool" where
  "links_only pmm pmm' \<longleftrightarrow>
     (\<exists>h t m. pmm' = pmm\<lparr>free_head := h, free_tail := t, page_memory := m\<rparr>) \<and>
     (\<forall>slot. page_state (page_memory pmm' slot) = page_state (page_memory pmm slot) \<and>
        contiguous_head (page_memory pmm' slot) = contiguous_head (page_memory pmm slot))"

lemma links_only_simps:
  assumes "links_only pmm pmm'"
  shows "arenas pmm' = arenas pmm" "arena_count pmm' = arena_count pmm"
    "reserved_ranges pmm' = reserved_ranges pmm" "reserved_count pmm' = reserved_count pmm"
    "total_pages pmm' = total_pages pmm" "free_pages pmm' = free_pages pmm"
    "initialized pmm' = initialized pmm"
    "page_state (page_memory pmm' slot) = page_state (page_memory pmm slot)"
    "contiguous_head (page_memory pmm' slot) = contiguous_head (page_memory pmm slot)"
  using assms by (auto simp: links_only_def simp del: split_paired_All)

lemma links_only_refl [simp]: "links_only pmm pmm"
proof -
  have "pmm = pmm\<lparr>free_head := free_head pmm, free_tail := free_tail pmm,
      page_memory := page_memory pmm\<rparr>"
    by simp
  then show ?thesis
    unfolding links_only_def by blast
qed

lemma same_arenas:
  assumes "arenas pmm' = arenas pmm" "arena_count pmm' = arena_count pmm"
  shows "arenas_wf pmm' = arenas_wf pmm" "managed pmm' h = managed pmm h"
    "slot_of pmm' h = slot_of pmm h" "arena_at pmm' h = arena_at pmm h"
    "arena_for pmm' h = arena_for pmm h"
  using assms
  by (simp_all add: arenas_wf_def managed_def slot_of_def arena_at_def arena_for_def Let_def)

lemma modify_page_arenas [simp]:
  "arenas (modify_page slot f pmm) = arenas pmm"
  "arena_count (modify_page slot f pmm) = arena_count pmm"
  "free_head (modify_page slot f pmm) = free_head pmm"
  "free_tail (modify_page slot f pmm) = free_tail pmm"
  "free_pages (modify_page slot f pmm) = free_pages pmm"
  "total_pages (modify_page slot f pmm) = total_pages pmm"
  "reserved_ranges (modify_page slot f pmm) = reserved_ranges pmm"
  "reserved_count (modify_page slot f pmm) = reserved_count pmm"
  "initialized (modify_page slot f pmm) = initialized pmm"
  "page_memory (modify_page slot f pmm) =
     (page_memory pmm)(slot := f (page_memory pmm slot))"
  by (simp_all add: modify_page_def)

lemma modify_page_same [simp]:
  "arenas_wf (modify_page slot f pmm) = arenas_wf pmm"
  "managed (modify_page slot f pmm) h = managed pmm h"
  "slot_of (modify_page slot f pmm) h = slot_of pmm h"
  "arena_at (modify_page slot f pmm) h = arena_at pmm h"
  "arena_for (modify_page slot f pmm) h = arena_for pmm h"
  by (rule same_arenas; simp)+

lemma update_same [simp]:
  "arenas_wf (pmm\<lparr>free_head := h\<rparr>) = arenas_wf pmm"
  "arenas_wf (pmm\<lparr>free_tail := h\<rparr>) = arenas_wf pmm"
  "arenas_wf (pmm\<lparr>free_pages := n\<rparr>) = arenas_wf pmm"
  "managed (pmm\<lparr>free_head := h\<rparr>) k = managed pmm k"
  "managed (pmm\<lparr>free_tail := h\<rparr>) k = managed pmm k"
  "managed (pmm\<lparr>free_pages := n\<rparr>) k = managed pmm k"
  "slot_of (pmm\<lparr>free_head := h\<rparr>) k = slot_of pmm k"
  "slot_of (pmm\<lparr>free_tail := h\<rparr>) k = slot_of pmm k"
  "slot_of (pmm\<lparr>free_pages := n\<rparr>) k = slot_of pmm k"
  by (rule same_arenas; simp)+

lemma links_onlyI:
  assumes "arenas pmm' = arenas pmm" "arena_count pmm' = arena_count pmm"
    "reserved_ranges pmm' = reserved_ranges pmm" "reserved_count pmm' = reserved_count pmm"
    "total_pages pmm' = total_pages pmm" "free_pages pmm' = free_pages pmm"
    "initialized pmm' = initialized pmm"
    "\<And>slot. page_state (page_memory pmm' slot) = page_state (page_memory pmm slot)"
    "\<And>slot. contiguous_head (page_memory pmm' slot) = contiguous_head (page_memory pmm slot)"
  shows "links_only pmm pmm'"
proof -
  have "pmm' = pmm\<lparr>free_head := free_head pmm', free_tail := free_tail pmm',
      page_memory := page_memory pmm'\<rparr>"
    using assms(1-7) by (cases pmm; cases pmm'; simp)
  with assms(8,9) show ?thesis
    unfolding links_only_def by blast
qed

lemma links_only_trans:
  assumes "links_only a b" "links_only b c"
  shows "links_only a c"
  by (rule links_onlyI) (simp_all add: links_only_simps [OF assms(1)] links_only_simps [OF assms(2)])

lemma links_only_same:
  assumes "links_only pmm pmm'"
  shows "arenas_wf pmm' = arenas_wf pmm" "managed pmm' h = managed pmm h"
    "slot_of pmm' h = slot_of pmm h" "arena_at pmm' h = arena_at pmm h"
  by (rule same_arenas [OF links_only_simps(1,2) [OF assms]])+

section \<open>The doubly linked list\<close>

definition list_inv :: "PhysicalMemoryManager \<Rightarrow> PageHandle list \<Rightarrow> bool" where
  "list_inv pmm fl \<longleftrightarrow>
     dll_seg (\<lambda>h. previous_free (page_at pmm h)) (\<lambda>h. next_free (page_at pmm h))
       PageHandle_NONE fl PageHandle_NONE \<and>
     free_head pmm = first_or fl PageHandle_NONE \<and> free_tail pmm = last_or PageHandle_NONE fl \<and>
     distinct fl \<and> (\<forall>h \<in> set fl. managed pmm h)"

lemma slot_eq_iff:
  "arenas_wf pmm \<Longrightarrow> managed pmm h \<Longrightarrow> managed pmm k \<Longrightarrow> slot_of pmm h = slot_of pmm k \<longleftrightarrow> h = k"
  using slot_of_inj by blast

lemma push_free_list:
  assumes wf: "arenas_wf pmm" and inv: "list_inv pmm fl" and h: "managed pmm h" "h \<notin> set fl"
  shows "\<exists>pmm'. push_free pmm h = Inr pmm' \<and> list_inv pmm' (fl @ [h]) \<and> links_only pmm pmm'"
proof -
  let ?new = "\<lambda>p. p\<lparr>previous_free := free_tail pmm, next_free := PageHandle_NONE\<rparr>"
  define p1 where "p1 = modify_page (slot_of pmm h) ?new pmm"
  define p2 where "p2 =
    (if fl = [] then p1\<lparr>free_head := h, free_tail := h\<rparr>
     else (modify_page (slot_of pmm (last fl)) (\<lambda>p. p\<lparr>next_free := h\<rparr>) p1)\<lparr>free_tail := h\<rparr>)"
  have m: "\<And>k. k \<in> set fl \<Longrightarrow> managed pmm k"
    and ends: "free_head pmm = first_or fl PageHandle_NONE" "free_tail pmm = last_or PageHandle_NONE fl"
    and dll: "dll_seg (\<lambda>h. previous_free (page_at pmm h)) (\<lambda>h. next_free (page_at pmm h))
      PageHandle_NONE fl PageHandle_NONE" and dist: "distinct fl"
    using inv by (auto simp: list_inv_def)
  have tail: "fl \<noteq> [] \<Longrightarrow> free_tail pmm = last fl \<and> managed pmm (last fl) \<and> is_some_handle (last fl)"
    using ends m is_some_managed [OF wf] by (simp add: last_or_def)
  have push: "push_free pmm h = Inr p2"
    using wf h tail ends by (cases "fl = []")
      (simp_all add: push_free_def p1_def p2_def Let_def)
  have slots: "\<And>k. k \<in> set fl \<Longrightarrow> slot_of pmm k \<noteq> slot_of pmm h"
    using slot_eq_iff [OF wf] m h by blast
  have same: "arenas p2 = arenas pmm" "arena_count p2 = arena_count pmm"
    by (simp_all add: p2_def p1_def)
  have "dll_seg (\<lambda>k. previous_free (page_at p2 k)) (\<lambda>k. next_free (page_at p2 k))
      PageHandle_NONE (fl @ [h]) PageHandle_NONE"
  proof (rule dll_seg_push_back [OF dll dist])
    fix j assume j: "j \<in> set fl"
    then have eq: "slot_of pmm j = slot_of pmm (last fl) \<longleftrightarrow> j = last fl"
      using slot_eq_iff [OF wf m m] by (metis last_in_set list.set(1) empty_iff)
    show "previous_free (page_at p2 j) = previous_free (page_at pmm j)"
      using j slots by (auto simp: same_arenas [OF same] p2_def p1_def)
    show "next_free (page_at p2 j) = (if j = last fl then h else next_free (page_at pmm j))"
      using j slots eq by (auto simp: same_arenas [OF same] p2_def p1_def)
  next
    have "fl \<noteq> [] \<Longrightarrow> slot_of pmm h \<noteq> slot_of pmm (last fl)"
      using slots [of "last fl"] by auto
    then show "previous_free (page_at p2 h) = last_or PageHandle_NONE fl"
      and "next_free (page_at p2 h) = PageHandle_NONE"
      using ends by (auto simp: same_arenas [OF same] p2_def p1_def)
  qed
  moreover have "free_head p2 = first_or (fl @ [h]) PageHandle_NONE" "free_tail p2 = h"
    using ends by (cases fl; simp add: p2_def p1_def)+
  ultimately have "list_inv p2 (fl @ [h])"
    using dist h m by (simp add: list_inv_def same_arenas [OF same])
  moreover have "links_only pmm p2"
    by (rule links_onlyI) (simp_all add: p2_def p1_def)
  ultimately show ?thesis
    using push by blast
qed

lemma set_next_of_previous_list:
  assumes "arenas_wf pmm" and "\<And>k. k \<in> set xs \<Longrightarrow> managed pmm k"
  shows "set_next_of_previous pmm (last_or PageHandle_NONE xs) n =
    Inr (if xs = [] then pmm\<lparr>free_head := n\<rparr>
         else modify_page (slot_of pmm (last xs)) (\<lambda>p. p\<lparr>next_free := n\<rparr>) pmm)"
  using assms is_some_managed [OF assms(1)]
  by (cases "xs = []") (simp_all add: set_next_of_previous_def last_or_def)

lemma set_previous_of_next_list:
  assumes "arenas_wf pmm" and "\<And>k. k \<in> set ys \<Longrightarrow> managed pmm k"
  shows "set_previous_of_next pmm p (first_or ys PageHandle_NONE) =
    Inr (if ys = [] then pmm\<lparr>free_tail := p\<rparr>
         else modify_page (slot_of pmm (hd ys)) (\<lambda>q. q\<lparr>previous_free := p\<rparr>) pmm)"
  using assms is_some_managed [OF assms(1)]
  by (cases ys) (simp_all add: set_previous_of_next_def)

lemma remove_free_list:
  assumes wf: "arenas_wf pmm" and inv: "list_inv pmm (xs @ h # ys)"
  shows "\<exists>pmm'. remove_free pmm h = Inr pmm' \<and> list_inv pmm' (xs @ ys) \<and> links_only pmm pmm'"
proof -
  let ?p = "last_or PageHandle_NONE xs" and ?n = "first_or ys PageHandle_NONE"
  let ?P = "\<lambda>h. previous_free (page_at pmm h)" and ?N = "\<lambda>h. next_free (page_at pmm h)"
  define p1 where "p1 = (if xs = [] then pmm\<lparr>free_head := ?n\<rparr>
    else modify_page (slot_of pmm (last xs)) (\<lambda>p. p\<lparr>next_free := ?n\<rparr>) pmm)"
  define p2 where "p2 = (if ys = [] then p1\<lparr>free_tail := ?p\<rparr>
    else modify_page (slot_of pmm (hd ys)) (\<lambda>q. q\<lparr>previous_free := ?p\<rparr>) p1)"
  define p3 where "p3 = modify_page (slot_of pmm h)
    (\<lambda>p. p\<lparr>previous_free := PageHandle_NONE, next_free := PageHandle_NONE\<rparr>) p2"
  have dll: "dll_seg ?P ?N PageHandle_NONE (xs @ h # ys) PageHandle_NONE"
    and dist: "distinct (xs @ h # ys)" and m: "\<And>k. k \<in> set (xs @ h # ys) \<Longrightarrow> managed pmm k"
    and ends: "free_head pmm = first_or (xs @ h # ys) PageHandle_NONE"
      "free_tail pmm = last_or PageHandle_NONE (xs @ h # ys)"
    using inv unfolding list_inv_def by blast+
  have same1: "arenas p1 = arenas pmm" "arena_count p1 = arena_count pmm"
    by (simp_all add: p1_def)
  have same: "arenas p3 = arenas pmm" "arena_count p3 = arena_count pmm"
    by (simp_all add: p3_def p2_def p1_def)
  have "set_next_of_previous pmm ?p ?n = Inr p1"
    using set_next_of_previous_list [OF wf, of xs] m by (simp add: p1_def)
  moreover have "set_previous_of_next p1 ?p ?n = Inr p2"
    using set_previous_of_next_list [of p1 ys] m wf
    by (simp add: same_arenas [OF same1] p2_def)
  ultimately have remove: "remove_free pmm h = Inr p3"
    using wf m dll_seg_middle [OF dll] by (simp add: remove_free_def p3_def)
  have slots: "\<And>j. j \<in> set (xs @ ys) \<Longrightarrow> slot_of pmm j \<noteq> slot_of pmm h"
    using slot_eq_iff [OF wf] m dist by fastforce
  have "dll_seg (\<lambda>k. previous_free (page_at p3 k)) (\<lambda>k. next_free (page_at p3 k))
      PageHandle_NONE (xs @ ys) PageHandle_NONE"
  proof (rule dll_seg_remove [OF dll dist])
    fix j assume j: "j \<in> set (xs @ ys)"
    have l: "xs \<noteq> [] \<Longrightarrow> slot_of pmm j = slot_of pmm (last xs) \<longleftrightarrow> j = last xs"
      using slot_eq_iff [OF wf m m, of j "last xs"] j by auto
    have f: "ys \<noteq> [] \<Longrightarrow> slot_of pmm j = slot_of pmm (hd ys) \<longleftrightarrow> j = hd ys"
      using slot_eq_iff [OF wf m m, of j "hd ys"] j by auto
    have ne: "slot_of pmm j \<noteq> slot_of pmm h"
      using slots [OF j] .
    show "previous_free (page_at p3 j) = (if ys \<noteq> [] \<and> j = hd ys then ?p else ?P j)"
      using l f ne by (simp add: same_arenas [OF same]) (auto simp: p3_def p2_def p1_def)
    show "next_free (page_at p3 j) = (if xs \<noteq> [] \<and> j = last xs then ?n else ?N j)"
      using l f ne by (simp add: same_arenas [OF same]) (auto simp: p3_def p2_def p1_def)
  qed
  moreover have "free_head p3 = first_or (xs @ ys) PageHandle_NONE"
    using ends by (cases xs) (simp_all add: p3_def p2_def p1_def)
  moreover have "free_tail p3 = last_or PageHandle_NONE (xs @ ys)"
    using ends by (cases ys) (simp_all add: p3_def p2_def p1_def last_or_append)
  ultimately have "list_inv p3 (xs @ ys)"
    using dist m by (simp add: list_inv_def same_arenas [OF same])
  moreover have "links_only pmm p3"
    by (rule links_onlyI) (simp_all add: p3_def p2_def p1_def)
  ultimately show ?thesis
    using remove by blast
qed

section \<open>The allocator invariant\<close>

definition free_handles :: "PhysicalMemoryManager \<Rightarrow> PageHandle set" where
  "free_handles pmm = {h. managed pmm h \<and> page_state (page_at pmm h) = Free}"

definition pmm_inv :: "PhysicalMemoryManager \<Rightarrow> PageHandle list \<Rightarrow> bool" where
  "pmm_inv pmm fl \<longleftrightarrow>
     arenas_wf pmm \<and> list_inv pmm fl \<and> set fl = free_handles pmm \<and> free_pages pmm = length fl \<and>
     (\<forall>h. managed pmm h \<and> contiguous_head (page_at pmm h) \<longrightarrow> page_state (page_at pmm h) = Allocated)"

text \<open>The list read back from the links, following \<open>next_free\<close> for as many pages as are free.\<close>

fun follow_links :: "PhysicalMemoryManager \<Rightarrow> nat \<Rightarrow> PageHandle \<Rightarrow> PageHandle list" where
  "follow_links pmm 0 h = []"
| "follow_links pmm (Suc n) h = h # follow_links pmm n (next_free (page_at pmm h))"

definition free_list :: "PhysicalMemoryManager \<Rightarrow> PageHandle list" where
  "free_list pmm = follow_links pmm (free_pages pmm) (free_head pmm)"

lemma follow_links_dll:
  "dll_seg P (\<lambda>h. next_free (page_at pmm h)) p ks n \<Longrightarrow>
   follow_links pmm (length ks) (first_or ks n) = ks"
  by (induction ks arbitrary: p) auto

lemma free_list_eq: "pmm_inv pmm fl \<Longrightarrow> free_list pmm = fl"
  using follow_links_dll by (auto simp: pmm_inv_def list_inv_def free_list_def)

section \<open>Single pages\<close>

text \<open>What the rest of the manager and the pages look like after an operation.\<close>

definition same_config :: "PhysicalMemoryManager \<Rightarrow> PhysicalMemoryManager \<Rightarrow> bool" where
  "same_config pmm pmm' \<longleftrightarrow>
     arenas pmm' = arenas pmm \<and> arena_count pmm' = arena_count pmm \<and>
     reserved_ranges pmm' = reserved_ranges pmm \<and> reserved_count pmm' = reserved_count pmm \<and>
     total_pages pmm' = total_pages pmm \<and> initialized pmm' = initialized pmm"

definition status :: "PhysicalMemoryManager \<Rightarrow> PageHandle \<Rightarrow> PageState \<times> bool" where
  "status pmm h = (page_state (page_at pmm h), contiguous_head (page_at pmm h))"

definition status_updated ::
  "PhysicalMemoryManager \<Rightarrow> PhysicalMemoryManager \<Rightarrow> PageHandle set \<Rightarrow> (PageState \<times> bool) \<Rightarrow> bool" where
  "status_updated pmm pmm' H v \<longleftrightarrow>
     (\<forall>k. managed pmm k \<longrightarrow> status pmm' k = (if k \<in> H then v else status pmm k))"

lemma same_config_refl [simp]: "same_config pmm pmm"
  by (simp add: same_config_def)

lemma same_config_trans: "same_config a b \<Longrightarrow> same_config b c \<Longrightarrow> same_config a c"
  by (simp add: same_config_def)

lemma same_config_simps:
  assumes "same_config pmm pmm'"
  shows "arenas_wf pmm' = arenas_wf pmm" "managed pmm' h = managed pmm h"
    "slot_of pmm' h = slot_of pmm h" "arena_at pmm' h = arena_at pmm h"
    "arena_for pmm' h = arena_for pmm h"
  by (rule same_arenas; use assms in \<open>simp add: same_config_def\<close>)+

lemma links_only_config:
  assumes "links_only pmm pmm'"
  shows "same_config pmm pmm'" and "status pmm' h = status pmm h"
  by (simp_all add: same_config_def status_def links_only_simps [OF assms] links_only_same [OF assms])

lemma list_inv_congI:
  assumes "list_inv pmm fl" and "same_config pmm pmm'"
    and "free_head pmm' = free_head pmm" "free_tail pmm' = free_tail pmm"
    and "\<And>h. h \<in> set fl \<Longrightarrow> previous_free (page_at pmm' h) = previous_free (page_at pmm h) \<and>
      next_free (page_at pmm' h) = next_free (page_at pmm h)"
  shows "list_inv pmm' fl"
proof -
  have "dll_seg (\<lambda>h. previous_free (page_at pmm' h)) (\<lambda>h. next_free (page_at pmm' h))
      PageHandle_NONE fl PageHandle_NONE =
    dll_seg (\<lambda>h. previous_free (page_at pmm h)) (\<lambda>h. next_free (page_at pmm h))
      PageHandle_NONE fl PageHandle_NONE"
    using assms(5) by (rule dll_seg_cong)
  then show ?thesis
    using assms(1,3,4) by (simp add: list_inv_def same_config_simps [OF assms(2)])
qed

text \<open>Setting the status of one page without touching the links.\<close>

lemma modify_status:
  assumes wf: "arenas_wf pmm" and h: "managed pmm h"
    and f: "\<And>p. previous_free (f p) = previous_free p \<and> next_free (f p) = next_free p"
    and v: "(page_state (f (page_at pmm h)), contiguous_head (f (page_at pmm h))) = v"
  shows "same_config pmm (modify_page (slot_of pmm h) f pmm)"
    and "list_inv (modify_page (slot_of pmm h) f pmm) fl = list_inv pmm fl"
    and "status_updated pmm (modify_page (slot_of pmm h) f pmm) {h} v"
proof -
  let ?p = "modify_page (slot_of pmm h) f pmm"
  show c: "same_config pmm ?p"
    by (simp add: same_config_def)
  have c': "same_config ?p pmm"
    by (simp add: same_config_def)
  have l: "previous_free (page_at ?p k) = previous_free (page_at pmm k) \<and>
      next_free (page_at ?p k) = next_free (page_at pmm k)" for k
    using f by (simp add: same_config_simps [OF c])
  show "list_inv ?p fl = list_inv pmm fl"
    using list_inv_congI [of pmm fl ?p] list_inv_congI [of ?p fl pmm] c c' l by auto
  show "status_updated pmm ?p {h} v"
    using slot_eq_iff [OF wf _ h] v by (auto simp: status_updated_def status_def)
qed

lemma free_handles_updated:
  assumes "same_config pmm pmm'" and "status_updated pmm pmm' H v"
  shows "free_handles pmm' =
    (if fst v = Free then free_handles pmm \<union> {h \<in> H. managed pmm h} else free_handles pmm - H)"
  using assms(2)
  by (auto simp: free_handles_def same_config_simps [OF assms(1)] status_updated_def status_def
      split: if_splits)

lemma heads_updated:
  assumes "same_config pmm pmm'" and "status_updated pmm pmm' H v"
    and "\<forall>h. managed pmm h \<and> contiguous_head (page_at pmm h) \<longrightarrow> page_state (page_at pmm h) = Allocated"
    and "snd v \<longrightarrow> fst v = Allocated"
  shows "\<forall>h. managed pmm' h \<and> contiguous_head (page_at pmm' h) \<longrightarrow> page_state (page_at pmm' h) = Allocated"
proof (intro allI impI)
  fix h assume h: "managed pmm' h \<and> contiguous_head (page_at pmm' h)"
  then have "status pmm' h = (if h \<in> H then v else status pmm h)"
    using assms(1,2) by (simp add: status_updated_def same_config_simps)
  then show "page_state (page_at pmm' h) = Allocated"
    using h assms by (cases v) (auto simp: status_def same_config_simps split: if_splits)
qed

lemma pop_free_empty: "list_inv pmm [] \<Longrightarrow> pop_free pmm = Inr (None, pmm)"
  by (simp add: pop_free_def list_inv_def)

lemma pop_free_list:
  assumes "arenas_wf pmm" "list_inv pmm (h # fl)"
  shows "\<exists>pmm'. pop_free pmm = Inr (Some h, pmm') \<and> list_inv pmm' fl \<and> links_only pmm pmm'"
proof -
  obtain pmm' where "remove_free pmm h = Inr pmm'" "list_inv pmm' fl" "links_only pmm pmm'"
    using remove_free_list [of pmm "[]" h fl] assms by auto
  moreover have "free_head pmm = h" "is_some_handle h"
    using assms is_some_managed [OF assms(1)] by (auto simp: list_inv_def)
  ultimately show ?thesis
    by (simp add: pop_free_def)
qed

lemma status_updated_links:
  assumes "links_only pmm p1" "status_updated p1 p2 H v"
  shows "status_updated pmm p2 H v"
  using assms(2) by (auto simp: status_updated_def links_only_same [OF assms(1)]
      links_only_config(2) [OF assms(1)])

lemma alloc_page_empty: "pmm_inv pmm [] \<Longrightarrow> alloc_page pmm = Inr (None, pmm)"
  by (simp add: alloc_page_def pmm_inv_def pop_free_empty)

lemma alloc_page_list:
  assumes inv: "pmm_inv pmm (h # fl)"
  shows "\<exists>pmm'. alloc_page pmm = Inr (Some h, pmm') \<and> pmm_inv pmm' fl \<and> same_config pmm pmm' \<and>
    status_updated pmm pmm' {h} (Allocated, False)"
proof -
  have wf: "arenas_wf pmm" and li: "list_inv pmm (h # fl)" and fh: "set (h # fl) = free_handles pmm"
    and n: "free_pages pmm = length (h # fl)"
    and heads: "\<forall>h. managed pmm h \<and> contiguous_head (page_at pmm h) \<longrightarrow>
      page_state (page_at pmm h) = Allocated"
    using inv unfolding pmm_inv_def by blast+
  have h: "managed pmm h" "page_state (page_at pmm h) = Free"
    using fh by (auto simp: free_handles_def)
  then have h': "\<not> contiguous_head (page_at pmm h)"
    using heads by auto
  obtain p1 where pop: "pop_free pmm = Inr (Some h, p1)" and l1: "list_inv p1 fl"
    and lo: "links_only pmm p1"
    using pop_free_list [OF wf li] by blast
  note same1 = links_only_same [OF lo]
  define p2 where "p2 = modify_page (slot_of pmm h) (\<lambda>p. p\<lparr>page_state := Allocated\<rparr>) p1"
  define p3 where "p3 = p2\<lparr>free_pages := length fl\<rparr>"
  have v: "(page_state ((page_at p1 h)\<lparr>page_state := Allocated\<rparr>),
      contiguous_head ((page_at p1 h)\<lparr>page_state := Allocated\<rparr>)) = (Allocated, False)"
    using h' by (simp add: links_only_simps [OF lo] same1)
  have wf1: "arenas_wf p1" and m1: "managed p1 h"
    using wf h same1 by simp_all
  have p2: "same_config p1 p2" "list_inv p2 fl" "status_updated p1 p2 {h} (Allocated, False)"
    using modify_status [OF wf1 m1, of "\<lambda>p. p\<lparr>page_state := Allocated\<rparr>" "(Allocated, False)"] v l1
    by (simp_all add: p2_def same1)
  have c3: "same_config pmm p3"
    using p2(1) links_only_config(1) [OF lo] by (simp add: same_config_def p3_def)
  have su: "status_updated pmm p2 {h} (Allocated, False)"
    using status_updated_links [OF lo p2(3)] .
  then have s3: "status_updated pmm p3 {h} (Allocated, False)"
    by (simp add: status_updated_def status_def p3_def)
  have "alloc_page pmm = Inr (Some h, p3)"
    using pop wf1 m1 arena_for_managed [OF wf1 m1] page_mut_managed [OF wf1 m1]
    by (simp add: alloc_page_def p3_def p2_def n same1 links_only_simps [OF lo])
  moreover have "list_inv p3 fl"
    using p2(2) by (rule list_inv_congI) (simp_all add: p3_def same_config_def)
  moreover have "set fl = free_handles p3"
    using fh li free_handles_updated [OF c3 s3] by (auto simp: list_inv_def)
  moreover have "arenas_wf p3"
    using wf by (simp add: same_config_simps [OF c3])
  ultimately show ?thesis
    using c3 s3 heads_updated [OF c3 s3 heads] by (auto simp: pmm_inv_def p3_def)
qed

lemma free_page_list:
  assumes inv: "pmm_inv pmm fl" and h: "managed pmm h" "page_state (page_at pmm h) = Allocated"
  shows "\<exists>pmm'. free_page pmm h = Inr pmm' \<and> pmm_inv pmm' (fl @ [h]) \<and> same_config pmm pmm' \<and>
    status_updated pmm pmm' {h} (Free, False)"
proof -
  have wf: "arenas_wf pmm" and li: "list_inv pmm fl" and fh: "set fl = free_handles pmm"
    and n: "free_pages pmm = length fl"
    and heads: "\<forall>h. managed pmm h \<and> contiguous_head (page_at pmm h) \<longrightarrow>
      page_state (page_at pmm h) = Allocated"
    using inv unfolding pmm_inv_def by blast+
  define p1 where "p1 = modify_page (slot_of pmm h)
    (\<lambda>p. p\<lparr>page_state := Free, contiguous_head := False\<rparr>) pmm"
  have p1: "same_config pmm p1" "list_inv p1 fl" "status_updated pmm p1 {h} (Free, False)"
    using modify_status [OF wf h(1), of "\<lambda>p. p\<lparr>page_state := Free, contiguous_head := False\<rparr>"] li
    by (simp_all add: p1_def)
  have "h \<notin> set fl"
    using fh h by (simp add: free_handles_def)
  then obtain p2 where push: "push_free p1 h = Inr p2" and l2: "list_inv p2 (fl @ [h])"
    and lo: "links_only p1 p2"
    using push_free_list [of p1 fl h] wf p1(2) h(1) by (auto simp: same_config_simps [OF p1(1)])
  define p3 where "p3 = p2\<lparr>free_pages := free_pages p2 + 1\<rparr>"
  have c3: "same_config pmm p3"
    using p1(1) links_only_config(1) [OF lo] by (simp add: same_config_def p3_def)
  have s3: "status_updated pmm p3 {h} (Free, False)"
    using p1(3) links_only_config(2) [OF lo] by (simp add: status_updated_def status_def p3_def)
  have "free_page pmm h = Inr p3"
    using wf h push by (simp add: free_page_def p3_def p1_def)
  moreover have "list_inv p3 (fl @ [h])"
    using l2 by (rule list_inv_congI) (simp_all add: p3_def same_config_def)
  moreover have "set (fl @ [h]) = free_handles p3"
    using fh h free_handles_updated [OF c3 s3] by auto
  moreover have "free_pages p3 = length (fl @ [h])"
    using n by (simp add: p3_def links_only_simps [OF lo] p1_def)
  moreover have "arenas_wf p3"
    using wf by (simp add: same_config_simps [OF c3])
  ultimately show ?thesis
    using c3 s3 heads_updated [OF c3 s3 heads] by (auto simp: pmm_inv_def)
qed

lemma free_page_panics:
  assumes "arenas_wf pmm"
  shows "\<not> managed pmm h \<Longrightarrow> free_page pmm h = Inl ''pmm: address not in any managed arena''"
    and "managed pmm h \<Longrightarrow> page_state (page_at pmm h) = Free \<Longrightarrow>
      free_page pmm h = Inl ''pmm: double-free detected''"
    and "managed pmm h \<Longrightarrow> page_state (page_at pmm h) = Reserved \<Longrightarrow>
      free_page pmm h = Inl ''pmm: cannot free reserved page''"
  using assms arena_for_None_iff [OF assms, of h] by (simp_all add: free_page_def)

section \<open>Physical addresses\<close>

definition handle_address :: "PhysicalMemoryManager \<Rightarrow> PageHandle \<Rightarrow> PhysicalAddress" where
  "handle_address pmm h = arena_base (arena_at pmm h) + of_nat (unat (handle_page h)) * PAGE_SIZE"

lemma page_offset_bounds:
  assumes "arena_ok i a" "n < page_count a"
  shows "unat (of_nat n :: usize) = n" "unat (of_nat n * PAGE_SIZE) = n * 4096"
    "unat (arena_base a + of_nat n * PAGE_SIZE) = unat (arena_base a) + n * 4096"
proof -
  have "n * 4096 < page_count a * 4096"
    using assms(2) by simp
  then have lt: "unat (arena_base a) + n * 4096 < 2 ^ 64"
    using assms(1) unfolding arena_ok_def by linarith
  show n: "unat (of_nat n :: usize) = n"
    using lt by (intro unat_of_nat_lt) linarith
  show m: "unat (of_nat n * PAGE_SIZE) = n * 4096"
    using lt n by (simp add: unat_mult_no_overflow)
  show "unat (arena_base a + of_nat n * PAGE_SIZE) = unat (arena_base a) + n * 4096"
    using lt m by (simp add: unat_add_no_overflow)
qed

lemma unat_handle_address:
  assumes "arenas_wf pmm" "managed pmm h"
  shows "unat (handle_address pmm h) =
    unat (arena_base (arena_at pmm h)) + unat (handle_page h) * 4096"
  using page_offset_bounds(3) [OF arenas_wf_arena_ok [OF assms]] assms(2)
  by (simp only: handle_address_def managed_def)

lemma page_to_physical_managed:
  assumes "arenas_wf pmm" "managed pmm h"
  shows "page_to_physical (arena_at pmm h) h = Some (handle_address pmm h)"
proof -
  note ok = arenas_wf_arena_ok [OF assms]
  have lt: "unat (handle_page h) < page_count (arena_at pmm h)"
    using assms(2) by (simp add: managed_def)
  note b = page_offset_bounds [OF ok lt]
  have "handle_arena h = arena_index_of (arena_at pmm h)"
    using ok by (simp add: arena_ok_def)
  moreover have "checked_mul (of_nat (unat (handle_page h))) PAGE_SIZE =
      Some (of_nat (unat (handle_page h)) * PAGE_SIZE)"
    using b(1,2) unat_bound64 [of "of_nat (unat (handle_page h)) * PAGE_SIZE"]
    by (intro checked_mul_lt) simp
  moreover have "checked_add (arena_base (arena_at pmm h)) (of_nat (unat (handle_page h)) * PAGE_SIZE) =
      Some (handle_address pmm h)"
    unfolding checked_add_eq_Some unat_handle_address [OF assms] b(2) by simp
  ultimately show ?thesis
    using lt by (simp add: page_to_physical_def Let_def)
qed

lemma physical_to_page_iff:
  assumes ok: "arena_ok i a"
  shows "physical_to_page a p = Some h \<longleftrightarrow>
    handle_arena h = of_nat i \<and> unat (handle_page h) < page_count a \<and>
    unat p = unat (arena_base a) + unat (handle_page h) * 4096"
proof -
  have base: "is_page_aligned (arena_base a)" and idx: "arena_index_of a = of_nat i"
    and cnt: "page_count a \<le> 0xffffffff"
    using ok by (simp_all add: arena_ok_def)
  obtain q where q: "unat (arena_base a) = 4096 * q"
    using base by (rule page_aligned_multiple)
  show ?thesis
  proof (cases "is_page_aligned p \<and> arena_base a \<le> p")
    case True
    then obtain r where r: "unat p = 4096 * r"
      using page_aligned_multiple by blast
    have le: "q \<le> r"
      using True q r by (simp add: word_le_nat_alt)
    have "unat (p - arena_base a) = 4096 * (r - q)"
      using True q r by (simp add: unat_sub diff_mult_distrib2)
    then have off: "unat ((p - arena_base a) div PAGE_SIZE) = r - q"
      by (simp add: unat_div_distrib)
    have "physical_to_page a p =
        (if page_count a \<le> r - q then None else Some (PageHandle_new (of_nat i) (of_nat (r - q))))"
      using True cnt leD [of "arena_base a" p]
      by (simp add: physical_to_page_def checked_sub_def off idx Let_def not_le)
    moreover have u: "unat (of_nat (r - q) :: u32) = r - q" if "r - q < page_count a"
      using that cnt by (simp add: unat_of_nat)
    moreover have sum: "unat p = unat (arena_base a) + k * 4096 \<longleftrightarrow> k = r - q" for k
      using q r le by auto
    moreover have "h = PageHandle_new (of_nat i) (of_nat (r - q)) \<longleftrightarrow>
        handle_arena h = of_nat i \<and> handle_page h = of_nat (r - q)"
      by (cases h) (simp add: PageHandle_new_def)
    moreover have "handle_page h = of_nat (r - q) \<longleftrightarrow> unat (handle_page h) = r - q"
      if "r - q < page_count a"
      using u [OF that] word_unat_eq_iff [of "handle_page h" "of_nat (r - q)"] by simp
    ultimately show ?thesis
      by (cases "r - q < page_count a") (auto simp: eq_commute [of _ h])
  next
    case False
    moreover have "is_page_aligned p \<and> arena_base a \<le> p"
      if "unat p = unat (arena_base a) + k * 4096" for k
      using that q by (simp add: is_page_aligned_iff word_le_nat_alt)
    moreover have "physical_to_page a p = None"
      using False by (auto simp: physical_to_page_def not_le)
    ultimately show ?thesis
      by auto
  qed
qed

lemma arena_contains_address:
  assumes wf: "arenas_wf pmm" and h: "managed pmm h" and i: "i < arena_count pmm"
  shows "physical_to_page (arenas pmm ! i) (handle_address pmm h) \<noteq> None \<longleftrightarrow>
    i = unat (handle_arena h)"
proof
  assume "physical_to_page (arenas pmm ! i) (handle_address pmm h) \<noteq> None"
  then obtain k where k: "physical_to_page (arenas pmm ! i) (handle_address pmm h) = Some k"
    by blast
  have "arena_ok i (arenas pmm ! i)"
    using wf i by (simp add: arenas_wf_def)
  note k = physical_to_page_iff [OF this, THEN iffD1, OF k]
  show "i = unat (handle_arena h)"
  proof (rule ccontr)
    assume ne: "i \<noteq> unat (handle_arena h)"
    have "unat (handle_arena h) < arena_count pmm"
      using h by (simp add: managed_def)
    then have "arenas_apart (arenas pmm ! i) (arena_at pmm h) \<or>
        arenas_apart (arena_at pmm h) (arenas pmm ! i)"
      using wf i ne unfolding arenas_wf_def arena_at_def by (metis linorder_neqE_nat)
    then show False
      using k h unat_handle_address [OF wf h]
      by (auto simp: arenas_apart_def managed_def)
  qed
next
  assume i: "i = unat (handle_arena h)"
  have "physical_to_page (arena_at pmm h) (handle_address pmm h) = Some h"
    using physical_to_page_iff [OF arenas_wf_arena_ok [OF wf h]] unat_handle_address [OF wf h] h
    by (simp add: managed_def)
  then show "physical_to_page (arenas pmm ! i) (handle_address pmm h) \<noteq> None"
    by (simp add: i arena_at_def)
qed

lemma physical_to_page_managed:
  assumes "arenas_wf pmm" "managed pmm h"
  shows "physical_to_page (arena_at pmm h) (handle_address pmm h) = Some h"
  using physical_to_page_iff [OF arenas_wf_arena_ok [OF assms]] unat_handle_address [OF assms] assms(2)
  by (simp add: managed_def)

lemma handle_address_inj:
  assumes "arenas_wf pmm" "managed pmm h" "managed pmm k" "handle_address pmm h = handle_address pmm k"
  shows "h = k"
proof -
  have "unat (handle_arena h) = unat (handle_arena k)"
    using arena_contains_address [OF assms(1,2), of "unat (handle_arena k)"]
      arena_contains_address [OF assms(1,3), of "unat (handle_arena k)"] assms(3,4)
    by (simp add: managed_def)
  then have "arena_at pmm h = arena_at pmm k"
    by (simp add: arena_at_def)
  then show ?thesis
    using physical_to_page_managed [OF assms(1,2)] physical_to_page_managed [OF assms(1,3)] assms(4)
    by (metis option.inject)
qed

lemma handle_address_aligned:
  assumes "arenas_wf pmm" "managed pmm h"
  shows "is_page_aligned (handle_address pmm h)"
proof -
  have "is_page_aligned (arena_base (arena_at pmm h))"
    using arenas_wf_arena_ok [OF assms] by (simp add: arena_ok_def)
  then obtain q where "unat (arena_base (arena_at pmm h)) = 4096 * q"
    by (rule page_aligned_multiple)
  then show ?thesis
    by (simp add: is_page_aligned_iff unat_handle_address [OF assms])
qed

lemma arena_for_physical_managed:
  assumes wf: "arenas_wf pmm" and h: "managed pmm h"
  shows "arena_for_physical pmm (handle_address pmm h) = Some (arena_at pmm h)"
proof -
  let ?i = "unat (handle_arena h)" and ?as = "take (arena_count pmm) (arenas pmm)"
  let ?P = "\<lambda>a. physical_to_page a (handle_address pmm h) \<noteq> None"
  have len: "length ?as = arena_count pmm"
    using wf by (simp add: arenas_wf_def)
  have i: "?i < arena_count pmm"
    using h by (simp add: managed_def)
  have "List.find ?P ?as = Some (?as ! ?i)"
    unfolding find_Some_iff
    using i len arena_contains_address [OF wf h] by (intro exI [of _ ?i]) auto
  then show ?thesis
    using i by (simp add: arena_for_physical_def arena_at_def)
qed

lemma arena_for_physical_unmanaged:
  assumes wf: "arenas_wf pmm" and p: "\<And>h. managed pmm h \<Longrightarrow> handle_address pmm h \<noteq> p"
  shows "arena_for_physical pmm p = None"
proof -
  have "physical_to_page (arenas pmm ! i) p = None" if i: "i < arena_count pmm" for i
  proof (rule ccontr)
    assume "\<not> ?thesis"
    then obtain h where h: "physical_to_page (arenas pmm ! i) p = Some h"
      by blast
    have ok: "arena_ok i (arenas pmm ! i)" and "i < 256"
      using wf i by (simp_all add: arenas_wf_def MAX_MEMORY_ARENAS_def)
    then have "unat (of_nat i :: u8) = i"
      by (simp add: unat_of_nat)
    with physical_to_page_iff [OF ok, THEN iffD1, OF h] i have "managed pmm h"
        "unat p = unat (arena_base (arena_at pmm h)) + unat (handle_page h) * 4096"
      by (simp_all add: managed_def arena_at_def)
    then show False
      using p [of h] unat_handle_address [OF wf, of h] by (simp add: word_unat_eq_iff)
  qed
  then show ?thesis
    by (auto simp: arena_for_physical_def find_None_iff in_set_conv_nth)
qed

end
