(* ===== verification/Page_Pool.thy ===== *)
theory Page_Pool
  imports Rust_Prelude
begin

text \<open>
  The interface the page allocator offers the rest of the kernel: a queue of available pages, a set
  of pages handed out, \<open>alloc\<close> and \<open>release\<close>. \<open>spec_run\<close> is the abstract behaviour of a
  sequence of calls on the queue and the set alone; the lemma \<open>run_refines\<close> shows that every
  implementation of the interface follows it, results and panics included.
\<close>

datatype 'p pool_op = Take | Release 'p

fun spec_run :: "'p list \<Rightarrow> 'p set \<Rightarrow> 'p pool_op list \<Rightarrow> ('p option list \<times> 'p list \<times> 'p set) option" where
  "spec_run q used [] = Some ([], q, used)"
| "spec_run [] used (Take # ops) =
     map_option (\<lambda>(rs, q, used). (None # rs, q, used)) (spec_run [] used ops)"
| "spec_run (p # q) used (Take # ops) =
     map_option (\<lambda>(rs, q, used). (Some p # rs, q, used)) (spec_run q (insert p used) ops)"
| "spec_run q used (Release p # ops) =
     (if p \<in> used then spec_run (q @ [p]) (used - {p}) ops else None)"

text \<open>The same sequence of calls on an implementation, stopping at the first panic.\<close>

fun run_ops ::
  "('s \<Rightarrow> ('p option \<times> 's) panics) \<Rightarrow> ('s \<Rightarrow> 'p \<Rightarrow> 's panics) \<Rightarrow> 's \<Rightarrow> 'p pool_op list \<Rightarrow>
   ('p option list \<times> 's) panics" where
  "run_ops alloc release s [] = Inr ([], s)"
| "run_ops alloc release s (Take # ops) =
     bind_panic (alloc s) (\<lambda>(r, s).
     bind_panic (run_ops alloc release s ops) (\<lambda>(rs, s). Inr (r # rs, s)))"
| "run_ops alloc release s (Release p # ops) =
     bind_panic (release s p) (\<lambda>s. run_ops alloc release s ops)"

locale page_pool =
  fixes inv :: "'s \<Rightarrow> bool"
    and avail :: "'s \<Rightarrow> 'p list"
    and used :: "'s \<Rightarrow> 'p set"
    and alloc :: "'s \<Rightarrow> ('p option \<times> 's) panics"
    and release :: "'s \<Rightarrow> 'p \<Rightarrow> 's panics"
  assumes avail_fresh: "inv s \<Longrightarrow> distinct (avail s) \<and> set (avail s) \<inter> used s = {}"
    and alloc_empty: "inv s \<Longrightarrow> avail s = [] \<Longrightarrow> alloc s = Inr (None, s)"
    and alloc_next: "inv s \<Longrightarrow> avail s = p # ps \<Longrightarrow>
      \<exists>s'. alloc s = Inr (Some p, s') \<and> inv s' \<and> avail s' = ps \<and> used s' = insert p (used s)"
    and release_used: "inv s \<Longrightarrow> p \<in> used s \<Longrightarrow>
      \<exists>s'. release s p = Inr s' \<and> inv s' \<and> avail s' = avail s @ [p] \<and> used s' = used s - {p}"
    and release_other: "inv s \<Longrightarrow> p \<notin> used s \<Longrightarrow> \<exists>msg. release s p = Inl msg"
begin

lemma alloc_total: "inv s \<Longrightarrow> \<exists>r s'. alloc s = Inr (r, s') \<and> inv s'"
  using alloc_empty [of s] alloc_next [of s] by (cases "avail s") auto

lemma alloc_SomeD:
  assumes "inv s" "alloc s = Inr (Some p, s')"
  shows "inv s' \<and> p \<notin> used s \<and> p \<in> set (avail s) \<and> used s' = insert p (used s) \<and>
    avail s = p # avail s'"
proof (cases "avail s")
  case Nil
  then show ?thesis
    using assms alloc_empty by fastforce
next
  case (Cons q qs)
  then show ?thesis
    using assms alloc_next [OF assms(1) Cons] avail_fresh [OF assms(1)] by auto
qed

lemma alloc_NoneD: "inv s \<Longrightarrow> alloc s = Inr (None, s') \<Longrightarrow> s' = s \<and> avail s = []"
  using alloc_empty [of s] alloc_next [of s] by (cases "avail s") auto

lemma run_refines:
  "inv s \<Longrightarrow> case spec_run (avail s) (used s) ops of
      None \<Rightarrow> \<exists>msg. run_ops alloc release s ops = Inl msg
    | Some (rs, q, u) \<Rightarrow>
        \<exists>s'. run_ops alloc release s ops = Inr (rs, s') \<and> inv s' \<and> avail s' = q \<and> used s' = u"
proof (induction ops arbitrary: s)
  case (Cons op ops)
  show ?case
  proof (cases op)
    case Take
    show ?thesis
    proof (cases "avail s")
      case Nil
      then show ?thesis
        using Cons.IH [OF Cons.prems] alloc_empty [OF Cons.prems Nil] Take
        by (auto split: option.splits)
    next
      case (Cons p ps)
      then obtain s' where s': "alloc s = Inr (Some p, s')" "inv s'" "avail s' = ps"
          "used s' = insert p (used s)"
        using alloc_next [OF Cons.prems Cons] by blast
      then show ?thesis
        using Cons.IH [OF s'(2)] Take Cons by (auto split: option.splits)
    qed
  next
    case (Release p)
    show ?thesis
    proof (cases "p \<in> used s")
      case True
      then obtain s' where s': "release s p = Inr s'" "inv s'" "avail s' = avail s @ [p]"
          "used s' = used s - {p}"
        using release_used [OF Cons.prems True] by blast
      then show ?thesis
        using Cons.IH [OF s'(2)] Release True by (auto split: option.splits)
    next
      case False
      then show ?thesis
        using release_other [OF Cons.prems False] Release by auto
    qed
  qed
qed simp

end

text \<open>
  Along a specified run no page is lost and none is in two places: the pages in the queue and the
  pages handed out stay the same, disjoint and without repetition.
\<close>

lemma spec_run_conserves:
  "spec_run q u ops = Some (rs, q', u') \<Longrightarrow> distinct q \<Longrightarrow> set q \<inter> u = {} \<Longrightarrow>
   distinct q' \<and> set q' \<inter> u' = {} \<and> set q' \<union> u' = set q \<union> u"
proof (induction q u ops arbitrary: rs q' u' rule: spec_run.induct)
  case (4 q u p ops)
  then show ?case
    by (fastforce split: if_splits)
qed auto

end
