(* ===== verification/Pmm_Pages.thy ===== *)
theory Pmm_Pages
  imports Pmm_Free_List Page_Pool
begin

text \<open>
  Single pages of the page allocator as an instance of the pool interface, twice: through page
  handles (\<open>alloc_page\<close> and the drop of an \<open>AllocatedPage\<close>) and through physical addresses
  (\<open>leak_physical\<close> and \<open>free_physical_page\<close>), the way page tables, slabs and kernel stacks use
  it.
\<close>

section \<open>Entry points on physical addresses\<close>

text \<open>\<open>pmm::alloc_page()\<close> followed by \<open>AllocatedPage::leak_physical\<close>.\<close>

definition leak_physical :: "PhysicalMemoryManager \<Rightarrow> PageHandle \<Rightarrow> PhysicalAddress option panics" where
  "leak_physical pmm h = page_to_physical_handle pmm h"

definition alloc_physical_page ::
  "PhysicalMemoryManager \<Rightarrow> (PhysicalAddress option \<times> PhysicalMemoryManager) panics" where
  "alloc_physical_page pmm =
     bind_panic (pmm_alloc_page pmm) (\<lambda>(page, pmm).
       case page of
         None \<Rightarrow> Inr (None, pmm)
       | Some h \<Rightarrow> bind_panic (leak_physical pmm h) (\<lambda>physical. Inr (physical, pmm)))"

section \<open>The pool of handles\<close>

definition pool_inv :: "PhysicalMemoryManager \<Rightarrow> bool" where
  "pool_inv pmm \<longleftrightarrow> initialized pmm \<and> pmm_inv pmm (free_list pmm)"

definition allocated_handles :: "PhysicalMemoryManager \<Rightarrow> PageHandle set" where
  "allocated_handles pmm = {h. managed pmm h \<and> page_state (page_at pmm h) = Allocated}"

lemma pool_invI: "pmm_inv pmm fl \<Longrightarrow> initialized pmm \<Longrightarrow> pool_inv pmm \<and> free_list pmm = fl"
proof -
  assume "pmm_inv pmm fl" "initialized pmm"
  then show "pool_inv pmm \<and> free_list pmm = fl"
    unfolding pool_inv_def free_list_eq [OF \<open>pmm_inv pmm fl\<close>] by blast
qed

lemma pool_inv_wf: "pool_inv pmm \<Longrightarrow> arenas_wf pmm"
  by (simp add: pool_inv_def pmm_inv_def)

lemma free_list_managed: "pool_inv pmm \<Longrightarrow> h \<in> set (free_list pmm) \<Longrightarrow> managed pmm h"
  by (simp add: pool_inv_def pmm_inv_def list_inv_def)

lemma allocated_updated:
  assumes "same_config pmm pmm'" and "status_updated pmm pmm' H v"
  shows "allocated_handles pmm' =
    (if fst v = Allocated then allocated_handles pmm \<union> {h \<in> H. managed pmm h}
     else allocated_handles pmm - H)"
  using assms(2)
  by (auto simp: allocated_handles_def same_config_simps [OF assms(1)] status_updated_def status_def
      split: if_splits)

lemma pool_alloc:
  assumes "pool_inv pmm" "free_list pmm = h # hs"
  shows "\<exists>pmm'. pmm_alloc_page pmm = Inr (Some h, pmm') \<and> pool_inv pmm' \<and> free_list pmm' = hs \<and>
    allocated_handles pmm' = insert h (allocated_handles pmm) \<and> same_config pmm pmm' \<and>
    status_updated pmm pmm' {h} (Allocated, False)"
proof -
  have inv: "pmm_inv pmm (h # hs)" and init: "initialized pmm"
    using assms by (auto simp: pool_inv_def)
  obtain pmm' where p: "alloc_page pmm = Inr (Some h, pmm')" "pmm_inv pmm' hs" "same_config pmm pmm'"
      "status_updated pmm pmm' {h} (Allocated, False)"
    using alloc_page_list [OF inv] by blast
  have "managed pmm h"
    using inv by (simp add: pmm_inv_def list_inv_def)
  then have "allocated_handles pmm' = insert h (allocated_handles pmm)"
    using allocated_updated [OF p(3,4)] by auto
  then show ?thesis
    using p init pool_invI [OF p(2)]
    by (simp add: pmm_alloc_page_def assert_initialized_def same_config_def)
qed

lemma pool_release:
  assumes "pool_inv pmm" "h \<in> allocated_handles pmm"
  shows "\<exists>pmm'. free_page_handle pmm h = Inr pmm' \<and> free_page pmm h = Inr pmm' \<and> pool_inv pmm' \<and>
    free_list pmm' = free_list pmm @ [h] \<and>
    allocated_handles pmm' = allocated_handles pmm - {h} \<and> same_config pmm pmm'"
proof -
  have h: "managed pmm h" "page_state (page_at pmm h) = Allocated"
    and inv: "pmm_inv pmm (free_list pmm)" and init: "initialized pmm"
    using assms by (auto simp: pool_inv_def allocated_handles_def)
  obtain pmm' where p: "free_page pmm h = Inr pmm'" "pmm_inv pmm' (free_list pmm @ [h])"
      "same_config pmm pmm'" "status_updated pmm pmm' {h} (Free, False)"
    using free_page_list [OF inv h] by blast
  have "allocated_handles pmm' = allocated_handles pmm - {h}"
    using allocated_updated [OF p(3,4)] by auto
  then show ?thesis
    using p init pool_invI [OF p(2)]
    by (simp add: free_page_handle_def assert_initialized_def same_config_def)
qed

lemma free_page_other_panics:
  assumes "pool_inv pmm" "h \<notin> allocated_handles pmm"
  shows "\<exists>msg. free_page pmm h = Inl msg"
proof -
  note panics = free_page_panics [OF pool_inv_wf [OF assms(1)], of h]
  show ?thesis
  proof (cases "managed pmm h")
    case True
    then show ?thesis
      using panics(2,3) assms(2) by (cases "page_state (page_at pmm h)") (auto simp: allocated_handles_def)
  qed (use panics(1) in blast)
qed

interpretation handle_pool: page_pool pool_inv free_list allocated_handles pmm_alloc_page free_page_handle
proof unfold_locales
  fix pmm h hs
  assume inv: "pool_inv pmm"
  then have pinv: "pmm_inv pmm (free_list pmm)" and init: "initialized pmm"
    by (simp_all add: pool_inv_def)
  have "distinct (free_list pmm)" and fl: "set (free_list pmm) = free_handles pmm"
    using pinv unfolding pmm_inv_def list_inv_def by blast+
  moreover have "free_handles pmm \<inter> allocated_handles pmm = {}"
    by (auto simp: free_handles_def allocated_handles_def)
  ultimately show "distinct (free_list pmm) \<and> set (free_list pmm) \<inter> allocated_handles pmm = {}"
    by simp
  show "free_list pmm = [] \<Longrightarrow> pmm_alloc_page pmm = Inr (None, pmm)"
    using pinv init alloc_page_empty [of pmm] by (simp add: pmm_alloc_page_def assert_initialized_def)
  show "free_list pmm = h # hs \<Longrightarrow> \<exists>pmm'. pmm_alloc_page pmm = Inr (Some h, pmm') \<and> pool_inv pmm' \<and>
      free_list pmm' = hs \<and> allocated_handles pmm' = insert h (allocated_handles pmm)"
    using pool_alloc [OF inv] by blast
  show "h \<in> allocated_handles pmm \<Longrightarrow> \<exists>pmm'. free_page_handle pmm h = Inr pmm' \<and> pool_inv pmm' \<and>
      free_list pmm' = free_list pmm @ [h] \<and> allocated_handles pmm' = allocated_handles pmm - {h}"
    using pool_release [OF inv] by blast
  show "h \<notin> allocated_handles pmm \<Longrightarrow> \<exists>msg. free_page_handle pmm h = Inl msg"
    using free_page_other_panics [OF inv] inv
    by (simp add: free_page_handle_def assert_initialized_def pool_inv_def)
qed

section \<open>The pool of addresses\<close>

definition free_addresses :: "PhysicalMemoryManager \<Rightarrow> PhysicalAddress list" where
  "free_addresses pmm = map (handle_address pmm) (free_list pmm)"

definition allocated_addresses :: "PhysicalMemoryManager \<Rightarrow> PhysicalAddress set" where
  "allocated_addresses pmm = handle_address pmm ` allocated_handles pmm"

lemma handle_address_config:
  "same_config pmm pmm' \<Longrightarrow> handle_address pmm' h = handle_address pmm h"
  using same_config_simps(4) [of pmm pmm' h] by (simp add: handle_address_def)

lemma address_pool_alloc:
  assumes "pool_inv pmm" "free_list pmm = h # hs"
  shows "\<exists>pmm'. alloc_physical_page pmm = Inr (Some (handle_address pmm h), pmm') \<and> pool_inv pmm' \<and>
    free_list pmm' = hs \<and> allocated_handles pmm' = insert h (allocated_handles pmm) \<and>
    same_config pmm pmm' \<and> status_updated pmm pmm' {h} (Allocated, False)"
proof -
  obtain pmm' where p: "pmm_alloc_page pmm = Inr (Some h, pmm')" "pool_inv pmm'" "free_list pmm' = hs"
      "allocated_handles pmm' = insert h (allocated_handles pmm)" "same_config pmm pmm'"
      "status_updated pmm pmm' {h} (Allocated, False)"
    using pool_alloc [OF assms] by blast
  have wf: "arenas_wf pmm'" and m: "managed pmm' h" and init: "initialized pmm'"
    using p(2,4) by (auto simp: allocated_handles_def pool_inv_def pmm_inv_def)
  show ?thesis
    using p page_to_physical_managed [OF wf m] arena_for_managed [OF wf m] init
    by (simp add: alloc_physical_page_def leak_physical_def page_to_physical_handle_def
        assert_initialized_def handle_address_config [OF p(5)])
qed

lemma address_pool_release:
  assumes "pool_inv pmm" "managed pmm h"
  shows "free_physical_page pmm (handle_address pmm h) = free_page pmm h"
proof -
  have "initialized pmm"
    using assms(1) by (simp add: pool_inv_def)
  then show ?thesis
    using arena_for_physical_managed [OF pool_inv_wf [OF assms(1)] assms(2)]
      physical_to_page_managed [OF pool_inv_wf [OF assms(1)] assms(2)]
    by (simp add: free_physical_page_def assert_initialized_def)
qed

lemma handle_address_inj_on:
  "pool_inv pmm \<Longrightarrow> inj_on (handle_address pmm) {h. managed pmm h}"
  using handle_address_inj [of pmm] pool_inv_wf [of pmm] by (intro inj_onI) simp

interpretation address_pool:
  page_pool pool_inv free_addresses allocated_addresses alloc_physical_page free_physical_page
proof unfold_locales
  fix pmm p ps
  assume inv: "pool_inv pmm"
  note inj = handle_address_inj_on [OF inv]
  have sub: "set (free_list pmm) \<subseteq> {h. managed pmm h}" "allocated_handles pmm \<subseteq> {h. managed pmm h}"
    using free_list_managed [OF inv] by (auto simp: allocated_handles_def)
  have fresh: "distinct (free_list pmm)" "set (free_list pmm) \<inter> allocated_handles pmm = {}"
    using handle_pool.avail_fresh [OF inv] by simp_all
  show "distinct (free_addresses pmm) \<and> set (free_addresses pmm) \<inter> allocated_addresses pmm = {}"
    using fresh sub inj inj_on_image_Int [OF inj sub]
    by (auto simp: free_addresses_def allocated_addresses_def distinct_map inj_on_subset)
  show "free_addresses pmm = [] \<Longrightarrow> alloc_physical_page pmm = Inr (None, pmm)"
    using handle_pool.alloc_empty [OF inv]
    by (simp add: free_addresses_def alloc_physical_page_def)
  show "\<exists>pmm'. alloc_physical_page pmm = Inr (Some p, pmm') \<and> pool_inv pmm' \<and>
      free_addresses pmm' = ps \<and> allocated_addresses pmm' = insert p (allocated_addresses pmm)"
    if a: "free_addresses pmm = p # ps"
  proof -
    obtain h hs where fl: "free_list pmm = h # hs" and ps: "p = handle_address pmm h"
        "ps = map (handle_address pmm) hs"
      using a by (auto simp: free_addresses_def)
    obtain pmm' where "alloc_physical_page pmm = Inr (Some (handle_address pmm h), pmm')"
        "pool_inv pmm'" "free_list pmm' = hs"
        "allocated_handles pmm' = insert h (allocated_handles pmm)" "same_config pmm pmm'"
      using address_pool_alloc [OF inv fl] by blast
    then show ?thesis
      using ps by (simp add: free_addresses_def allocated_addresses_def handle_address_config)
  qed
  show "\<exists>pmm'. free_physical_page pmm p = Inr pmm' \<and> pool_inv pmm' \<and>
      free_addresses pmm' = free_addresses pmm @ [p] \<and>
      allocated_addresses pmm' = allocated_addresses pmm - {p}"
    if a: "p \<in> allocated_addresses pmm"
  proof -
    obtain h where h: "h \<in> allocated_handles pmm" and p: "p = handle_address pmm h"
      using a by (auto simp: allocated_addresses_def)
    then obtain pmm' where r: "free_page pmm h = Inr pmm'" "pool_inv pmm'"
        "free_list pmm' = free_list pmm @ [h]" "allocated_handles pmm' = allocated_handles pmm - {h}"
        "same_config pmm pmm'"
      using pool_release [OF inv] by blast
    have "handle_address pmm ` (allocated_handles pmm - {h}) =
        handle_address pmm ` allocated_handles pmm - {handle_address pmm h}"
      using inj_on_image_set_diff [OF inj, of "allocated_handles pmm" "{h}"] sub h by auto
    moreover have "free_physical_page pmm p = Inr pmm'"
      using address_pool_release [OF inv, of h] h sub r(1) p by auto
    ultimately show ?thesis
      using r p by (simp add: free_addresses_def allocated_addresses_def handle_address_config)
  qed
  show "\<exists>msg. free_physical_page pmm p = Inl msg" if "p \<notin> allocated_addresses pmm"
  proof (cases "\<exists>h. managed pmm h \<and> handle_address pmm h = p")
    case True
    then obtain h where h: "managed pmm h" "p = handle_address pmm h"
      by blast
    then have "h \<notin> allocated_handles pmm"
      using that by (auto simp: allocated_addresses_def)
    then show ?thesis
      using free_page_other_panics [OF inv] address_pool_release [OF inv h(1)] h(2) by auto
  next
    case False
    then show ?thesis
      using arena_for_physical_unmanaged [OF pool_inv_wf [OF inv], of p] inv
      by (auto simp: free_physical_page_def assert_initialized_def pool_inv_def)
  qed
qed

section \<open>A small manager\<close>

text \<open>One arena of two pages, the first free and the second allocated.\<close>

definition sample_arena :: Arena where
  "sample_arena =
     \<lparr>arena_base = 0x80000000, page_count = 2,
      arena_pages = \<lparr>storage_ptr = 0x1000, storage_len = 2, storage_arena_index = 0\<rparr>\<rparr>"

definition sample_pmm :: PhysicalMemoryManager where
  "sample_pmm =
     (pmm_empty (\<lambda>(p, i). Page_new 0 (if i = 0 then Free else Allocated)))
       \<lparr>arenas := [sample_arena, Arena_EMPTY, Arena_EMPTY, Arena_EMPTY], arena_count := 1,
        free_head := PageHandle_new 0 0, free_tail := PageHandle_new 0 0, free_pages := 1,
        initialized := True\<rparr>"

lemma sample_managed:
  "managed sample_pmm h \<longleftrightarrow> h = PageHandle_new 0 0 \<or> h = PageHandle_new 0 1"
proof -
  have "unat (handle_page h) < 2 \<longleftrightarrow> handle_page h = 0 \<or> handle_page h = 1"
    by (simp add: less_2_cases_iff word_unat_eq_iff)
  then show ?thesis
    by (cases h) (auto simp: managed_def sample_pmm_def arena_at_def sample_arena_def PageHandle_new_def
        pmm_empty_def unat_eq_0)
qed

lemma sample_page: "h = PageHandle_new 0 n \<Longrightarrow> page_at sample_pmm h =
    Page_new 0 (if n = 0 then Free else Allocated)"
  by (simp add: sample_pmm_def slot_of_def arena_at_def PageHandle_new_def pmm_empty_def unat_eq_0)

lemma sample_arena_ok: "arena_ok 0 sample_arena"
  by (simp add: arena_ok_def sample_arena_def arena_index_of_def is_page_aligned_def page_offset_def
      PAGE_MASK_def PAGE_SIZE_def)

lemma sample_arenas_wf: "arenas_wf sample_pmm"
proof -
  have as: "arenas sample_pmm = [sample_arena, Arena_EMPTY, Arena_EMPTY, Arena_EMPTY]"
      "arena_count sample_pmm = 1"
    by (simp_all add: sample_pmm_def)
  have "page_count ([sample_arena, Arena_EMPTY, Arena_EMPTY, Arena_EMPTY] ! i) = 0"
    if "1 \<le> i \<and> i < 4" for i :: nat
  proof -
    have "i = 1 \<or> i = 2 \<or> i = 3"
      using that by linarith
    then show ?thesis
      by (auto simp: Arena_EMPTY_def)
  qed
  then show ?thesis
    using sample_arena_ok by (simp add: arenas_wf_def as MAX_MEMORY_ARENAS_def)
qed

lemma sample_inv: "pmm_inv sample_pmm [PageHandle_new 0 0]"
proof -
  have ne: "PageHandle_new 0 1 \<noteq> PageHandle_new 0 0"
    by (simp add: PageHandle_new_def)
  have "list_inv sample_pmm [PageHandle_new 0 0]"
    by (simp add: list_inv_def sample_managed sample_page [OF refl] Page_new_def)
      (simp add: sample_pmm_def)
  moreover have "free_handles sample_pmm = {PageHandle_new 0 0}"
    by (auto simp: free_handles_def sample_managed sample_page [OF refl] Page_new_def)
  moreover have "\<forall>h. managed sample_pmm h \<and> contiguous_head (page_at sample_pmm h) \<longrightarrow>
      page_state (page_at sample_pmm h) = Allocated"
    by (auto simp: sample_managed sample_page [OF refl] Page_new_def)
  moreover have "free_pages sample_pmm = 1"
    by (simp add: sample_pmm_def)
  ultimately show ?thesis
    using sample_arenas_wf by (simp add: pmm_inv_def)
qed

lemma sample_pool: "pool_inv sample_pmm" "free_list sample_pmm = [PageHandle_new 0 0]"
  using pool_invI [OF sample_inv] by (simp_all add: sample_pmm_def)

lemma sample_allocated: "allocated_handles sample_pmm = {PageHandle_new 0 1}"
  by (auto simp: allocated_handles_def sample_managed sample_page [OF refl] Page_new_def)

lemma sample_handle_address:
  "handle_address sample_pmm (PageHandle_new 0 n) = 0x80000000 + of_nat (unat n) * 0x1000"
  by (simp add: handle_address_def arena_at_def PageHandle_new_def sample_pmm_def sample_arena_def
      PAGE_SIZE_def)

lemma sample_addresses:
  "free_addresses sample_pmm = [0x80000000]" "allocated_addresses sample_pmm = {0x80001000}"
  by (simp_all add: free_addresses_def allocated_addresses_def sample_pool sample_allocated
      sample_handle_address)

section \<open>Properties\<close>

text \<open>
  C3. Every sequence of page allocations and frees by physical address behaves as a queue of pages:
  allocation takes the page that has been free the longest and reports exhaustion exactly when none
  is free, freeing appends, and the only panics are frees of pages that are not handed out. No page
  is lost, duplicated, or free and in use at once.
\<close>

theorem pmm_refines_page_pool:
  assumes "pool_inv pmm"
  shows "case spec_run (free_addresses pmm) (allocated_addresses pmm) ops of
      None \<Rightarrow> \<exists>msg. run_ops alloc_physical_page free_physical_page pmm ops = Inl msg
    | Some (rs, q, u) \<Rightarrow>
        (\<exists>pmm'. run_ops alloc_physical_page free_physical_page pmm ops = Inr (rs, pmm') \<and>
           pool_inv pmm' \<and> free_addresses pmm' = q \<and> allocated_addresses pmm' = u) \<and>
        distinct q \<and> set q \<inter> u = {} \<and>
        set q \<union> u = set (free_addresses pmm) \<union> allocated_addresses pmm"
proof (cases "spec_run (free_addresses pmm) (allocated_addresses pmm) ops")
  case None
  then show ?thesis
    using address_pool.run_refines [OF assms, of ops] by simp
next
  case (Some r)
  obtain rs q u where r: "r = (rs, q, u)"
    by (cases r) auto
  show ?thesis
    using address_pool.run_refines [OF assms, of ops] Some r
      spec_run_conserves [of "free_addresses pmm" "allocated_addresses pmm" ops rs q u]
      address_pool.avail_fresh [OF assms] by simp
qed

theorem pmm_refines_page_pool_witness:
  "\<exists>pmm'. run_ops alloc_physical_page free_physical_page sample_pmm
      [Take, Take, Release 0x80001000, Take] =
    Inr ([Some 0x80000000, None, Some 0x80001000], pmm') \<and> pool_inv pmm'"
proof -
  have "spec_run (free_addresses sample_pmm) (allocated_addresses sample_pmm)
      [Take, Take, Release 0x80001000, Take] =
    Some ([Some 0x80000000, None, Some 0x80001000], [], {0x80000000, 0x80001000})"
    by (simp add: sample_addresses insert_commute)
  then show ?thesis
    using pmm_refines_page_pool
      [OF sample_pool(1), of "[Take, Take, Release 0x80001000, Take]"]
    by auto
qed

text \<open>
  C21. Freeing a page handle succeeds exactly for an allocated page of a managed arena and panics
  with the message that names the mistake for an unmanaged handle, a page that is already free, and
  a reserved page; a successful free moves that page to the end of the free list and changes no
  other page.
\<close>

theorem free_page_outcome:
  assumes "pool_inv pmm"
  shows "if \<not> managed pmm h then free_page pmm h = Inl ''pmm: address not in any managed arena''
    else case page_state (page_at pmm h) of
      Free \<Rightarrow> free_page pmm h = Inl ''pmm: double-free detected''
    | Reserved \<Rightarrow> free_page pmm h = Inl ''pmm: cannot free reserved page''
    | Allocated \<Rightarrow> \<exists>pmm'. free_page pmm h = Inr pmm' \<and> pool_inv pmm' \<and>
        free_list pmm' = free_list pmm @ [h] \<and> free_pages pmm' = free_pages pmm + 1 \<and>
        same_config pmm pmm' \<and> status_updated pmm pmm' {h} (Free, False)"
proof (cases "managed pmm h")
  case True
  note wf = pool_inv_wf [OF assms]
  show ?thesis
  proof (cases "page_state (page_at pmm h)")
    case Allocated
    have inv: "pmm_inv pmm (free_list pmm)" and init: "initialized pmm"
      using assms by (simp_all add: pool_inv_def)
    obtain pmm' where p: "free_page pmm h = Inr pmm'" "pmm_inv pmm' (free_list pmm @ [h])"
        "same_config pmm pmm'" "status_updated pmm pmm' {h} (Free, False)"
      using free_page_list [OF inv True Allocated] by blast
    have "free_pages pmm' = free_pages pmm + 1"
      using p(2) inv by (simp add: pmm_inv_def)
    moreover have "initialized pmm'"
      using p(3) init by (simp add: same_config_def)
    ultimately show ?thesis
      using True Allocated p pool_invI [OF p(2)] by auto
  qed (use True free_page_panics(2,3) [OF wf True] in simp_all)
qed (use free_page_panics(1) [OF pool_inv_wf [OF assms]] in simp)

theorem free_page_outcome_witness:
  "free_page sample_pmm (PageHandle_new 0 0) = Inl ''pmm: double-free detected'' \<and>
   (\<exists>pmm'. free_page sample_pmm (PageHandle_new 0 1) = Inr pmm' \<and>
      free_list pmm' = [PageHandle_new 0 0, PageHandle_new 0 1])"
  using free_page_outcome [OF sample_pool(1), of "PageHandle_new 0 0"]
    free_page_outcome [OF sample_pool(1), of "PageHandle_new 0 1"]
  by (auto simp: sample_managed sample_page [OF refl] Page_new_def sample_pool(2))

text \<open>
  C23. Page handles and physical addresses correspond one to one: the address of a managed page is
  page aligned, is found in the arena of the page and in no other, and converts back to the same
  handle; two pages never share an address.
\<close>

theorem handle_address_round_trip:
  assumes "arenas_wf pmm" and "managed pmm h"
  shows "page_to_physical (arena_at pmm h) h = Some (handle_address pmm h) \<and>
    is_page_aligned (handle_address pmm h) \<and>
    arena_for_physical pmm (handle_address pmm h) = Some (arena_at pmm h) \<and>
    physical_to_page (arena_at pmm h) (handle_address pmm h) = Some h \<and>
    (\<forall>k. managed pmm k \<and> handle_address pmm k = handle_address pmm h \<longrightarrow> k = h)"
  using page_to_physical_managed [OF assms] handle_address_aligned [OF assms]
    arena_for_physical_managed [OF assms] physical_to_page_managed [OF assms]
    handle_address_inj [OF assms(1) _ assms(2)]
  by blast

theorem handle_address_round_trip_witness:
  "physical_to_page sample_arena 0x80001000 = Some (PageHandle_new 0 1) \<and>
   page_to_physical sample_arena (PageHandle_new 0 1) = Some 0x80001000"
proof -
  have "arena_at sample_pmm (PageHandle_new 0 1) = sample_arena"
    by (simp add: arena_at_def PageHandle_new_def sample_pmm_def)
  moreover have "handle_address sample_pmm (PageHandle_new 0 1) = 0x80001000"
    by (simp add: sample_handle_address)
  ultimately show ?thesis
    using handle_address_round_trip [OF sample_arenas_wf, of "PageHandle_new 0 1"]
    by (simp add: sample_managed)
qed

end
