(* ===== verification/Pmm_Init.thy ===== *)
theory Pmm_Init
  imports Pmm_Ranges Pmm_Pages
begin

text \<open>
  Construction of the page allocator from the hardware snapshot. Each step of \<open>init\<close> gets an
  outcome lemma: what it reserves, what arena it builds and which metadata it writes, up to the
  loop over the memory regions.
\<close>

section \<open>Reservations\<close>

definition region_bytes :: "MemoryRegion \<Rightarrow> PhysicalAddress set" where
  "region_bytes r =
     {x. region_base r \<le> x \<and> unat x < unat (region_base r) + unat (region_size r)}"

lemma region_bytes_end:
  assumes "region_end r = Some e"
  shows "region_bytes r = {region_base r..<e}"
proof -
  have "unat e = unat (region_base r) + unat (region_size r)"
    using assms by (simp add: region_end_def checked_add_eq_Some)
  then show ?thesis
    by (auto simp: region_bytes_def word_less_nat_alt)
qed

text \<open>A reservation step that succeeded: the new table is well formed and has these bytes more.\<close>

definition reserves ::
  "PhysicalMemoryManager \<Rightarrow> PhysicalMemoryManager \<Rightarrow> PhysicalAddress set \<Rightarrow> bool" where
  "reserves pmm pmm' B \<longleftrightarrow>
     reserved_ok pmm' \<and> ranges_only pmm pmm' \<and> reserved_bytes pmm' = reserved_bytes pmm \<union> B"

lemma reserves_refl: "reserved_ok pmm \<Longrightarrow> reserves pmm pmm {}"
  by (simp add: reserves_def)

lemma reserves_trans: "reserves a b B \<Longrightarrow> reserves b c C \<Longrightarrow> reserves a c (B \<union> C)"
  by (auto simp: reserves_def intro: ranges_only_trans)

lemma record_reserved_ok:
  "reserved_ok pmm \<Longrightarrow> record_reserved pmm s e = (Inr u, pmm') \<Longrightarrow> reserves pmm pmm' {s..<e}"
  using record_reserved_outcome [of pmm s e "Inr u" pmm'] by (simp add: reserves_def)

lemma reserve_kernel_ok:
  assumes "reserved_ok pmm" "reserve_kernel pmm ks ke = (Inr u, pmm')"
  shows "reserves pmm pmm' {ks..<max ke (ks + KERNEL_RESERVE_PAD)}"
  using assms record_reserved_ok [OF assms(1)]
  by (auto simp: reserve_kernel_def checked_add_def split: option.splits if_splits)

text \<open>The device tree blob, up to the end of its last page.\<close>

definition device_tree_bytes :: "HardwareInfo \<Rightarrow> PhysicalAddress set" where
  "device_tree_bytes info =
     (if dtb_phys info = 0 \<or> dtb_size info = 0 then {}
      else {x. dtb_phys info \<le> x \<and> unat x < (unat (dtb_phys info) + unat (dtb_size info) + 4095) div 4096 * 4096})"

lemma reserve_device_tree_ok:
  assumes "reserved_ok pmm" "reserve_device_tree pmm info = (Inr u, pmm')"
  shows "reserves pmm pmm' (device_tree_bytes info)"
proof (cases "dtb_phys info = 0 \<or> dtb_size info = 0")
  case True
  then have "pmm' = pmm" "device_tree_bytes info = {}"
    using assms(2) by (auto simp: reserve_device_tree_def device_tree_bytes_def)
  then show ?thesis
    using reserves_refl [OF assms(1)] by simp
next
  case False
  obtain e0 e where e0: "checked_add (dtb_phys info) (dtb_size info) = Some e0"
    and e: "align_up e0 = Some e"
    and rec: "record_reserved pmm (dtb_phys info) e = (Inr u, pmm')"
    using assms(2) False
    by (auto simp: reserve_device_tree_def split: option.splits Option.bind_splits)
  have "unat e = (unat (dtb_phys info) + unat (dtb_size info) + 4095) div 4096 * 4096"
    using e0 align_up_unat [OF e] by (simp add: checked_add_eq_Some)
  then have "device_tree_bytes info = {dtb_phys info..<e}"
    using False by (auto simp: device_tree_bytes_def word_less_nat_alt)
  then show ?thesis
    using record_reserved_ok [OF assms(1) rec] by simp
qed

lemma reserve_regions_ok:
  "reserved_ok pmm \<Longrightarrow> reserve_regions pmm rs = (Inr u, pmm') \<Longrightarrow>
   reserves pmm pmm' (\<Union>r \<in> set rs. region_bytes r)"
proof (induction rs arbitrary: pmm)
  case Nil
  then show ?case
    by (simp add: reserves_refl)
next
  case (Cons r rs)
  show ?case
  proof (cases "region_size r = 0")
    case True
    then have "region_bytes r = {}"
      by (auto simp: region_bytes_def word_le_nat_alt)
    then show ?thesis
      using Cons True by simp
  next
    case False
    obtain e p1 where e: "region_end r = Some e" and p1: "record_reserved pmm (region_base r) e = (Inr (), p1)"
      and rest: "reserve_regions p1 rs = (Inr u, pmm')"
      using Cons.prems(2) False by (auto split: option.splits prod.splits sum.splits)
    have r1: "reserves pmm p1 (region_bytes r)"
      using record_reserved_ok [OF Cons.prems(1) p1] region_bytes_end [OF e] by simp
    then have "reserves p1 pmm' (\<Union>r \<in> set rs. region_bytes r)"
      using Cons.IH [OF _ rest] by (simp add: reserves_def)
    then show ?thesis
      using reserves_trans [OF r1] by simp
  qed
qed

section \<open>Validated regions\<close>

definition regions_apart :: "MemoryRegion \<Rightarrow> MemoryRegion \<Rightarrow> bool" where
  "regions_apart a b \<longleftrightarrow>
     unat (region_base a) + unat (region_size a) \<le> unat (region_base b) \<or>
     unat (region_base b) + unat (region_size b) \<le> unat (region_base a)"

lemma check_against_ok:
  assumes "unat left_end = unat (region_base left) + unat (region_size left)"
  shows "check_against (region_base left) left_end rs = Inr u \<Longrightarrow> r \<in> set rs \<Longrightarrow> regions_apart left r"
proof (induction rs)
  case (Cons a rs)
  then obtain e where e: "region_end a = Some e"
    and no: "\<not> ranges_overlap (region_base left) left_end (region_base a) e"
    and rest: "check_against (region_base left) left_end rs = Inr u"
    by (auto split: option.splits if_splits)
  have "unat e = unat (region_base a) + unat (region_size a)"
    using e by (simp add: region_end_def checked_add_eq_Some)
  then have "regions_apart left a"
    using no assms by (auto simp: ranges_overlap_def regions_apart_def word_less_nat_alt)
  then show ?case
    using Cons rest by auto
qed simp

lemma validate_ok:
  "validate_memory_regions rs = Inr u \<Longrightarrow> sorted_wrt regions_apart rs"
proof (induction rs)
  case (Cons a rs)
  then obtain e where e: "region_end a = Some e" and c: "check_against (region_base a) e rs = Inr ()"
    and rest: "validate_memory_regions rs = Inr u"
    by (auto split: option.splits sum.splits)
  have "unat e = unat (region_base a) + unat (region_size a)"
    using e by (simp add: region_end_def checked_add_eq_Some)
  then show ?case
    using check_against_ok [OF _ c] Cons.IH [OF rest] by simp
qed simp

section \<open>One arena\<close>

lemma write_metadata_memory:
  "page_memory (write_metadata st i ms me pmm) =
     (\<lambda>(p, j). if p = storage_ptr st \<and> j < storage_len st
               then Page_new i (if ms \<le> j \<and> j < me then Reserved else Free)
               else page_memory pmm (p, j))"
proof -
  have "page_memory (fold (\<lambda>j. modify_page (ptr, j) (\<lambda>_. f j)) [0..<n] pmm) =
      (\<lambda>(p, j). if p = ptr \<and> j < n then f j else page_memory pmm (p, j))" for ptr f n
    by (induction n) (auto simp: modify_page_def fun_eq_iff less_Suc_eq)
  then show ?thesis
    by (simp add: write_metadata_def)
qed

lemma write_metadata_only: "\<exists>mem. write_metadata st i ms me pmm = pmm\<lparr>page_memory := mem\<rparr>"
proof -
  have "\<exists>mem. fold (\<lambda>j. modify_page (ptr, j) (f j)) js pmm = pmm\<lparr>page_memory := mem\<rparr>" for ptr f js
  proof (induction js arbitrary: pmm)
    case Nil
    show ?case
      by (rule exI [of _ "page_memory pmm"]) simp
  next
    case (Cons j js)
    obtain mem where "fold (\<lambda>j. modify_page (ptr, j) (f j)) js (modify_page (ptr, j) (f j) pmm) =
        (modify_page (ptr, j) (f j) pmm)\<lparr>page_memory := mem\<rparr>"
      using Cons.IH by blast
    moreover have "(modify_page (ptr, j) (f j) pmm)\<lparr>page_memory := mem\<rparr> = pmm\<lparr>page_memory := mem\<rparr>"
      by (simp add: modify_page_def)
    ultimately show ?case
      by (intro exI [of _ mem]) simp
  qed
  then show ?thesis
    unfolding write_metadata_def .
qed

text \<open>
  What building the arena \<open>a\<close> with index \<open>i\<close> from \<open>region\<close> did: \<open>mp\<close> is where its \<open>m\<close> pages of
  metadata are.
\<close>

definition metadata_bytes_at :: "PhysicalAddress \<Rightarrow> nat \<Rightarrow> PhysicalAddress set" where
  "metadata_bytes_at mp m = {x. mp \<le> x \<and> unat x < unat mp + m * 4096}"

definition arena_memory ::
  "Arena \<Rightarrow> u8 \<Rightarrow> PhysicalAddress \<Rightarrow> nat \<Rightarrow> (page_slot \<Rightarrow> Page) \<Rightarrow> page_slot \<Rightarrow> Page" where
  "arena_memory a i mp m mem =
     (\<lambda>(p, j). if p = storage_ptr (arena_pages a) \<and> j < page_count a
        then Page_new i
          (if (unat mp - unat (arena_base a)) div 4096 \<le> j \<and>
              j < (unat mp - unat (arena_base a)) div 4096 + m then Reserved else Free)
        else mem (p, j))"

definition metadata_page_count :: "Arena \<Rightarrow> nat" where
  "metadata_page_count a = (page_count a * unat PAGE_METADATA_SIZE + 4095) div 4096"

definition arena_built ::
  "PhysicalMemoryManager \<Rightarrow> PhysicalMemoryManager \<Rightarrow> MemoryRegion \<Rightarrow> nat \<Rightarrow>
   (PhysicalAddress \<Rightarrow> VirtualAddress) \<Rightarrow> Arena \<Rightarrow> PhysicalAddress \<Rightarrow> nat \<Rightarrow> bool" where
  "arena_built pmm pmm' region i p2v a mp m \<longleftrightarrow>
     arena_ok i a \<and> 0 < page_count a \<and>
     unat (region_base region) \<le> unat (arena_base a) \<and>
     unat (arena_base a) + page_count a * 4096 \<le> unat (region_base region) + unat (region_size region) \<and>
     storage_ptr (arena_pages a) = p2v mp \<and> is_page_aligned mp \<and>
     0 < m \<and> m = metadata_page_count a \<and> page_count a * unat PAGE_METADATA_SIZE \<le> m * 4096 \<and>
     unat (arena_base a) \<le> unat mp \<and> unat mp + m * 4096 \<le> unat (arena_base a) + page_count a * 4096 \<and>
     metadata_bytes_at mp m \<inter> reserved_bytes pmm = {} \<and>
     reserved_ok pmm' \<and> reserved_bytes pmm' = reserved_bytes pmm \<union> metadata_bytes_at mp m \<and>
     page_memory pmm' = arena_memory a (of_nat i) mp m (page_memory pmm) \<and>
     arenas pmm' = arenas pmm \<and> arena_count pmm' = arena_count pmm"

lemma reserved_ok_memory [simp]: "reserved_ok (pmm\<lparr>page_memory := mem\<rparr>) = reserved_ok pmm"
  by (simp add: reserved_ok_def live_ranges_def)

lemma reserved_bytes_memory [simp]: "reserved_bytes (pmm\<lparr>page_memory := mem\<rparr>) = reserved_bytes pmm"
  by (simp add: reserved_bytes_def live_ranges_def)

lemma reserved_ok_total [simp]: "reserved_ok (pmm\<lparr>total_pages := t\<rparr>) = reserved_ok pmm"
  by (simp add: reserved_ok_def live_ranges_def)

lemma reserved_bytes_total [simp]: "reserved_bytes (pmm\<lparr>total_pages := t\<rparr>) = reserved_bytes pmm"
  by (simp add: reserved_bytes_def live_ranges_def)

text \<open>The metadata and the bookkeeping of an arena whose metadata range has been found.\<close>

lemma arena_built_finish:
  fixes pmm :: PhysicalMemoryManager and i :: nat
  defines "mpages n \<equiv> div_ceil (n * PAGE_METADATA_SIZE) PAGE_SIZE"
  assumes ok: "reserved_ok pmm"
    and base: "is_page_aligned ab" "unat (region_base region) \<le> unat ab"
      "unat ab + unat n * 4096 \<le> unat (region_base region) + unat (region_size region)"
      "unat ab + unat n * 4096 < 2 ^ 64"
    and n: "0 < n" "n \<le> 0xffffffff" and m: "m = mpages n"
    and span: "metadata_span pmm (unat ab) (unat ab + unat n * 4096) (m * PAGE_SIZE) mp"
    and a: "a = \<lparr>arena_base = ab, page_count = unat n, arena_pages = \<lparr>storage_ptr = p2v mp,
        storage_len = unat n, storage_arena_index = of_nat i\<rparr>\<rparr>"
    and w: "pmm1 = write_metadata (arena_pages a) (of_nat i) (unat ((mp - ab) div PAGE_SIZE))
        (unat ((mp - ab) div PAGE_SIZE) + unat m) pmm"
    and rec: "record_reserved pmm1 mp (mp + m * PAGE_SIZE) = (Inr u, pmm2)"
  shows "arena_built pmm (pmm2\<lparr>total_pages := t\<rparr>) region i p2v a mp (unat m)"
proof -
  have n': "unat n \<le> 0xffffffff"
    using n(2) by (simp add: word_le_nat_alt)
  have "unat (n * PAGE_METADATA_SIZE) = unat n * 20"
    using n' by (simp add: unat_mult_no_overflow PAGE_METADATA_SIZE_def)
  then have um: "unat m = (unat n * 20 + 4095) div 4096"
    by (simp add: m mpages_def unat_div_ceil)
  have n0: "0 < unat n"
    using n(1) by (simp add: word_less_nat_alt)
  have mpos: "0 < unat m" and mle: "unat n * 20 \<le> unat m * 4096" and msmall: "unat m * 4096 < 2 ^ 64"
    using um n0 n' by (simp_all add: div_greater_zero_iff)
  have mb: "unat (m * PAGE_SIZE) = unat m * 4096"
    using msmall by (simp add: unat_mult_no_overflow)
  have mp: "is_page_aligned mp" "unat ab \<le> unat mp" "unat mp + unat m * 4096 \<le> unat ab + unat n * 4096"
    "{mp..<mp + m * PAGE_SIZE} \<inter> reserved_bytes pmm = {}"
    using span mpos mb metadata_span_bytes [OF ok, of "m * PAGE_SIZE" "unat ab + unat n * 4096"] base(4)
    by simp_all
  have mend: "unat (mp + m * PAGE_SIZE) = unat mp + unat m * 4096"
    using mp(3) base(4) mb by (simp add: unat_add_no_overflow)
  then have bytes: "{mp..<mp + m * PAGE_SIZE} = metadata_bytes_at mp (unat m)"
    by (auto simp: metadata_bytes_at_def word_less_nat_alt)
  have off: "unat ((mp - ab) div PAGE_SIZE) = (unat mp - unat ab) div 4096"
    using mp(2) by (simp add: unat_div unat_sub word_le_nat_alt)
  obtain mem where mem: "pmm1 = pmm\<lparr>page_memory := mem\<rparr>"
    using w write_metadata_only by blast
  have mem': "page_memory pmm1 = arena_memory a (of_nat i) mp (unat m) (page_memory pmm)"
    by (simp add: w write_metadata_memory arena_memory_def a off cong: if_cong)
  have res: "reserves pmm1 pmm2 (metadata_bytes_at mp (unat m))"
    using record_reserved_ok [OF _ rec] ok bytes by (simp add: mem)
  then have ro: "ranges_only pmm1 pmm2"
    by (simp add: reserves_def)
  have "arena_ok i a"
    using base n' by (simp add: arena_ok_def a arena_index_of_def)
  then show ?thesis
    unfolding arena_built_def
    using res base mp mpos mle n0 bytes mem' ranges_only_simps [OF ro]
    by (auto simp: reserves_def a mem PAGE_METADATA_SIZE_def metadata_page_count_def um)
qed

text \<open>The part of \<open>init_arena\<close> from the found metadata range on.\<close>

definition finish_arena ::
  "PhysicalMemoryManager \<Rightarrow> nat \<Rightarrow> (PhysicalAddress \<Rightarrow> VirtualAddress) \<Rightarrow> PhysicalAddress \<Rightarrow> usize \<Rightarrow>
   usize \<Rightarrow> PhysicalAddress \<Rightarrow> (InitError + Arena option) \<times> PhysicalMemoryManager" where
  "finish_arena pmm i p2v ab n m mp =
     (let st = \<lparr>storage_ptr = p2v mp, storage_len = unat n, storage_arena_index = of_nat i\<rparr>;
          pmm1 = write_metadata st (of_nat i) (unat ((mp - ab) div PAGE_SIZE))
                   (unat ((mp - ab) div PAGE_SIZE) + unat m) pmm;
          (r, pmm2) = record_reserved pmm1 mp (mp + m * PAGE_SIZE)
      in case r of
           Inl e \<Rightarrow> (Inl e, pmm2)
         | Inr _ \<Rightarrow> (case checked_add (total_pages pmm2) (n - m) of
             None \<Rightarrow> (Inl ArithmeticOverflow, pmm2)
           | Some t \<Rightarrow> (Inr (Some \<lparr>arena_base = ab, page_count = unat n, arena_pages = st\<rparr>),
                         pmm2\<lparr>total_pages := t\<rparr>)))"

lemma finish_arena_built:
  assumes "reserved_ok pmm" "is_page_aligned ab" "unat (region_base region) \<le> unat ab"
    "unat ab + unat n * 4096 \<le> unat (region_base region) + unat (region_size region)"
    "unat ab + unat n * 4096 < 2 ^ 64" "0 < n" "n \<le> 0xffffffff"
    "m = div_ceil (n * PAGE_METADATA_SIZE) PAGE_SIZE"
    "metadata_span pmm (unat ab) (unat ab + unat n * 4096) (m * PAGE_SIZE) mp"
    "finish_arena pmm i p2v ab n m mp = (res, pmm')"
  shows "case res of
       Inl e \<Rightarrow> True
     | Inr None \<Rightarrow> pmm' = pmm
     | Inr (Some a) \<Rightarrow> \<exists>mp m. arena_built pmm pmm' region i p2v a mp m"
  using assms(10) arena_built_finish [OF assms(1-9) refl refl]
  by (auto simp: finish_arena_def Let_def split: prod.splits sum.splits option.splits) blast

lemma init_arena_finish:
  assumes "align_up (region_base region) = Some ab" "region_end region = Some re" "\<not> re \<le> ab"
    and ab: "ab \<le> align_down re"
    and n: "n = (align_down re - ab) div PAGE_SIZE" "n \<noteq> 0" "n \<le> 0xffffffff"
    and m: "m = div_ceil (n * PAGE_METADATA_SIZE) PAGE_SIZE" "m < n"
    and nb: "unat ab + unat n * 4096 < 2 ^ 64"
    and find: "find_metadata_range pmm ab n m = Inr (Inr (Some mp))"
    and span: "ab \<le> mp" "unat mp + unat m * 4096 \<le> unat ab + unat n * 4096"
    and virt: "p2v mp \<noteq> 0"
  shows "init_arena pmm region (of_nat i) p2v = Inr (finish_arena pmm i p2v ab n m mp)"
proof -
  have "unat n * 20 < 2 ^ 64"
    using n(3) by (simp add: word_le_nat_alt)
  then have mul: "checked_mul n PAGE_METADATA_SIZE = Some (n * PAGE_METADATA_SIZE)"
    by (simp add: checked_mul_def PAGE_METADATA_SIZE_def)
  have mb: "unat (m * PAGE_SIZE) = unat m * 4096" "mul_words m PAGE_SIZE = Inr (m * PAGE_SIZE)"
    using span(2) nb by (simp_all add: unat_mult_no_overflow mul_words_def)
  then have add: "checked_add mp (m * PAGE_SIZE) = Some (mp + m * PAGE_SIZE)"
    using span(2) nb by (simp add: checked_add_def)
  have "\<not> 0xffffffff < n" "\<not> n \<le> m"
    using n(3) m(2) by auto
  then show ?thesis
    using assms(1-3) ab n(2) m(2) find span(1) virt
    by (simp add: init_arena_def finish_arena_def sub_words_def Let_def bind_init_def mul mb(2) add
        flip: n(1) m(1)) (auto simp flip: n(1) split: prod.splits sum.splits option.splits)
qed

lemma init_arena_outcome:
  assumes ok: "reserved_ok pmm"
  shows "\<exists>res pmm'. init_arena pmm region (of_nat i) p2v = Inr (res, pmm') \<and>
    (case res of
       Inl e \<Rightarrow> True
     | Inr None \<Rightarrow> pmm' = pmm
     | Inr (Some a) \<Rightarrow> \<exists>mp m. arena_built pmm pmm' region i p2v a mp m)"
proof -
  consider (early) "align_up (region_base region) = None \<or> region_end region = None"
    | (none) ab re where "align_up (region_base region) = Some ab" "region_end region = Some re" "re \<le> ab"
    | (some) ab re where "align_up (region_base region) = Some ab" "region_end region = Some re" "\<not> re \<le> ab"
    by fastforce
  then show ?thesis
  proof cases
    case early
    then show ?thesis
      by (auto simp: init_arena_def split: option.split)
  next
    case none
    then show ?thesis
      by (simp add: init_arena_def)
  next
    case some
    define n where "n = (align_down re - ab) div PAGE_SIZE"
    define m where "m = div_ceil (n * PAGE_METADATA_SIZE) PAGE_SIZE"
    have re: "unat re = unat (region_base region) + unat (region_size region)"
      using some(2) by (simp add: region_end_def checked_add_eq_Some)
    have al: "is_page_aligned ab" and rb: "region_base region \<le> ab"
      using some(1) by (simp_all add: align_up_aligned align_up_ge)
    have ab: "ab \<le> align_down re"
      using align_down_greatest [OF al, of re] some(3) by simp
    have "unat n = (unat (align_down re) - unat ab) div 4096"
      using ab by (simp add: n_def unat_div unat_sub)
    then have "unat n * 4096 \<le> unat (align_down re) - unat ab"
      by simp
    then have nb: "unat ab + unat n * 4096 \<le> unat re"
      using ab align_down_le [of re] by (simp add: word_le_nat_alt)
    then have nb64: "unat ab + unat n * 4096 < 2 ^ 64"
      using unat_bound64 [of re] by simp
    have sub: "sub_words (align_down re) ab = Inr (align_down re - ab)"
      using ab by (simp add: sub_words_def)
    show ?thesis
    proof (cases "n = 0 \<or> 0xffffffff < n \<or> n \<le> m")
      case True
      then show ?thesis
        using some sub
        by (auto simp: init_arena_def n_def m_def Let_def checked_mul_def split: option.split)
    next
      case False
      then have n: "n \<noteq> 0" "n \<le> 0xffffffff" "m < n" "0 < n"
        by (auto simp: word_neq_0_conv)
      then have "0 < unat (n * PAGE_METADATA_SIZE)"
        by (simp add: word_le_nat_alt PAGE_METADATA_SIZE_def unat_mult_no_overflow word_less_nat_alt)
      then have m0: "0 < m"
        by (simp add: m_def word_less_nat_alt unat_div_ceil div_greater_zero_iff)
      obtain r where find: "find_metadata_range pmm ab n m = Inr (Inr r)"
        and r: "\<And>mp. r = Some mp \<Longrightarrow>
          metadata_span pmm (unat ab) (unat ab + unat n * 4096) (m * PAGE_SIZE) mp"
        using find_metadata_range_spec [OF al m0 less_imp_le [OF n(3)] nb64, of pmm]
        by (fastforce simp: Let_def split: option.splits)
      show ?thesis
      proof (cases "\<exists>mp. r = Some mp \<and> p2v mp \<noteq> 0")
        case True
        then obtain mp where mp: "r = Some mp" "p2v mp \<noteq> 0"
          by blast
        obtain res pmm' where fin: "finish_arena pmm i p2v ab n m mp = (res, pmm')"
          by fastforce
        have "unat (m * PAGE_SIZE) = unat m * 4096"
          using n(3) nb64 by (simp add: unat_mult_no_overflow word_less_nat_alt)
        then have "init_arena pmm region (of_nat i) p2v = Inr (finish_arena pmm i p2v ab n m mp)"
          using init_arena_finish [OF some ab n_def n(1,2) m_def n(3) nb64, of pmm mp p2v]
            find r [OF mp(1)] mp
          by (simp add: metadata_span_def word_le_nat_alt)
        then show ?thesis
          using finish_arena_built [OF ok al _ _ nb64 n(4,2) m_def r [OF mp(1)] fin] rb nb re fin
          by (simp add: word_le_nat_alt)
      next
        case F: False
        then show ?thesis
          using some sub n find
          by (auto simp: init_arena_def n_def [symmetric] m_def [symmetric] Let_def checked_mul_def split: option.split)
      qed
    qed
  qed
qed

section \<open>All arenas\<close>

definition page_bytes :: "PhysicalMemoryManager \<Rightarrow> PageHandle \<Rightarrow> PhysicalAddress set" where
  "page_bytes pmm h =
     {x. handle_address pmm h \<le> x \<and> unat x < unat (handle_address pmm h) + 4096}"

text \<open>Distinct page frames have distinct addresses in the window that maps physical memory.\<close>

definition frames_distinct :: "(PhysicalAddress \<Rightarrow> VirtualAddress) \<Rightarrow> bool" where
  "frames_distinct p2v \<longleftrightarrow>
     (\<forall>a b. is_page_aligned a \<and> is_page_aligned b \<and> p2v a = p2v b \<longrightarrow> a = b)"

definition metadata_reserved ::
  "PhysicalMemoryManager \<Rightarrow> (PhysicalAddress \<Rightarrow> VirtualAddress) \<Rightarrow> Arena \<Rightarrow> bool" where
  "metadata_reserved pmm p2v a \<longleftrightarrow>
     (\<exists>mp m. storage_ptr (arena_pages a) = p2v mp \<and> is_page_aligned mp \<and> 0 < m \<and>
        page_count a * unat PAGE_METADATA_SIZE \<le> m * 4096 \<and>
        metadata_bytes_at mp m \<subseteq> reserved_bytes pmm)"

text \<open>The frames behind the metadata of an arena: as many pages as its entries need.\<close>

definition arena_metadata :: "(PhysicalAddress \<Rightarrow> VirtualAddress) \<Rightarrow> Arena \<Rightarrow> PhysicalAddress set" where
  "arena_metadata p2v a =
     {x. \<exists>mp. storage_ptr (arena_pages a) = p2v mp \<and> is_page_aligned mp \<and> x \<in> metadata_bytes_at mp (metadata_page_count a)}"

definition within_region :: "Arena \<Rightarrow> MemoryRegion \<Rightarrow> bool" where
  "within_region a r \<longleftrightarrow>
     unat (region_base r) \<le> unat (arena_base a) \<and>
     unat (arena_base a) + page_count a * 4096 \<le> unat (region_base r) + unat (region_size r)"

definition page_fresh :: "PhysicalMemoryManager \<Rightarrow> PageHandle \<Rightarrow> bool" where
  "page_fresh pmm h \<longleftrightarrow>
     \<not> contiguous_head (page_at pmm h) \<and>
     (page_state (page_at pmm h) = Free \<or>
      page_state (page_at pmm h) = Reserved \<and> page_bytes pmm h \<inter> reserved_bytes pmm \<noteq> {})"

text \<open>
  The state of construction after the regions \<open>rs\<close>, when the bytes \<open>B\<close> had been reserved before: beside
  them exactly the metadata of the arenas is reserved.
\<close>

definition arenas_built ::
  "PhysicalMemoryManager \<Rightarrow> MemoryRegion set \<Rightarrow> PhysicalAddress set \<Rightarrow> (PhysicalAddress \<Rightarrow> VirtualAddress) \<Rightarrow> bool" where
  "arenas_built pmm rs B p2v \<longleftrightarrow>
     arenas_wf pmm \<and> reserved_ok pmm \<and>
     reserved_bytes pmm = B \<union> (\<Union>i < arena_count pmm. arena_metadata p2v (arenas pmm ! i)) \<and>
     (\<forall>i < arena_count pmm. metadata_reserved pmm p2v (arenas pmm ! i) \<and>
        (\<exists>r \<in> rs. within_region (arenas pmm ! i) r)) \<and>
     (\<forall>h. managed pmm h \<longrightarrow> page_fresh pmm h)"

lemma metadata_start: "0 < m \<Longrightarrow> mp \<in> metadata_bytes_at mp m"
  by (simp add: metadata_bytes_at_def)

lemma arena_metadata_built:
  assumes "frames_distinct p2v" "arena_built pmm pmm' region i p2v a mp m"
  shows "arena_metadata p2v a = metadata_bytes_at mp m"
proof -
  have a: "storage_ptr (arena_pages a) = p2v mp" "is_page_aligned mp" "m = metadata_page_count a"
    using assms(2) unfolding arena_built_def by blast+
  then have "mp' = mp" if "p2v mp = p2v mp'" "is_page_aligned mp'" for mp'
    using assms(1) that unfolding frames_distinct_def by metis
  then show ?thesis
    unfolding arena_metadata_def a(1,3) using a(2) by blast
qed

lemma new_storage_distinct:
  assumes "frames_distinct p2v" "metadata_reserved pmm p2v b" "arena_built pmm pmm' region i p2v a mp m"
  shows "storage_ptr (arena_pages b) \<noteq> storage_ptr (arena_pages a)"
proof
  assume eq: "storage_ptr (arena_pages b) = storage_ptr (arena_pages a)"
  obtain mp' m' where b: "storage_ptr (arena_pages b) = p2v mp'" "is_page_aligned mp'"
      "mp' \<in> reserved_bytes pmm"
    using assms(2) metadata_start unfolding metadata_reserved_def by blast
  have a: "storage_ptr (arena_pages a) = p2v mp" "is_page_aligned mp" "mp \<notin> reserved_bytes pmm"
    using assms(3) metadata_start [of m mp] unfolding arena_built_def by blast+
  have "mp' = mp"
    using assms(1) eq a b unfolding frames_distinct_def by metis
  then show False
    using a b by simp
qed

lemma within_apart:
  "regions_apart r s \<Longrightarrow> within_region a r \<Longrightarrow> within_region b s \<Longrightarrow> arenas_apart a b"
  unfolding regions_apart_def within_region_def arenas_apart_def by linarith

text \<open>The manager after the arena \<open>a\<close> has been entered into the table.\<close>

abbreviation add_arena :: "PhysicalMemoryManager \<Rightarrow> Arena \<Rightarrow> PhysicalMemoryManager" where
  "add_arena pmm a \<equiv>
     pmm\<lparr>arenas := (arenas pmm)[arena_count pmm := a], arena_count := arena_count pmm + 1\<rparr>"

lemma add_arena_wf:
  assumes wf: "arenas_wf pmm" and i: "arena_count pmm < MAX_MEMORY_ARENAS"
    and same: "arenas pmm' = arenas pmm" "arena_count pmm' = arena_count pmm"
    and a: "arena_ok (arena_count pmm) a"
    and new: "\<And>j. j < arena_count pmm \<Longrightarrow>
      storage_ptr (arena_pages (arenas pmm ! j)) \<noteq> storage_ptr (arena_pages a) \<and>
      arenas_apart (arenas pmm ! j) a"
  shows "arenas_wf (add_arena pmm' a)"
  using assms unfolding arenas_wf_def by (auto simp: nth_list_update less_Suc_eq)

lemma page_fresh_new:
  assumes wf: "arenas_wf (add_arena pmm' a)" and built: "arena_built pmm pmm' region (arena_count pmm) p2v a mp m"
    and len: "arena_count pmm < length (arenas pmm)"
    and h: "managed (add_arena pmm' a) h" "unat (handle_arena h) = arena_count pmm"
  shows "page_fresh (add_arena pmm' a) h"
proof -
  let ?p = "add_arena pmm' a"
  have b: "arenas pmm' = arenas pmm" "arena_count pmm' = arena_count pmm"
      "page_memory pmm' = arena_memory a (of_nat (arena_count pmm)) mp m (page_memory pmm)"
      "reserved_bytes pmm' = reserved_bytes pmm \<union> metadata_bytes_at mp m"
      "is_page_aligned mp" "unat (arena_base a) \<le> unat mp" "arena_ok (arena_count pmm) a"
    using built unfolding arena_built_def by blast+
  have at: "arena_at ?p h = a"
    using h len b by (simp add: arena_at_def)
  then have j: "unat (handle_page h) < page_count a"
    using h(1) by (simp add: managed_def)
  let ?k = "(unat mp - unat (arena_base a)) div 4096"
  have page: "page_at ?p h = Page_new (of_nat (arena_count pmm))
      (if ?k \<le> unat (handle_page h) \<and> unat (handle_page h) < ?k + m then Reserved else Free)"
    using j at by (simp add: slot_of_def b(3) arena_memory_def)
  have addr: "unat (handle_address ?p h) = unat (arena_base a) + unat (handle_page h) * 4096"
    using unat_handle_address [OF wf h(1)] at by simp
  obtain q q' where "unat mp = 4096 * q" "unat (arena_base a) = 4096 * q'"
    using page_aligned_multiple [OF b(5)] b(7) page_aligned_multiple [of "arena_base a"]
    unfolding arena_ok_def by metis
  then have "unat mp = unat (arena_base a) + ?k * 4096"
    using b(6) by (simp add: diff_mult_distrib2 [symmetric])
  then have "handle_address ?p h \<in> metadata_bytes_at mp m"
    if "?k \<le> unat (handle_page h)" "unat (handle_page h) < ?k + m"
    using that unfolding metadata_bytes_at_def mem_Collect_eq word_le_nat_alt addr by simp
  moreover have "handle_address ?p h \<in> page_bytes ?p h"
    by (simp add: page_bytes_def)
  moreover have "reserved_bytes ?p = reserved_bytes pmm \<union> metadata_bytes_at mp m"
    using b(4) by (simp add: reserved_bytes_def live_ranges_def)
  ultimately show ?thesis
    unfolding page_fresh_def page by (auto simp: Page_new_def)
qed

lemma page_fresh_old:
  assumes h: "managed pmm h" and fresh: "page_fresh pmm h"
    and built: "arena_built pmm pmm' region (arena_count pmm) p2v a mp m"
    and ptr: "storage_ptr (arena_pages (arena_at pmm h)) \<noteq> storage_ptr (arena_pages a)"
  shows "page_fresh (add_arena pmm' a) h"
proof -
  let ?p = "add_arena pmm' a"
  have b: "arenas pmm' = arenas pmm" "arena_count pmm' = arena_count pmm"
      "page_memory pmm' = arena_memory a (of_nat (arena_count pmm)) mp m (page_memory pmm)"
      "reserved_bytes pmm' = reserved_bytes pmm \<union> metadata_bytes_at mp m"
    using built unfolding arena_built_def by blast+
  have at: "arena_at ?p h = arena_at pmm h"
    using h b by (simp add: arena_at_def managed_def)
  then have "page_at ?p h = page_at pmm h"
    using ptr by (simp add: slot_of_def b(3) arena_memory_def)
  moreover have "page_bytes ?p h = page_bytes pmm h"
    using at by (simp add: page_bytes_def handle_address_def)
  moreover have "reserved_bytes pmm \<subseteq> reserved_bytes ?p"
    using b(4) by (simp add: reserved_bytes_def live_ranges_def)
  ultimately show ?thesis
    using fresh unfolding page_fresh_def by auto
qed

lemma metadata_reserved_mono:
  "metadata_reserved pmm p2v a \<Longrightarrow> reserved_bytes pmm \<subseteq> reserved_bytes pmm' \<Longrightarrow>
   metadata_reserved pmm' p2v a"
  unfolding metadata_reserved_def by blast

lemma arenas_built_step:
  assumes fr: "frames_distinct p2v" and inv: "arenas_built pmm rs B p2v"
    and i: "arena_count pmm < length (arenas pmm)"
    and apart: "\<And>r. r \<in> rs \<Longrightarrow> regions_apart r region"
    and built: "arena_built pmm pmm' region (arena_count pmm) p2v a mp m"
  shows "arenas_built (add_arena pmm' a) (insert region rs) B p2v"
proof -
  let ?p = "add_arena pmm' a"
  have wf: "arenas_wf pmm" and meta: "\<And>i. i < arena_count pmm \<Longrightarrow> metadata_reserved pmm p2v (arenas pmm ! i)"
    and within: "\<And>i. i < arena_count pmm \<Longrightarrow> \<exists>r \<in> rs. within_region (arenas pmm ! i) r"
    and fresh: "\<And>h. managed pmm h \<Longrightarrow> page_fresh pmm h"
    and exact: "reserved_bytes pmm = B \<union> (\<Union>i < arena_count pmm. arena_metadata p2v (arenas pmm ! i))"
    using inv unfolding arenas_built_def by blast+
  have b: "arenas pmm' = arenas pmm" "arena_count pmm' = arena_count pmm"
      "reserved_bytes pmm' = reserved_bytes pmm \<union> metadata_bytes_at mp m" "reserved_ok pmm'"
      "arena_ok (arena_count pmm) a" "within_region a region"
      "metadata_reserved pmm' p2v a"
    using built unfolding arena_built_def within_region_def metadata_reserved_def by blast+
  have rb: "reserved_bytes ?p = reserved_bytes pmm'" and rok: "reserved_ok ?p"
    using b(4) by (simp_all add: reserved_bytes_def live_ranges_def reserved_ok_def)
  have new: "storage_ptr (arena_pages (arenas pmm ! j)) \<noteq> storage_ptr (arena_pages a) \<and>
      arenas_apart (arenas pmm ! j) a" if "j < arena_count pmm" for j
    using new_storage_distinct [OF fr meta [OF that] built] within [OF that] within_apart apart b(6) by blast
  have wf': "arenas_wf ?p"
    using add_arena_wf [OF wf _ b(1,2,5) new] i wf by (simp add: arenas_wf_def)
  have "page_fresh ?p h" if h: "managed ?p h" for h
  proof (cases "unat (handle_arena h) = arena_count pmm")
    case True
    then show ?thesis
      using page_fresh_new [OF wf' built i h] by blast
  next
    case False
    then have "managed pmm h"
      using h b by (simp add: managed_def arena_at_def)
    then show ?thesis
      using page_fresh_old [OF _ fresh built] new by (simp add: managed_def arena_at_def)
  qed
  moreover have "metadata_reserved ?p p2v (arenas ?p ! j) \<and> (\<exists>r \<in> insert region rs. within_region (arenas ?p ! j) r)"
    if "j < arena_count ?p" for j
  proof -
    have m: "metadata_reserved ?p p2v a" "j < arena_count pmm \<Longrightarrow> metadata_reserved ?p p2v (arenas pmm ! j)"
      using metadata_reserved_mono [OF b(7), of ?p] metadata_reserved_mono [OF meta, of j ?p] b(3)
      unfolding rb by simp_all
    have "arenas ?p ! j = (if j = arena_count pmm then a else arenas pmm ! j)" "j \<le> arena_count pmm"
      using that i by (simp_all add: b)
    then show ?thesis
      using m within [of j] b(6) by (cases "j = arena_count pmm") auto
  qed
  moreover have "reserved_bytes ?p = B \<union> (\<Union>i < arena_count ?p. arena_metadata p2v (arenas ?p ! i))"
  proof -
    have nth: "arenas ?p ! j = (if j = arena_count pmm then a else arenas pmm ! j)" if "j < Suc (arena_count pmm)" for j
      using that i by (simp add: b)
    have "(\<Union>j < arena_count ?p. arena_metadata p2v (arenas ?p ! j)) =
        (\<Union>j < Suc (arena_count pmm). arena_metadata p2v (if j = arena_count pmm then a else arenas pmm ! j))"
      using nth by (intro SUP_cong) (simp_all add: b(2))
    also have "\<dots> = arena_metadata p2v a \<union> (\<Union>j < arena_count pmm. arena_metadata p2v (arenas pmm ! j))"
      by (simp add: lessThan_Suc)
    finally show ?thesis
      unfolding rb b(3) exact arena_metadata_built [OF fr built] by blast
  qed
  ultimately show ?thesis
    unfolding arenas_built_def using wf' rok by blast
qed

lemma arenas_built_mono: "arenas_built pmm rs B p2v \<Longrightarrow> rs \<subseteq> rs' \<Longrightarrow> arenas_built pmm rs' B p2v"
  unfolding arenas_built_def by blast

lemma init_arenas_outcome:
  assumes fr: "frames_distinct p2v"
  shows "arenas_built pmm rs B p2v \<Longrightarrow> sorted_wrt regions_apart regions \<Longrightarrow>
    (\<And>r s. r \<in> rs \<Longrightarrow> s \<in> set regions \<Longrightarrow> regions_apart r s) \<Longrightarrow>
    \<exists>res pmm'. init_arenas regions p2v pmm = Inr (res, pmm') \<and>
      (\<forall>u. res = Inr u \<longrightarrow> arenas_built pmm' (rs \<union> set regions) B p2v)"
proof (induction regions arbitrary: pmm rs)
  case Nil
  then show ?case
    by simp
next
  case (Cons region rest)
  show ?case
  proof (cases "length (arenas pmm) \<le> arena_count pmm")
    case True
    then show ?thesis
      using arenas_built_mono [OF Cons.prems(1), of "rs \<union> set (region # rest)"] by auto
  next
    case False
    have ok: "reserved_ok pmm"
      using Cons.prems(1) by (simp add: arenas_built_def)
    obtain res p1 where i: "init_arena pmm region (of_nat (arena_count pmm)) p2v = Inr (res, p1)"
      and res: "case res of Inl e \<Rightarrow> True | Inr None \<Rightarrow> p1 = pmm
        | Inr (Some a) \<Rightarrow> \<exists>mp m. arena_built pmm p1 region (arena_count pmm) p2v a mp m"
      using init_arena_outcome [OF ok] by blast
    have union: "rs \<union> set (region # rest) = insert region rs \<union> set rest"
      by auto
    have far: "regions_apart r s" if "r \<in> insert region rs" "s \<in> set rest" for r s
      using that Cons.prems(2,3) by auto
    show ?thesis
    proof (cases "\<exists>a. res = Inr (Some a)")
      case True
      then obtain a mp m where a: "res = Inr (Some a)"
        and built: "arena_built pmm p1 region (arena_count pmm) p2v a mp m"
        using res by auto
      have "arenas_built (add_arena p1 a) (insert region rs) B p2v"
        using arenas_built_step [OF fr Cons.prems(1) _ _ built] False Cons.prems(3) by simp
      then show ?thesis
        using Cons.IH [of "add_arena p1 a" "insert region rs"] Cons.prems(2) far i a False
        unfolding union by (fastforce simp: bind_init_def)
    next
      case no: False
      show ?thesis
        using Cons.IH [OF arenas_built_mono [OF Cons.prems(1), of "insert region rs"]] Cons.prems(2) far
          i no res False
        unfolding union by (cases res) (auto simp: bind_init_def split: option.splits)
    qed
  qed
qed

end
