(* ===== verification/Pmm_Boot.thy ===== *)
theory Pmm_Boot
  imports Pmm_Init
begin

text \<open>
  The end of the construction of the page allocator: pages that share a byte with a reserved range
  are marked, the others are put on the free list. Together with the outcome lemmas of the earlier
  steps this gives that construction never panics and, when it reports success, establishes the
  invariant of the running allocator.
\<close>

section \<open>Marking reserved pages\<close>

definition marked :: "PhysicalMemoryManager \<Rightarrow> PhysicalMemoryManager \<Rightarrow> PageHandle set \<Rightarrow> bool" where
  "marked pmm pmm' S \<longleftrightarrow>
     same_config pmm pmm' \<and>
     (\<forall>k. managed pmm k \<longrightarrow> page_at pmm' k =
        (if k \<in> S then (page_at pmm k)\<lparr>page_state := Reserved\<rparr> else page_at pmm k))"

lemma marked_refl: "marked pmm pmm {}"
  by (simp add: marked_def)

lemma marked_trans:
  assumes "marked a b S" "marked b c T"
  shows "marked a c (S \<union> T)"
proof -
  have ab: "same_config a b" and bc: "same_config b c"
    using assms by (simp_all add: marked_def)
  show ?thesis
    using assms same_config_trans [OF ab bc] unfolding marked_def same_config_simps [OF ab] by auto
qed

lemma marked_cong: "marked a b S \<Longrightarrow> (\<And>h. managed a h \<Longrightarrow> h \<in> S \<longleftrightarrow> h \<in> T) \<Longrightarrow> marked a b T"
  unfolding marked_def by auto

lemma mark_page:
  assumes "arenas_wf pmm" "managed pmm h"
  shows "marked pmm (modify_page (slot_of pmm h) (\<lambda>p. p\<lparr>page_state := Reserved\<rparr>) pmm) {h}"
  using slot_eq_iff [OF assms(1) _ assms(2)]
  by (auto simp: marked_def same_config_def modify_page_def same_arenas [of "modify_page _ _ _" pmm, simplified modify_page_def])

text \<open>Handles of one arena by page index.\<close>

lemma arena_handle_managed:
  assumes "arenas_wf pmm" "i < arena_count pmm" "j < page_count (arenas pmm ! i)"
  shows "unat (of_nat i :: u8) = i" "unat (of_nat j :: u32) = j"
    "managed pmm (PageHandle_new (of_nat i) (of_nat j))"
    "arena_at pmm (PageHandle_new (of_nat i) (of_nat j)) = arenas pmm ! i"
proof -
  have "i < MAX_MEMORY_ARENAS" "page_count (arenas pmm ! i) \<le> 0xffffffff"
    using assms by (auto simp: arenas_wf_def arena_ok_def)
  then show u: "unat (of_nat i :: u8) = i" "unat (of_nat j :: u32) = j"
    using assms(3) by (simp_all add: unat_of_nat MAX_MEMORY_ARENAS_def)
  then show "managed pmm (PageHandle_new (of_nat i) (of_nat j))"
    "arena_at pmm (PageHandle_new (of_nat i) (of_nat j)) = arenas pmm ! i"
    using assms by (simp_all add: managed_def arena_at_def PageHandle_new_def)
qed

lemma managed_handle_new:
  assumes "managed pmm h"
  shows "h = PageHandle_new (of_nat (unat (handle_arena h))) (of_nat (unat (handle_page h)))"
  by (simp add: PageHandle_new_def)

lemma arena_handle_inject:
  assumes "arenas_wf pmm" "i < arena_count pmm" "j < page_count (arenas pmm ! i)"
    "k < page_count (arenas pmm ! i)"
  shows "PageHandle_new (of_nat i) (of_nat j) = PageHandle_new (of_nat i) (of_nat k) \<longleftrightarrow> j = k"
proof
  assume "PageHandle_new (of_nat i) (of_nat j) = PageHandle_new (of_nat i) (of_nat k)"
  then have "unat (of_nat j :: u32) = unat (of_nat k :: u32)"
    by (simp add: PageHandle_new_def)
  then show "j = k"
    using arena_handle_managed(2) [OF assms(1-2)] assms(3,4) by simp
qed simp

lemma arena_at_index:
  assumes "arenas_wf pmm" "i < arena_count pmm"
  shows "arena_index_of (arenas pmm ! i) = of_nat i"
  using assms by (simp add: arenas_wf_def arena_ok_def)

lemma mark_indices:
  assumes "arenas_wf pmm" "i < arena_count pmm"
  defines "f \<equiv> \<lambda>index pmm'. case page_mut (arenas pmm ! i) (PageHandle_new (of_nat i) (of_nat index)) of
          None \<Rightarrow> pmm' | Some slot \<Rightarrow> modify_page slot (\<lambda>p. p\<lparr>page_state := Reserved\<rparr>) pmm'"
  shows "(\<And>j. j \<in> set js \<Longrightarrow> j < page_count (arenas pmm ! i)) \<Longrightarrow>
    marked pmm (fold f js pmm) ((\<lambda>j. PageHandle_new (of_nat i) (of_nat j)) ` set js)"
proof (induction js rule: rev_induct)
  case Nil
  then show ?case
    by (simp add: marked_refl)
next
  case (snoc j js)
  let ?h = "PageHandle_new (of_nat i) (of_nat j)"
  define p where "p = fold f js pmm"
  have mk: "marked pmm p ((\<lambda>j. PageHandle_new (of_nat i) (of_nat j)) ` set js)"
    using snoc by (simp add: p_def)
  have j: "j < page_count (arenas pmm ! i)"
    using snoc.prems by simp
  note h = arena_handle_managed [OF assms(1,2) j]
  have sc: "same_config pmm p"
    using mk by (simp add: marked_def)
  have "page_mut (arenas pmm ! i) ?h = Some (slot_of pmm ?h)"
    using page_mut_managed [OF assms(1) h(3)] h(4) by simp
  then have "f j p = modify_page (slot_of p ?h) (\<lambda>p. p\<lparr>page_state := Reserved\<rparr>) p"
    by (simp add: f_def same_config_simps [OF sc])
  moreover have "marked p (modify_page (slot_of p ?h) (\<lambda>p. p\<lparr>page_state := Reserved\<rparr>) p) {?h}"
    using mark_page [of p ?h] assms(1) h(3) by (simp add: same_config_simps [OF sc])
  ultimately have "marked p (f j p) {?h}"
    by simp
  then show ?case
    using marked_trans [OF mk] by (fastforce simp: p_def)
qed

lemma page_bytes_touch:
  assumes "nonempty r"
  shows "page_bytes pmm h \<inter> range_bytes r \<noteq> {} \<longleftrightarrow>
    unat (range_start r) < unat (handle_address pmm h) + 4096 \<and>
    unat (handle_address pmm h) < unat (range_end r)"
proof
  assume "page_bytes pmm h \<inter> range_bytes r \<noteq> {}"
  then show "unat (range_start r) < unat (handle_address pmm h) + 4096 \<and>
      unat (handle_address pmm h) < unat (range_end r)"
    by (auto simp: page_bytes_def range_bytes_unfold word_le_nat_alt word_less_nat_alt)
next
  assume "unat (range_start r) < unat (handle_address pmm h) + 4096 \<and>
      unat (handle_address pmm h) < unat (range_end r)"
  then have "max (handle_address pmm h) (range_start r) \<in> page_bytes pmm h \<inter> range_bytes r"
    using assms
    by (auto simp: page_bytes_def range_bytes_unfold nonempty_def max_def word_le_nat_alt word_less_nat_alt)
  then show "page_bytes pmm h \<inter> range_bytes r \<noteq> {}"
    by blast
qed

lemma index_window:
  fixes b s e j :: nat
  assumes "s < b + 4096 * n" "b < e"
  shows "(max s b - b) div 4096 \<le> j \<and> j < min ((min e (b + 4096 * n) - b + 4095) div 4096) n \<longleftrightarrow>
    j < n \<and> s < b + j * 4096 + 4096 \<and> b + j * 4096 < e"
proof -
  have d: "x div 4096 \<le> j \<longleftrightarrow> x < j * 4096 + 4096" for x
    using div_less_iff_less_mult [of 4096 x "Suc j"] by (simp add: less_Suc_eq_le add.commute)
  have u: "j < (y + 4095) div 4096 \<longleftrightarrow> j * 4096 < y" for y
    using less_eq_div_iff_mult_less_eq [of 4096 "Suc j" "y + 4095"] by (simp add: Suc_le_eq)
  have "(max s b - b) div 4096 \<le> j \<longleftrightarrow> s < b + j * 4096 + 4096"
    unfolding d by (simp add: max_def) linarith
  moreover have "j < (min e (b + 4096 * n) - b + 4095) div 4096 \<longleftrightarrow> b + j * 4096 < e" if "j < n"
    unfolding u using that by (simp add: min_def) linarith
  ultimately show ?thesis
    by auto
qed

definition touched :: "PhysicalMemoryManager \<Rightarrow> ReservedRange \<Rightarrow> nat \<Rightarrow> PageHandle set" where
  "touched pmm r i = {h. unat (handle_arena h) = i \<and> page_bytes pmm h \<inter> range_bytes r \<noteq> {}}"

lemma mark_range_in_arena_outcome:
  assumes wf: "arenas_wf pmm" and i: "i < arena_count pmm" and r: "nonempty r"
  shows "\<exists>pmm'. mark_range_in_arena r (arenas pmm ! i) pmm = Inr pmm' \<and> marked pmm pmm' (touched pmm r i)"
proof -
  define a where "a = arenas pmm ! i"
  define n where "n = page_count a"
  have ok: "arena_ok i a"
    using wf i by (simp add: arenas_wf_def a_def)
  then have idx: "arena_index_of a = of_nat i" and b64: "unat (arena_base a) + n * 4096 < 2 ^ 64"
    by (simp_all add: arena_ok_def n_def)
  then have n64: "unat (of_nat n :: usize) = n" and nb: "unat (of_nat n * PAGE_SIZE) = n * 4096"
    by (simp_all add: unat_of_nat_lt unat_mult_no_overflow)
  define ae where "ae = arena_base a + of_nat n * PAGE_SIZE"
  have ae: "unat ae = unat (arena_base a) + n * 4096" "checked_add (arena_base a) (of_nat n * PAGE_SIZE) = Some ae"
    using b64 nb by (simp_all add: ae_def unat_add_no_overflow checked_add_def)
  have mul: "mul_words (of_nat n) PAGE_SIZE = Inr (of_nat n * PAGE_SIZE)"
    using b64 n64 by (simp add: mul_words_def)
  have addr: "unat (handle_address pmm h) = unat (arena_base a) + unat (handle_page h) * 4096"
      "unat (handle_page h) < n"
    if "managed pmm h" "unat (handle_arena h) = i" for h
    using unat_handle_address [OF wf that(1)] that by (simp_all add: arena_at_def a_def n_def managed_def)
  have touch: "h \<in> touched pmm r i \<longleftrightarrow>
      unat (range_start r) < unat (arena_base a) + unat (handle_page h) * 4096 + 4096 \<and>
      unat (arena_base a) + unat (handle_page h) * 4096 < unat (range_end r)"
    if "managed pmm h" "unat (handle_arena h) = i" for h
    using page_bytes_touch [OF r, of pmm h] addr [OF that] that by (simp add: touched_def)
  show ?thesis
  proof (cases "range_end r \<le> arena_base a \<or> ae \<le> range_start r")
    case True
    have "h \<notin> touched pmm r i" if h: "managed pmm h" for h
    proof (cases "unat (handle_arena h) = i")
      case i: True
      have "unat (handle_page h) * 4096 + 4096 \<le> n * 4096"
        using addr(2) [OF h i] by linarith
      then show ?thesis
        using True ae(1) unfolding touch [OF h i] word_le_nat_alt by linarith
    qed (simp add: touched_def)
    then have "marked pmm pmm (touched pmm r i)"
      using marked_cong [OF marked_refl] by simp
    then show ?thesis
      using True ae(2) mul by (simp add: mark_range_in_arena_def flip: a_def n_def)
  next
    case False
    then have lt: "unat (arena_base a) < unat (range_end r)"
        "unat (range_start r) < unat (arena_base a) + 4096 * n"
      using ae(1) by (simp_all add: word_le_nat_alt)
    define so where "so = max (range_start r) (arena_base a) - arena_base a"
    define eo where "eo = min (range_end r) ae - arena_base a"
    have subs: "sub_words (max (range_start r) (arena_base a)) (arena_base a) = Inr so"
        "sub_words (min (range_end r) ae) (arena_base a) = Inr eo"
      using lt ae(1) by (simp_all add: sub_words_def so_def eo_def) (simp add: word_le_nat_alt min_def)
    have so: "unat so = max (unat (range_start r)) (unat (arena_base a)) - unat (arena_base a)"
      by (simp add: so_def unat_sub max_def word_le_nat_alt)
    have eo: "unat eo = min (unat (range_end r)) (unat (arena_base a) + 4096 * n) - unat (arena_base a)"
      using lt ae(1) by (simp add: eo_def unat_sub min_def word_le_nat_alt)
    have si: "unat (so div PAGE_SIZE) =
        (max (unat (range_start r)) (unat (arena_base a)) - unat (arena_base a)) div 4096"
      by (simp add: unat_div so)
    have ei: "unat (div_ceil eo PAGE_SIZE) =
        (min (unat (range_end r)) (unat (arena_base a) + 4096 * n) - unat (arena_base a) + 4095) div 4096"
      using unat_div_ceil [of PAGE_SIZE eo] by (simp add: eo)
    define js where "js = [unat (so div PAGE_SIZE)..<min (unat (div_ceil eo PAGE_SIZE)) n]"
    have js: "j \<in> set js \<longleftrightarrow> j < n \<and> unat (range_start r) < unat (arena_base a) + j * 4096 + 4096 \<and>
        unat (arena_base a) + j * 4096 < unat (range_end r)" for j
      unfolding js_def si ei set_upt atLeastLessThan_iff by (rule index_window [OF lt(2,1)])
    let ?S = "(\<lambda>j. PageHandle_new (of_nat i) (of_nat j)) ` set js"
    have "h \<in> ?S \<longleftrightarrow> h \<in> touched pmm r i" if h: "managed pmm h" for h
    proof (cases "unat (handle_arena h) = i")
      case True
      have "h \<in> ?S \<longleftrightarrow> unat (handle_page h) \<in> set js"
      proof
        assume "h \<in> ?S"
        then show "unat (handle_page h) \<in> set js"
          using arena_handle_managed(2) [OF wf i] js by (auto simp: PageHandle_new_def a_def n_def)
      next
        assume "unat (handle_page h) \<in> set js"
        then show "h \<in> ?S"
          using managed_handle_new [OF h] unfolding True by (rule rev_image_eqI)
      qed
      then show ?thesis
        using js addr(2) [OF h True] touch [OF h True] by simp
    next
      case F: False
      then show ?thesis
        using arena_handle_managed(1) [OF wf i] js
        by (auto simp: touched_def PageHandle_new_def a_def n_def)
    qed
    moreover have "marked pmm (fold (\<lambda>index pmm'. case page_mut a (PageHandle_new (of_nat i) (of_nat index)) of
          None \<Rightarrow> pmm' | Some slot \<Rightarrow> modify_page slot (\<lambda>p. p\<lparr>page_state := Reserved\<rparr>) pmm') js pmm) ?S"
      using mark_indices [OF wf i, of js] js by (simp add: a_def n_def)
    ultimately show ?thesis
      using marked_cong False ae(2) mul subs idx
      by (simp add: mark_range_in_arena_def Let_def flip: a_def n_def js_def)
  qed
qed

lemma mark_all_outcome:
  assumes "\<And>r a. (r, a) \<in> set ps \<Longrightarrow> nonempty r \<and> (\<exists>i < arena_count pmm. a = arenas pmm ! i)"
    and "arenas_wf pmm"
  shows "\<exists>pmm'. mark_all ps pmm = Inr pmm' \<and>
    marked pmm pmm' {h. \<exists>r. (r, arena_at pmm h) \<in> set ps \<and> page_bytes pmm h \<inter> range_bytes r \<noteq> {}}"
  using assms
proof (induction ps arbitrary: pmm)
  case Nil
  then show ?case
    using marked_refl by simp
next
  case (Cons p ps)
  obtain r i where p: "p = (r, arenas pmm ! i)" "i < arena_count pmm" "nonempty r"
    using Cons.prems(1) by (cases p) auto
  obtain p1 where p1: "mark_range_in_arena r (arenas pmm ! i) pmm = Inr p1" "marked pmm p1 (touched pmm r i)"
    using mark_range_in_arena_outcome [OF Cons.prems(2) p(2,3)] by blast
  have sc: "same_config pmm p1"
    using p1(2) by (simp add: marked_def)
  have same: "arenas p1 = arenas pmm" "arena_count p1 = arena_count pmm" "arenas_wf p1"
    using sc Cons.prems(2) by (simp_all add: same_config_def same_config_simps [OF sc])
  have pb: "page_bytes p1 h = page_bytes pmm h" for h
    by (simp add: page_bytes_def handle_address_def same_config_simps [OF sc])
  obtain pmm' where pmm': "mark_all ps p1 = Inr pmm'"
      "marked p1 pmm' {h. \<exists>r. (r, arena_at p1 h) \<in> set ps \<and> page_bytes p1 h \<inter> range_bytes r \<noteq> {}}"
    using Cons.IH [of p1] Cons.prems(1) same by fastforce
  have "marked pmm pmm' (touched pmm r i \<union>
      {h. \<exists>r. (r, arena_at pmm h) \<in> set ps \<and> page_bytes pmm h \<inter> range_bytes r \<noteq> {}})"
    using marked_trans [OF p1(2) pmm'(2)] unfolding pb same_config_simps [OF sc] .
  then have "marked pmm pmm' {h. \<exists>r. (r, arena_at pmm h) \<in> set (p # ps) \<and>
      page_bytes pmm h \<inter> range_bytes r \<noteq> {}}"
  proof (rule marked_cong)
    fix h assume h: "managed pmm h"
    have "i < 4"
      using p(2) Cons.prems(2) by (simp add: arenas_wf_def MAX_MEMORY_ARENAS_def)
    then have "unat (of_nat i :: u8) = i"
      by (simp add: unat_of_nat)
    moreover have "handle_arena h = arena_index_of (arena_at pmm h)"
      using arenas_wf_arena_ok [OF Cons.prems(2) h] by (simp add: arena_ok_def)
    ultimately have "unat (handle_arena h) = i \<longleftrightarrow> arena_at pmm h = arenas pmm ! i"
      using arena_at_index [OF Cons.prems(2) p(2)] by (auto simp: arena_at_def)
    then show "h \<in> touched pmm r i \<union>
        {h. \<exists>r. (r, arena_at pmm h) \<in> set ps \<and> page_bytes pmm h \<inter> range_bytes r \<noteq> {}} \<longleftrightarrow>
      h \<in> {h. \<exists>r. (r, arena_at pmm h) \<in> set (p # ps) \<and> page_bytes pmm h \<inter> range_bytes r \<noteq> {}}"
      unfolding p(1) touched_def by auto
  qed
  then show ?case
    using p1(1) pmm'(1) p(1) by auto
qed

lemma reserved_bytes_meet:
  "X \<inter> reserved_bytes pmm \<noteq> {} \<longleftrightarrow> (\<exists>r \<in> set (live_ranges pmm). X \<inter> range_bytes r \<noteq> {})"
  unfolding reserved_bytes_def by blast

lemma mark_reserved_ranges_outcome:
  assumes wf: "arenas_wf pmm" and ok: "reserved_ok pmm"
  shows "\<exists>pmm'. mark_reserved_ranges pmm = Inr pmm' \<and>
    marked pmm pmm' {h. page_bytes pmm h \<inter> reserved_bytes pmm \<noteq> {}}"
proof -
  let ?ps = "List.product (live_ranges pmm) (take (arena_count pmm) (arenas pmm))"
  have len: "arena_count pmm \<le> length (arenas pmm)"
    using wf by (simp add: arenas_wf_def)
  have tab: "a \<in> set (take (arena_count pmm) (arenas pmm)) \<longleftrightarrow> (\<exists>i < arena_count pmm. a = arenas pmm ! i)" for a
    using len by (auto simp: in_set_conv_nth)
  have "\<exists>pmm'. mark_all ?ps pmm = Inr pmm' \<and>
      marked pmm pmm' {h. \<exists>r. (r, arena_at pmm h) \<in> set ?ps \<and> page_bytes pmm h \<inter> range_bytes r \<noteq> {}}"
    using ok by (intro mark_all_outcome [OF _ wf]) (auto simp: tab reserved_ok_def apart_def)
  then obtain pmm' where mk: "mark_all ?ps pmm = Inr pmm'"
    "marked pmm pmm' {h. \<exists>r. (r, arena_at pmm h) \<in> set ?ps \<and> page_bytes pmm h \<inter> range_bytes r \<noteq> {}}"
    by blast
  have "marked pmm pmm' {h. page_bytes pmm h \<inter> reserved_bytes pmm \<noteq> {}}"
  proof (rule marked_cong [OF mk(2)])
    fix h assume "managed pmm h"
    then have "arena_at pmm h \<in> set (take (arena_count pmm) (arenas pmm))"
      unfolding tab managed_def arena_at_def by blast
    then show "h \<in> {h. \<exists>r. (r, arena_at pmm h) \<in> set ?ps \<and> page_bytes pmm h \<inter> range_bytes r \<noteq> {}} \<longleftrightarrow>
        h \<in> {h. page_bytes pmm h \<inter> reserved_bytes pmm \<noteq> {}}"
      unfolding mem_Collect_eq reserved_bytes_meet by auto
  qed
  then show ?thesis
    using mk(1) by (simp add: mark_reserved_ranges_def live_ranges_def)
qed

section \<open>Building the free list\<close>

text \<open>Every managed page is either free or reserved, and reserved exactly when it meets reserved memory.\<close>

definition pages_classified :: "PhysicalMemoryManager \<Rightarrow> bool" where
  "pages_classified pmm \<longleftrightarrow>
     (\<forall>h. managed pmm h \<longrightarrow> \<not> contiguous_head (page_at pmm h) \<and>
        page_state (page_at pmm h) =
          (if page_bytes pmm h \<inter> reserved_bytes pmm = {} then Free else Reserved))"

lemma page_bytes_config: "same_config pmm pmm' \<Longrightarrow> page_bytes pmm' h = page_bytes pmm h"
proof -
  assume sc: "same_config pmm pmm'"
  show ?thesis
    by (simp add: page_bytes_def handle_address_def same_config_simps [OF sc])
qed

lemma reserved_bytes_config: "same_config pmm pmm' \<Longrightarrow> reserved_bytes pmm' = reserved_bytes pmm"
  by (simp add: same_config_def reserved_bytes_def live_ranges_def)

lemma marked_classified:
  assumes fresh: "\<And>h. managed pmm h \<Longrightarrow> page_fresh pmm h"
    and mk: "marked pmm pmm' {h. page_bytes pmm h \<inter> reserved_bytes pmm \<noteq> {}}"
  shows "pages_classified pmm'"
proof -
  have sc: "same_config pmm pmm'"
    using mk by (simp add: marked_def)
  show ?thesis
    using fresh mk
    unfolding pages_classified_def marked_def page_fresh_def same_config_simps [OF sc]
      page_bytes_config [OF sc] reserved_bytes_config [OF sc] by auto
qed

lemma links_only_classified:
  assumes "links_only pmm pmm'"
  shows "pages_classified pmm' = pages_classified pmm"
  unfolding pages_classified_def page_bytes_config [OF links_only_config(1) [OF assms]]
    reserved_bytes_config [OF links_only_config(1) [OF assms]] links_only_same [OF assms]
    links_only_simps [OF assms] ..

abbreviation with_free_pages :: "PhysicalMemoryManager \<Rightarrow> nat \<Rightarrow> PhysicalMemoryManager" where
  "with_free_pages pmm n \<equiv> pmm\<lparr>free_pages := n\<rparr>"

text \<open>A loop of \<open>build_free_list\<close> that appended \<open>hs\<close> to the free list \<open>fl\<close>.\<close>

definition appended ::
  "PhysicalMemoryManager \<Rightarrow> PageHandle list \<Rightarrow> PhysicalMemoryManager \<Rightarrow> PageHandle list \<Rightarrow> bool" where
  "appended pmm fl pmm' hs \<longleftrightarrow>
     list_inv pmm' (fl @ hs) \<and> links_only (with_free_pages pmm (free_pages pmm + length hs)) pmm'"

lemma list_inv_free_pages [simp]: "list_inv (with_free_pages pmm n) fl = list_inv pmm fl"
  by (simp add: list_inv_def slot_of_def managed_def arena_at_def)

lemma classified_free_pages [simp]: "pages_classified (with_free_pages pmm n) = pages_classified pmm"
  by (simp add: pages_classified_def managed_def slot_of_def arena_at_def page_bytes_def
      handle_address_def reserved_bytes_def live_ranges_def)

lemma appended_same:
  assumes "appended pmm fl pmm' hs"
  shows "arenas pmm' = arenas pmm" "arena_count pmm' = arena_count pmm"
    "free_pages pmm' = free_pages pmm + length hs" "same_config pmm pmm'"
    "pages_classified pmm' = pages_classified pmm"
proof -
  have lo: "links_only (with_free_pages pmm (free_pages pmm + length hs)) pmm'"
    using assms by (simp add: appended_def)
  show "arenas pmm' = arenas pmm" "arena_count pmm' = arena_count pmm"
    "free_pages pmm' = free_pages pmm + length hs" "same_config pmm pmm'"
    "pages_classified pmm' = pages_classified pmm"
    using links_only_simps [OF lo] links_only_classified [OF lo] by (simp_all add: same_config_def)
qed

lemma appended_refl: "list_inv pmm fl \<Longrightarrow> appended pmm fl pmm []"
  by (simp add: appended_def)

lemma links_only_free_pages:
  assumes "links_only a b"
  shows "links_only (with_free_pages a n) (with_free_pages b n)"
  by (rule links_onlyI) (simp_all add: links_only_simps [OF assms])

lemma appended_trans:
  assumes "appended a fl b hs" "appended b (fl @ hs) c ks"
  shows "appended a fl c (hs @ ks)"
proof -
  have 1: "links_only (with_free_pages a (free_pages a + length hs)) b"
    and 2: "links_only (with_free_pages b (free_pages b + length ks)) c"
    and l: "list_inv c ((fl @ hs) @ ks)"
    using assms by (simp_all add: appended_def)
  have "links_only (with_free_pages a (free_pages a + length (hs @ ks)))
      (with_free_pages b (free_pages b + length ks))"
    using links_only_free_pages [OF 1, of "free_pages b + length ks"] appended_same(3) [OF assms(1)]
    by (simp add: add.assoc)
  then show ?thesis
    using links_only_trans [OF _ 2] l by (simp add: appended_def)
qed

lemma appended_push:
  assumes "arenas_wf pmm" "list_inv pmm fl" "managed pmm h" "h \<notin> set fl"
  shows "\<exists>pmm'. push_free pmm h = Inr pmm' \<and> appended pmm fl (with_free_pages pmm' (free_pages pmm' + 1)) [h]"
proof -
  obtain pmm' where p: "push_free pmm h = Inr pmm'" "list_inv pmm' (fl @ [h])" "links_only pmm pmm'"
    using push_free_list [OF assms] by blast
  have "free_pages pmm' = free_pages pmm"
    by (rule links_only_simps(6) [OF p(3)])
  then show ?thesis
    using p(1,2) links_only_free_pages [OF p(3), of "free_pages pmm + 1"] by (simp add: appended_def)
qed

lemma free_not_reserved:
  assumes "pages_classified pmm" "managed pmm h" "page_state (page_at pmm h) = Free"
  shows "\<not> is_reserved pmm (handle_address pmm h)"
proof -
  have "page_bytes pmm h \<inter> reserved_bytes pmm = {}"
    using assms by (auto simp: pages_classified_def split: if_splits)
  moreover have "handle_address pmm h \<in> page_bytes pmm h"
    by (simp add: page_bytes_def)
  ultimately show ?thesis
    by (auto simp: is_reserved_def reserved_bytes_def range_bytes_def live_ranges_def list_ex_iff)
qed

lemma modify_page_id: "f (page_memory pmm slot) = page_memory pmm slot \<Longrightarrow> modify_page slot f pmm = pmm"
  by (simp add: modify_page_def)

abbreviation free_page_in :: "PhysicalMemoryManager \<Rightarrow> PageHandle \<Rightarrow> bool" where
  "free_page_in pmm h \<equiv> page_bytes pmm h \<inter> reserved_bytes pmm = {}"

abbreviation arena_pages_of :: "PhysicalMemoryManager \<Rightarrow> nat \<Rightarrow> nat list \<Rightarrow> PageHandle list" where
  "arena_pages_of pmm i js \<equiv> map (\<lambda>j. PageHandle_new (of_nat i) (of_nat j)) js"

lemma build_free_list_arena_outcome:
  assumes "arenas_wf pmm" "pages_classified pmm" "list_inv pmm fl" "i < arena_count pmm" "distinct js"
    and "\<And>j. j \<in> set js \<Longrightarrow> j < page_count (arenas pmm ! i) \<and> PageHandle_new (of_nat i) (of_nat j) \<notin> set fl"
  shows "\<exists>pmm'. build_free_list_arena (arenas pmm ! i) js pmm = Inr pmm' \<and>
    appended pmm fl pmm' (filter (free_page_in pmm) (arena_pages_of pmm i js))"
  using assms
proof (induction js arbitrary: pmm fl)
  case Nil
  then show ?case
    by (simp add: appended_refl)
next
  case (Cons j js)
  let ?h = "PageHandle_new (of_nat i) (of_nat j)"
  have j: "j < page_count (arenas pmm ! i)" "?h \<notin> set fl"
    using Cons.prems(6) [of j] by simp_all
  note h = arena_handle_managed [OF Cons.prems(1,4) j(1)]
  have idx: "arena_index_of (arenas pmm ! i) = of_nat i"
    using arena_at_index Cons.prems(1,4) by blast
  have mut: "page_mut (arenas pmm ! i) ?h = Some (slot_of pmm ?h)"
    and phys: "page_to_physical (arenas pmm ! i) ?h = Some (handle_address pmm ?h)"
    using page_mut_managed [OF Cons.prems(1) h(3)] page_to_physical_managed [OF Cons.prems(1) h(3)] h(4) by simp_all
  show ?case
  proof (cases "free_page_in pmm ?h")
    case False
    then have "page_state (page_at pmm ?h) = Reserved"
      using Cons.prems(2) h(3) by (simp add: pages_classified_def)
    then show ?thesis
      using Cons.IH [OF Cons.prems(1-4)] Cons.prems(5,6) False by (simp add: mut idx Let_def)
  next
    case True
    then have st: "page_state (page_at pmm ?h) = Free"
      using Cons.prems(2) h(3) by (simp add: pages_classified_def)
    obtain p1 p where p1: "push_free pmm ?h = Inr p1" "appended pmm fl p [?h]"
        "p = with_free_pages p1 (free_pages p1 + 1)"
      using appended_push [OF Cons.prems(1,3) h(3) j(2)] by blast
    note same = appended_same [OF p1(2)]
    have keep: "modify_page (slot_of pmm ?h) (\<lambda>p. p\<lparr>page_state := Free\<rparr>) pmm = pmm"
      using st by (intro modify_page_id) (cases "page_at pmm ?h"; simp)
    have step: "build_free_list_arena (arenas pmm ! i) (j # js) pmm = build_free_list_arena (arenas p ! i) js p"
      using p1(1) st free_not_reserved [OF Cons.prems(2) h(3) st] same(1)
      by (simp add: mut idx phys keep Let_def p1(3))
    have "PageHandle_new (of_nat i) (of_nat k) \<noteq> ?h" if "k \<in> set js" for k
      using arena_handle_inject [OF Cons.prems(1,4)] Cons.prems(5,6) that j(1) by fastforce
    then have "\<exists>pmm'. build_free_list_arena (arenas p ! i) js p = Inr pmm' \<and>
        appended p (fl @ [?h]) pmm' (filter (free_page_in p) (arena_pages_of p i js))"
      using Cons.prems p1(2) same
      by (intro Cons.IH) (auto simp: appended_def same_arenas [OF same(1,2)])
    then obtain pmm' where pmm': "build_free_list_arena (arenas p ! i) js p = Inr pmm'"
        "appended p (fl @ [?h]) pmm' (filter (free_page_in pmm) (arena_pages_of pmm i js))"
      unfolding page_bytes_config [OF same(4)] reserved_bytes_config [OF same(4)] by blast
    show ?thesis
      using appended_trans [OF p1(2) pmm'(2)] pmm'(1) True unfolding step by auto
  qed
qed

text \<open>All managed pages, in the order in which construction visits them.\<close>

definition arena_handles :: "PhysicalMemoryManager \<Rightarrow> nat \<Rightarrow> PageHandle list" where
  "arena_handles pmm i = arena_pages_of pmm i [0..<page_count (arenas pmm ! i)]"

definition all_handles :: "PhysicalMemoryManager \<Rightarrow> PageHandle list" where
  "all_handles pmm = concat (map (arena_handles pmm) [0..<arena_count pmm])"

lemma arena_handles_iff:
  "h \<in> set (arena_handles pmm i) \<longleftrightarrow>
     (\<exists>j < page_count (arenas pmm ! i). h = PageHandle_new (of_nat i) (of_nat j))"
  by (auto simp: arena_handles_def)

lemma arena_handles_index:
  assumes "arenas_wf pmm" "i < arena_count pmm" "h \<in> set (arena_handles pmm i)"
  shows "managed pmm h \<and> unat (handle_arena h) = i"
proof -
  obtain j where "j < page_count (arenas pmm ! i)" "h = PageHandle_new (of_nat i) (of_nat j)"
    using assms(3) unfolding arena_handles_iff by blast
  then show ?thesis
    using arena_handle_managed [OF assms(1,2)] by (simp add: PageHandle_new_def)
qed

lemma set_all_handles:
  assumes "arenas_wf pmm"
  shows "set (all_handles pmm) = {h. managed pmm h}"
proof -
  have ex: "h \<in> set (all_handles pmm) \<longleftrightarrow> (\<exists>i < arena_count pmm. h \<in> set (arena_handles pmm i))" for h
    by (auto simp: all_handles_def)
  have "h \<in> set (arena_handles pmm (unat (handle_arena h)))" "unat (handle_arena h) < arena_count pmm"
    if "managed pmm h" for h
    using that managed_handle_new [OF that] unfolding arena_handles_iff managed_def arena_at_def by blast+
  then have "h \<in> set (all_handles pmm) \<longleftrightarrow> managed pmm h" for h
    unfolding ex using arena_handles_index [OF assms] by meson
  then show ?thesis
    by blast
qed

lemma build_free_list_arenas_outcome:
  assumes "arenas_wf pmm" "pages_classified pmm" "list_inv pmm fl"
    and "\<And>i. i \<in> set js \<Longrightarrow> i < arena_count pmm \<and> set (arena_handles pmm i) \<inter> set fl = {}" and "distinct js"
  shows "\<exists>pmm'. build_free_list_arenas (map ((!) (arenas pmm)) js) pmm = Inr pmm' \<and>
    appended pmm fl pmm' (filter (free_page_in pmm) (concat (map (arena_handles pmm) js)))"
  using assms
proof (induction js arbitrary: pmm fl)
  case Nil
  then show ?case
    by (simp add: appended_refl)
next
  case (Cons i js)
  have i: "i < arena_count pmm" "set (arena_handles pmm i) \<inter> set fl = {}"
    using Cons.prems(4) by simp_all
  let ?hs = "filter (free_page_in pmm) (arena_handles pmm i)"
  have "PageHandle_new (of_nat i) (of_nat j) \<notin> set fl" if "j < page_count (arenas pmm ! i)" for j
    using i(2) that arena_handles_iff by blast
  then obtain p where p: "build_free_list_arena (arenas pmm ! i) [0..<page_count (arenas pmm ! i)] pmm = Inr p"
      "appended pmm fl p ?hs"
    using build_free_list_arena_outcome [OF Cons.prems(1-3) i(1), of "[0..<page_count (arenas pmm ! i)]"]
    by (auto simp: arena_handles_def)
  note same = appended_same [OF p(2)]
  have ah: "arena_handles p = arena_handles pmm"
    by (simp add: arena_handles_def fun_eq_iff same(1))
  have "set (arena_handles pmm k) \<inter> set (fl @ ?hs) = {}" if "k \<in> set js" for k
  proof -
    have k: "k < arena_count pmm" "set (arena_handles pmm k) \<inter> set fl = {}" "k \<noteq> i"
      using Cons.prems(4,5) that by auto
    have "h \<notin> set (arena_handles pmm i)" if "h \<in> set (arena_handles pmm k)" for h
      using arena_handles_index [OF Cons.prems(1) k(1) that] arena_handles_index [OF Cons.prems(1) i(1)] k(3)
      by blast
    then show ?thesis
      using k(2) by auto
  qed
  then have rest: "i < arena_count p \<and> set (arena_handles p i) \<inter> set (fl @ ?hs) = {}" if "i \<in> set js" for i
    using that Cons.prems(4) unfolding ah same(2) by simp
  have "\<exists>pmm'. build_free_list_arenas (map ((!) (arenas p)) js) p = Inr pmm' \<and>
      appended p (fl @ ?hs) pmm' (filter (free_page_in p) (concat (map (arena_handles p) js)))"
  proof (rule Cons.IH)
    show "arenas_wf p"
      unfolding same_arenas(1) [OF same(1,2)] by (rule Cons.prems(1))
    show "pages_classified p"
      unfolding same(5) by (rule Cons.prems(2))
    show "list_inv p (fl @ ?hs)"
      using p(2) unfolding appended_def by blast
    show "distinct js"
      using Cons.prems(5) by simp
  qed (rule rest)
  then obtain pmm' where pmm': "build_free_list_arenas (map ((!) (arenas pmm)) js) p = Inr pmm'"
      "appended p (fl @ ?hs) pmm' (filter (free_page_in pmm) (concat (map (arena_handles pmm) js)))"
    unfolding page_bytes_config [OF same(4)] reserved_bytes_config [OF same(4)] ah same(1) by blast
  show ?case
    using appended_trans [OF p(2) pmm'(2)] p(1) pmm'(1) by auto
qed

lemma build_free_list_outcome:
  assumes wf: "arenas_wf pmm" and cl: "pages_classified pmm"
  shows "\<exists>pmm'. build_free_list pmm = Inr pmm' \<and>
    pmm_inv pmm' (filter (free_page_in pmm) (all_handles pmm)) \<and> same_config pmm pmm' \<and> pages_classified pmm'"
proof -
  define p where "p = pmm\<lparr>free_head := PageHandle_NONE, free_tail := PageHandle_NONE, free_pages := 0\<rparr>"
  let ?fl = "filter (free_page_in pmm) (all_handles pmm)"
  have sc: "same_config pmm p"
    by (simp add: same_config_def p_def)
  have cl': "pages_classified p"
    using cl unfolding pages_classified_def page_bytes_config [OF sc] reserved_bytes_config [OF sc]
      same_config_simps [OF sc] by (simp add: p_def)
  have tab: "take (arena_count pmm) (arenas pmm) = map ((!) (arenas p)) [0..<arena_count pmm]"
    using wf by (intro nth_equalityI) (simp_all add: arenas_wf_def p_def)
  have ah: "arena_handles p = arena_handles pmm"
    by (simp add: arena_handles_def fun_eq_iff p_def)
  have "\<exists>pmm'. build_free_list_arenas (map ((!) (arenas p)) [0..<arena_count pmm]) p = Inr pmm' \<and>
      appended p [] pmm' (filter (free_page_in p) (concat (map (arena_handles p) [0..<arena_count pmm])))"
    using wf cl' sc by (intro build_free_list_arenas_outcome)
      (simp_all add: same_config_simps [OF sc] list_inv_def p_def)
  then obtain pmm' where b: "build_free_list pmm = Inr pmm'" "appended p [] pmm' ?fl"
    unfolding page_bytes_config [OF sc] reserved_bytes_config [OF sc] ah
    by (auto simp: build_free_list_def all_handles_def tab simp flip: p_def)
  note same = appended_same [OF b(2)]
  have sc': "same_config pmm pmm'"
    using same_config_trans [OF sc same(4)] .
  have cl2: "pages_classified pmm'"
    using same(5) cl' by simp
  have "set ?fl = free_handles pmm'"
    using cl2 set_all_handles [OF wf]
    by (auto simp: free_handles_def pages_classified_def page_bytes_config [OF sc']
        reserved_bytes_config [OF sc'] same_config_simps [OF sc'] split: if_splits)
  moreover have "arenas_wf pmm'"
    using wf by (simp add: same_config_simps [OF sc'])
  moreover have "list_inv pmm' ?fl" "free_pages pmm' = length ?fl"
    using b(2) same(3) by (simp_all add: appended_def p_def)
  ultimately have "pmm_inv pmm' ?fl"
    using cl2 unfolding pmm_inv_def pages_classified_def by blast
  then show ?thesis
    using b(1) sc' cl2 by blast
qed

section \<open>Construction as a whole\<close>

text \<open>
  The memory that construction has to keep out of the pool beside the metadata: the kernel image, at
  least \<open>KERNEL_RESERVE_PAD\<close> (2 MiB) from its start, the device tree and the firmware regions.
\<close>

definition boot_bytes :: "HardwareInfo \<Rightarrow> PhysicalAddress \<Rightarrow> PhysicalAddress \<Rightarrow> PhysicalAddress set" where
  "boot_bytes info ks ke =
     {ks..<max ke (ks + KERNEL_RESERVE_PAD)} \<union> device_tree_bytes info \<union>
     (\<Union>r \<in> set (reserved_regions info). region_bytes r)"

definition pool_built ::
  "PhysicalMemoryManager \<Rightarrow> HardwareInfo \<Rightarrow> PhysicalAddress set \<Rightarrow> (PhysicalAddress \<Rightarrow> VirtualAddress) \<Rightarrow> bool"
where
  "pool_built pmm info B p2v \<longleftrightarrow>
     pool_inv pmm \<and> reserved_ok pmm \<and> pages_classified pmm \<and>
     reserved_bytes pmm = B \<union> (\<Union>i < arena_count pmm. arena_metadata p2v (arenas pmm ! i)) \<and>
     free_list pmm = filter (\<lambda>h. page_bytes pmm h \<inter> reserved_bytes pmm = {}) (all_handles pmm) \<and>
     0 < arena_count pmm \<and>
     (\<forall>i < arena_count pmm. metadata_reserved pmm p2v (arenas pmm ! i) \<and>
        (\<exists>r \<in> set (memory_regions info). within_region (arenas pmm ! i) r))"

lemma pmm_empty_arenas_built: "arenas_built (pmm_empty m) {} {} p2v"
proof -
  have "arena_count (pmm_empty m) = 0" "arenas (pmm_empty m) = replicate MAX_MEMORY_ARENAS Arena_EMPTY"
    by (simp_all add: pmm_empty_def)
  then have "arenas_wf (pmm_empty m)" "\<And>h. \<not> managed (pmm_empty m) h"
    by (simp_all add: arenas_wf_def managed_def Arena_EMPTY_def)
  then show ?thesis
    using \<open>arena_count (pmm_empty m) = 0\<close>
    by (simp add: arenas_built_def pmm_empty_reserved_ok pmm_empty_reserved_bytes)
qed

lemma reserves_arenas_built:
  assumes "arenas_built pmm {} C p2v" "reserves pmm pmm' B" "arena_count pmm = 0"
  shows "arenas_built pmm' {} (C \<union> B) p2v"
proof -
  have ro: "ranges_only pmm pmm'" and ok: "reserved_ok pmm'" "reserved_bytes pmm' = reserved_bytes pmm \<union> B"
    using assms(2) by (simp_all add: reserves_def)
  show ?thesis
    using assms(1,3) ok
    by (simp add: arenas_built_def managed_def same_arenas [OF ranges_only_simps(1,2) [OF ro]] ranges_only_simps [OF ro])
qed

lemma classified_initialized [simp]: "pages_classified (pmm\<lparr>initialized := b\<rparr>) = pages_classified pmm"
  by (simp add: pages_classified_def managed_def slot_of_def arena_at_def page_bytes_def
      handle_address_def reserved_bytes_def live_ranges_def)

lemma pmm_inv_initialized: "pmm_inv pmm fl \<Longrightarrow> pmm_inv (pmm\<lparr>initialized := b\<rparr>) fl"
proof -
  define p where "p = pmm\<lparr>initialized := b\<rparr>"
  have same: "arenas p = arenas pmm" "arena_count p = arena_count pmm"
    by (simp_all add: p_def)
  have "page_memory p = page_memory pmm" "free_head p = free_head pmm" "free_tail p = free_tail pmm"
      "free_pages p = free_pages pmm"
    by (simp_all add: p_def)
  then have "pmm_inv p fl = pmm_inv pmm fl"
    unfolding pmm_inv_def list_inv_def free_handles_def same_arenas [OF same] by simp
  then show "pmm_inv pmm fl \<Longrightarrow> pmm_inv (pmm\<lparr>initialized := b\<rparr>) fl"
    unfolding p_def by blast
qed

lemma bind_init_simps:
  "bind_init (Inr (Inl e, p)) f = Inr (Inl e, p)" "bind_init (Inr (Inr x, p)) f = f x p"
  by (simp_all add: bind_init_def)

text \<open>The last steps, after the arenas have been built.\<close>

definition open_pool :: "PhysicalMemoryManager \<Rightarrow> unit init" where
  "open_pool pmm =
     (if arena_count pmm = 0 then Inr (Inl NoMemoryRegions, pmm)
      else bind_panic (mark_reserved_ranges pmm) (\<lambda>pmm. bind_panic (build_free_list pmm) (\<lambda>pmm.
        Inr (Inr (), pmm\<lparr>initialized := True\<rparr>))))"

lemma open_pool_outcome:
  assumes built: "arenas_built pmm (set (memory_regions info)) B p2v" and c: "arena_count pmm \<noteq> 0"
  shows "\<exists>pmm'. open_pool pmm = Inr (Inr (), pmm') \<and> pool_built pmm' info B p2v"
proof -
  have wf: "arenas_wf pmm" and ok: "reserved_ok pmm"
    using built by (simp_all add: arenas_built_def)
  obtain p1 where p1: "mark_reserved_ranges pmm = Inr p1"
      "marked pmm p1 {h. page_bytes pmm h \<inter> reserved_bytes pmm \<noteq> {}}"
    using mark_reserved_ranges_outcome [OF wf ok] by blast
  have sc1: "same_config pmm p1"
    using p1(2) by (simp add: marked_def)
  have cl: "pages_classified p1"
    using marked_classified [OF _ p1(2)] built unfolding arenas_built_def by blast
  have wf1: "arenas_wf p1"
    using wf by (simp add: same_config_simps [OF sc1])
  obtain p2 where p2: "build_free_list p1 = Inr p2" "pmm_inv p2 (filter (free_page_in p1) (all_handles p1))"
      "same_config p1 p2" "pages_classified p2"
    using build_free_list_outcome [OF wf1 cl] by blast
  define p where "p = p2\<lparr>initialized := True\<rparr>"
  have same: "arenas p = arenas pmm" "arena_count p = arena_count pmm"
      "reserved_ranges p = reserved_ranges pmm" "reserved_count p = reserved_count pmm"
    using sc1 p2(3) by (simp_all add: same_config_def p_def)
  have rb: "reserved_bytes p = reserved_bytes pmm" and rok: "reserved_ok p"
    using ok by (simp_all add: reserved_bytes_def live_ranges_def reserved_ok_def same)
  have pb: "page_bytes p = page_bytes p1" "reserved_bytes p = reserved_bytes p1" "all_handles p = all_handles p1"
    using sc1 same unfolding same_config_def
    by (simp_all add: page_bytes_def handle_address_def arena_at_def fun_eq_iff reserved_bytes_def
        live_ranges_def all_handles_def arena_handles_def cong: map_cong)
  have "pool_inv p" "free_list p = filter (\<lambda>h. page_bytes p h \<inter> reserved_bytes p = {}) (all_handles p)"
    using pool_invI [OF pmm_inv_initialized [OF p2(2), of True]] unfolding pb by (simp_all add: p_def)
  moreover have "metadata_reserved p p2v (arenas p ! i) \<and>
      (\<exists>r \<in> set (memory_regions info). within_region (arenas p ! i) r)" if "i < arena_count p" for i
    using that built unfolding arenas_built_def metadata_reserved_def rb same by blast
  moreover have "reserved_bytes p = B \<union> (\<Union>i < arena_count p. arena_metadata p2v (arenas p ! i))"
    using built unfolding arenas_built_def rb same by blast
  ultimately have "pool_built p info B p2v"
    using rok c p2(4) unfolding pool_built_def rb same by (simp add: p_def)
  then show ?thesis
    using c p1(1) p2(1) by (simp add: open_pool_def p_def)
qed

lemma reserve_all_ok:
  assumes k: "reserve_kernel (pmm_empty m) ks ke = (Inr u, p1)"
    and d: "reserve_device_tree p1 info = (Inr v, p2)"
    and f: "reserve_firmware_regions p2 info = (Inr w, p3)"
  shows "arenas_built p3 {} (boot_bytes info ks ke) p2v"
proof -
  note r1 = reserve_kernel_ok [OF pmm_empty_reserved_ok k]
  then have "reserved_ok p1"
    by (simp add: reserves_def)
  then have r2: "reserves p1 p2 (device_tree_bytes info)"
    using reserve_device_tree_ok [OF _ d] by blast
  have r3: "reserves p2 p3 (\<Union>r \<in> set (reserved_regions info). region_bytes r)"
    using reserve_regions_ok [of p2] f r2 by (simp add: reserve_firmware_regions_def reserves_def)
  note r = reserves_trans [OF reserves_trans [OF r1 r2] r3]
  then show ?thesis
    using reserves_arenas_built [OF pmm_empty_arenas_built r] by (simp add: pmm_empty_def boot_bytes_def)
qed

lemma pmm_init_steps:
  "pmm_init pmm info kernel_start kernel_end p2v =
     (let p0 = pmm_empty (page_memory pmm) in
      if dropped_reserved_regions info \<noteq> 0 then Inr (Inl DroppedReservedRegions, p0)
      else bind_init (Inr (validate_memory_regions (memory_regions info), p0)) (\<lambda>_ pmm.
         bind_init (Inr (reserve_kernel pmm kernel_start kernel_end)) (\<lambda>_ pmm.
         bind_init (Inr (reserve_device_tree pmm info)) (\<lambda>_ pmm.
         bind_init (Inr (reserve_firmware_regions pmm info)) (\<lambda>_ pmm.
         bind_init (init_arenas (memory_regions info) p2v pmm) (\<lambda>_. open_pool))))))"
  by (simp add: pmm_init_def pmm_reset_def open_pool_def [abs_def] Let_def cong: if_cong)

lemma open_pool_result: "open_pool p = Inr (res, p') \<Longrightarrow> arena_count p \<noteq> 0 \<Longrightarrow> res = Inr ()"
  by (auto simp: open_pool_def bind_panic_Inr_iff)

text \<open>
  C16. Construction of the page allocator never panics. When it reports success, the pool invariant
  holds: the arenas lie in the reported memory regions; the reserved bytes are exactly those of the
  kernel image, padded to at least 2 MiB, of the pages of the device tree, of the firmware regions
  and of the metadata of the arenas, which takes no more pages than its entries need; a page is free
  exactly when it shares no byte with reserved memory, and the free list holds these pages in
  address order of each arena. The hypothesis is that the physical window maps distinct frames to distinct addresses.
\<close>

theorem pmm_init_builds_pool:
  assumes "frames_distinct physical_to_virtual"
  shows "\<exists>res pmm'. pmm_init pmm info kernel_start kernel_end physical_to_virtual = Inr (res, pmm') \<and>
    (case res of
       Inl e \<Rightarrow> True
     | Inr u \<Rightarrow> pool_built pmm' info (boot_bytes info kernel_start kernel_end) physical_to_virtual)"
proof -
  let ?p0 = "pmm_empty (page_memory pmm)"
  have tail: "\<exists>res pmm'. bind_init (init_arenas (memory_regions info) physical_to_virtual p3) (\<lambda>_. open_pool) =
        Inr (res, pmm') \<and> (case res of Inl e \<Rightarrow> True
         | Inr u \<Rightarrow> pool_built pmm' info (boot_bytes info kernel_start kernel_end) physical_to_virtual)"
    if v: "validate_memory_regions (memory_regions info) = Inr ()"
      and p3: "arenas_built p3 {} (boot_bytes info kernel_start kernel_end) physical_to_virtual" for p3
  proof -
    obtain res p4 where i: "init_arenas (memory_regions info) physical_to_virtual p3 = Inr (res, p4)"
      and ok: "\<And>u. res = Inr u \<Longrightarrow>
        arenas_built p4 (set (memory_regions info)) (boot_bytes info kernel_start kernel_end) physical_to_virtual"
      using init_arenas_outcome [OF assms, of p3 "{}" "boot_bytes info kernel_start kernel_end" "memory_regions info"] validate_ok [OF v] p3 by auto
    show ?thesis
    proof (cases res)
      case (Inr u)
      then have b: "arenas_built p4 (set (memory_regions info)) (boot_bytes info kernel_start kernel_end) physical_to_virtual"
        using ok by auto
      show ?thesis
        using open_pool_outcome [OF b] i Inr
        by (cases "arena_count p4 = 0") (auto simp: bind_init_def open_pool_def)
    qed (simp add: i bind_init_def)
  qed
  note init = pmm_init_steps [of pmm info kernel_start kernel_end physical_to_virtual]
  obtain r1 p1 where k: "reserve_kernel ?p0 kernel_start kernel_end = (r1, p1)"
    by fastforce
  obtain r2 p2 where d: "reserve_device_tree p1 info = (r2, p2)"
    by fastforce
  obtain r3 p3 where f: "reserve_firmware_regions p2 info = (r3, p3)"
    by fastforce
  show ?thesis
  proof (cases "\<exists>u v w. validate_memory_regions (memory_regions info) = Inr () \<and>
      r1 = Inr u \<and> r2 = Inr v \<and> r3 = Inr w")
    case True
    then show ?thesis
      unfolding init Let_def using tail [of p3] reserve_all_ok k d f by (auto simp: bind_init_simps)
  next
    case False
    then show ?thesis
      unfolding init Let_def using k d f
      by (cases "validate_memory_regions (memory_regions info)"; cases r1; cases r2; cases r3)
        (auto simp: bind_init_simps)
  qed
qed

text \<open>A machine with eight pages of memory and a kernel image outside of them.\<close>

definition sample_info :: HardwareInfo where
  "sample_info = push_memory_region (HardwareInfo_empty 0) \<lparr>region_base = 0x80000000, region_size = 0x8000\<rparr>"

definition sample_map :: "PhysicalAddress \<Rightarrow> VirtualAddress" where
  "sample_map p = p + 0xffff800000000000"

lemma replicate_numeral: "replicate (numeral k) x = x # replicate (pred_numeral k) x"
  by (simp add: numeral_eq_Suc)

lemma sample_info_fields:
  "memory_regions sample_info = [\<lparr>region_base = 0x80000000, region_size = 0x8000\<rparr>]"
  "reserved_regions sample_info = []" "dropped_reserved_regions sample_info = 0" "dtb_phys sample_info = 0"
  by (simp_all add: sample_info_def push_memory_region_def HardwareInfo_empty_def memory_regions_def
      reserved_regions_def MAX_MEMORY_ARENAS_def Let_def replicate_numeral)

lemma sample_map_frames: "frames_distinct sample_map"
  by (simp add: frames_distinct_def sample_map_def)

definition sample_reserved :: PhysicalMemoryManager where
  "sample_reserved = (pmm_empty (\<lambda>_. Page_new 0 Free))
     \<lparr>reserved_ranges := \<lparr>range_start = 0x40000000, range_end = 0x40200000\<rparr> # replicate 7 ReservedRange_EMPTY,
      reserved_count := 1\<rparr>"

lemma sample_kernel:
  "reserve_kernel (pmm_empty (\<lambda>_. Page_new 0 Free)) 0x40000000 0x40100000 = (Inr (), sample_reserved)"
  by (simp add: reserve_kernel_def checked_add_def KERNEL_RESERVE_PAD_def record_reserved_def ReservedRange_new_def
      pmm_empty_def sample_reserved_def merge_reserved.simps MAX_RESERVED_REGIONS_def replicate_numeral)

lemma sample_metadata: "find_metadata_range sample_reserved 0x80000000 8 1 = Inr (Inr (Some 0x80007000))"
  by (simp add: find_metadata_range_def checked_mul_def checked_add_def sub_words_def metadata_search.simps
      overlapping_reserved_range_def sample_reserved_def ranges_overlap_def PAGE_SIZE_def)

lemma sample_arena_built:
  "\<exists>p. init_arenas (memory_regions sample_info) sample_map sample_reserved = Inr (Inr (), p) \<and> arena_count p = 1"
proof -
  let ?r = "\<lparr>region_base = 0x80000000, region_size = 0x8000\<rparr>"
  have down: "align_down 0x80008000 = (0x80008000 :: usize)" and up: "align_up 0x80000000 = Some 0x80000000"
    by (simp_all add: word_unat_eq_iff unat_align_down align_up_def checked_add_def PAGE_MASK_def PAGE_SIZE_def)
  have init: "init_arena sample_reserved ?r 0 sample_map =
      Inr (finish_arena sample_reserved 0 sample_map 0x80000000 8 1 0x80007000)"
    using init_arena_finish [where region = ?r and ab = "0x80000000" and re = "0x80008000" and n = 8 and m = 1
        and pmm = sample_reserved and mp = "0x80007000" and p2v = sample_map and i = 0] up down sample_metadata
    by (simp add: region_end_def checked_add_def div_ceil_def PAGE_SIZE_def PAGE_METADATA_SIZE_def sample_map_def)
  obtain mem where w: "write_metadata \<lparr>storage_ptr = sample_map 0x80007000, storage_len = 8, storage_arena_index = 0\<rparr>
      0 7 8 sample_reserved = sample_reserved\<lparr>page_memory := mem\<rparr>"
    using write_metadata_only by blast
  have "\<exists>a p. finish_arena sample_reserved 0 sample_map 0x80000000 8 1 0x80007000 = (Inr (Some a), p) \<and>
      arena_count p = 0 \<and> length (arenas p) = 4"
    using w by (simp add: finish_arena_def Let_def PAGE_SIZE_def record_reserved_def ReservedRange_new_def
        sample_reserved_def pmm_empty_def merge_reserved.simps MAX_RESERVED_REGIONS_def checked_add_def
        MAX_MEMORY_ARENAS_def ranges_overlap_or_touch_def replicate_numeral)
  then obtain a p where "finish_arena sample_reserved 0 sample_map 0x80000000 8 1 0x80007000 = (Inr (Some a), p)"
      "arena_count p = 0"
    by blast
  then show ?thesis
    using init
    by (simp add: sample_info_fields bind_init_simps sample_reserved_def [THEN arg_cong, of arena_count]
        sample_reserved_def [THEN arg_cong, of arenas] pmm_empty_def MAX_MEMORY_ARENAS_def)
qed

theorem pmm_init_builds_pool_witness:
  "\<exists>pmm'. pmm_init (pmm_empty (\<lambda>_. Page_new 0 Free)) sample_info 0x40000000 0x40100000 sample_map =
       Inr (Inr (), pmm') \<and>
     pool_built pmm' sample_info (boot_bytes sample_info 0x40000000 0x40100000) sample_map"
proof -
  let ?p0 = "pmm_empty (\<lambda>_. Page_new 0 Free)"
  let ?init = "pmm_init ?p0 sample_info 0x40000000 0x40100000 sample_map"
  obtain p where ia: "init_arenas (memory_regions sample_info) sample_map sample_reserved = Inr (Inr (), p)"
    and c: "arena_count p = 1"
    using sample_arena_built by blast
  have v: "validate_memory_regions (memory_regions sample_info) = Inr ()"
    by (simp add: sample_info_fields region_end_def checked_add_def)
  have k: "reserve_kernel (pmm_empty (page_memory ?p0)) 0x40000000 0x40100000 = (Inr (), sample_reserved)"
    using sample_kernel by (simp add: pmm_empty_def)
  have "?init = open_pool p"
    by (simp add: pmm_init_steps Let_def sample_info_fields(2-4) v k ia bind_init_simps reserve_device_tree_def
        reserve_firmware_regions_def)
  then have "\<And>res p'. ?init = Inr (res, p') \<Longrightarrow> res = Inr ()"
    using open_pool_result [of p] c by simp
  then show ?thesis
    using pmm_init_builds_pool [OF sample_map_frames, of ?p0 sample_info "0x40000000" "0x40100000"]
    by fastforce
qed

end
