(* ===== verification/Pmm_Contiguous.thy ===== *)
theory Pmm_Contiguous
  imports Pmm_Pages
begin

text \<open>
  Contiguous page runs. \<open>run_available\<close> says that the pages from an index on are free and that the
  first is aligned. The scan of an arena returns the lowest such index; allocation takes the first
  arena that has one; freeing a run gives all its pages back. The loop invariant of the scan is
  that every candidate below the current run start is excluded.
\<close>

section \<open>The scan\<close>

definition scan_valid :: "(nat \<Rightarrow> bool) \<Rightarrow> (nat \<Rightarrow> bool) \<Rightarrow> nat \<Rightarrow> nat \<Rightarrow> nat \<Rightarrow> bool" where
  "scan_valid fr al n cnt s \<longleftrightarrow> s + cnt \<le> n \<and> al s \<and> (\<forall>k. s \<le> k \<and> k < s + cnt \<longrightarrow> fr k)"

definition scan_state :: "(nat \<Rightarrow> bool) \<Rightarrow> (nat \<Rightarrow> bool) \<Rightarrow> nat \<Rightarrow> nat \<Rightarrow> nat \<Rightarrow> nat option \<Rightarrow> nat \<Rightarrow> bool" where
  "scan_state fr al n cnt j rs rl \<longleftrightarrow>
     (case rs of
        None \<Rightarrow> \<forall>s < j. \<not> scan_valid fr al n cnt s
      | Some s \<Rightarrow> s + rl = j \<and> rl < cnt \<and> al s \<and> (\<forall>k. s \<le> k \<and> k < j \<longrightarrow> fr k) \<and>
          (\<forall>s' < s. \<not> scan_valid fr al n cnt s'))"

lemma scan_state_reset:
  assumes "scan_state fr al n cnt j rs rl" and "\<not> fr j" and "0 < cnt"
  shows "\<forall>s < Suc j. \<not> scan_valid fr al n cnt s"
proof (intro allI impI notI)
  fix s' assume s': "s' < Suc j" and v: "scan_valid fr al n cnt s'"
  show False
  proof (cases rs)
    case None
    then have "s' = j"
      using assms(1) s' v by (auto simp: scan_state_def less_Suc_eq)
    then show False
      using v assms(2,3) by (auto simp: scan_valid_def)
  next
    case (Some s)
    then have "s \<le> s'" and "j < s + cnt"
      using assms(1) v by (auto simp: scan_state_def not_less [symmetric])
    then have "j < s' + cnt"
      by linarith
    then show False
      using v assms(2) s' by (auto simp: scan_valid_def)
  qed
qed

lemma scan_run_spec:
  assumes ref: "\<And>j. j < n \<Longrightarrow> \<exists>p. page_ref pmm a (PageHandle_new (arena_index_of a) (of_nat j)) = Some p \<and>
      (page_state p = Free \<longleftrightarrow> fr j)"
    and phys: "\<And>j. j < n \<Longrightarrow>
      \<exists>p. page_to_physical a (PageHandle_new (arena_index_of a) (of_nat j)) = Some p \<and>
        (p AND (alignment - 1) = 0 \<longleftrightarrow> al j)"
    and cnt: "0 < cnt"
  shows "j \<le> n \<Longrightarrow> scan_state fr al n cnt j rs rl \<Longrightarrow>
    case scan_run pmm a alignment cnt [j..<n] rs rl of
      ScanAbort \<Rightarrow> False
    | ScanFound s \<Rightarrow> scan_valid fr al n cnt s \<and> (\<forall>s' < s. \<not> scan_valid fr al n cnt s')
    | ScanEnd \<Rightarrow> \<forall>s. \<not> scan_valid fr al n cnt s"
proof (induction "n - j" arbitrary: j rs rl)
  case 0
  then have j: "j = n"
    by simp
  have "\<not> scan_valid fr al n cnt s" for s
  proof (cases rs)
    case None
    then show ?thesis
      using 0 j cnt by (cases "s < n") (auto simp: scan_state_def scan_valid_def)
  next
    case (Some s0)
    then have "s0 + rl = n" "rl < cnt" "s < s0 \<Longrightarrow> \<not> scan_valid fr al n cnt s"
      using 0 j by (auto simp: scan_state_def)
    then show ?thesis
      by (cases "s < s0") (auto simp: scan_valid_def)
  qed
  then show ?case
    using j by simp
next
  case (Suc d)
  then have j: "j < n"
    by simp
  have upt: "[j..<n] = j # [Suc j..<n]"
    using j by (rule upt_conv_Cons)
  have IH: "scan_state fr al n cnt (Suc j) rs' rl' \<Longrightarrow>
    case scan_run pmm a alignment cnt [Suc j..<n] rs' rl' of
      ScanAbort \<Rightarrow> False
    | ScanFound s \<Rightarrow> scan_valid fr al n cnt s \<and> (\<forall>s' < s. \<not> scan_valid fr al n cnt s')
    | ScanEnd \<Rightarrow> \<forall>s. \<not> scan_valid fr al n cnt s" for rs' rl'
    using Suc j by (intro Suc.hyps) auto
  obtain p where p: "page_ref pmm a (PageHandle_new (arena_index_of a) (of_nat j)) = Some p"
      "page_state p = Free \<longleftrightarrow> fr j"
    using ref [OF j] by blast
  obtain ph where ph: "page_to_physical a (PageHandle_new (arena_index_of a) (of_nat j)) = Some ph"
      "ph AND (alignment - 1) = 0 \<longleftrightarrow> al j"
    using phys [OF j] by blast
  note st = Suc.prems(2)
  show ?case
  proof (cases "fr j")
    case False
    then have "scan_state fr al n cnt (Suc j) None 0"
      using scan_state_reset [OF st False cnt] by (simp add: scan_state_def)
    from IH [OF this] show ?thesis
      using False p by (simp add: upt Let_def)
  next
    case fr: True
    show ?thesis
    proof (cases rs)
      case None
      show ?thesis
      proof (cases "al j")
        case False
        then have "scan_state fr al n cnt (Suc j) None rl"
          using st None by (auto simp: scan_state_def scan_valid_def less_Suc_eq)
        from IH [OF this] show ?thesis
          using False None fr p ph by (simp add: upt Let_def)
      next
        case al: True
        show ?thesis
        proof (cases "cnt \<le> 1")
          case True
          then have "cnt = 1"
            using cnt by simp
          then have "scan_valid fr al n cnt j"
            using j fr al by (simp add: scan_valid_def) (metis le_antisym less_Suc_eq_le)
          then show ?thesis
            using st None True fr al p ph by (simp add: upt Let_def scan_state_def)
        next
          case False
          then have "scan_state fr al n cnt (Suc j) (Some j) 1"
            using st None fr al by (auto simp: scan_state_def less_Suc_eq)
          from IH [OF this] show ?thesis
            using False None fr al p ph by (simp add: upt Let_def)
        qed
      qed
    next
      case (Some s)
      then have s: "s + rl = j" "rl < cnt" "al s" "\<And>k. s \<le> k \<Longrightarrow> k < j \<Longrightarrow> fr k"
          "\<And>s'. s' < s \<Longrightarrow> \<not> scan_valid fr al n cnt s'"
        using st by (auto simp: scan_state_def)
      show ?thesis
      proof (cases "cnt \<le> rl + 1")
        case True
        then have "s + cnt = Suc j"
          using s by simp
        then have "scan_valid fr al n cnt s"
          using s fr j by (auto simp: scan_valid_def less_Suc_eq)
        then show ?thesis
          using s True Some fr p by (simp add: upt Let_def)
      next
        case False
        then have "scan_state fr al n cnt (Suc j) (Some s) (rl + 1)"
          using s fr by (auto simp: scan_state_def less_Suc_eq)
        from IH [OF this] show ?thesis
          using False Some fr p by (simp add: upt Let_def)
      qed
    qed
  qed
qed

section \<open>Runs of an arena\<close>

definition arena_handle :: "nat \<Rightarrow> nat \<Rightarrow> PageHandle" where
  "arena_handle i j = PageHandle_new (of_nat i) (of_nat j)"

definition run_handles :: "nat \<Rightarrow> nat \<Rightarrow> nat \<Rightarrow> PageHandle list" where
  "run_handles i s cnt = map (arena_handle i) [s..<s + cnt]"

definition run_available :: "PhysicalMemoryManager \<Rightarrow> nat \<Rightarrow> nat \<Rightarrow> nat \<Rightarrow> nat \<Rightarrow> bool" where
  "run_available pmm log2 cnt i s \<longleftrightarrow>
     i < arena_count pmm \<and> s + cnt \<le> page_count (arenas pmm ! i) \<and>
     2 ^ log2 dvd unat (arena_base (arenas pmm ! i)) + s * 4096 \<and>
     (\<forall>h \<in> set (run_handles i s cnt). page_state (page_at pmm h) = Free)"

lemma arena_handle_facts:
  assumes "arenas_wf pmm" "i < arena_count pmm" "j < page_count (arenas pmm ! i)"
  shows "managed pmm (arena_handle i j)" "arena_at pmm (arena_handle i j) = arenas pmm ! i"
    "unat (handle_page (arena_handle i j)) = j" "unat (handle_arena (arena_handle i j)) = i"
    "arena_handle i j = PageHandle_new (arena_index_of (arenas pmm ! i)) (of_nat j)"
proof -
  have ok: "arena_ok i (arenas pmm ! i)" and i: "i < 256"
    using assms by (simp_all add: arenas_wf_def MAX_MEMORY_ARENAS_def)
  have j: "j < 2 ^ 32"
    using ok assms(3) by (simp add: arena_ok_def)
  show a: "unat (handle_arena (arena_handle i j)) = i"
    using i by (simp add: arena_handle_def PageHandle_new_def unat_of_nat)
  show b: "unat (handle_page (arena_handle i j)) = j"
    using j by (simp add: arena_handle_def PageHandle_new_def unat_of_nat)
  show c: "arena_at pmm (arena_handle i j) = arenas pmm ! i"
    by (simp add: arena_at_def a)
  show "managed pmm (arena_handle i j)"
    using assms by (simp add: managed_def a b c)
  show "arena_handle i j = PageHandle_new (arena_index_of (arenas pmm ! i)) (of_nat j)"
    using ok by (simp add: arena_handle_def arena_ok_def)
qed

lemma managed_arena_handle:
  assumes "arenas_wf pmm" "managed pmm h"
  shows "h = arena_handle (unat (handle_arena h)) (unat (handle_page h))"
  by (rule PageHandle_eqI) (simp_all add: arena_handle_def PageHandle_new_def)

lemma arena_handle_inj:
  assumes "arenas_wf pmm" "i < arena_count pmm" "n \<le> page_count (arenas pmm ! i)"
  shows "inj_on (arena_handle i) {0..<n}"
proof (rule inj_onI)
  fix j k assume "j \<in> {0..<n}" "k \<in> {0..<n}" "arena_handle i j = arena_handle i k"
  then show "j = k"
    using arena_handle_facts(3) [OF assms(1,2), of j] arena_handle_facts(3) [OF assms(1,2), of k] assms(3)
    by (metis atLeastLessThan_iff order_less_le_trans)
qed

lemma run_handles_distinct:
  assumes "arenas_wf pmm" "i < arena_count pmm" "s + cnt \<le> page_count (arenas pmm ! i)"
  shows "distinct (run_handles i s cnt)"
  using inj_on_subset [OF arena_handle_inj [OF assms], of "{s..<s + cnt}"]
  by (simp add: run_handles_def distinct_map)

lemma run_handles_managed:
  assumes "arenas_wf pmm" "i < arena_count pmm" "s + cnt \<le> page_count (arenas pmm ! i)"
    and "h \<in> set (run_handles i s cnt)"
  shows "managed pmm h"
  using assms(3,4) arena_handle_facts(1) [OF assms(1,2)] by (auto simp: run_handles_def)

section \<open>Alignment\<close>

lemma unat_power2:
  assumes "k < 64"
  shows "unat (2 ^ k :: 64 word) = 2 ^ k"
proof -
  have "(2 :: nat) ^ k < 2 ^ 64"
    using assms by (intro power_strict_increasing) simp_all
  then have "unat (of_nat (2 ^ k) :: 64 word) = 2 ^ k"
    by (rule unat_of_nat_lt)
  then show ?thesis
    by simp
qed

lemma alignment_power:
  assumes "k < 64"
  shows "max (push_bit k 1) PAGE_SIZE = (2 ^ max k 12 :: usize)"
proof (cases "k \<le> 12")
  case True
  then have "(2 ^ k :: nat) \<le> 2 ^ 12"
    by (rule power_increasing) simp
  then have "push_bit k 1 \<le> PAGE_SIZE"
    using unat_power2 [OF assms] by (simp add: word_le_nat_alt push_bit_of_1)
  then show ?thesis
    using True by (simp add: max_def PAGE_SIZE_def)
next
  case False
  then have "(2 ^ 12 :: nat) \<le> 2 ^ k"
    by (intro power_increasing) simp_all
  then have "PAGE_SIZE \<le> push_bit k 1"
    using unat_power2 [OF assms] by (simp add: word_le_nat_alt push_bit_of_1)
  then show ?thesis
    using False by (simp add: max_def push_bit_of_1)
qed

lemma aligned_test:
  assumes "k < 64" "is_page_aligned p"
  shows "p AND (max (push_bit k 1) PAGE_SIZE - 1) = 0 \<longleftrightarrow> 2 ^ k dvd unat p"
proof -
  have "p AND (max (push_bit k 1) PAGE_SIZE - 1) = p AND mask (max k 12)"
    by (simp only: alignment_power [OF assms(1)] mask_eq_decr_exp)
  also have "\<dots> = 0 \<longleftrightarrow> unat p mod 2 ^ max k 12 = 0"
    using unat_and_mask [of p "max k 12"] by (simp only: word_unat_eq_iff unsigned_0)
  finally have "p AND (max (push_bit k 1) PAGE_SIZE - 1) = 0 \<longleftrightarrow> 2 ^ max k 12 dvd unat p"
    by (simp only: dvd_eq_mod_eq_0)
  moreover obtain q where "unat p = 4096 * q"
    using assms(2) by (rule page_aligned_multiple)
  then have "2 ^ 12 dvd unat p"
    by simp
  then have "2 ^ max k 12 dvd unat p \<longleftrightarrow> 2 ^ k dvd unat p"
    using power_le_dvd [of 2 12 "unat p" k] by (cases "k \<le> 12") (simp_all add: max_absorb1 max_absorb2)
  ultimately show ?thesis
    by (simp only:)
qed

lemma scan_arena:
  assumes wf: "arenas_wf pmm" and i: "i < arena_count pmm" and cnt: "0 < cnt" and k: "k < 64"
    and a: "a = arenas pmm ! i"
  shows "case scan_run pmm a (max (push_bit k 1) PAGE_SIZE) cnt [0..<page_count a] None 0 of
      ScanAbort \<Rightarrow> False
    | ScanFound s \<Rightarrow> run_available pmm k cnt i s \<and> (\<forall>s' < s. \<not> run_available pmm k cnt i s')
    | ScanEnd \<Rightarrow> \<forall>s. \<not> run_available pmm k cnt i s"
proof -
  let ?fr = "\<lambda>j. page_state (page_at pmm (arena_handle i j)) = Free"
  let ?al = "\<lambda>j. 2 ^ k dvd unat (arena_base a) + j * 4096"
  have valid: "scan_valid ?fr ?al (page_count a) cnt s \<longleftrightarrow> run_available pmm k cnt i s" for s
    using i by (auto simp: scan_valid_def run_available_def run_handles_def a)
  have ref: "\<exists>p. page_ref pmm a (PageHandle_new (arena_index_of a) (of_nat j)) = Some p \<and>
      (page_state p = Free \<longleftrightarrow> ?fr j)" if "j < page_count a" for j
    using arena_handle_facts [OF wf i that [unfolded a]] page_ref_managed [OF wf] by (metis a)
  have phys: "\<exists>p. page_to_physical a (PageHandle_new (arena_index_of a) (of_nat j)) = Some p \<and>
      (p AND (max (push_bit k 1) PAGE_SIZE - 1) = 0 \<longleftrightarrow> ?al j)" if j: "j < page_count a" for j
  proof -
    note f = arena_handle_facts [OF wf i j [unfolded a]]
    have "page_to_physical a (arena_handle i j) = Some (handle_address pmm (arena_handle i j))"
      using page_to_physical_managed [OF wf f(1)] f(2) a by simp
    moreover have "unat (handle_address pmm (arena_handle i j)) = unat (arena_base a) + j * 4096"
      using unat_handle_address [OF wf f(1)] f(2,3) a by simp
    ultimately show ?thesis
      using aligned_test [OF k handle_address_aligned [OF wf f(1)]] f(5) a by simp
  qed
  have "scan_state ?fr ?al (page_count a) cnt 0 None 0"
    by (simp add: scan_state_def)
  from scan_run_spec [OF ref phys cnt _ this] show ?thesis
    by (simp only: valid)
qed

section \<open>Unlinking and giving back a run\<close>

lemma status_updated_trans:
  assumes "same_config a b" "status_updated a b H v" "status_updated b c K v"
  shows "status_updated a c (H \<union> K) v"
  using assms(2,3) by (auto simp: status_updated_def same_config_simps [OF assms(1)])

lemma remove_one:
  assumes wf: "arenas_wf pmm" and li: "list_inv pmm fl" and h: "h \<in> set fl"
    and head: "\<not> contiguous_head (page_at pmm h)"
  shows "\<exists>p1. remove_free pmm h = Inr p1 \<and>
    (let p2 = modify_page (slot_of pmm h) (\<lambda>p. p\<lparr>page_state := Allocated\<rparr>) p1 in
     list_inv p2 (filter (\<lambda>k. k \<noteq> h) fl) \<and> same_config pmm p2 \<and>
     status_updated pmm p2 {h} (Allocated, False) \<and> free_pages p2 = free_pages pmm)"
proof -
  obtain xs ys where fl: "fl = xs @ h # ys"
    using h by (meson split_list)
  obtain p1 where p1: "remove_free pmm h = Inr p1" "list_inv p1 (xs @ ys)" "links_only pmm p1"
    using remove_free_list [OF wf] li fl by blast
  have dist: "distinct fl" and m: "managed pmm h"
    using li h by (auto simp: list_inv_def)
  have "filter (\<lambda>k. k \<noteq> h) xs = xs" "filter (\<lambda>k. k \<noteq> h) ys = ys"
    using dist fl by (auto intro!: filter_True)
  then have filt: "filter (\<lambda>k. k \<noteq> h) fl = xs @ ys"
    by (simp add: fl)
  note same = links_only_same [OF p1(3)]
  have wf1: "arenas_wf p1" and m1: "managed p1 h"
    using wf m same by simp_all
  have "(page_state ((page_at p1 h)\<lparr>page_state := Allocated\<rparr>),
      contiguous_head ((page_at p1 h)\<lparr>page_state := Allocated\<rparr>)) = (Allocated, False)"
    using head by (simp add: links_only_simps [OF p1(3)] same)
  note ms = modify_status [OF wf1 m1, of "\<lambda>p. p\<lparr>page_state := Allocated\<rparr>" "(Allocated, False)",
      OF _ this]
  have "same_config pmm (modify_page (slot_of pmm h) (\<lambda>p. p\<lparr>page_state := Allocated\<rparr>) p1)"
    using links_only_config(1) [OF p1(3)] by (simp add: same_config_def)
  moreover have "status_updated pmm (modify_page (slot_of pmm h) (\<lambda>p. p\<lparr>page_state := Allocated\<rparr>) p1)
      {h} (Allocated, False)"
    using status_updated_links [OF p1(3)] ms(3) same by simp
  ultimately show ?thesis
    using p1 ms(2) same filt by (simp add: Let_def links_only_simps [OF p1(3)])
qed

lemma take_run_spec:
  assumes "arenas_wf pmm" "i < arena_count pmm" "list_inv pmm fl"
    and "distinct js" "\<And>j. j \<in> set js \<Longrightarrow> j < page_count (arenas pmm ! i)"
    and "\<And>j. j \<in> set js \<Longrightarrow> arena_handle i j \<in> set fl \<and> \<not> contiguous_head (page_at pmm (arena_handle i j))"
  shows "\<exists>pmm'. take_run pmm (arenas pmm ! i) js = Inr (True, pmm') \<and>
    list_inv pmm' (filter (\<lambda>h. h \<notin> arena_handle i ` set js) fl) \<and> same_config pmm pmm' \<and>
    status_updated pmm pmm' (arena_handle i ` set js) (Allocated, False) \<and>
    free_pages pmm' = free_pages pmm"
  using assms
proof (induction js arbitrary: pmm fl)
  case Nil
  then show ?case
    by (simp add: status_updated_def)
next
  case (Cons j js)
  let ?h = "arena_handle i j" and ?a = "arenas pmm ! i"
  note wf = Cons.prems(1)
  have j: "j < page_count ?a" and fl: "?h \<in> set fl" and hd: "\<not> contiguous_head (page_at pmm ?h)"
    using Cons.prems(5,6) [of j] by simp_all
  note f = arena_handle_facts [OF wf Cons.prems(2) j]
  obtain p1 where p1: "remove_free pmm ?h = Inr p1" and p2:
      "let p2 = modify_page (slot_of pmm ?h) (\<lambda>p. p\<lparr>page_state := Allocated\<rparr>) p1 in
       list_inv p2 (filter (\<lambda>k. k \<noteq> ?h) fl) \<and> same_config pmm p2 \<and>
       status_updated pmm p2 {?h} (Allocated, False) \<and> free_pages p2 = free_pages pmm"
    using remove_one [OF wf Cons.prems(3) fl hd] by blast
  define p2 where "p2 = modify_page (slot_of pmm ?h) (\<lambda>p. p\<lparr>page_state := Allocated\<rparr>) p1"
  have p2: "list_inv p2 (filter (\<lambda>k. k \<noteq> ?h) fl)" "same_config pmm p2"
      "status_updated pmm p2 {?h} (Allocated, False)" "free_pages p2 = free_pages pmm"
    using p2 by (simp_all add: p2_def Let_def)
  note c = same_config_simps [OF p2(2)]
  have ar: "arenas p2 = arenas pmm" "arena_count p2 = arena_count pmm"
    using p2(2) by (simp_all add: same_config_def)
  have "take_run pmm ?a (j # js) = take_run p2 ?a js"
    using p1 page_mut_managed [OF wf f(1)] by (simp add: Let_def f(2) p2_def flip: f(5))
  then have step: "take_run pmm ?a (j # js) = take_run p2 (arenas p2 ! i) js"
    by (simp only: ar)
  have "\<exists>pmm'. take_run p2 (arenas p2 ! i) js = Inr (True, pmm') \<and>
    list_inv pmm' (filter (\<lambda>h. h \<notin> arena_handle i ` set js) (filter (\<lambda>k. k \<noteq> ?h) fl)) \<and>
    same_config p2 pmm' \<and>
    status_updated p2 pmm' (arena_handle i ` set js) (Allocated, False) \<and>
    free_pages pmm' = free_pages p2"
  proof (rule Cons.IH)
    fix k assume k: "k \<in> set js"
    then have lt: "k < page_count ?a"
      using Cons.prems(5) by simp
    then show "k < page_count (arenas p2 ! i)"
      by (simp add: ar)
    have "k \<noteq> j"
      using Cons.prems(4) k by auto
    then have ne: "arena_handle i k \<noteq> ?h"
      using arena_handle_facts(3) [OF wf Cons.prems(2) lt] f(3) by metis
    have "status p2 (arena_handle i k) = status pmm (arena_handle i k)"
      using p2(3) ne arena_handle_facts(1) [OF wf Cons.prems(2) lt] by (simp add: status_updated_def)
    then show "arena_handle i k \<in> set (filter (\<lambda>k. k \<noteq> ?h) fl) \<and>
        \<not> contiguous_head (page_at p2 (arena_handle i k))"
      using Cons.prems(6) [of k] k ne by (simp add: status_def)
  qed (use Cons.prems p2 c ar in simp_all)
  then obtain pmm' where r: "take_run p2 (arenas p2 ! i) js = Inr (True, pmm')"
      "list_inv pmm' (filter (\<lambda>h. h \<notin> arena_handle i ` set js) (filter (\<lambda>k. k \<noteq> ?h) fl))"
      "same_config p2 pmm'" "status_updated p2 pmm' (arena_handle i ` set js) (Allocated, False)"
      "free_pages pmm' = free_pages p2"
    by blast
  have "filter (\<lambda>h. h \<notin> arena_handle i ` set (j # js)) fl =
      filter (\<lambda>h. h \<notin> arena_handle i ` set js) (filter (\<lambda>k. k \<noteq> ?h) fl)"
    by (simp add: conj_commute)
  then show ?case
    using r step p2(4) same_config_trans [OF p2(2) r(3)]
      status_updated_trans [OF p2(2,3) r(4)] by auto
qed

section \<open>Allocating a run\<close>

definition run_taken ::
  "PhysicalMemoryManager \<Rightarrow> PhysicalMemoryManager \<Rightarrow> nat \<Rightarrow> nat \<Rightarrow> nat \<Rightarrow> bool" where
  "run_taken pmm pmm' i s cnt \<longleftrightarrow>
     same_config pmm pmm' \<and>
     (\<forall>h. managed pmm h \<longrightarrow> status pmm' h =
        (if h = arena_handle i s then (Allocated, True)
         else if h \<in> set (run_handles i s cnt) then (Allocated, False)
         else status pmm h))"

lemma length_filter_removed:
  assumes "distinct fl" "distinct run" "set run \<subseteq> set fl"
  shows "length (filter (\<lambda>h. h \<notin> set run) fl) = length fl - length run"
proof -
  have "length (filter (\<lambda>h. h \<notin> set run) fl) = card (set fl - set run)"
    using assms(1) by (simp add: distinct_card [symmetric] set_diff_eq)
  also have "\<dots> = length fl - length run"
    using assms by (simp add: card_Diff_subset distinct_card)
  finally show ?thesis .
qed

lemma commit_run_spec:
  assumes inv: "pmm_inv pmm fl" and av: "run_available pmm k cnt i s" and cnt: "0 < cnt"
  shows "\<exists>pmm'. commit_run pmm (arenas pmm ! i) s cnt =
      Inr (Some \<lparr>run_head = arena_handle i s, run_count = cnt\<rparr>, pmm') \<and>
    pmm_inv pmm' (filter (\<lambda>h. h \<notin> set (run_handles i s cnt)) fl) \<and> run_taken pmm pmm' i s cnt"
proof -
  let ?a = "arenas pmm ! i" and ?run = "set (run_handles i s cnt)" and ?h = "arena_handle i s"
  have wf: "arenas_wf pmm" and li: "list_inv pmm fl" and fh: "set fl = free_handles pmm"
    and n: "free_pages pmm = length fl"
    and heads: "\<forall>h. managed pmm h \<and> contiguous_head (page_at pmm h) \<longrightarrow>
      page_state (page_at pmm h) = Allocated"
    using inv unfolding pmm_inv_def by blast+
  have i: "i < arena_count pmm" and le: "s + cnt \<le> page_count ?a"
    and free: "\<And>h. h \<in> ?run \<Longrightarrow> page_state (page_at pmm h) = Free"
    using av by (auto simp: run_available_def)
  note managed = run_handles_managed [OF wf i le]
  have run: "?run = arena_handle i ` set [s..<s + cnt]"
    by (simp add: run_handles_def)
  have sub: "?run \<subseteq> set fl"
    using free managed fh by (auto simp: free_handles_def)
  have nohead: "\<not> contiguous_head (page_at pmm h)" if "h \<in> ?run" for h
    using free [OF that] managed [OF that] heads by auto
  obtain p1 where p1: "take_run pmm ?a [s..<s + cnt] = Inr (True, p1)"
      "list_inv p1 (filter (\<lambda>h. h \<notin> ?run) fl)" "same_config pmm p1"
      "status_updated pmm p1 ?run (Allocated, False)" "free_pages p1 = free_pages pmm"
    using take_run_spec [OF wf i li, of "[s..<s + cnt]"] le sub nohead unfolding run by fastforce
  have sl: "s < page_count ?a"
    using le cnt by simp
  note f = arena_handle_facts [OF wf i sl]
  have hrun: "?h \<in> ?run"
    using cnt by (simp add: run)
  note c1 = same_config_simps [OF p1(3)]
  define p2 where "p2 = modify_page (slot_of p1 ?h) (\<lambda>p. p\<lparr>contiguous_head := True\<rparr>) p1"
  define p3 where "p3 = p2\<lparr>free_pages := free_pages pmm - cnt\<rparr>"
  have st: "status p1 ?h = (Allocated, False)"
    using p1(4) f(1) hrun by (simp add: status_updated_def)
  have wf1: "arenas_wf p1" and m1: "managed p1 ?h"
    using wf f(1) c1 by simp_all
  have p2: "same_config p1 p2" "list_inv p2 (filter (\<lambda>h. h \<notin> ?run) fl)"
      "status_updated p1 p2 {?h} (Allocated, True)"
    using modify_status [OF wf1 m1, of "\<lambda>p. p\<lparr>contiguous_head := True\<rparr>" "(Allocated, True)"] st p1(2)
    by (simp_all add: p2_def status_def)
  have len: "length (run_handles i s cnt) = cnt"
    by (simp add: run_handles_def)
  have dist: "distinct fl" "distinct (run_handles i s cnt)"
    using li run_handles_distinct [OF wf i le] by (simp_all add: list_inv_def)
  have "card ?run \<le> card (set fl)"
    using sub by (intro card_mono) simp_all
  then have enough: "cnt \<le> free_pages pmm"
    using dist len n by (simp add: distinct_card)
  have "commit_run pmm ?a s cnt = Inr (Some \<lparr>run_head = ?h, run_count = cnt\<rparr>, p3)"
    using p1(1,5) page_mut_managed [OF wf f(1)] enough
    by (simp add: commit_run_def Let_def f(2) p3_def p2_def c1 flip: f(5))
  moreover have cfg: "same_config pmm p3"
    using same_config_trans [OF p1(3) p2(1)] by (simp add: p3_def same_config_def)
  moreover have stat: "status p3 h = (if h = ?h then (Allocated, True)
      else if h \<in> ?run then (Allocated, False) else status pmm h)" if "managed pmm h" for h
  proof -
    have "status p3 h = status p2 h"
      by (simp add: status_def p3_def)
    then show ?thesis
      using p1(4) p2(3) that by (simp add: status_updated_def c1)
  qed
  moreover have "list_inv p3 (filter (\<lambda>h. h \<notin> ?run) fl)"
    using p2(2) by (rule list_inv_congI) (simp_all add: p3_def same_config_def)
  moreover have "set (filter (\<lambda>h. h \<notin> ?run) fl) = free_handles p3"
  proof -
    have "h \<in> free_handles p3 \<longleftrightarrow> managed pmm h \<and> fst (status p3 h) = Free" for h
      by (simp add: free_handles_def status_def same_config_simps [OF cfg])
    moreover have "h \<in> free_handles pmm \<longleftrightarrow> managed pmm h \<and> fst (status pmm h) = Free" for h
      by (simp add: free_handles_def status_def)
    ultimately show ?thesis
      using stat fh hrun by (auto split: if_splits)
  qed
  moreover have "free_pages p3 = length (filter (\<lambda>h. h \<notin> ?run) fl)"
    using length_filter_removed [OF dist sub] len n by (simp add: p3_def)
  moreover have "\<forall>h. managed p3 h \<and> contiguous_head (page_at p3 h) \<longrightarrow> page_state (page_at p3 h) = Allocated"
  proof (intro allI impI)
    fix h assume h: "managed p3 h \<and> contiguous_head (page_at p3 h)"
    then have "managed pmm h" "snd (status p3 h)"
      by (simp_all add: same_config_simps [OF cfg] status_def)
    then have "fst (status p3 h) = Allocated"
      using stat [of h] heads by (auto simp: status_def split: if_splits)
    then show "page_state (page_at p3 h) = Allocated"
      by (simp add: status_def)
  qed
  moreover have "arenas_wf p3"
    using wf by (simp add: same_config_simps [OF cfg])
  ultimately show ?thesis
    by (auto simp: pmm_inv_def run_taken_def)
qed

definition first_run :: "PhysicalMemoryManager \<Rightarrow> nat \<Rightarrow> nat \<Rightarrow> nat \<Rightarrow> nat \<Rightarrow> bool" where
  "first_run pmm k cnt i s \<longleftrightarrow>
     run_available pmm k cnt i s \<and> (\<forall>s' < s. \<not> run_available pmm k cnt i s') \<and>
     (\<forall>i' < i. \<forall>s'. \<not> run_available pmm k cnt i' s')"

lemma alloc_in_arenas_scan:
  assumes inv: "pmm_inv pmm fl" and cnt: "0 < cnt" and k: "k < 64"
    and before: "\<And>i s. i < j \<Longrightarrow> \<not> run_available pmm k cnt i s" and j: "j \<le> arena_count pmm"
    and r: "r = alloc_in_arenas pmm (max (push_bit k 1) PAGE_SIZE) cnt
      (drop j (take (arena_count pmm) (arenas pmm)))"
  shows "(\<exists>i s. first_run pmm k cnt i s \<and> r = commit_run pmm (arenas pmm ! i) s cnt) \<or>
    (\<forall>i s. \<not> run_available pmm k cnt i s) \<and> r = Inr (None, pmm)"
  using before j r
proof (induction "arena_count pmm - j" arbitrary: j)
  case 0
  then show ?case
    by (auto simp: run_available_def not_less)
next
  case (Suc d)
  have wf: "arenas_wf pmm"
    using inv by (simp add: pmm_inv_def)
  have jlt: "j < arena_count pmm"
    using Suc.hyps(2) by simp
  let ?a = "arenas pmm ! j"
  have drop: "drop j (take (arena_count pmm) (arenas pmm)) =
      ?a # drop (Suc j) (take (arena_count pmm) (arenas pmm))"
    using jlt wf by (simp add: arenas_wf_def Cons_nth_drop_Suc [symmetric])
  have next_arena: ?case if none: "\<And>s. \<not> run_available pmm k cnt j s"
    and eq: "r = alloc_in_arenas pmm (max (push_bit k 1) PAGE_SIZE) cnt
      (drop (Suc j) (take (arena_count pmm) (arenas pmm)))"
    using Suc.hyps jlt Suc.prems(1) none eq by (intro Suc.hyps(1)) (auto simp: less_Suc_eq)
  show ?case
  proof (cases "page_count ?a < cnt")
    case True
    then show ?thesis
      using Suc.prems(3) by (intro next_arena) (auto simp: drop run_available_def)
  next
    case False
    note scan = scan_arena [OF wf jlt cnt k refl]
    show ?thesis
    proof (cases "scan_run pmm ?a (max (push_bit k 1) PAGE_SIZE) cnt [0..<page_count ?a] None 0")
      case ScanAbort
      then show ?thesis
        using scan by simp
    next
      case (ScanFound s)
      then have "first_run pmm k cnt j s"
        using scan Suc.prems(1) by (simp add: first_run_def)
      moreover have "r = commit_run pmm ?a s cnt"
        using Suc.prems(3) False ScanFound by (simp add: drop)
      ultimately show ?thesis
        by blast
    next
      case ScanEnd
      then show ?thesis
        using scan Suc.prems(3) False by (intro next_arena) (simp_all add: drop)
    qed
  qed
qed

lemma alloc_contiguous_cases:
  assumes inv: "pmm_inv pmm fl" and "0 < cnt" and k: "\<not> 64 \<le> alignment_log2"
  shows "(\<exists>i s pmm'. first_run pmm (unat alignment_log2) cnt i s \<and>
      alloc_contiguous pmm cnt alignment_log2 =
        Inr (Some \<lparr>run_head = arena_handle i s, run_count = cnt\<rparr>, pmm') \<and>
      pmm_inv pmm' (filter (\<lambda>h. h \<notin> set (run_handles i s cnt)) fl) \<and> run_taken pmm pmm' i s cnt) \<or>
    (\<forall>i s. \<not> run_available pmm (unat alignment_log2) cnt i s) \<and>
      alloc_contiguous pmm cnt alignment_log2 = Inr (None, pmm)"
proof -
  have k64: "unat alignment_log2 < 64"
    using k by (simp add: word_le_nat_alt)
  have eq: "alloc_contiguous pmm cnt alignment_log2 =
      alloc_in_arenas pmm (max (push_bit (unat alignment_log2) 1) PAGE_SIZE) cnt
        (drop 0 (take (arena_count pmm) (arenas pmm)))"
    using assms by (simp add: alloc_contiguous_def Let_def)
  from alloc_in_arenas_scan [OF inv assms(2) k64 _ _ eq] consider
      i s where "first_run pmm (unat alignment_log2) cnt i s"
        "alloc_contiguous pmm cnt alignment_log2 = commit_run pmm (arenas pmm ! i) s cnt"
    | "\<forall>i s. \<not> run_available pmm (unat alignment_log2) cnt i s"
        "alloc_contiguous pmm cnt alignment_log2 = Inr (None, pmm)"
    by blast
  then show ?thesis
  proof cases
    case 1
    then have "run_available pmm (unat alignment_log2) cnt i s"
      by (simp add: first_run_def)
    from commit_run_spec [OF inv this assms(2)] 1 show ?thesis
      by auto
  next
    case 2
    then show ?thesis
      by blast
  qed
qed

section \<open>Freeing a run\<close>

definition run_bad :: "PhysicalMemoryManager \<Rightarrow> nat \<Rightarrow> nat \<Rightarrow> nat \<Rightarrow> bool" where
  "run_bad pmm i s j \<longleftrightarrow>
     page_state (page_at pmm (arena_handle i j)) \<noteq> Allocated \<or>
     j \<noteq> s \<and> contiguous_head (page_at pmm (arena_handle i j))"

lemma check_run_spec:
  assumes "arenas_wf pmm" "i < arena_count pmm" "\<And>j. j \<in> set js \<Longrightarrow> j < page_count (arenas pmm ! i)"
  shows "check_run pmm (arenas pmm ! i) (of_nat i) s js =
    (case List.find (run_bad pmm i s) js of
       None \<Rightarrow> None
     | Some j \<Rightarrow> Some (if page_state (page_at pmm (arena_handle i j)) \<noteq> Allocated then NotAllocated
                   else InvalidPageState))"
  using assms(3)
proof (induction js)
  case (Cons j js)
  have j: "j < page_count (arenas pmm ! i)"
    using Cons.prems by simp
  note f = arena_handle_facts [OF assms(1,2) j]
  have "page_ref pmm (arenas pmm ! i) (PageHandle_new (of_nat i) (of_nat j)) =
      Some (page_at pmm (arena_handle i j))"
    using page_ref_managed [OF assms(1) f(1)] f(2) by (simp add: arena_handle_def)
  then show ?case
    using Cons by (auto simp: run_bad_def)
qed simp

lemma free_pages_from_spec:
  assumes "pmm_inv pmm fl" "i < arena_count pmm" "distinct js"
    and "\<And>j. j \<in> set js \<Longrightarrow> j < page_count (arenas pmm ! i) \<and>
      page_state (page_at pmm (arena_handle i j)) = Allocated"
  shows "\<exists>pmm'. free_pages_from pmm (of_nat i) js = Inr pmm' \<and>
    pmm_inv pmm' (fl @ map (arena_handle i) js) \<and> same_config pmm pmm' \<and>
    status_updated pmm pmm' (arena_handle i ` set js) (Free, False)"
  using assms
proof (induction js arbitrary: pmm fl)
  case Nil
  then show ?case
    by (simp add: status_updated_def)
next
  case (Cons j js)
  let ?h = "arena_handle i j"
  have wf: "arenas_wf pmm"
    using Cons.prems(1) by (simp add: pmm_inv_def)
  have j: "j < page_count (arenas pmm ! i)" "page_state (page_at pmm ?h) = Allocated"
    using Cons.prems(4) [of j] by simp_all
  note f = arena_handle_facts [OF wf Cons.prems(2) j(1)]
  obtain p1 where p1: "free_page pmm ?h = Inr p1" "pmm_inv p1 (fl @ [?h])" "same_config pmm p1"
      "status_updated pmm p1 {?h} (Free, False)"
    using free_page_list [OF Cons.prems(1) f(1) j(2)] by blast
  have ar: "arenas p1 = arenas pmm" "arena_count p1 = arena_count pmm"
    using p1(3) by (simp_all add: same_config_def)
  have "\<exists>pmm'. free_pages_from p1 (of_nat i) js = Inr pmm' \<and>
    pmm_inv pmm' ((fl @ [?h]) @ map (arena_handle i) js) \<and> same_config p1 pmm' \<and>
    status_updated p1 pmm' (arena_handle i ` set js) (Free, False)"
  proof (rule Cons.IH [OF p1(2)])
    fix k assume k: "k \<in> set js"
    have k': "k < page_count (arenas pmm ! i)" "page_state (page_at pmm (arena_handle i k)) = Allocated"
      using Cons.prems(4) [of k] k by simp_all
    note g = arena_handle_facts [OF wf Cons.prems(2) k'(1)]
    have "k \<noteq> j"
      using Cons.prems(3) k by auto
    then have "arena_handle i k \<noteq> ?h"
      using f(3) g(3) by metis
    then have "status p1 (arena_handle i k) = status pmm (arena_handle i k)"
      using p1(4) g(1) by (simp add: status_updated_def)
    then show "k < page_count (arenas p1 ! i) \<and> page_state (page_at p1 (arena_handle i k)) = Allocated"
      using k' by (simp add: status_def ar)
  qed (use Cons.prems ar in simp_all)
  then obtain p2 where p2: "free_pages_from p1 (of_nat i) js = Inr p2"
      "pmm_inv p2 ((fl @ [?h]) @ map (arena_handle i) js)" "same_config p1 p2"
      "status_updated p1 p2 (arena_handle i ` set js) (Free, False)"
    by blast
  then show ?case
    using p1(1) same_config_trans [OF p1(3) p2(3)] status_updated_trans [OF p1(3,4) p2(4)]
    by (simp add: arena_handle_def [symmetric])
qed

lemma clear_head_inv:
  assumes inv: "pmm_inv pmm fl" and h: "managed pmm h" "page_state (page_at pmm h) = Allocated"
    and p: "p = modify_page (slot_of pmm h) (\<lambda>p. p\<lparr>contiguous_head := False\<rparr>) pmm"
  shows "pmm_inv p fl" "same_config pmm p" "status_updated pmm p {h} (Allocated, False)"
proof -
  have wf: "arenas_wf pmm"
    using inv by (simp add: pmm_inv_def)
  note m = modify_status [OF wf h(1), of "\<lambda>p. p\<lparr>contiguous_head := False\<rparr>" "(Allocated, False)"]
  show c: "same_config pmm p" and su: "status_updated pmm p {h} (Allocated, False)"
    using m(1,3) h(2) by (simp_all add: p)
  have "list_inv p fl = list_inv pmm fl"
    using m(2) h(2) by (simp add: p)
  moreover have "free_handles p = free_handles pmm"
    using free_handles_updated [OF c su] h by (auto simp: free_handles_def)
  ultimately show "pmm_inv p fl"
    using inv heads_updated [OF c su] by (simp add: pmm_inv_def p)
qed

lemma free_contiguous_run:
  assumes inv: "pmm_inv pmm fl" and i: "i < arena_count pmm" and cnt: "0 < cnt"
    and le: "s + cnt \<le> page_count (arenas pmm ! i)"
    and head: "contiguous_head (page_at pmm (arena_handle i s))"
  shows "case List.find (run_bad pmm i s) [s..<s + cnt] of
      Some j \<Rightarrow> free_contiguous pmm (arena_handle i s) cnt =
        Inr (Inl (if page_state (page_at pmm (arena_handle i j)) \<noteq> Allocated then NotAllocated
                  else InvalidPageState), pmm)
    | None \<Rightarrow> \<exists>pmm'. free_contiguous pmm (arena_handle i s) cnt = Inr (Inr (), pmm') \<and>
        pmm_inv pmm' (fl @ run_handles i s cnt) \<and> same_config pmm pmm' \<and>
        status_updated pmm pmm' (set (run_handles i s cnt)) (Free, False)"
proof -
  let ?h = "arena_handle i s" and ?a = "arenas pmm ! i"
  have wf: "arenas_wf pmm"
    using inv by (simp add: pmm_inv_def)
  have s: "s < page_count ?a"
    using le cnt by simp
  note f = arena_handle_facts [OF wf i s]
  have ok: "arena_ok i ?a"
    using wf i by (simp add: arenas_wf_def)
  then have small: "s + cnt < 2 ^ 64"
    using le by (simp add: arena_ok_def)
  have ha: "handle_arena ?h = of_nat i"
    by (simp add: arena_handle_def PageHandle_new_def)
  have check: "check_run pmm ?a (of_nat i) s [s..<s + cnt] =
      (case List.find (run_bad pmm i s) [s..<s + cnt] of
         None \<Rightarrow> None
       | Some j \<Rightarrow> Some (if page_state (page_at pmm (arena_handle i j)) \<noteq> Allocated then NotAllocated
                     else InvalidPageState))"
    using le by (intro check_run_spec [OF wf i]) simp
  have unfold: "free_contiguous pmm ?h cnt =
      (case check_run pmm ?a (of_nat i) s [s..<s + cnt] of
         Some e \<Rightarrow> Inr (Inl e, pmm)
       | None \<Rightarrow> bind_panic (free_pages_from
             (modify_page (slot_of pmm ?h) (\<lambda>p. p\<lparr>contiguous_head := False\<rparr>) pmm) (of_nat i) [s..<s + cnt])
             (\<lambda>pmm. Inr (Inr (), pmm)))"
    using cnt small le head arena_for_managed [OF wf f(1)] page_ref_managed [OF wf f(1)]
      page_mut_managed [OF wf f(1)]
    by (simp add: free_contiguous_def Let_def f(2,3) ha split: option.split)
  show ?thesis
  proof (cases "List.find (run_bad pmm i s) [s..<s + cnt]")
    case (Some j)
    then show ?thesis
      by (simp add: unfold check)
  next
    case None
    then have good: "\<not> run_bad pmm i s j" if "j \<in> set [s..<s + cnt]" for j
      using that unfolding find_None_iff by blast
    have hs: "page_state (page_at pmm ?h) = Allocated"
      using good [of s] cnt by (simp add: run_bad_def)
    define p1 where "p1 = modify_page (slot_of pmm ?h) (\<lambda>p. p\<lparr>contiguous_head := False\<rparr>) pmm"
    note c = clear_head_inv [OF inv f(1) hs p1_def]
    have ar: "arenas p1 = arenas pmm" "arena_count p1 = arena_count pmm"
      by (simp_all add: p1_def)
    have "\<exists>pmm'. free_pages_from p1 (of_nat i) [s..<s + cnt] = Inr pmm' \<and>
      pmm_inv pmm' (fl @ map (arena_handle i) [s..<s + cnt]) \<and> same_config p1 pmm' \<and>
      status_updated p1 pmm' (arena_handle i ` set [s..<s + cnt]) (Free, False)"
    proof (rule free_pages_from_spec [OF c(1)])
      fix j assume j: "j \<in> set [s..<s + cnt]"
      then have lt: "j < page_count ?a"
        using le by simp
      have "fst (status p1 (arena_handle i j)) = Allocated"
        using c(3) arena_handle_facts(1) [OF wf i lt] good [OF j]
        by (simp add: status_updated_def run_bad_def) (simp add: status_def)
      then show "j < page_count (arenas p1 ! i) \<and> page_state (page_at p1 (arena_handle i j)) = Allocated"
        using lt by (simp add: ar status_def)
    qed (use i ar in simp_all)
    then obtain p2 where p2: "free_pages_from p1 (of_nat i) [s..<s + cnt] = Inr p2"
        "pmm_inv p2 (fl @ run_handles i s cnt)" "same_config p1 p2"
        "status_updated p1 p2 (set (run_handles i s cnt)) (Free, False)"
      by (auto simp: run_handles_def)
    have hin: "?h \<in> set (run_handles i s cnt)"
      using cnt by (simp add: run_handles_def)
    have "status_updated pmm p2 (set (run_handles i s cnt)) (Free, False)"
      using p2(4) c(3) hin by (auto simp: status_updated_def same_config_simps [OF c(2)])
    then show ?thesis
      using p2 None same_config_trans [OF c(2) p2(3)] by (simp add: unfold check p1_def)
  qed
qed

section \<open>Properties\<close>

text \<open>
  C17. A contiguous allocation finds a run whenever there is one. It takes the first arena that has
  an aligned run of free pages and the lowest such run in it, marks exactly these pages allocated
  and the first as the head of the run, removes them from the free list in place and keeps the
  invariant; it reports failure, with nothing changed, exactly when no arena has such a run.
\<close>

theorem alloc_contiguous_first_fit:
  assumes "pool_inv pmm" and "0 < cnt" and "alignment_log2 < 64"
  shows "if \<exists>i s. run_available pmm (unat alignment_log2) cnt i s
    then \<exists>i s pmm'. first_run pmm (unat alignment_log2) cnt i s \<and>
      alloc_contiguous pmm cnt alignment_log2 =
        Inr (Some \<lparr>run_head = arena_handle i s, run_count = cnt\<rparr>, pmm') \<and>
      pool_inv pmm' \<and> free_list pmm' = filter (\<lambda>h. h \<notin> set (run_handles i s cnt)) (free_list pmm) \<and>
      run_taken pmm pmm' i s cnt
    else alloc_contiguous pmm cnt alignment_log2 = Inr (None, pmm)"
proof -
  have inv: "pmm_inv pmm (free_list pmm)" and init: "initialized pmm"
    using assms(1) by (simp_all add: pool_inv_def)
  have k: "\<not> 64 \<le> alignment_log2"
    using assms(3) by simp
  from alloc_contiguous_cases [OF inv assms(2) k] show ?thesis
  proof (elim disjE exE conjE)
    fix i s pmm'
    assume r: "first_run pmm (unat alignment_log2) cnt i s"
      "alloc_contiguous pmm cnt alignment_log2 =
        Inr (Some \<lparr>run_head = arena_handle i s, run_count = cnt\<rparr>, pmm')"
      "pmm_inv pmm' (filter (\<lambda>h. h \<notin> set (run_handles i s cnt)) (free_list pmm))"
      "run_taken pmm pmm' i s cnt"
    have "initialized pmm'"
      using r(4) init by (simp add: run_taken_def same_config_def)
    from pool_invI [OF r(3) this] r show ?thesis
      by (auto simp: first_run_def)
  next
    assume "\<forall>i s. \<not> run_available pmm (unat alignment_log2) cnt i s"
      "alloc_contiguous pmm cnt alignment_log2 = Inr (None, pmm)"
    then show ?thesis
      by auto
  qed
qed

lemma sample_run: "run_available sample_pmm 12 1 0 0"
proof -
  have "run_handles 0 0 1 = [PageHandle_new 0 0]"
    by (simp add: run_handles_def arena_handle_def)
  then show ?thesis
    by (simp add: run_available_def sample_page [OF refl] Page_new_def)
      (simp add: sample_pmm_def sample_arena_def)
qed

theorem alloc_contiguous_first_fit_witness:
  "\<exists>i s pmm'. first_run sample_pmm 12 1 i s \<and>
     alloc_contiguous sample_pmm 1 12 =
       Inr (Some \<lparr>run_head = arena_handle i s, run_count = 1\<rparr>, pmm') \<and> pool_inv pmm'"
proof -
  have "\<exists>i s. run_available sample_pmm (unat (12 :: u8)) 1 i s"
    using sample_run by auto
  then show ?thesis
    using alloc_contiguous_first_fit [OF sample_pool(1), of 1 12] by auto
qed

text \<open>
  C22. Freeing a run checks everything before it changes anything: a handle outside the arenas, a
  page that is not the head of a run, a length past the end of the arena, a page that is not
  allocated and the head of another run are each reported with the state unchanged. Otherwise all
  pages of the run become free, in order, at the end of the free list, and no other page changes.
\<close>

theorem free_contiguous_outcome:
  assumes "pool_inv pmm" and "0 < cnt" and "i = unat (handle_arena head)"
    and "s = unat (handle_page head)"
  shows "if \<not> managed pmm head then free_contiguous pmm head cnt = Inr (Inl AddressNotInArena, pmm)
    else if \<not> contiguous_head (page_at pmm head)
    then free_contiguous pmm head cnt = Inr (Inl NotContiguousHead, pmm)
    else if page_count (arenas pmm ! i) < s + cnt
    then free_contiguous pmm head cnt = Inr (Inl AddressNotInArena, pmm)
    else case List.find (run_bad pmm i s) [s..<s + cnt] of
      Some j \<Rightarrow> free_contiguous pmm head cnt =
        Inr (Inl (if page_state (page_at pmm (arena_handle i j)) \<noteq> Allocated then NotAllocated
                  else InvalidPageState), pmm)
    | None \<Rightarrow> \<exists>pmm'. free_contiguous pmm head cnt = Inr (Inr (), pmm') \<and> pool_inv pmm' \<and>
        free_list pmm' = free_list pmm @ run_handles i s cnt \<and> same_config pmm pmm' \<and>
        status_updated pmm pmm' (set (run_handles i s cnt)) (Free, False)"
proof -
  have inv: "pmm_inv pmm (free_list pmm)" and init: "initialized pmm"
    using assms(1) by (simp_all add: pool_inv_def)
  have wf: "arenas_wf pmm"
    using inv by (simp add: pmm_inv_def)
  show ?thesis
  proof (cases "managed pmm head")
    case False
    then show ?thesis
      using arena_for_None_iff [OF wf, of head] assms(2) by (simp add: free_contiguous_def)
  next
    case m: True
    have h: "head = arena_handle i s"
      using managed_arena_handle [OF wf m] by (simp only: assms(3,4))
    have i: "i < arena_count pmm"
      using m assms(3) by (simp add: managed_def)
    have at: "arena_at pmm head = arenas pmm ! i"
      by (simp add: arena_at_def assms(3))
    have head_ref: "arena_for pmm head = Some (arenas pmm ! i)"
        "page_ref pmm (arenas pmm ! i) head = Some (page_at pmm head)"
      using arena_for_managed [OF wf m] page_ref_managed [OF wf m] by (simp_all only: at)
    consider "\<not> contiguous_head (page_at pmm head)"
      | "contiguous_head (page_at pmm head)" "page_count (arenas pmm ! i) < s + cnt"
      | "contiguous_head (page_at pmm head)" "s + cnt \<le> page_count (arenas pmm ! i)"
      by linarith
    then show ?thesis
    proof cases
      case 1
      then show ?thesis
        using m head_ref assms(2) by (simp add: free_contiguous_def)
    next
      case 2
      then show ?thesis
        using m head_ref assms(2,4) by (simp add: free_contiguous_def Let_def)
    next
      case 3
      from free_contiguous_run [OF inv i assms(2) 3(2)] 3(1)
      have run: "case List.find (run_bad pmm i s) [s..<s + cnt] of
          Some j \<Rightarrow> free_contiguous pmm head cnt =
            Inr (Inl (if page_state (page_at pmm (arena_handle i j)) \<noteq> Allocated then NotAllocated
                      else InvalidPageState), pmm)
        | None \<Rightarrow> \<exists>pmm'. free_contiguous pmm head cnt = Inr (Inr (), pmm') \<and>
            pmm_inv pmm' (free_list pmm @ run_handles i s cnt) \<and> same_config pmm pmm' \<and>
            status_updated pmm pmm' (set (run_handles i s cnt)) (Free, False)"
        by (simp only: h)
      show ?thesis
      proof (cases "List.find (run_bad pmm i s) [s..<s + cnt]")
        case None
        then obtain pmm' where p: "free_contiguous pmm head cnt = Inr (Inr (), pmm')"
            "pmm_inv pmm' (free_list pmm @ run_handles i s cnt)" "same_config pmm pmm'"
            "status_updated pmm pmm' (set (run_handles i s cnt)) (Free, False)"
          using run by auto
        have "initialized pmm'"
          using p(3) init by (simp add: same_config_def)
        from pool_invI [OF p(2) this] p None show ?thesis
          using m 3 by auto
      next
        case (Some j)
        then show ?thesis
          using run m 3 by simp
      qed
    qed
  qed
qed

theorem free_contiguous_outcome_witness:
  "free_contiguous sample_pmm (PageHandle_new 0 1) 1 = Inr (Inl NotContiguousHead, sample_pmm) \<and>
   free_contiguous sample_pmm (PageHandle_new 0 7) 1 = Inr (Inl AddressNotInArena, sample_pmm)"
proof -
  have "\<not> managed sample_pmm (PageHandle_new 0 7)"
    by (simp add: sample_managed) (simp add: PageHandle_new_def)
  then show ?thesis
    using free_contiguous_outcome [OF sample_pool(1) _ refl refl, of 1 "PageHandle_new 0 1"]
      free_contiguous_outcome [OF sample_pool(1) _ refl refl, of 1 "PageHandle_new 0 7"]
    by (simp add: sample_managed sample_page [OF refl] Page_new_def)
qed

lemma PageRun_physical_address_run:
  assumes "pool_inv pmm" "i < arena_count pmm" "s + cnt \<le> page_count (arenas pmm ! i)" "idx < cnt"
  shows "PageRun_physical_address pmm \<lparr>run_head = arena_handle i s, run_count = cnt\<rparr> idx =
    Inr (Some (handle_address pmm (arena_handle i (s + idx))))"
proof -
  note wf = pool_inv_wf [OF assms(1)]
  have lt: "s + idx < page_count (arenas pmm ! i)" "s < page_count (arenas pmm ! i)"
    using assms(3,4) by simp_all
  note f = arena_handle_facts [OF wf assms(2) lt(1)] and g = arena_handle_facts [OF wf assms(2) lt(2)]
  have "arena_ok i (arenas pmm ! i)"
    using wf assms(2) by (simp add: arenas_wf_def)
  then have small: "s + idx < 2 ^ 32"
    using lt(1) by (simp add: arena_ok_def)
  then have "unat (of_nat idx :: u32) = idx"
    by (simp add: unat_of_nat)
  then have "checked_add (handle_page (arena_handle i s)) (of_nat idx) =
      Some (handle_page (arena_handle i (s + idx)))"
    using f(3) g(3) by (simp add: checked_add_eq_Some)
  moreover have "PageHandle_new (handle_arena (arena_handle i s)) (handle_page (arena_handle i (s + idx))) =
      arena_handle i (s + idx)"
    by (simp add: arena_handle_def PageHandle_new_def)
  moreover have "initialized pmm"
    using assms(1) by (simp add: pool_inv_def)
  ultimately show ?thesis
    using small assms(4) arena_for_managed [OF wf f(1)] page_to_physical_managed [OF wf f(1)]
    by (simp add: PageRun_physical_address_def page_to_physical_handle_def assert_initialized_def)
qed

lemma taken_run_not_bad:
  assumes wf: "arenas_wf pmm" and av: "run_available pmm k cnt i s" and cnt: "0 < cnt"
    and taken: "run_taken pmm pmm' i s cnt" and j: "j \<in> set [s..<s + cnt]"
  shows "\<not> run_bad pmm' i s j"
proof -
  have i: "i < arena_count pmm" and lt: "j < page_count (arenas pmm ! i)" "s < page_count (arenas pmm ! i)"
    using av j cnt by (simp_all add: run_available_def)
  have "arena_handle i j = arena_handle i s \<longleftrightarrow> j = s"
    using arena_handle_facts(3) [OF wf i lt(1)] arena_handle_facts(3) [OF wf i lt(2)] by metis
  moreover have "arena_handle i j \<in> set (run_handles i s cnt)"
    using j by (simp add: run_handles_def)
  moreover have "status pmm' (arena_handle i j) = (if arena_handle i j = arena_handle i s
      then (Allocated, True) else if arena_handle i j \<in> set (run_handles i s cnt)
      then (Allocated, False) else status pmm (arena_handle i j))"
    using taken arena_handle_facts(1) [OF wf i lt(1)] unfolding run_taken_def by blast
  ultimately show ?thesis
    by (auto simp: run_bad_def status_def)
qed

lemma free_status: "pmm_inv pmm fl \<Longrightarrow> h \<in> set fl \<Longrightarrow> status pmm h = (Free, False)"
  by (auto simp: pmm_inv_def free_handles_def status_def)

lemma available_run_free:
  assumes "pmm_inv pmm fl" "run_available pmm k cnt i s"
  shows "set (run_handles i s cnt) \<subseteq> set fl"
proof -
  have "arenas_wf pmm"
    using assms(1) by (simp add: pmm_inv_def)
  then show ?thesis
    using assms run_handles_managed [of pmm i s cnt]
    by (auto simp: run_available_def pmm_inv_def free_handles_def)
qed

lemma taken_run_freed:
  assumes inv: "pmm_inv pmm fl" and av: "run_available pmm k cnt i s" and cnt: "0 < cnt"
    and inv': "pmm_inv pmm' (filter (\<lambda>h. h \<notin> set (run_handles i s cnt)) fl)"
    and taken: "run_taken pmm pmm' i s cnt"
  shows "\<exists>pmm''. free_contiguous pmm' (arena_handle i s) cnt = Inr (Inr (), pmm'') \<and>
    pmm_inv pmm'' (filter (\<lambda>h. h \<notin> set (run_handles i s cnt)) fl @ run_handles i s cnt) \<and>
    same_config pmm' pmm'' \<and> (\<forall>h. managed pmm h \<longrightarrow> status pmm'' h = status pmm h)"
proof -
  let ?run = "run_handles i s cnt"
  have wf: "arenas_wf pmm"
    using inv by (simp add: pmm_inv_def)
  have i: "i < arena_count pmm" and le: "s + cnt \<le> page_count (arenas pmm ! i)"
    using av by (simp_all add: run_available_def)
  have cfg: "same_config pmm pmm'" and ar: "arenas pmm' = arenas pmm" "arena_count pmm' = arena_count pmm"
    using taken by (simp_all add: run_taken_def same_config_def)
  have hin: "arena_handle i s \<in> set ?run"
    using cnt by (simp add: run_handles_def)
  have find: "List.find (run_bad pmm' i s) [s..<s + cnt] = None"
    using taken_run_not_bad [OF wf av cnt taken] unfolding find_None_iff by blast
  have "status pmm' (arena_handle i s) = (Allocated, True)"
    using taken run_handles_managed [OF wf i le hin] by (simp add: run_taken_def)
  then have "contiguous_head (page_at pmm' (arena_handle i s))"
    by (simp add: status_def)
  from free_contiguous_run [OF inv' _ cnt _ this] find i le ar
  obtain p2 where p2: "free_contiguous pmm' (arena_handle i s) cnt = Inr (Inr (), p2)"
      "pmm_inv p2 (filter (\<lambda>h. h \<notin> set ?run) fl @ ?run)" "same_config pmm' p2"
      "status_updated pmm' p2 (set ?run) (Free, False)"
    by auto
  have "status p2 h = status pmm h" if h: "managed pmm h" for h
  proof (cases "h \<in> set ?run")
    case True
    then have "status pmm h = (Free, False)"
      using free_status [OF inv] available_run_free [OF inv av] by blast
    then show ?thesis
      using p2(4) True h by (simp add: status_updated_def same_config_simps [OF cfg])
  next
    case False
    then have "status pmm' h = status pmm h"
      using taken h hin by (auto simp: run_taken_def)
    then show ?thesis
      using p2(4) h False by (simp add: status_updated_def same_config_simps [OF cfg])
  qed
  then show ?thesis
    using p2 by blast
qed

lemma run_addresses:
  assumes pool: "pool_inv pmm" "pool_inv pmm'" and cfg: "same_config pmm pmm'"
    and av: "run_available pmm k cnt i s" and j: "j < cnt"
  shows "\<exists>p. PageRun_physical_address pmm' \<lparr>run_head = arena_handle i s, run_count = cnt\<rparr> j = Inr (Some p) \<and>
    unat p = unat (handle_address pmm (arena_handle i s)) + j * 4096 \<and> p \<in> set (free_addresses pmm)"
proof -
  note wf = pool_inv_wf [OF pool(1)]
  have ar: "arenas pmm' = arenas pmm" "arena_count pmm' = arena_count pmm"
    using cfg by (simp_all add: same_config_def)
  have i: "i < arena_count pmm" and le: "s + cnt \<le> page_count (arenas pmm ! i)"
    and lt: "s + j < page_count (arenas pmm ! i)" "s < page_count (arenas pmm ! i)"
    using av j by (simp_all add: run_available_def)
  note f = arena_handle_facts [OF wf i lt(1)] and g = arena_handle_facts [OF wf i lt(2)]
  have "arena_handle i (s + j) \<in> set (run_handles i s cnt)"
    using j by (simp add: run_handles_def)
  then have "arena_handle i (s + j) \<in> set (free_list pmm)"
    using available_run_free [OF _ av] pool(1) unfolding pool_inv_def by blast
  then show ?thesis
    using PageRun_physical_address_run [of pmm' i s cnt j] pool(2) i le j ar
      unat_handle_address [OF wf f(1)] unat_handle_address [OF wf g(1)] f(2,3) g(2,3)
    by (auto simp: free_addresses_def handle_address_config [OF cfg])
qed

lemma mset_filter_append:
  assumes "distinct fl" "distinct run" "set run \<subseteq> set fl"
  shows "mset (filter (\<lambda>h. h \<notin> set run) fl @ run) = mset fl"
proof -
  have "set (filter (\<lambda>h. h \<notin> set run) fl @ run) = set fl"
    using assms(3) by auto
  moreover have "distinct (filter (\<lambda>h. h \<notin> set run) fl @ run)"
    using assms(1,2) by auto
  ultimately show ?thesis
    using assms(1) set_eq_iff_mset_eq_distinct by blast
qed

text \<open>
  C20. A page run gives the caller consecutive physical pages from its aligned head, and dropping it
  gives everything back: afterwards every page has the status it had before the allocation and the
  free list holds the same pages.
\<close>

theorem page_run_round_trip:
  assumes "pool_inv pmm" and "0 < cnt" and "alignment_log2 < 64"
    and "pmm_alloc_contiguous pmm cnt alignment_log2 = Inr (Some run, pmm')"
  shows "run_count run = cnt \<and> pool_inv pmm' \<and>
    (\<exists>base :: PhysicalAddress. 2 ^ unat alignment_log2 dvd unat base \<and>
      (\<forall>k < cnt. \<exists>p. PageRun_physical_address pmm' run k = Inr (Some p) \<and>
        unat p = unat base + k * 4096 \<and> p \<in> set (free_addresses pmm))) \<and>
    (\<exists>pmm''. PageRun_drop pmm' run = Inr pmm'' \<and> pool_inv pmm'' \<and>
      (\<forall>h. managed pmm h \<longrightarrow> status pmm'' h = status pmm h) \<and>
      mset (free_list pmm'') = mset (free_list pmm))"
proof -
  have inv: "pmm_inv pmm (free_list pmm)" and init: "initialized pmm" and k: "\<not> 64 \<le> alignment_log2"
    using assms(1,3) by (simp_all add: pool_inv_def)
  have "alloc_contiguous pmm cnt alignment_log2 = Inr (Some run, pmm')"
    using assms(4) init by (simp add: pmm_alloc_contiguous_def assert_initialized_def)
  then obtain i s where first: "first_run pmm (unat alignment_log2) cnt i s"
    and run: "run = \<lparr>run_head = arena_handle i s, run_count = cnt\<rparr>"
    and inv': "pmm_inv pmm' (filter (\<lambda>h. h \<notin> set (run_handles i s cnt)) (free_list pmm))"
    and taken: "run_taken pmm pmm' i s cnt"
    using alloc_contiguous_cases [OF inv assms(2) k] by auto
  have av: "run_available pmm (unat alignment_log2) cnt i s"
    using first by (simp add: first_run_def)
  then have i: "i < arena_count pmm" and le: "s + cnt \<le> page_count (arenas pmm ! i)"
    by (simp_all add: run_available_def)
  have cfg: "same_config pmm pmm'" and init': "initialized pmm'"
    using taken init by (simp_all add: run_taken_def same_config_def)
  have pool': "pool_inv pmm'"
    using pool_invI [OF inv' init'] by blast
  obtain p2 where p2: "free_contiguous pmm' (arena_handle i s) cnt = Inr (Inr (), p2)"
      "pmm_inv p2 (filter (\<lambda>h. h \<notin> set (run_handles i s cnt)) (free_list pmm) @ run_handles i s cnt)"
      "same_config pmm' p2" "\<forall>h. managed pmm h \<longrightarrow> status p2 h = status pmm h"
    using taken_run_freed [OF inv av assms(2) inv' taken] by blast
  have drop: "PageRun_drop pmm' run = Inr p2"
    using p2(1) assms(2) init'
    by (simp add: PageRun_drop_def run free_contiguous_parts_def assert_initialized_def)
  have "initialized p2"
    using p2(3) init' by (simp add: same_config_def)
  note pool2 = pool_invI [OF p2(2) this]
  note wf = pool_inv_wf [OF assms(1)]
  have ms: "mset (free_list p2) = mset (free_list pmm)"
    using pool2 mset_filter_append [OF _ run_handles_distinct [OF wf i le] available_run_free [OF inv av]]
      inv by (simp add: pmm_inv_def list_inv_def)
  have dvd: "2 ^ unat alignment_log2 dvd unat (handle_address pmm (arena_handle i s))"
    using av unat_handle_address [OF wf arena_handle_facts(1) [OF wf i, of s]]
      arena_handle_facts(2,3) [OF wf i, of s] assms(2) le by (simp add: run_available_def)
  have "\<exists>base :: PhysicalAddress. 2 ^ unat alignment_log2 dvd unat base \<and>
      (\<forall>k < cnt. \<exists>p. PageRun_physical_address pmm' run k = Inr (Some p) \<and>
        unat p = unat base + k * 4096 \<and> p \<in> set (free_addresses pmm))"
    unfolding run
  proof (rule exI [of _ "handle_address pmm (arena_handle i s)"], intro conjI allI impI)
    fix k assume "k < cnt"
    then show "\<exists>p. PageRun_physical_address pmm' \<lparr>run_head = arena_handle i s, run_count = cnt\<rparr> k =
        Inr (Some p) \<and> unat p = unat (handle_address pmm (arena_handle i s)) + k * 4096 \<and>
        p \<in> set (free_addresses pmm)"
      by (rule run_addresses [OF assms(1) pool' cfg av])
  qed (rule dvd)
  moreover have "run_count run = cnt"
    by (simp add: run)
  ultimately show ?thesis
    using pool' pool2 drop p2(4) ms by blast
qed

theorem page_run_round_trip_witness:
  "\<exists>run pmm' pmm''. pmm_alloc_contiguous sample_pmm 1 12 = Inr (Some run, pmm') \<and>
     PageRun_drop pmm' run = Inr pmm'' \<and> mset (free_list pmm'') = mset (free_list sample_pmm)"
proof -
  have "\<not> 64 \<le> (12 :: u8)" and "run_available sample_pmm (unat (12 :: u8)) 1 0 0"
    using sample_run by simp_all
  then obtain run pmm' where "alloc_contiguous sample_pmm 1 12 = Inr (Some run, pmm')"
    using alloc_contiguous_cases [OF sample_inv, of 1 12] by auto
  then have "pmm_alloc_contiguous sample_pmm 1 12 = Inr (Some run, pmm')"
    by (simp add: pmm_alloc_contiguous_def assert_initialized_def sample_pmm_def)
  then show ?thesis
    using page_run_round_trip [OF sample_pool(1), of 1 12 run pmm'] by auto
qed

end
