(* ===== verification/Page_Mapping.thy ===== *)
theory Page_Mapping
  imports Address
begin

text \<open>
  The architecture-neutral description of a mapping (\<open>mmu/page_table_entry.rs\<close>): errors, sizes,
  permissions and the checked constructor of a mapping intent.
\<close>

section \<open>Model\<close>

datatype MapError =
  MapNotAligned | MapNotCanonical | TableNotPresent | AlreadyMapped | MapSuperpageConflict | MapOutOfMemory

datatype UnmapError =
  UnmapNotCanonical | NotMapped | UnmapSuperpageConflict

datatype MemoryKind = NormalMemory | DeviceMemory

datatype MappingSize = Page4K | Block2M | Block1G

fun mapping_bytes :: "MappingSize \<Rightarrow> usize" where
  "mapping_bytes Page4K = PAGE_SIZE"
| "mapping_bytes Block2M = push_bit 21 1"
| "mapping_bytes Block1G = push_bit 30 1"

definition mapping_is_aligned :: "MappingSize \<Rightarrow> PhysicalAddress \<Rightarrow> bool" where
  "mapping_is_aligned s address \<longleftrightarrow> and address (mapping_bytes s - 1) = 0"

record MappingPermissions =
  writable :: bool
  executable :: bool
  user_accessible :: bool

definition KERNEL_READ_WRITE :: MappingPermissions where
  "KERNEL_READ_WRITE = \<lparr>writable = True, executable = False, user_accessible = False\<rparr>"

definition KERNEL_READ_EXECUTE :: MappingPermissions where
  "KERNEL_READ_EXECUTE = \<lparr>writable = False, executable = True, user_accessible = False\<rparr>"

definition USER_READ_WRITE :: MappingPermissions where
  "USER_READ_WRITE = \<lparr>writable = True, executable = False, user_accessible = True\<rparr>"

record MappingIntent =
  intent_address :: PhysicalAddress
  intent_size :: MappingSize
  intent_memory :: MemoryKind
  intent_permissions :: MappingPermissions

definition MappingIntent_new ::
  "PhysicalAddress \<Rightarrow> MappingSize \<Rightarrow> MemoryKind \<Rightarrow> MappingPermissions \<Rightarrow> MappingIntent option" where
  "MappingIntent_new physical_address s memory permissions =
     (if is_page_aligned physical_address \<and> mapping_is_aligned s physical_address
      then Some \<lparr>intent_address = physical_address, intent_size = s, intent_memory = memory,
                 intent_permissions = permissions\<rparr>
      else None)"

section \<open>Alignment\<close>

lemma unat_mapping_bytes [simp]:
  "unat (mapping_bytes s) = (case s of Page4K \<Rightarrow> 2 ^ 12 | Block2M \<Rightarrow> 2 ^ 21 | Block1G \<Rightarrow> 2 ^ 30)"
  by (cases s) (simp_all add: push_bit_eq_mult)

end
