(* ===== verification/Kernel_Stack.thy ===== *)
theory Kernel_Stack
  imports Page_Mapping Pmm_Pages
begin

text \<open>
  Guard-mapped kernel stacks (\<open>KernelStack\<close> of \<open>task/mod.rs\<close>). A stack takes a slot of the stack
  region and a run of physical pages and maps the pages above an unmapped guard page. The mapping
  functions are arguments, as in the source; they work on the memory system, which is the page
  allocator together with the state of the page tables. An early return drops the page run, which
  gives its pages back.
\<close>

section \<open>Model\<close>

definition KERNEL_STACK_SIZE :: usize where
  "KERNEL_STACK_SIZE = PAGE_SIZE * 2"

definition KERNEL_STACK_PAGES :: nat where
  "KERNEL_STACK_PAGES = unat (KERNEL_STACK_SIZE div PAGE_SIZE)"

definition PAGE_ALIGNMENT_LOG2 :: u8 where
  "PAGE_ALIGNMENT_LOG2 = 12"

definition KERNEL_STACK_GUARD_SIZE :: usize where
  "KERNEL_STACK_GUARD_SIZE = PAGE_SIZE"

definition KERNEL_STACK_SLOT_SIZE :: usize where
  "KERNEL_STACK_SLOT_SIZE = KERNEL_STACK_GUARD_SIZE + KERNEL_STACK_SIZE"

definition KERNEL_STACK_REGION_SIZE :: usize where
  "KERNEL_STACK_REGION_SIZE = push_bit 30 1"

definition MAX_KERNEL_STACK_SLOTS :: usize where
  "MAX_KERNEL_STACK_SLOTS = KERNEL_STACK_REGION_SIZE div KERNEL_STACK_SLOT_SIZE"

datatype StackError =
  StackOutOfMemory | StackAddressNotMapped | RegionExhausted | StackMap MapError

text \<open>The memory system the mapping functions change, and the counter of stack slots.\<close>

record 'm Memory =
  mem_pmm :: PhysicalMemoryManager
  mem_tables :: 'm

record 'm StackWorld =
  next_stack_slot :: usize
  stack_memory :: "'m Memory"

type_synonym 'm map_page = "VirtualAddress \<Rightarrow> PhysicalAddress \<Rightarrow> 'm Memory \<Rightarrow> ((MapError + unit) \<times> 'm Memory) panics"
type_synonym 'm unmap_page = "VirtualAddress \<Rightarrow> 'm Memory \<Rightarrow> ((UnmapError + PhysicalAddress) \<times> 'm Memory) panics"

record 'm KernelStack =
  stack_pages :: PageRun
  stack_base :: VirtualAddress
  stack_size :: usize
  stack_unmap :: "'m unmap_page option"

text \<open>The loop of \<open>rollback_stack_mapping\<close>, from the last mapped page down.\<close>

fun rollback_stack_mapping :: "VirtualAddress \<Rightarrow> nat \<Rightarrow> 'm unmap_page \<Rightarrow> 'm Memory \<Rightarrow> 'm Memory panics" where
  "rollback_stack_mapping base 0 unmap_page m = Inr m"
| "rollback_stack_mapping base (Suc index) unmap_page m =
     (case checked_add base (of_nat index * PAGE_SIZE) of
        None \<Rightarrow> rollback_stack_mapping base index unmap_page m
      | Some virtual_address \<Rightarrow>
          bind_panic (unmap_page virtual_address m) (\<lambda>(_, m).
          rollback_stack_mapping base index unmap_page m))"

definition drop_pages :: "PageRun \<Rightarrow> 'm Memory \<Rightarrow> 'm Memory panics" where
  "drop_pages pages m = bind_panic (PageRun_drop (mem_pmm m) pages) (\<lambda>pmm. Inr (m\<lparr>mem_pmm := pmm\<rparr>))"

text \<open>The mapping loop; \<open>left\<close> pages are still to be mapped. An error carries the memory after the clean-up.\<close>

fun map_stack_pages ::
  "nat \<Rightarrow> nat \<Rightarrow> PageRun \<Rightarrow> VirtualAddress \<Rightarrow> 'm map_page \<Rightarrow> 'm unmap_page \<Rightarrow> 'm Memory \<Rightarrow>
   ((StackError + unit) \<times> 'm Memory) panics" where
  "map_stack_pages 0 mapped_pages pages base map_page unmap_page m = Inr (Inr (), m)"
| "map_stack_pages (Suc left) mapped_pages pages base map_page unmap_page m =
     bind_panic (PageRun_physical_address (mem_pmm m) pages mapped_pages) (\<lambda>found.
     case found of
       None \<Rightarrow>
         bind_panic (rollback_stack_mapping base mapped_pages unmap_page m) (\<lambda>m.
         Inr (Inl StackAddressNotMapped, m))
     | Some physical \<Rightarrow>
         (case checked_add base (of_nat mapped_pages * PAGE_SIZE) of
            None \<Rightarrow> Inr (Inl RegionExhausted, m)
          | Some virtual_address \<Rightarrow>
              bind_panic (map_page virtual_address physical m) (\<lambda>(r, m).
              case r of
                Inl e \<Rightarrow>
                  bind_panic (rollback_stack_mapping base mapped_pages unmap_page m) (\<lambda>m.
                  Inr (Inl (StackMap e), m))
              | Inr _ \<Rightarrow> map_stack_pages left (mapped_pages + 1) pages base map_page unmap_page m)))"

definition stack_slot_base :: "VirtualAddress \<Rightarrow> usize \<Rightarrow> VirtualAddress option" where
  "stack_slot_base region_start slot =
     Option.bind (checked_mul slot KERNEL_STACK_SLOT_SIZE) (\<lambda>offset.
     Option.bind (checked_add offset KERNEL_STACK_GUARD_SIZE) (\<lambda>offset.
     checked_add region_start offset))"

definition create_mapped ::
  "VirtualAddress \<Rightarrow> 'm map_page \<Rightarrow> 'm unmap_page \<Rightarrow> 'm StackWorld \<Rightarrow>
   ((StackError + 'm KernelStack) \<times> 'm StackWorld) panics" where
  "create_mapped stack_region_base map_page unmap_page w =
     (let slot = next_stack_slot w;
          w = w\<lparr>next_stack_slot := slot + 1\<rparr>;
          m = stack_memory w
      in if MAX_KERNEL_STACK_SLOTS \<le> slot then Inr (Inl RegionExhausted, w)
         else
           bind_panic (pmm_alloc_contiguous (mem_pmm m) KERNEL_STACK_PAGES PAGE_ALIGNMENT_LOG2) (\<lambda>(found, pmm).
           let m = m\<lparr>mem_pmm := pmm\<rparr> in
           case found of
             None \<Rightarrow> Inr (Inl StackOutOfMemory, w\<lparr>stack_memory := m\<rparr>)
           | Some pages \<Rightarrow>
               (case stack_slot_base stack_region_base slot of
                  None \<Rightarrow>
                    bind_panic (drop_pages pages m) (\<lambda>m.
                    Inr (Inl RegionExhausted, w\<lparr>stack_memory := m\<rparr>))
                | Some base \<Rightarrow>
                    bind_panic (map_stack_pages KERNEL_STACK_PAGES 0 pages base map_page unmap_page m) (\<lambda>(r, m).
                    case r of
                      Inl e \<Rightarrow>
                        bind_panic (drop_pages pages m) (\<lambda>m. Inr (Inl e, w\<lparr>stack_memory := m\<rparr>))
                    | Inr _ \<Rightarrow>
                        Inr (Inr \<lparr>stack_pages = pages, stack_base = base, stack_size = KERNEL_STACK_SIZE,
                                  stack_unmap = Some unmap_page\<rparr>,
                             w\<lparr>stack_memory := m\<rparr>)))))"

definition stack_top :: "'m KernelStack \<Rightarrow> VirtualAddress panics" where
  "stack_top stack = add_words (stack_base stack) (stack_size stack)"

text \<open>Dropping a stack: the drop code unmaps the pages, then the fields are dropped, which frees the run.\<close>

definition KernelStack_drop :: "'m KernelStack \<Rightarrow> 'm Memory \<Rightarrow> 'm Memory panics" where
  "KernelStack_drop stack m =
     bind_panic
       (case stack_unmap stack of
          None \<Rightarrow> Inr m
        | Some unmap_page \<Rightarrow> rollback_stack_mapping (stack_base stack) KERNEL_STACK_PAGES unmap_page m)
       (drop_pages (stack_pages stack))"

definition boot_probe ::
  "VirtualAddress \<Rightarrow> 'm map_page \<Rightarrow> 'm unmap_page \<Rightarrow> 'm StackWorld \<Rightarrow>
   ((StackError + unit) \<times> 'm StackWorld) panics" where
  "boot_probe stack_region_base map_page unmap_page w =
     try_bind (create_mapped stack_region_base map_page unmap_page w) (\<lambda>stack w.
     bind_panic (KernelStack_drop stack (stack_memory w)) (\<lambda>m.
     Inr (Inr (), w\<lparr>stack_memory := m\<rparr>)))"

end
