(* ===== verification/Trace.thy ===== *)
theory Trace
  imports Rust_Prelude
begin

text \<open>
  The trace ring of \<open>trace/mod.rs\<close>: a fixed array written at a cursor that wraps with a mask. The
  ring is a bounded queue: \<open>recorded\<close> reads its events from the oldest to the newest, and emitting
  appends one and drops the oldest once the array is full.
\<close>

section \<open>Model\<close>

definition TRACE_EVENTS :: nat where
  "TRACE_EVENTS = 128"

datatype TraceKind =
  SchedSwitch | SchedEnqueue | SchedDequeue | SchedTick | SchedBlock | SchedWake | SchedYield |
  SchedExit | SchedPreempt

record TraceEvent =
  event_kind :: TraceKind
  event_subject :: u64
  event_object :: u64
  event_value :: u64

definition TraceEvent_EMPTY :: TraceEvent where
  "TraceEvent_EMPTY =
     \<lparr>event_kind = SchedTick, event_subject = 0, event_object = 0, event_value = 0\<rparr>"

text \<open>The array of the source has the length \<open>N\<close> of its type: the length of \<open>ring_array\<close>.\<close>

record Ring =
  ring_array :: "TraceEvent list"
  ring_cursor :: nat
  ring_len :: nat

definition Ring_new :: "nat \<Rightarrow> Ring" where
  "Ring_new n = \<lparr>ring_array = replicate n TraceEvent_EMPTY, ring_cursor = 0, ring_len = 0\<rparr>"

definition emit :: "Ring \<Rightarrow> TraceEvent \<Rightarrow> Ring panics" where
  "emit r event =
     (let n = length (ring_array r) in
      if ring_cursor r < n then
        Inr (r\<lparr>ring_array := (ring_array r)[ring_cursor r := event],
               ring_cursor := and (ring_cursor r + 1) (n - 1),
               ring_len := min (ring_len r + 1) n\<rparr>)
      else Inl ''index out of bounds'')"

definition ring_is_empty :: "Ring \<Rightarrow> bool" where
  "ring_is_empty r \<longleftrightarrow> ring_len r = 0"

section \<open>The ring as a bounded queue\<close>

definition ring_ok :: "nat \<Rightarrow> Ring \<Rightarrow> bool" where
  "ring_ok k r \<longleftrightarrow>
     length (ring_array r) = 2 ^ k \<and> ring_cursor r < 2 ^ k \<and> ring_len r \<le> 2 ^ k \<and>
     (ring_len r < 2 ^ k \<longrightarrow> ring_cursor r = ring_len r)"

definition recorded :: "Ring \<Rightarrow> TraceEvent list" where
  "recorded r =
     (if ring_len r < length (ring_array r) then take (ring_len r) (ring_array r)
      else drop (ring_cursor r) (ring_array r) @ take (ring_cursor r) (ring_array r))"

text \<open>The newest \<open>n\<close> elements of a list.\<close>

definition newest :: "nat \<Rightarrow> 'a list \<Rightarrow> 'a list" where
  "newest n xs = drop (length xs - n) xs"

lemma newest_snoc: "0 < n \<Longrightarrow> newest n (newest n xs @ [x]) = newest n (xs @ [x])"
  by (cases "length xs \<le> n") (auto simp: newest_def Suc_diff_le)

lemma ring_mask: "and m (2 ^ k - 1) = m mod (2 ^ k :: nat)"
  by (metis mask_eq_exp_minus_1 take_bit_eq_mask take_bit_eq_mod)

lemma Ring_new_ok: "ring_ok k (Ring_new (2 ^ k))" and Ring_new_recorded: "0 < n \<Longrightarrow> recorded (Ring_new n) = []"
  by (simp_all add: ring_ok_def Ring_new_def recorded_def)

lemma recorded_length: "ring_ok k r \<Longrightarrow> length (recorded r) = ring_len r"
  by (auto simp: ring_ok_def recorded_def)

lemma emit_recorded:
  assumes ok: "ring_ok k r"
  shows "\<exists>r'. emit r e = Inr r' \<and> ring_ok k r' \<and> recorded r' = newest (2 ^ k) (recorded r @ [e])"
proof -
  let ?n = "2 ^ k :: nat" and ?c = "ring_cursor r"
  have len: "length (ring_array r) = ?n" and c: "?c < ?n" and l: "ring_len r \<le> ?n"
    and part: "ring_len r < ?n \<Longrightarrow> ?c = ring_len r"
    using ok by (auto simp: ring_ok_def)
  define r' where "r' = r\<lparr>ring_array := (ring_array r)[?c := e], ring_cursor := (?c + 1) mod ?n,
      ring_len := min (ring_len r + 1) ?n\<rparr>"
  have emit: "emit r e = Inr r'"
    using c by (simp add: emit_def Let_def len r'_def ring_mask [of "Suc ?c" k, simplified])
  have wrap: "Suc ?c mod ?n = (if Suc ?c = ?n then 0 else Suc ?c)"
    using c by simp
  have now: "take (Suc ?c) ((ring_array r)[?c := e]) = take ?c (ring_array r) @ [e]"
    using c len by (simp add: take_Suc_conv_app_nth)
  have ok': "ring_ok k r'"
    using c l part len by (auto simp: ring_ok_def r'_def wrap min_def)
  have "recorded r' = newest ?n (recorded r @ [e])"
  proof (cases "ring_len r < ?n")
    case True
    show ?thesis
    proof (cases "Suc ?c = ?n")
      case last: True
      have "(ring_array r)[?c := e] = take (Suc ?c) ((ring_array r)[?c := e])"
        using last len by simp
      then show ?thesis
        using True last part len now by (simp add: recorded_def r'_def wrap newest_def)
    next
      case False
      then show ?thesis
        using True c part len now by (simp add: recorded_def r'_def wrap newest_def)
    qed
  next
    case False
    then have "recorded r @ [e] = drop ?c (ring_array r) @ take ?c (ring_array r) @ [e]"
      using len by (simp add: recorded_def)
    moreover have "drop ?c (ring_array r) = ring_array r ! ?c # drop (Suc ?c) (ring_array r)"
      using c len by (simp add: Cons_nth_drop_Suc)
    ultimately have new: "newest ?n (recorded r @ [e]) = drop (Suc ?c) (ring_array r) @ take ?c (ring_array r) @ [e]"
      using len c by (simp add: newest_def)
    show ?thesis
    proof (cases "Suc ?c = ?n")
      case True
      then have "(ring_array r)[?c := e] = take ?c (ring_array r) @ [e]"
        using now len by simp
      then show ?thesis
        using True False l len new by (simp add: recorded_def r'_def wrap)
    qed (use False l len c new now in \<open>simp add: recorded_def r'_def wrap\<close>)
  qed
  then show ?thesis
    using emit ok' by blast
qed

fun emit_all :: "Ring \<Rightarrow> TraceEvent list \<Rightarrow> Ring panics" where
  "emit_all r [] = Inr r"
| "emit_all r (e # es) = bind_panic (emit r e) (\<lambda>r. emit_all r es)"

text \<open>
  C34. The trace ring is a bounded queue. Emitting any sequence of events into a fresh ring never
  indexes out of bounds; the ring then holds the newest of them in order, as many as the array has
  entries, and its length says how many.
\<close>

theorem trace_ring_keeps_newest:
  "\<exists>r. emit_all (Ring_new TRACE_EVENTS) es = Inr r \<and> recorded r = newest TRACE_EVENTS es \<and>
     ring_len r = min (length es) TRACE_EVENTS \<and> (ring_is_empty r \<longleftrightarrow> es = [])"
proof -
  have n: "TRACE_EVENTS = 2 ^ 7"
    by (simp add: TRACE_EVENTS_def)
  have run: "ring_ok 7 r0 \<Longrightarrow> recorded r0 = newest (2 ^ 7) ds \<Longrightarrow>
      \<exists>r. emit_all r0 es = Inr r \<and> ring_ok 7 r \<and> recorded r = newest (2 ^ 7) (ds @ es)" for r0 ds
  proof (induction es arbitrary: r0 ds)
    case (Cons e es)
    obtain r1 where r1: "emit r0 e = Inr r1" "ring_ok 7 r1" "recorded r1 = newest (2 ^ 7) (ds @ [e])"
      using emit_recorded [OF Cons.prems(1), of e] Cons.prems(2) newest_snoc [of "2 ^ 7" ds e] by auto
    then show ?case
      using Cons.IH [OF r1(2,3)] by simp
  qed auto
  obtain r where r: "emit_all (Ring_new TRACE_EVENTS) es = Inr r" "ring_ok 7 r" "recorded r = newest TRACE_EVENTS es"
    using run [of "Ring_new TRACE_EVENTS" "[]"] Ring_new_ok [of 7] Ring_new_recorded [of TRACE_EVENTS] n
    by (auto simp: newest_def)
  then have "ring_len r = min (length es) TRACE_EVENTS"
    using recorded_length [OF r(2)] by (simp add: newest_def)
  then show ?thesis
    using r by (auto simp: ring_is_empty_def TRACE_EVENTS_def min_def split: if_splits)
qed

end
