(* ===== verification/Task.thy ===== *)
theory Task
  imports Kernel_Stack Kernel_Time Trace "HOL-Library.Product_Lexorder"
begin

text \<open>
  Tasks and the scheduler of \<open>task/mod.rs\<close>. The tables are lists of optional entries, ids are
  32-bit words, and a context or a stack is owned by its thread. The type of contexts is a
  parameter: the source selects it at compile time, and what it uses of it is gathered in
  \<open>ContextOps\<close>. The scheduler lock makes every entry point one step.
\<close>

section \<open>Data\<close>

definition SCHED_BASE_WEIGHT :: u32 where
  "SCHED_BASE_WEIGHT = 1024"

definition SCHED_MIN_WEIGHT :: u32 where
  "SCHED_MIN_WEIGHT = 1"

definition SCHED_TIME_SLICE_NS :: u64 where
  "SCHED_TIME_SLICE_NS = 1000000000 div TICK_RATE_HZ"

definition MAX_TASKS :: nat where
  "MAX_TASKS = 32"

definition MAX_PROCESSES :: nat where
  "MAX_PROCESSES = 8"

datatype SchedInitError = ProcessTableFull | ThreadTableFull | MissingKernelStack

datatype ScheduleError = NotInitialized | UnknownThread | ZeroWeight

type_synonym ProcessId = u32
type_synonym ThreadId = u32
type_synonym WaitToken = usize

definition WaitToken_new :: "usize \<Rightarrow> WaitToken option" where
  "WaitToken_new raw = (if raw = 0 then None else Some raw)"

datatype ProcessState = Active | Exiting | Zombie

datatype ThreadState = Ready | Running | Blocked | Exited

definition is_runnable :: "ThreadState \<Rightarrow> bool" where
  "is_runnable s \<longleftrightarrow> s = Ready \<or> s = Running"

record Switch =
  switch_previous :: ThreadId
  switch_next :: ThreadId

record ThreadSnapshot =
  snapshot_id :: ThreadId
  snapshot_process :: ProcessId
  snapshot_state :: ThreadState
  snapshot_weight :: u32
  snapshot_virtual_runtime :: u64
  snapshot_blocked_on :: "WaitToken option"

record Process =
  process_id :: ProcessId
  first_thread :: "ThreadId option"
  thread_count :: u32
  process_state :: ProcessState

record ('c, 'm) Thread =
  thread_id :: ThreadId
  thread_process :: ProcessId
  thread_state :: ThreadState
  thread_context :: 'c
  thread_stack :: "'m KernelStack option"
  blocked_on :: "WaitToken option"
  weight :: u32
  virtual_runtime :: u64
  process_next :: "ThreadId option"
  thread_idle :: bool

text \<open>What the scheduler uses of the selected context module.\<close>

record 'c ContextOps =
  context_empty :: 'c
  context_new :: "usize \<Rightarrow> usize \<Rightarrow> 'c"
  context_set_entry_data :: "'c \<Rightarrow> usize \<Rightarrow> usize \<Rightarrow> 'c"
  thread_trampoline_address :: usize

text \<open>A pointer to a context the scheduler owns.\<close>

datatype context_slot = BootContext | ThreadContext ThreadId

record ContextPair =
  pair_old :: context_slot
  pair_new :: context_slot

record ('c, 'm) Scheduler =
  threads :: "('c, 'm) Thread option list"
  processes :: "Process option list"
  boot_context :: 'c
  next_thread_id :: u32
  next_process_id :: u32
  sched_current :: "ThreadId option"
  sched_idle :: "ThreadId option"
  min_virtual_runtime :: u64
  need_reschedule :: bool
  sched_initialized :: bool
  sched_trace :: Ring

definition Process_new :: "ProcessId \<Rightarrow> Process" where
  "Process_new pid = \<lparr>process_id = pid, first_thread = None, thread_count = 0, process_state = Active\<rparr>"

text \<open>\<open>add_thread\<close> changes the process and the thread it is given.\<close>

definition add_thread :: "Process \<Rightarrow> ('c, 'm) Thread \<Rightarrow> (Process \<times> ('c, 'm) Thread) panics" where
  "add_thread p t =
     (let t = t\<lparr>process_next := first_thread p\<rparr>;
          p = p\<lparr>first_thread := Some (thread_id t)\<rparr>;
          t = t\<lparr>thread_process := process_id p\<rparr>
      in bind_panic (add_words (thread_count p) 1) (\<lambda>n. Inr (p\<lparr>thread_count := n\<rparr>, t)))"

definition Thread_new ::
  "ThreadId \<Rightarrow> ProcessId \<Rightarrow> u32 \<Rightarrow> bool \<Rightarrow> 'c \<Rightarrow> 'm KernelStack option \<Rightarrow> ('c, 'm) Thread" where
  "Thread_new tid pid w idle context stack =
     \<lparr>thread_id = tid, thread_process = pid, thread_state = Ready, thread_context = context,
      thread_stack = stack, blocked_on = None, weight = w, virtual_runtime = 0, process_next = None,
      thread_idle = idle\<rparr>"

definition snapshot :: "('c, 'm) Thread \<Rightarrow> ThreadSnapshot" where
  "snapshot t =
     \<lparr>snapshot_id = thread_id t, snapshot_process = thread_process t, snapshot_state = thread_state t,
      snapshot_weight = weight t, snapshot_virtual_runtime = virtual_runtime t,
      snapshot_blocked_on = blocked_on t\<rparr>"

section \<open>Tables\<close>

abbreviation live_threads :: "('c, 'm) Scheduler \<Rightarrow> ('c, 'm) Thread list" where
  "live_threads s \<equiv> List.map_filter (\<lambda>t. t) (threads s)"

definition find_thread :: "('c, 'm) Scheduler \<Rightarrow> ThreadId \<Rightarrow> ('c, 'm) Thread option" where
  "find_thread s tid = List.find (\<lambda>t. thread_id t = tid) (live_threads s)"

text \<open>Writing through the reference that \<open>thread_mut\<close> returns: the first thread with the id.\<close>

fun update_thread ::
  "ThreadId \<Rightarrow> (('c, 'm) Thread \<Rightarrow> ('c, 'm) Thread) \<Rightarrow> ('c, 'm) Thread option list \<Rightarrow> ('c, 'm) Thread option list"
where
  "update_thread tid f [] = []"
| "update_thread tid f (None # ts) = None # update_thread tid f ts"
| "update_thread tid f (Some t # ts) =
     (if thread_id t = tid then Some (f t) # ts else Some t # update_thread tid f ts)"

definition modify_thread ::
  "ThreadId \<Rightarrow> (('c, 'm) Thread \<Rightarrow> ('c, 'm) Thread) \<Rightarrow> ('c, 'm) Scheduler \<Rightarrow> ('c, 'm) Scheduler" where
  "modify_thread tid f s = s\<lparr>threads := update_thread tid f (threads s)\<rparr>"

text \<open>\<open>position\<close> of the iterator over a table.\<close>

fun position :: "('a \<Rightarrow> bool) \<Rightarrow> 'a list \<Rightarrow> nat option" where
  "position P [] = None"
| "position P (x # xs) = (if P x then Some 0 else map_option Suc (position P xs))"

definition process_index :: "('c, 'm) Scheduler \<Rightarrow> ProcessId \<Rightarrow> nat option" where
  "process_index s pid =
     position (\<lambda>p. case p of None \<Rightarrow> False
                 | Some p \<Rightarrow> process_id p = pid \<and> process_state p = Active) (processes s)"

text \<open>\<open>min_by_key\<close> returns the first of several minimal elements.\<close>

fun min_by_key :: "('a \<Rightarrow> 'k::linorder) \<Rightarrow> 'a list \<Rightarrow> 'a option" where
  "min_by_key key [] = None"
| "min_by_key key (x # xs) = Some (fold (\<lambda>y best. if key y < key best then y else best) xs x)"

definition best_ready_thread :: "('c, 'm) Scheduler \<Rightarrow> ('c, 'm) Thread option" where
  "best_ready_thread s =
     min_by_key (\<lambda>t. (virtual_runtime t, thread_id t))
       (filter (\<lambda>t. thread_state t = Ready \<and> \<not> thread_idle t) (live_threads s))"

definition trace ::
  "TraceKind \<Rightarrow> ThreadId \<Rightarrow> u64 \<Rightarrow> u64 \<Rightarrow> ('c, 'm) Scheduler \<Rightarrow> ('c, 'm) Scheduler panics" where
  "trace kind subject object val s =
     bind_panic (emit (sched_trace s)
         \<lparr>event_kind = kind, event_subject = ucast subject, event_object = object, event_value = val\<rparr>)
       (\<lambda>r. Inr (s\<lparr>sched_trace := r\<rparr>))"

section \<open>Creation\<close>

type_synonym ('a, 'c, 'm) sched_init = "((SchedInitError + 'a) \<times> ('c, 'm) Scheduler) panics"

definition Scheduler_new :: "'c ContextOps \<Rightarrow> nat \<Rightarrow> nat \<Rightarrow> ('c, 'm) Scheduler" where
  "Scheduler_new ops n_threads n_processes =
     \<lparr>threads = replicate n_threads None, processes = replicate n_processes None,
      boot_context = context_empty ops, next_thread_id = 1, next_process_id = 1,
      sched_current = None, sched_idle = None, min_virtual_runtime = 0, need_reschedule = False,
      sched_initialized = False, sched_trace = Ring_new TRACE_EVENTS\<rparr>"

definition create_process :: "('c, 'm) Scheduler \<Rightarrow> (ProcessId, 'c, 'm) sched_init" where
  "create_process s =
     (let pid = next_process_id s;
          s = s\<lparr>next_process_id := max (next_process_id s + 1) 1\<rparr>
      in case position (\<lambda>slot. slot = None) (processes s) of
           None \<Rightarrow> Inr (Inl ProcessTableFull, s)
         | Some i \<Rightarrow> Inr (Inr pid, s\<lparr>processes := (processes s)[i := Some (Process_new pid)]\<rparr>))"

definition insert_thread ::
  "ProcessId \<Rightarrow> u32 \<Rightarrow> bool \<Rightarrow> 'c \<Rightarrow> 'm KernelStack option \<Rightarrow> ('c, 'm) Scheduler \<Rightarrow>
   (ThreadId, 'c, 'm) sched_init" where
  "insert_thread pid w idle context stack s =
     (let tid = next_thread_id s;
          s = s\<lparr>next_thread_id := max (next_thread_id s + 1) 1\<rparr>
      in case process_index s pid of
           None \<Rightarrow> Inr (Inl ProcessTableFull, s)
         | Some pi \<Rightarrow>
      (case position (\<lambda>slot. slot = None) (threads s) of
           None \<Rightarrow> Inr (Inl ThreadTableFull, s)
         | Some ti \<Rightarrow>
             bind_panic (expect ''process index was found'' (processes s ! pi)) (\<lambda>p.
             bind_panic (add_thread p (Thread_new tid pid w idle context stack)) (\<lambda>(p, t).
             let s = s\<lparr>processes := (processes s)[pi := Some p]\<rparr>;
                 t = (if \<not> idle \<and> virtual_runtime t < min_virtual_runtime s
                      then t\<lparr>virtual_runtime := min_virtual_runtime s\<rparr> else t);
                 s = s\<lparr>threads := (threads s)[ti := Some t]\<rparr>
             in bind_panic (if \<not> idle then trace SchedEnqueue tid 0 0 s else Inr s) (\<lambda>s.
                Inr (Inr tid, s))))))"

definition create_thread ::
  "'c ContextOps \<Rightarrow> ProcessId \<Rightarrow> u32 \<Rightarrow> bool \<Rightarrow> ('c, 'm) Scheduler \<Rightarrow> (ThreadId, 'c, 'm) sched_init" where
  "create_thread ops pid w idle s = insert_thread pid w idle (context_empty ops) None s"

definition create_thread_with_stack ::
  "'c ContextOps \<Rightarrow> ProcessId \<Rightarrow> u32 \<Rightarrow> bool \<Rightarrow> 'm KernelStack \<Rightarrow> usize \<Rightarrow> usize \<Rightarrow> ('c, 'm) Scheduler \<Rightarrow>
   (ThreadId, 'c, 'm) sched_init" where
  "create_thread_with_stack ops pid w idle stack entry arg s =
     bind_panic (stack_top stack) (\<lambda>stack_pointer.
     let context = context_new ops (thread_trampoline_address ops) stack_pointer;
         context = context_set_entry_data ops context entry arg
     in insert_thread pid w idle context (Some stack) s)"

text \<open>What \<open>init\<close> and \<open>init_with_idle_thread\<close> do once the idle thread exists.\<close>

definition start_idle :: "ThreadId \<Rightarrow> ('c, 'm) Scheduler \<Rightarrow> (unit, 'c, 'm) sched_init" where
  "start_idle idle s =
     (let s = s\<lparr>sched_idle := Some idle, sched_current := Some idle\<rparr>;
          s = (case find_thread s idle of
                 None \<Rightarrow> s
               | Some _ \<Rightarrow> modify_thread idle (\<lambda>t. t\<lparr>thread_state := Running\<rparr>) s)
      in Inr (Inr (), s\<lparr>sched_initialized := True\<rparr>))"

definition Scheduler_init :: "'c ContextOps \<Rightarrow> ('c, 'm) Scheduler \<Rightarrow> (unit, 'c, 'm) sched_init" where
  "Scheduler_init ops s =
     (let s = Scheduler_new ops (length (threads s)) (length (processes s)) in
      try_bind (create_process s) (\<lambda>kernel s.
      try_bind (create_thread ops kernel SCHED_MIN_WEIGHT True s) start_idle))"

definition init_with_idle_thread ::
  "'c ContextOps \<Rightarrow> 'm KernelStack \<Rightarrow> usize \<Rightarrow> usize \<Rightarrow> ('c, 'm) Scheduler \<Rightarrow> (unit, 'c, 'm) sched_init" where
  "init_with_idle_thread ops stack entry arg s =
     (let s = Scheduler_new ops (length (threads s)) (length (processes s)) in
      try_bind (create_process s) (\<lambda>kernel s.
      try_bind (create_thread_with_stack ops kernel SCHED_MIN_WEIGHT True stack entry arg s) start_idle))"

definition kernel_process :: "('c, 'm) Scheduler \<Rightarrow> ProcessId option" where
  "kernel_process s =
     (case List.map_filter (\<lambda>p. p) (processes s) of [] \<Rightarrow> None | p # _ \<Rightarrow> Some (process_id p))"

definition spawn ::
  "'c ContextOps \<Rightarrow> ProcessId \<Rightarrow> u32 \<Rightarrow> 'm KernelStack \<Rightarrow> usize \<Rightarrow> usize \<Rightarrow> ('c, 'm) Scheduler \<Rightarrow>
   (ThreadId, 'c, 'm) sched_init" where
  "spawn ops pid w stack entry arg s = create_thread_with_stack ops pid w False stack entry arg s"

definition current_snapshot :: "('c, 'm) Scheduler \<Rightarrow> ThreadSnapshot option" where
  "current_snapshot s = map_option snapshot (Option.bind (sched_current s) (find_thread s))"

section \<open>Scheduling\<close>

definition schedule :: "('c, 'm) Scheduler \<Rightarrow> (Switch option \<times> ('c, 'm) Scheduler) panics" where
  "schedule s =
     (case sched_current s of
        None \<Rightarrow> Inr (None, s)
      | Some previous \<Rightarrow>
     (case (case best_ready_thread s of Some t \<Rightarrow> Some (thread_id t) | None \<Rightarrow> sched_idle s) of
        None \<Rightarrow> Inr (None, s)
      | Some nxt \<Rightarrow>
          if previous = nxt then Inr (None, s)
          else
            (let s = (case find_thread s previous of
                        None \<Rightarrow> s
                      | Some t \<Rightarrow>
                          if thread_state t = Running
                          then modify_thread previous (\<lambda>t. t\<lparr>thread_state := Ready\<rparr>) s else s);
                 s = (case find_thread s nxt of
                        None \<Rightarrow> s
                      | Some _ \<Rightarrow> modify_thread nxt (\<lambda>t. t\<lparr>thread_state := Running\<rparr>) s);
                 s = s\<lparr>sched_current := Some nxt\<rparr>
             in bind_panic (trace SchedSwitch previous (ucast nxt) 0 s) (\<lambda>s.
                Inr (Some \<lparr>switch_previous = previous, switch_next = nxt\<rparr>, s)))))"

definition maybe_reschedule :: "('c, 'm) Scheduler \<Rightarrow> (Switch option \<times> ('c, 'm) Scheduler) panics" where
  "maybe_reschedule s =
     (if \<not> need_reschedule s then Inr (None, s) else schedule (s\<lparr>need_reschedule := False\<rparr>))"

text \<open>The virtual time \<open>elapsed\<close> ticks are worth for a thread of weight \<open>w\<close>, in 128-bit arithmetic.\<close>

definition runtime_delta :: "u64 \<Rightarrow> u32 \<Rightarrow> u64" where
  "runtime_delta elapsed w =
     (let elapsed_ns = ucast SCHED_TIME_SLICE_NS * ucast elapsed :: 128 word;
          scaled = elapsed_ns * ucast SCHED_BASE_WEIGHT div ucast w
      in ucast (min scaled (ucast (- 1 :: u64))))"

text \<open>The bookkeeping of \<open>tick\<close> after the runtime of the current thread has been advanced.\<close>

definition update_minimum :: "u64 \<Rightarrow> bool \<Rightarrow> ('c, 'm) Scheduler \<Rightarrow> ('c, 'm) Scheduler" where
  "update_minimum current_runtime is_idle s =
     (case best_ready_thread s of
        Some best \<Rightarrow>
          (let best_runtime = virtual_runtime best;
               s = (if best_runtime < current_runtime then s\<lparr>need_reschedule := True\<rparr> else s);
               current_min = (if is_idle then - 1 else current_runtime);
               next_min = min best_runtime current_min
           in if min_virtual_runtime s < next_min then s\<lparr>min_virtual_runtime := next_min\<rparr> else s)
      | None \<Rightarrow>
          if \<not> is_idle \<and> min_virtual_runtime s < current_runtime
          then s\<lparr>min_virtual_runtime := current_runtime\<rparr> else s)"

definition Scheduler_tick ::
  "u64 \<Rightarrow> ('c, 'm) Scheduler \<Rightarrow> ((ScheduleError + unit) \<times> ('c, 'm) Scheduler) panics" where
  "Scheduler_tick elapsed s =
     (if elapsed = 0 then Inr (Inr (), s)
      else if \<not> sched_initialized s then Inr (Inl NotInitialized, s)
      else
        (case sched_current s of
           None \<Rightarrow> Inr (Inl NotInitialized, s)
         | Some current \<Rightarrow>
        (case find_thread s current of
           None \<Rightarrow> Inr (Inl UnknownThread, s)
         | Some t \<Rightarrow>
             if weight t = 0 then Inr (Inl ZeroWeight, s)
             else
               (let runtime = saturating_add (virtual_runtime t) (runtime_delta elapsed (weight t));
                    s = modify_thread current (\<lambda>t. t\<lparr>virtual_runtime := runtime\<rparr>) s
                in bind_panic (trace SchedTick (thread_id t) 0 runtime s) (\<lambda>s.
                   Inr (Inr (), update_minimum runtime (thread_idle t) s))))))"

definition block_current ::
  "WaitToken \<Rightarrow> ('c, 'm) Scheduler \<Rightarrow> ((ScheduleError + Switch option) \<times> ('c, 'm) Scheduler) panics" where
  "block_current wait s =
     (case sched_current s of
        None \<Rightarrow> Inr (Inl NotInitialized, s)
      | Some current \<Rightarrow>
     (case find_thread s current of
        None \<Rightarrow> Inr (Inl UnknownThread, s)
      | Some _ \<Rightarrow>
          bind_panic (trace SchedBlock current 0 wait
            (modify_thread current (\<lambda>t. t\<lparr>blocked_on := Some wait, thread_state := Blocked\<rparr>) s)) (\<lambda>s.
          bind_panic (schedule s) (\<lambda>(switch, s). Inr (Inr switch, s)))))"

definition wake ::
  "ThreadId \<Rightarrow> ('c, 'm) Scheduler \<Rightarrow> ((ScheduleError + unit) \<times> ('c, 'm) Scheduler) panics" where
  "wake tid s =
     (case find_thread s tid of
        None \<Rightarrow> Inr (Inl UnknownThread, s)
      | Some t \<Rightarrow>
          if thread_state t = Blocked then
            bind_panic (trace SchedWake tid 0 0
              (modify_thread tid
                (\<lambda>t. let t = t\<lparr>blocked_on := None, thread_state := Ready\<rparr> in
                   if virtual_runtime t < min_virtual_runtime s
                   then t\<lparr>virtual_runtime := min_virtual_runtime s\<rparr> else t) s)) (\<lambda>s.
            Inr (Inr (), s))
          else Inr (Inr (), s))"

section \<open>Switching contexts\<close>

definition enter_idle_contexts ::
  "('c, 'm) Scheduler \<Rightarrow> (ScheduleError + ContextPair) \<times> ('c, 'm) Scheduler" where
  "enter_idle_contexts s =
     (if \<not> sched_initialized s then (Inl NotInitialized, s)
      else
        (case sched_idle s of
           None \<Rightarrow> (Inl NotInitialized, s)
         | Some idle \<Rightarrow>
        (case find_thread s idle of
           None \<Rightarrow> (Inl UnknownThread, s)
         | Some t \<Rightarrow>
             if thread_stack t = None then (Inl UnknownThread, s)
             else
               (let s = modify_thread idle (\<lambda>t. t\<lparr>thread_state := Running\<rparr>) s;
                    s = s\<lparr>sched_current := Some idle\<rparr>
                in (Inr \<lparr>pair_old = BootContext, pair_new = ThreadContext idle\<rparr>, s)))))"

definition preempt_contexts ::
  "('c, 'm) Scheduler \<Rightarrow> ((ScheduleError + ContextPair option) \<times> ('c, 'm) Scheduler) panics" where
  "preempt_contexts s =
     (if \<not> sched_initialized s then Inr (Inl NotInitialized, s)
      else if \<not> need_reschedule s then Inr (Inr None, s)
      else
        bind_panic (schedule (s\<lparr>need_reschedule := False\<rparr>)) (\<lambda>(switch, s).
        case switch of
          None \<Rightarrow> Inr (Inr None, s)
        | Some sw \<Rightarrow>
            bind_panic (trace SchedPreempt (switch_previous sw) (ucast (switch_next sw)) 0 s) (\<lambda>s.
            case find_thread s (switch_previous sw) of
              None \<Rightarrow> Inr (Inl UnknownThread, s)
            | Some _ \<Rightarrow>
            (case find_thread s (switch_next sw) of
               None \<Rightarrow> Inr (Inl UnknownThread, s)
             | Some _ \<Rightarrow>
                 Inr (Inr (Some \<lparr>pair_old = ThreadContext (switch_previous sw),
                                 pair_new = ThreadContext (switch_next sw)\<rparr>), s)))))"

text \<open>
  The entry points that switch: the routine is given the two contexts once the lock is released
  and changes the machine \<open>w\<close>.
\<close>

type_synonym 'w switch_routine = "context_slot \<Rightarrow> context_slot \<Rightarrow> 'w \<Rightarrow> 'w"

definition enter_idle ::
  "'w switch_routine \<Rightarrow> ('c, 'm) Scheduler \<Rightarrow> 'w \<Rightarrow> (ScheduleError + unit) \<times> ('c, 'm) Scheduler \<times> 'w" where
  "enter_idle switch_context s w =
     (case enter_idle_contexts s of
        (Inl e, s) \<Rightarrow> (Inl e, s, w)
      | (Inr pair, s) \<Rightarrow> (Inr (), s, switch_context (pair_old pair) (pair_new pair) w))"

definition preempt_from_trap ::
  "'w switch_routine \<Rightarrow> ('c, 'm) Scheduler \<Rightarrow> 'w \<Rightarrow> ((ScheduleError + unit) \<times> ('c, 'm) Scheduler \<times> 'w) panics"
where
  "preempt_from_trap switch_context s w =
     bind_panic (preempt_contexts s) (\<lambda>(r, s).
     case r of
       Inl e \<Rightarrow> Inr (Inl e, s, w)
     | Inr None \<Rightarrow> Inr (Inr (), s, w)
     | Inr (Some pair) \<Rightarrow> Inr (Inr (), s, switch_context (pair_old pair) (pair_new pair) w))"

definition tick :: "u64 \<Rightarrow> ('c, 'm) Scheduler \<Rightarrow> ('c, 'm) Scheduler panics" where
  "tick elapsed s = bind_panic (Scheduler_tick elapsed s) (\<lambda>(_, s). Inr s)"

definition trace_len :: "('c, 'm) Scheduler \<Rightarrow> nat" where
  "trace_len s = ring_len (sched_trace s)"

section \<open>Threads of a process\<close>

text \<open>
  \<open>remove_thread\<close> walks the list of the process; the links are ids, so the walk is bounded by the
  fuel and a missing thread ends it.
\<close>

fun unlink_thread ::
  "nat \<Rightarrow> ThreadId \<Rightarrow> ThreadId option \<Rightarrow> ThreadId option \<Rightarrow> Process \<Rightarrow> ('c, 'm) Scheduler \<Rightarrow>
   (bool \<times> Process \<times> ('c, 'm) Scheduler) panics option" where
  "unlink_thread 0 tid previous current p s = None"
| "unlink_thread (Suc fuel) tid previous current p s =
     (case current of
        None \<Rightarrow> Some (Inr (False, p, s))
      | Some current_id \<Rightarrow>
     (case find_thread s current_id of
        None \<Rightarrow> Some (Inr (False, p, s))
      | Some t \<Rightarrow>
          if current_id = tid then
            (let nxt = process_next t;
                 s = modify_thread current_id (\<lambda>t. t\<lparr>process_next := None\<rparr>) s;
                 (p, s) = (case previous of
                     Some previous_id \<Rightarrow> (p, modify_thread previous_id (\<lambda>t. t\<lparr>process_next := nxt\<rparr>) s)
                   | None \<Rightarrow> (p\<lparr>first_thread := nxt\<rparr>, s))
             in Some (bind_panic (sub_words (thread_count p) 1) (\<lambda>n.
                  Inr (n = 0, p\<lparr>thread_count := n\<rparr>, s))))
          else unlink_thread fuel tid current (process_next t) p s))"

definition remove_thread ::
  "Process \<Rightarrow> ThreadId \<Rightarrow> ('c, 'm) Scheduler \<Rightarrow> (bool \<times> Process \<times> ('c, 'm) Scheduler) panics option" where
  "remove_thread p tid s = unlink_thread (length (threads s) + 1) tid None (first_thread p) p s"

end
