(* ===== verification/Task_Invariant.thy ===== *)
theory Task_Invariant
  imports Task
begin

text \<open>
  The invariant of the scheduler. The thread table is a finite map from ids to threads; exactly one
  thread runs, and it is the current one; exactly one thread is the idle thread; and the links of
  every process list its threads. Creation, ticks, switches, blocking and waking keep it and never
  panic.
\<close>

section \<open>The thread table as a map\<close>

lemma map_filter_Cons [simp]:
  "List.map_filter (\<lambda>x. x) (None # xs) = List.map_filter (\<lambda>x. x) xs"
  "List.map_filter (\<lambda>x. x) (Some y # xs) = y # List.map_filter (\<lambda>x. x) xs"
  "List.map_filter (\<lambda>x. x) [] = []"
  by (simp_all add: map_filter_def)

lemma in_map_filter: "t \<in> set (List.map_filter (\<lambda>x. x) xs) \<longleftrightarrow> Some t \<in> set xs"
proof (induction xs)
  case (Cons x xs)
  then show ?case
    by (cases x) auto
qed simp

lemma find_map: "List.find P xs = Some x \<Longrightarrow> x \<in> set xs \<and> P x"
  by (induction xs) (auto split: if_splits)

lemma find_threadD:
  assumes "find_thread s i = Some t"
  shows "t \<in> set (live_threads s)" "thread_id t = i"
  using find_map [OF assms [unfolded find_thread_def]] by auto

lemma find_distinct:
  "distinct (map key xs) \<Longrightarrow> x \<in> set xs \<Longrightarrow> List.find (\<lambda>y. key y = key x) xs = Some x"
  by (induction xs) auto

definition ids_distinct :: "('c, 'm) Scheduler \<Rightarrow> bool" where
  "ids_distinct s \<longleftrightarrow> distinct (map thread_id (live_threads s))"

lemma find_thread_iff:
  assumes "ids_distinct s"
  shows "find_thread s i = Some t \<longleftrightarrow> t \<in> set (live_threads s) \<and> thread_id t = i"
  using find_threadD find_distinct [of thread_id "live_threads s" t] assms
  by (auto simp: find_thread_def ids_distinct_def)

text \<open>Updates that keep the identity of a thread.\<close>

definition keeps_id :: "(('c, 'm) Thread \<Rightarrow> ('c, 'm) Thread) \<Rightarrow> bool" where
  "keeps_id f \<longleftrightarrow> (\<forall>t. thread_id (f t) = thread_id t)"

lemma find_update:
  assumes "keeps_id f"
  shows "List.find (\<lambda>t. thread_id t = j) (List.map_filter (\<lambda>t. t) (update_thread i f ts)) =
    (let found = List.find (\<lambda>t. thread_id t = j) (List.map_filter (\<lambda>t. t) ts)
     in if i = j then map_option f found else found)"
  using assms by (induction i f ts rule: update_thread.induct) (auto simp: keeps_id_def Let_def)

lemma find_modify:
  assumes "keeps_id f"
  shows "find_thread (modify_thread i f s) j = (if i = j then map_option f (find_thread s i) else find_thread s j)"
  using find_update [OF assms, of j i "threads s"]
  by (simp add: find_thread_def modify_thread_def Let_def)

lemma ids_update:
  "keeps_id f \<Longrightarrow> map thread_id (List.map_filter (\<lambda>t. t) (update_thread i f ts)) =
     map thread_id (List.map_filter (\<lambda>t. t) ts)"
  by (induction i f ts rule: update_thread.induct) (auto simp: keeps_id_def)

lemma ids_modify: "keeps_id f \<Longrightarrow> ids_distinct (modify_thread i f s) = ids_distinct s"
  using ids_update [of f i "threads s"] by (simp add: ids_distinct_def modify_thread_def)

lemma modify_fields [simp]:
  "processes (modify_thread i f s) = processes s"
  "boot_context (modify_thread i f s) = boot_context s"
  "next_thread_id (modify_thread i f s) = next_thread_id s"
  "next_process_id (modify_thread i f s) = next_process_id s"
  "sched_current (modify_thread i f s) = sched_current s"
  "sched_idle (modify_thread i f s) = sched_idle s"
  "min_virtual_runtime (modify_thread i f s) = min_virtual_runtime s"
  "need_reschedule (modify_thread i f s) = need_reschedule s"
  "sched_initialized (modify_thread i f s) = sched_initialized s"
  "sched_trace (modify_thread i f s) = sched_trace s"
  by (simp_all add: modify_thread_def)

lemma length_update [simp]: "length (update_thread i f ts) = length ts"
  by (induction i f ts rule: update_thread.induct) auto

section \<open>Processes\<close>

text \<open>The list of threads from a link.\<close>

fun linked :: "('c, 'm) Scheduler \<Rightarrow> ThreadId option \<Rightarrow> ThreadId list \<Rightarrow> bool" where
  "linked s link [] \<longleftrightarrow> link = None"
| "linked s link (i # ids) \<longleftrightarrow>
     link = Some i \<and> (\<exists>t. find_thread s i = Some t \<and> linked s (process_next t) ids)"

definition threads_of :: "('c, 'm) Scheduler \<Rightarrow> ProcessId \<Rightarrow> ThreadId set" where
  "threads_of s pid = {i. \<exists>t. find_thread s i = Some t \<and> thread_process t = pid}"

definition process_ok :: "('c, 'm) Scheduler \<Rightarrow> Process \<Rightarrow> bool" where
  "process_ok s p \<longleftrightarrow>
     (\<exists>ids. linked s (first_thread p) ids \<and> distinct ids \<and> set ids = threads_of s (process_id p) \<and>
        unat (thread_count p) = length ids)"

abbreviation live_processes :: "('c, 'm) Scheduler \<Rightarrow> Process list" where
  "live_processes s \<equiv> List.map_filter (\<lambda>p. p) (processes s)"

section \<open>The invariant\<close>

text \<open>What holds of a thread at every moment; \<open>c\<close> is the current and \<open>i\<close> the idle thread.\<close>

definition thread_ok :: "('c, 'm) Scheduler \<Rightarrow> ThreadId \<Rightarrow> ThreadId \<Rightarrow> ('c, 'm) Thread \<Rightarrow> bool" where
  "thread_ok s c i t \<longleftrightarrow>
     0 < thread_id t \<and> thread_id t < next_thread_id s \<and> weight t \<noteq> 0 \<and>
     (thread_state t = Running \<longrightarrow> thread_id t = c) \<and> (thread_idle t \<longleftrightarrow> thread_id t = i) \<and>
     thread_state t \<noteq> Exited \<and> (blocked_on t \<noteq> None \<longleftrightarrow> thread_state t = Blocked) \<and>
     (thread_idle t \<longrightarrow> thread_state t \<noteq> Blocked)"

definition threads_ok :: "('c, 'm) Scheduler \<Rightarrow> ThreadId \<Rightarrow> ThreadId \<Rightarrow> bool" where
  "threads_ok s c i \<longleftrightarrow>
     ids_distinct s \<and> find_thread s i \<noteq> None \<and>
     (\<exists>t. find_thread s c = Some t \<and> thread_state t \<noteq> Ready) \<and>
     (\<forall>j t. find_thread s j = Some t \<longrightarrow> thread_ok s c i t)"

definition threads_inv :: "('c, 'm) Scheduler \<Rightarrow> ThreadId \<Rightarrow> ThreadId \<Rightarrow> bool" where
  "threads_inv s c i \<longleftrightarrow>
     threads_ok s c i \<and> (\<exists>t. find_thread s c = Some t \<and> thread_state t = Running)"

definition processes_inv :: "('c, 'm) Scheduler \<Rightarrow> bool" where
  "processes_inv s \<longleftrightarrow>
     distinct (map process_id (live_processes s)) \<and>
     (\<forall>p \<in> set (live_processes s). process_id p < next_process_id s \<and> process_ok s p)"

definition sched_inv :: "('c, 'm) Scheduler \<Rightarrow> bool" where
  "sched_inv s \<longleftrightarrow>
     sched_initialized s \<and> ring_ok 7 (sched_trace s) \<and> length (threads s) \<le> MAX_TASKS \<and>
     (\<exists>c i. sched_current s = Some c \<and> sched_idle s = Some i \<and> threads_inv s c i) \<and> processes_inv s"

lemma find_thread_cong: "threads s' = threads s \<Longrightarrow> find_thread s' = find_thread s"
  by (simp add: find_thread_def fun_eq_iff)

lemma ids_cong: "threads s' = threads s \<Longrightarrow> ids_distinct s' = ids_distinct s"
  by (simp add: ids_distinct_def)

lemma linked_cong:
  assumes "\<And>i. map_option process_next (find_thread s' i) = map_option process_next (find_thread s i)"
  shows "linked s' link ids = linked s link ids"
proof (induction ids arbitrary: link)
  case (Cons i ids)
  then show ?case
    using assms [of i] by (cases "find_thread s i"; cases "find_thread s' i") auto
qed simp

text \<open>Two states whose threads have the same place in their process.\<close>

definition same_places :: "('c, 'm) Scheduler \<Rightarrow> ('c, 'm) Scheduler \<Rightarrow> bool" where
  "same_places s s' \<longleftrightarrow>
     (\<forall>i. map_option (\<lambda>t. (process_next t, thread_process t)) (find_thread s' i) =
          map_option (\<lambda>t. (process_next t, thread_process t)) (find_thread s i))"

lemma same_placesD:
  assumes "same_places s s'"
  shows "map_option process_next (find_thread s' i) = map_option process_next (find_thread s i)"
    "map_option thread_process (find_thread s' i) = map_option thread_process (find_thread s i)"
  using arg_cong [OF assms [unfolded same_places_def, rule_format, of i], of "map_option fst"]
    arg_cong [OF assms [unfolded same_places_def, rule_format, of i], of "map_option snd"]
  by (simp_all add: option.map_comp comp_def)

lemma process_ok_places:
  assumes "same_places s s'"
  shows "process_ok s' p = process_ok s p"
proof -
  have "threads_of s pid = {i. map_option thread_process (find_thread s i) = Some pid}"
    for s :: "('a, 'b) Scheduler" and pid
    by (auto simp: threads_of_def)
  then have "threads_of s' pid = threads_of s pid" for pid
    by (simp only: same_placesD(2) [OF assms])
  then show ?thesis
    using linked_cong [OF same_placesD(1) [OF assms]] by (simp add: process_ok_def)
qed

lemma processes_inv_places:
  assumes "same_places s s'" "processes s' = processes s" "next_process_id s' = next_process_id s"
  shows "processes_inv s' = processes_inv s"
  unfolding processes_inv_def assms(2,3) process_ok_places [OF assms(1)] ..

definition keeps_place :: "(('c, 'm) Thread \<Rightarrow> ('c, 'm) Thread) \<Rightarrow> bool" where
  "keeps_place f \<longleftrightarrow> keeps_id f \<and>
     (\<forall>t. process_next (f t) = process_next t \<and> thread_process (f t) = thread_process t)"

lemma same_places_modify:
  assumes "keeps_place f"
  shows "same_places s (modify_thread i f s)"
  using assms find_modify [of f i s] by (auto simp: same_places_def keeps_place_def option.map_comp comp_def)

lemma same_places_trans: "same_places a b \<Longrightarrow> same_places b c \<Longrightarrow> same_places a c"
  by (simp add: same_places_def)

lemma same_places_cong:
  assumes "threads s' = threads s"
  shows "same_places s s'"
  by (simp add: same_places_def find_thread_cong [OF assms])

section \<open>Choosing the next thread\<close>

lemma fold_min:
  fixes key :: "'a \<Rightarrow> 'k::linorder"
  defines "pick \<equiv> fold (\<lambda>y best. if key y < key best then y else best)"
  shows "pick xs x \<in> set (x # xs) \<and> (\<forall>y \<in> set (x # xs). key (pick xs x) \<le> key y)"
proof (induction xs arbitrary: x)
  case (Cons z xs)
  show ?case
    using Cons.IH [of "if key z < key x then z else x"]
    by (auto simp: pick_def split: if_splits intro: order_trans less_imp_le)
qed (simp add: pick_def)

lemma min_by_key_Some:
  "min_by_key key xs = Some x \<Longrightarrow> x \<in> set xs \<and> (\<forall>y \<in> set xs. key x \<le> key y)"
proof (cases xs)
  case (Cons z zs)
  assume "min_by_key key xs = Some x"
  then have "x = fold (\<lambda>y best. if key y < key best then y else best) zs z"
    using Cons by simp
  then show ?thesis
    using fold_min [of key zs z] Cons by simp
qed simp

lemma min_by_key_None [simp]: "min_by_key key xs = None \<longleftrightarrow> xs = []"
  by (cases xs) auto

definition candidate :: "('c, 'm) Thread \<Rightarrow> bool" where
  "candidate t \<longleftrightarrow> thread_state t = Ready \<and> \<not> thread_idle t"

lemma best_ready_Some:
  assumes "ids_distinct s" "best_ready_thread s = Some t"
  shows "find_thread s (thread_id t) = Some t" "candidate t"
    "\<And>j u. find_thread s j = Some u \<Longrightarrow> candidate u \<Longrightarrow>
       (virtual_runtime t, thread_id t) \<le> (virtual_runtime u, thread_id u)"
proof -
  note m = min_by_key_Some [OF assms(2) [unfolded best_ready_thread_def]]
  show "find_thread s (thread_id t) = Some t" "candidate t"
    using m find_thread_iff [OF assms(1)] by (auto simp: candidate_def)
  show "(virtual_runtime t, thread_id t) \<le> (virtual_runtime u, thread_id u)"
    if "find_thread s j = Some u" "candidate u" for j u
    using m that find_thread_iff [OF assms(1)] by (auto simp: candidate_def)
qed

lemma best_ready_None:
  assumes "ids_distinct s"
  shows "best_ready_thread s = None \<longleftrightarrow> (\<forall>j u. find_thread s j = Some u \<longrightarrow> \<not> candidate u)"
  using find_thread_iff [OF assms] by (auto simp: best_ready_thread_def candidate_def filter_empty_conv)

section \<open>Tracing\<close>

lemma trace_outcome:
  assumes "ring_ok 7 (sched_trace s)"
  shows "\<exists>r. trace k a b v s = Inr (s\<lparr>sched_trace := r\<rparr>) \<and> ring_ok 7 r"
proof -
  obtain r where "emit (sched_trace s) \<lparr>event_kind = k, event_subject = ucast a, event_object = b,
      event_value = v\<rparr> = Inr r" "ring_ok 7 r"
    using emit_recorded [OF assms] by blast
  then show ?thesis
    by (auto simp: trace_def)
qed

section \<open>Switching\<close>

abbreviation set_state :: "ThreadState \<Rightarrow> ('c, 'm) Thread \<Rightarrow> ('c, 'm) Thread" where
  "set_state st t \<equiv> t\<lparr>thread_state := st\<rparr>"

lemma keeps_set_state: "keeps_place (set_state st)"
  by (simp add: keeps_place_def keeps_id_def)

lemma keeps_set_state_id: "keeps_id (set_state st)"
  by (simp add: keeps_id_def)

text \<open>The outgoing thread stays runnable unless it has been blocked.\<close>

definition demote :: "('c, 'm) Thread \<Rightarrow> ('c, 'm) Thread" where
  "demote t = (if thread_state t = Running then set_state Ready t else t)"

lemma keeps_demote: "keeps_place demote"
  by (simp add: keeps_place_def keeps_id_def demote_def)

lemma keeps_demote_id: "keeps_id demote"
  by (simp add: keeps_id_def demote_def)

definition next_choice :: "('c, 'm) Scheduler \<Rightarrow> ThreadId \<Rightarrow> ThreadId" where
  "next_choice s i = (case best_ready_thread s of Some t \<Rightarrow> thread_id t | None \<Rightarrow> i)"

lemma next_choice_found:
  assumes "threads_ok s c i"
  shows "\<exists>t. find_thread s (next_choice s i) = Some t \<and> thread_state t \<noteq> Blocked"
proof (cases "best_ready_thread s")
  case None
  obtain t where "find_thread s i = Some t"
    using assms by (auto simp: threads_ok_def)
  moreover have "thread_ok s c i t" "thread_id t = i"
    using assms calculation find_threadD(2) by (auto simp: threads_ok_def)
  ultimately show ?thesis
    using None by (auto simp: next_choice_def thread_ok_def)
next
  case (Some t)
  then show ?thesis
    using best_ready_Some [of s t] assms by (auto simp: next_choice_def threads_ok_def candidate_def)
qed

definition switched :: "('c, 'm) Scheduler \<Rightarrow> ThreadId \<Rightarrow> ThreadId \<Rightarrow> ('c, 'm) Scheduler" where
  "switched s c n =
     (modify_thread n (set_state Running) (modify_thread c demote s))\<lparr>sched_current := Some n\<rparr>"

lemma update_id: "(\<And>t. Some t \<in> set ts \<Longrightarrow> thread_id t = i \<Longrightarrow> f t = t) \<Longrightarrow> update_thread i f ts = ts"
  by (induction i f ts rule: update_thread.induct) auto

lemma modify_same:
  assumes "ids_distinct s" "find_thread s i = Some t" "f t = g t"
  shows "modify_thread i f s = modify_thread i g s"
proof -
  have "update_thread i f ts = update_thread i g ts"
    if "\<And>u. Some u \<in> set ts \<Longrightarrow> thread_id u = i \<Longrightarrow> f u = g u" for ts
    using that by (induction i f ts rule: update_thread.induct) auto
  moreover have "f u = g u" if "Some u \<in> set (threads s)" "thread_id u = i" for u
    using that assms find_thread_iff [OF assms(1), of i u] by (simp add: in_map_filter)
  ultimately show ?thesis
    by (simp add: modify_thread_def)
qed

lemma modify_id:
  assumes "ids_distinct s" "find_thread s i = Some t" "f t = t"
  shows "modify_thread i f s = s"
proof -
  have "f u = u" if "Some u \<in> set (threads s)" "thread_id u = i" for u
    using that assms find_thread_iff [OF assms(1), of i u] by (simp add: in_map_filter)
  then show ?thesis
    using update_id [of "threads s" i f] by (simp add: modify_thread_def)
qed

lemma schedule_outcome:
  assumes cur: "sched_current s = Some c" and idle: "sched_idle s = Some i"
    and ok: "threads_ok s c i" and ring: "ring_ok 7 (sched_trace s)"
  shows "if next_choice s i = c then schedule s = Inr (None, s)
    else \<exists>r. ring_ok 7 r \<and> schedule s =
      Inr (Some \<lparr>switch_previous = c, switch_next = next_choice s i\<rparr>,
           (switched s c (next_choice s i))\<lparr>sched_trace := r\<rparr>)"
proof (cases "next_choice s i = c")
  case True
  then show ?thesis
    using cur idle by (auto simp: schedule_def next_choice_def split: option.splits)
next
  case False
  obtain t where t: "find_thread s c = Some t" and d: "ids_distinct s"
    using ok by (auto simp: threads_ok_def)
  obtain u where u: "find_thread s (next_choice s i) = Some u"
    using next_choice_found [OF ok] by blast
  let ?s1 = "modify_thread c demote s" and ?n = "next_choice s i"
  have s1: "(case find_thread s c of None \<Rightarrow> s | Some t \<Rightarrow>
      if thread_state t = Running then modify_thread c (set_state Ready) s else s) = ?s1"
    using t modify_same [OF d t, of "set_state Ready" demote] modify_id [OF d t, of demote]
    by (auto simp: demote_def)
  have n1: "find_thread ?s1 ?n = Some u"
    using u False by (simp add: find_modify [OF keeps_demote_id])
  have "ring_ok 7 (sched_trace (switched s c ?n))"
    using ring by (simp add: switched_def)
  then obtain r where r: "trace SchedSwitch c (ucast ?n) 0 (switched s c ?n) = Inr ((switched s c ?n)\<lparr>sched_trace := r\<rparr>)"
      "ring_ok 7 r"
    using trace_outcome by blast
  have "(case best_ready_thread s of Some t \<Rightarrow> Some (thread_id t) | None \<Rightarrow> sched_idle s) = Some ?n"
    using idle by (simp add: next_choice_def split: option.split)
  then have "schedule s = Inr (Some \<lparr>switch_previous = c, switch_next = ?n\<rparr>, (switched s c ?n)\<lparr>sched_trace := r\<rparr>)"
    using cur False n1 r(1) by (simp add: schedule_def Let_def s1 switched_def)
  then show ?thesis
    using False r(2) by auto
qed

lemma find_switched:
  assumes "c \<noteq> n"
  shows "find_thread (switched s c n) j =
    (if j = n then map_option (set_state Running) (find_thread s n)
     else if j = c then map_option demote (find_thread s c) else find_thread s j)"
proof -
  have "find_thread (switched s c n) j =
      find_thread (modify_thread n (set_state Running) (modify_thread c demote s)) j"
    by (simp add: switched_def find_thread_def)
  then show ?thesis
    using assms by (simp add: find_modify [OF keeps_demote_id] find_modify [OF keeps_set_state_id])
qed

lemma switched_ids: "ids_distinct (switched s c n) = ids_distinct s"
proof -
  have "ids_distinct (switched s c n) =
      ids_distinct (modify_thread n (set_state Running) (modify_thread c demote s))"
    by (simp add: switched_def ids_distinct_def)
  then show ?thesis
    by (simp add: ids_modify [OF keeps_demote_id] ids_modify [OF keeps_set_state_id])
qed

lemma switched_places: "same_places s (switched s c n)"
  using same_places_trans [OF same_places_modify [OF keeps_demote] same_places_modify [OF keeps_set_state]]
  by (simp add: switched_def same_places_def find_thread_def)

lemma threads_ok_switched:
  assumes ok: "threads_ok s c i" and ne: "n \<noteq> c"
    and n: "find_thread s n = Some u" "thread_state u \<noteq> Blocked"
  shows "threads_inv (switched s c n) n i"
proof -
  have all: "\<And>j t. find_thread s j = Some t \<Longrightarrow> thread_ok s c i t" and d: "ids_distinct s"
    using ok by (auto simp: threads_ok_def)
  have nt: "next_thread_id (switched s c n) = next_thread_id s"
    by (simp add: switched_def)
  have un: "thread_id u = n"
    using find_threadD(2) [OF n(1)] .
  have "thread_ok (switched s c n) n i t" if t: "find_thread (switched s c n) j = Some t" for j t
  proof (cases "j = n")
    case True
    then have "t = set_state Running u"
      using t n by (simp add: find_switched [OF ne [symmetric]])
    then show ?thesis
      using all [OF n(1)] un n(2) by (auto simp: thread_ok_def nt)
  next
    case False
    obtain v where v: "find_thread s j = Some v" "t = (if j = c then demote v else v)"
      using t False by (auto simp: find_switched [OF ne [symmetric]] split: if_splits)
    have vj: "thread_id v = j"
      using find_threadD(2) [OF v(1)] .
    show ?thesis
      using all [OF v(1)] v(2) vj False by (auto simp: thread_ok_def nt demote_def)
  qed
  moreover have "find_thread (switched s c n) i \<noteq> None"
    using ok by (auto simp: find_switched [OF ne [symmetric]] threads_ok_def n)
  ultimately show ?thesis
    using n(1) d by (auto simp: threads_inv_def threads_ok_def switched_ids find_switched [OF ne [symmetric]])
qed

text \<open>Fields that the invariant of threads does not depend on.\<close>

lemma threads_inv_cong:
  assumes "threads s' = threads s" "next_thread_id s' = next_thread_id s"
  shows "threads_ok s' c i = threads_ok s c i" "threads_inv s' c i = threads_inv s c i"
  by (simp_all add: threads_inv_def threads_ok_def find_thread_cong [OF assms(1)] ids_cong [OF assms(1)]
      thread_ok_def assms(2))

lemma sched_invI:
  assumes "sched_initialized s" "ring_ok 7 (sched_trace s)" "length (threads s) \<le> MAX_TASKS"
    "sched_current s = Some c" "sched_idle s = Some i" "threads_inv s c i" "processes_inv s"
  shows "sched_inv s"
  using assms by (auto simp: sched_inv_def)

lemma switched_fields [simp]:
  "length (threads (switched s c n)) = length (threads s)" "processes (switched s c n) = processes s"
  "next_process_id (switched s c n) = next_process_id s" "next_thread_id (switched s c n) = next_thread_id s"
  "sched_idle (switched s c n) = sched_idle s" "sched_initialized (switched s c n) = sched_initialized s"
  "sched_current (switched s c n) = Some n" "min_virtual_runtime (switched s c n) = min_virtual_runtime s"
  "need_reschedule (switched s c n) = need_reschedule s" "boot_context (switched s c n) = boot_context s"
  by (simp_all add: switched_def modify_thread_def)

lemma same_places_field:
  assumes "same_places s s'" "threads s'' = threads s'"
  shows "same_places s s''"
  using assms(1) unfolding same_places_def find_thread_cong [OF assms(2)] .

lemma switched_inv:
  assumes cur: "sched_current s = Some c" and idle: "sched_idle s = Some i"
    and ok: "threads_ok s c i" and ring: "ring_ok 7 r" and init: "sched_initialized s"
    and len: "length (threads s) \<le> MAX_TASKS" and proc: "processes_inv s" and ne: "next_choice s i \<noteq> c"
  shows "sched_inv ((switched s c (next_choice s i))\<lparr>sched_trace := r\<rparr>)"
proof (rule sched_invI)
  let ?n = "next_choice s i" and ?s = "(switched s c (next_choice s i))\<lparr>sched_trace := r\<rparr>"
  obtain u where u: "find_thread s ?n = Some u" "thread_state u \<noteq> Blocked"
    using next_choice_found [OF ok] by blast
  show "threads_inv ?s ?n i"
    using threads_ok_switched [OF ok ne u] threads_inv_cong(2) [of ?s "switched s c ?n"] by simp
  show "processes_inv ?s"
    using processes_inv_places [OF same_places_field [OF switched_places, of ?s s c ?n]] proc by simp
qed (use assms in simp_all)

lemma schedule_inv:
  assumes "sched_inv s"
  shows "\<exists>sw s'. schedule s = Inr (sw, s') \<and> sched_inv s' \<and> sched_idle s' = sched_idle s"
proof -
  obtain c i where ci: "sched_current s = Some c" "sched_idle s = Some i" "threads_ok s c i"
    using assms by (auto simp: sched_inv_def threads_inv_def)
  show ?thesis
    using schedule_outcome [OF ci] switched_inv [OF ci] assms
    by (cases "next_choice s i = c") (auto simp: sched_inv_def)
qed

section \<open>Ticks, blocking and waking\<close>

lemma modify_threads_ok:
  assumes "keeps_id f" and ok: "threads_ok s c i"
    and "\<And>t. find_thread s j = Some t \<Longrightarrow> thread_ok s c i (f t) \<and> (j = c \<longrightarrow> thread_state (f t) \<noteq> Ready)"
  shows "threads_ok (modify_thread j f s) c i"
proof -
  have "thread_ok (modify_thread j f s) c i t" if "find_thread (modify_thread j f s) k = Some t" for k t
    using that assms by (auto simp: find_modify [OF assms(1)] threads_ok_def thread_ok_def split: if_splits)
  moreover have "\<exists>t. find_thread (modify_thread j f s) c = Some t \<and> thread_state t \<noteq> Ready"
    using ok assms(3) by (auto simp: find_modify [OF assms(1)] threads_ok_def)
  ultimately show ?thesis
    using ok by (auto simp: threads_ok_def ids_modify [OF assms(1)] find_modify [OF assms(1)])
qed

lemma modify_threads_inv:
  assumes "keeps_id f" and inv: "threads_inv s c i"
    and "\<And>t. find_thread s j = Some t \<Longrightarrow> thread_ok s c i (f t) \<and> (j = c \<longrightarrow> thread_state (f t) = Running)"
  shows "threads_inv (modify_thread j f s) c i"
proof -
  have "threads_ok (modify_thread j f s) c i"
    using modify_threads_ok [OF assms(1), of s c i j] assms(2,3) by (fastforce simp: threads_inv_def)
  moreover have "\<exists>t. find_thread (modify_thread j f s) c = Some t \<and> thread_state t = Running"
    using inv assms(3) by (auto simp: find_modify [OF assms(1)] threads_inv_def)
  ultimately show ?thesis
    by (simp add: threads_inv_def)
qed

text \<open>The current thread of a state that satisfies the invariant.\<close>

lemma sched_inv_current:
  assumes "sched_inv s"
  obtains c i t where "sched_current s = Some c" "sched_idle s = Some i" "threads_inv s c i"
    "find_thread s c = Some t" "thread_state t = Running" "thread_ok s c i t" "thread_id t = c"
proof -
  obtain c i where ci: "sched_current s = Some c" "sched_idle s = Some i" "threads_inv s c i"
    using assms by (auto simp: sched_inv_def)
  obtain t where t: "find_thread s c = Some t" "thread_state t = Running"
    using ci(3) by (auto simp: threads_inv_def)
  moreover have "thread_ok s c i t"
    using ci(3) t(1) by (simp add: threads_inv_def threads_ok_def)
  ultimately show thesis
    using that ci find_threadD(2) [OF t(1)] by blast
qed

abbreviation set_runtime :: "u64 \<Rightarrow> ('c, 'm) Thread \<Rightarrow> ('c, 'm) Thread" where
  "set_runtime v t \<equiv> t\<lparr>virtual_runtime := v\<rparr>"

lemma keeps_set_runtime: "keeps_place (set_runtime v)" and keeps_set_runtime_id: "keeps_id (set_runtime v)"
  by (simp_all add: keeps_place_def keeps_id_def)

lemma update_minimum_fields [simp]:
  "threads (update_minimum v b s) = threads s" "processes (update_minimum v b s) = processes s"
  "next_thread_id (update_minimum v b s) = next_thread_id s"
  "next_process_id (update_minimum v b s) = next_process_id s"
  "sched_current (update_minimum v b s) = sched_current s" "sched_idle (update_minimum v b s) = sched_idle s"
  "sched_initialized (update_minimum v b s) = sched_initialized s"
  "sched_trace (update_minimum v b s) = sched_trace s" "boot_context (update_minimum v b s) = boot_context s"
  by (simp_all add: update_minimum_def Let_def split: option.split)

lemma tick_outcome:
  assumes inv: "sched_inv s" and "elapsed \<noteq> 0" and c: "sched_current s = Some c" "find_thread s c = Some t"
  shows "\<exists>r. ring_ok 7 r \<and> Scheduler_tick elapsed s =
    Inr (Inr (), update_minimum (saturating_add (virtual_runtime t) (runtime_delta elapsed (weight t)))
      (thread_idle t)
      ((modify_thread c (set_runtime (saturating_add (virtual_runtime t) (runtime_delta elapsed (weight t)))) s)
        \<lparr>sched_trace := r\<rparr>))"
proof -
  obtain i where "threads_inv s c i"
    using inv c by (auto simp: sched_inv_def)
  then have w: "weight t \<noteq> 0"
    using c(2) by (auto simp: threads_inv_def threads_ok_def thread_ok_def)
  let ?v = "saturating_add (virtual_runtime t) (runtime_delta elapsed (weight t))"
  have "ring_ok 7 (sched_trace (modify_thread c (set_runtime ?v) s))"
    using inv by (simp add: sched_inv_def)
  then obtain r where r: "trace SchedTick (thread_id t) 0 ?v (modify_thread c (set_runtime ?v) s) =
      Inr ((modify_thread c (set_runtime ?v) s)\<lparr>sched_trace := r\<rparr>)" "ring_ok 7 r"
    using trace_outcome by blast
  have "sched_initialized s"
    using inv by (simp add: sched_inv_def)
  then show ?thesis
    using assms(2) c w r by (intro exI [of _ r]) (simp add: Scheduler_tick_def Let_def)
qed

lemma tick_inv:
  assumes inv: "sched_inv s"
  shows "\<exists>res s'. Scheduler_tick elapsed s = Inr (res, s') \<and> sched_inv s' \<and> sched_idle s' = sched_idle s"
proof (cases "elapsed = 0")
  case True
  then show ?thesis
    using inv by (simp add: Scheduler_tick_def)
next
  case False
  obtain c i t where c: "sched_current s = Some c" "sched_idle s = Some i" "threads_inv s c i"
    "find_thread s c = Some t" "thread_state t = Running" "thread_ok s c i t"
    using sched_inv_current [OF inv] by metis
  obtain r v where r: "ring_ok 7 r" "Scheduler_tick elapsed s = Inr (Inr (), update_minimum v (thread_idle t)
      ((modify_thread c (set_runtime v) s)\<lparr>sched_trace := r\<rparr>))"
    using tick_outcome [OF inv False c(1,4)] by blast
  let ?s1 = "modify_thread c (set_runtime v) s"
  let ?s' = "update_minimum v (thread_idle t) (?s1\<lparr>sched_trace := r\<rparr>)"
  have "sched_inv ?s'"
  proof (rule sched_invI)
    have "threads_inv ?s1 c i"
      using c by (intro modify_threads_inv [OF keeps_set_runtime_id]) (auto simp: thread_ok_def)
    then show "threads_inv ?s' c i"
      using threads_inv_cong(2) [of ?s' ?s1] by simp
    have "same_places s ?s'"
      by (rule same_places_field [OF same_places_modify [OF keeps_set_runtime]]) simp
    then show "processes_inv ?s'"
      using processes_inv_places [of s ?s'] inv by (simp add: sched_inv_def)
  qed (use c r inv in \<open>simp_all add: sched_inv_def modify_thread_def\<close>)
  then show ?thesis
    using r(2) by simp
qed

lemma sched_inv_need [simp]: "sched_inv (s\<lparr>need_reschedule := b\<rparr>) = sched_inv s"
proof -
  let ?s = "s\<lparr>need_reschedule := b\<rparr>"
  have "threads_inv ?s c i = threads_inv s c i" for c i
    by (rule threads_inv_cong) simp_all
  moreover have "processes_inv ?s = processes_inv s"
    by (rule processes_inv_places [OF same_places_cong]) simp_all
  ultimately show ?thesis
    by (simp add: sched_inv_def)
qed

lemma next_choice_need [simp]: "next_choice (s\<lparr>need_reschedule := b\<rparr>) i = next_choice s i"
  by (simp add: next_choice_def best_ready_thread_def)

lemma wake_inv:
  assumes inv: "sched_inv s"
  shows "\<exists>res s'. wake tid s = Inr (res, s') \<and> sched_inv s' \<and> sched_idle s' = sched_idle s"
proof (cases "\<exists>t. find_thread s tid = Some t \<and> thread_state t = Blocked")
  case False
  then show ?thesis
    using inv by (auto simp: wake_def split: option.splits)
next
  case True
  then obtain t where t: "find_thread s tid = Some t" "thread_state t = Blocked"
    by blast
  define f where "f = (\<lambda>t :: ('a, 'b) Thread. let t = t\<lparr>blocked_on := None, thread_state := Ready\<rparr> in
    if virtual_runtime t < min_virtual_runtime s then t\<lparr>virtual_runtime := min_virtual_runtime s\<rparr> else t)"
  have k: "keeps_place f" "keeps_id f"
    by (simp_all add: keeps_place_def keeps_id_def f_def Let_def)
  obtain c i u where c: "sched_current s = Some c" "sched_idle s = Some i" "threads_inv s c i"
    "find_thread s c = Some u" "thread_state u = Running"
    using sched_inv_current [OF inv] by metis
  let ?s1 = "modify_thread tid f s"
  have "ring_ok 7 (sched_trace ?s1)"
    using inv by (simp add: sched_inv_def)
  then obtain r where r: "trace SchedWake tid 0 0 ?s1 = Inr (?s1\<lparr>sched_trace := r\<rparr>)" "ring_ok 7 r"
    using trace_outcome by blast
  have "thread_ok s c i t" "tid \<noteq> c"
    using c t by (auto simp: threads_inv_def threads_ok_def)
  then have inv1: "threads_inv ?s1 c i"
    using c(3) t by (intro modify_threads_inv [OF k(2)]) (auto simp: thread_ok_def f_def Let_def)
  have "sched_inv (?s1\<lparr>sched_trace := r\<rparr>)"
  proof (rule sched_invI)
    show "threads_inv (?s1\<lparr>sched_trace := r\<rparr>) c i"
      using inv1 threads_inv_cong(2) [of "?s1\<lparr>sched_trace := r\<rparr>" ?s1] by simp
    have "same_places s (?s1\<lparr>sched_trace := r\<rparr>)"
      by (rule same_places_field [OF same_places_modify [OF k(1)]]) simp
    then show "processes_inv (?s1\<lparr>sched_trace := r\<rparr>)"
      using processes_inv_places [of s "?s1\<lparr>sched_trace := r\<rparr>"] inv by (simp add: sched_inv_def)
  qed (use c r inv in \<open>simp_all add: sched_inv_def modify_thread_def\<close>)
  then show ?thesis
    using r(1) t by (simp add: wake_def f_def)
qed

lemma block_inv:
  assumes inv: "sched_inv s" and ne: "sched_current s \<noteq> sched_idle s"
  shows "\<exists>sw s'. block_current wait s = Inr (Inr (Some sw), s') \<and> sched_inv s' \<and> sched_idle s' = sched_idle s"
proof -
  obtain c i u where c: "sched_current s = Some c" "sched_idle s = Some i" "threads_inv s c i"
    "find_thread s c = Some u" "thread_state u = Running" "thread_ok s c i u"
    using sched_inv_current [OF inv] by metis
  have ci: "c \<noteq> i"
    using ne c by simp
  define f where "f = (\<lambda>t :: ('a, 'b) Thread. t\<lparr>blocked_on := Some wait, thread_state := Blocked\<rparr>)"
  have k: "keeps_place f" "keeps_id f"
    by (simp_all add: keeps_place_def keeps_id_def f_def)
  let ?s1 = "modify_thread c f s"
  have "ring_ok 7 (sched_trace ?s1)"
    using inv by (simp add: sched_inv_def)
  then obtain r where r: "trace SchedBlock c 0 wait ?s1 = Inr (?s1\<lparr>sched_trace := r\<rparr>)" "ring_ok 7 r"
    using trace_outcome by blast
  let ?s2 = "?s1\<lparr>sched_trace := r\<rparr>"
  have "threads_ok ?s1 c i"
    using c ci by (intro modify_threads_ok [OF k(2)]) (auto simp: thread_ok_def f_def threads_inv_def)
  then have ok: "threads_ok ?s2 c i"
    using threads_inv_cong(1) [of ?s2 ?s1] by simp
  have proc: "processes_inv ?s2"
  proof -
    have "same_places s ?s2"
      by (rule same_places_field [OF same_places_modify [OF k(1)]]) simp
    then show ?thesis
      using processes_inv_places [of s ?s2] inv by (simp add: sched_inv_def)
  qed
  have ids: "ids_distinct ?s2"
    using ok by (simp add: threads_ok_def)
  have "find_thread ?s2 c = Some (f u)"
    using c(4) find_modify [OF k(2), of c s c] by (simp add: find_thread_def)
  then have "next_choice ?s2 i \<noteq> c"
    using best_ready_Some [OF ids] ci by (fastforce simp: next_choice_def candidate_def f_def split: option.splits)
  then show ?thesis
    using schedule_outcome [of ?s2 c i] switched_inv [of ?s2 c i] c ok r proc inv
    by (auto simp: block_current_def sched_inv_def modify_thread_def f_def)
qed

lemma enter_idle_inv:
  assumes inv: "sched_inv s" and cur: "sched_current s = sched_idle s"
  shows "\<exists>res. enter_idle_contexts s = (res, s)"
proof -
  obtain c i t where c: "sched_current s = Some c" "sched_idle s = Some i" "threads_inv s c i"
    "find_thread s c = Some t" "thread_state t = Running"
    using sched_inv_current [OF inv] by metis
  have "modify_thread c (set_state Running) s = s"
    using c by (intro modify_id) (auto simp: threads_inv_def threads_ok_def)
  moreover have "s\<lparr>sched_current := Some c\<rparr> = s"
    using c(1) by simp
  ultimately show ?thesis
    using c cur by (simp add: enter_idle_contexts_def Let_def)
qed

lemma maybe_reschedule_inv:
  "sched_inv s \<Longrightarrow> \<exists>sw s'. maybe_reschedule s = Inr (sw, s') \<and> sched_inv s' \<and> sched_idle s' = sched_idle s"
  using schedule_inv [of "s\<lparr>need_reschedule := False\<rparr>"] by (auto simp: maybe_reschedule_def)

lemma preempt_outcome:
  assumes inv: "sched_inv s" and c: "sched_current s = Some c" "sched_idle s = Some i"
  shows "if \<not> need_reschedule s then preempt_contexts s = Inr (Inr None, s)
    else if next_choice s i = c then preempt_contexts s = Inr (Inr None, s\<lparr>need_reschedule := False\<rparr>)
    else \<exists>r. ring_ok 7 r \<and> preempt_contexts s =
      Inr (Inr (Some \<lparr>pair_old = ThreadContext c, pair_new = ThreadContext (next_choice s i)\<rparr>),
        (switched (s\<lparr>need_reschedule := False\<rparr>) c (next_choice s i))\<lparr>sched_trace := r\<rparr>)"
proof -
  let ?s = "s\<lparr>need_reschedule := False\<rparr>" and ?n = "next_choice s i"
  have inv': "sched_inv ?s" and init: "sched_initialized s"
    using inv by (simp_all add: sched_inv_def [of s])
  have ok: "threads_ok ?s c i" and ring: "ring_ok 7 (sched_trace ?s)"
    using inv' c by (auto simp: sched_inv_def threads_inv_def)
  show ?thesis
  proof (cases "need_reschedule s \<and> ?n \<noteq> c")
    case True
    then obtain r where r: "ring_ok 7 r" "schedule ?s =
        Inr (Some \<lparr>switch_previous = c, switch_next = ?n\<rparr>, (switched ?s c ?n)\<lparr>sched_trace := r\<rparr>)"
      using schedule_outcome [OF _ _ ok ring] c by auto
    let ?s1 = "(switched ?s c ?n)\<lparr>sched_trace := r\<rparr>"
    have "ring_ok 7 (sched_trace ?s1)"
      using r(1) by simp
    then obtain r' where r': "trace SchedPreempt c (ucast ?n) 0 ?s1 = Inr (?s1\<lparr>sched_trace := r'\<rparr>)" "ring_ok 7 r'"
      using trace_outcome by blast
    have f: "find_thread (?s1\<lparr>sched_trace := r'\<rparr>) j = find_thread (switched ?s c ?n) j" for j
      by (simp add: find_thread_def)
    have "\<exists>u. find_thread (switched ?s c ?n) c = Some u" "\<exists>u. find_thread (switched ?s c ?n) ?n = Some u"
      using ok next_choice_found [OF ok] True by (auto simp: find_switched threads_ok_def)
    then show ?thesis
      using True init r r' f by (auto simp: preempt_contexts_def)
  next
    case False
    then show ?thesis
      using init schedule_outcome [of ?s c i, OF _ _ ok ring] c by (auto simp: preempt_contexts_def)
  qed
qed

lemma preempt_inv:
  assumes inv: "sched_inv s"
  shows "\<exists>res s'. preempt_contexts s = Inr (res, s') \<and> sched_inv s' \<and> sched_idle s' = sched_idle s"
proof -
  obtain c i where c: "sched_current s = Some c" "sched_idle s = Some i"
    using sched_inv_current [OF inv] by metis
  let ?s = "s\<lparr>need_reschedule := False\<rparr>"
  have inv': "sched_inv ?s"
    using inv by simp
  have ok: "threads_ok ?s c i"
    using inv' c by (auto simp: sched_inv_def threads_inv_def)
  have parts: "sched_initialized ?s" "length (threads ?s) \<le> MAX_TASKS" "processes_inv ?s"
    using inv' unfolding sched_inv_def by blast+
  show ?thesis
  proof (cases "need_reschedule s \<and> next_choice s i \<noteq> c")
    case True
    then obtain r where r: "ring_ok 7 r" "preempt_contexts s =
      Inr (Inr (Some \<lparr>pair_old = ThreadContext c, pair_new = ThreadContext (next_choice s i)\<rparr>),
        (switched ?s c (next_choice s i))\<lparr>sched_trace := r\<rparr>)"
      using preempt_outcome [OF inv c] by auto
    then show ?thesis
      using switched_inv [of ?s c i, OF _ _ ok r(1) parts] c True by simp
  next
    case False
    then show ?thesis
      using preempt_outcome [OF inv c] inv inv' by (auto split: if_splits)
  qed
qed

end
