(* ===== verification/Task_Creation.thy ===== *)
theory Task_Creation
  imports Task_Invariant
begin

text \<open>
  Creation of threads and of the scheduler. A new thread takes a free entry of the table and a
  fresh id and becomes the first of its process; the invariant holds after initialization and is
  kept by every creation, as long as the counter of thread ids has not wrapped around.
\<close>

section \<open>Free entries\<close>

lemma position_None: "position P xs = None \<longleftrightarrow> (\<forall>x \<in> set xs. \<not> P x)"
  by (induction xs) auto

lemma position_SomeD: "position P xs = Some n \<Longrightarrow> n < length xs \<and> P (xs ! n)"
  by (induction xs arbitrary: n) (auto split: if_splits)

lemma find_new:
  "xs ! n = None \<Longrightarrow> n < length xs \<Longrightarrow> List.find (\<lambda>t. thread_id t = thread_id x) (List.map_filter (\<lambda>t. t) xs) = None \<Longrightarrow>
   List.find (\<lambda>t. thread_id t = j) (List.map_filter (\<lambda>t. t) (xs[n := Some x])) =
     (if j = thread_id x then Some x else List.find (\<lambda>t. thread_id t = j) (List.map_filter (\<lambda>t. t) xs))"
proof (induction xs arbitrary: n)
  case (Cons y ys)
  then show ?case
    by (cases y; cases n) (auto split: if_splits)
qed simp

lemma ids_new:
  "xs ! n = None \<Longrightarrow> n < length xs \<Longrightarrow> distinct (map thread_id (List.map_filter (\<lambda>t. t) xs)) \<Longrightarrow>
   thread_id x \<notin> thread_id ` set (List.map_filter (\<lambda>t. t) xs) \<Longrightarrow>
   distinct (map thread_id (List.map_filter (\<lambda>t. t) (xs[n := Some x]))) \<and>
   set (List.map_filter (\<lambda>t. t) (xs[n := Some x])) = insert x (set (List.map_filter (\<lambda>t. t) xs))"
proof (induction xs arbitrary: n)
  case (Cons y ys)
  then show ?case
    by (cases y; cases n) auto
qed simp

text \<open>The state with the thread \<open>t\<close> entered at \<open>n\<close>.\<close>

abbreviation enter_thread :: "nat \<Rightarrow> ('c, 'm) Thread \<Rightarrow> ('c, 'm) Scheduler \<Rightarrow> ('c, 'm) Scheduler" where
  "enter_thread n t s \<equiv> s\<lparr>threads := (threads s)[n := Some t]\<rparr>"

lemma find_enter:
  assumes "threads s ! n = None" "n < length (threads s)" "find_thread s (thread_id t) = None"
  shows "find_thread (enter_thread n t s) j = (if j = thread_id t then Some t else find_thread s j)"
  using find_new [of "threads s" n t j] assms by (simp add: find_thread_def)

lemma enter_ids:
  assumes "threads s ! n = None" "n < length (threads s)" "ids_distinct s" "find_thread s (thread_id t) = None"
  shows "ids_distinct (enter_thread n t s)"
proof -
  have "thread_id t \<notin> thread_id ` set (live_threads s)"
    using find_thread_iff [OF assms(3)] assms(4) by force
  then show ?thesis
    using ids_new [of "threads s" n t] assms by (simp add: ids_distinct_def)
qed

section \<open>Process lists\<close>

lemma linked_members: "linked s link ids \<Longrightarrow> j \<in> set ids \<Longrightarrow> find_thread s j \<noteq> None"
  by (induction ids arbitrary: link) auto

lemma linked_enter:
  assumes "\<And>j. j \<in> set ids \<Longrightarrow> find_thread s' j = find_thread s j"
  shows "linked s' link ids = linked s link ids"
  using assms by (induction ids arbitrary: link) auto

lemma distinct_ids_bound:
  assumes "ids_distinct s" "distinct ids" "\<And>j. j \<in> set ids \<Longrightarrow> find_thread s j \<noteq> None"
  shows "length ids \<le> length (threads s)"
proof -
  have "set ids \<subseteq> thread_id ` set (live_threads s)"
    using assms(3) find_threadD by fastforce
  then have "card (set ids) \<le> length (live_threads s)"
    by (metis card_image_le card_length card_mono finite_imageI List.finite_set le_trans)
  moreover have "length (List.map_filter (\<lambda>t. t) ts) \<le> length ts" for ts :: "('a, 'b) Thread option list"
    by (simp add: map_filter_def)
  ultimately show ?thesis
    using distinct_card [OF assms(2)] by (metis le_trans)
qed

lemma process_ok_other:
  assumes "process_ok s p" and f: "\<And>j. find_thread s' j = (if j = k then Some t else find_thread s j)"
    and new: "find_thread s k = None" and other: "thread_process t \<noteq> process_id p"
  shows "process_ok s' p"
proof -
  obtain ids where ids: "linked s (first_thread p) ids" "distinct ids" "set ids = threads_of s (process_id p)"
      "unat (thread_count p) = length ids"
    using assms(1) by (auto simp: process_ok_def)
  have "k \<notin> set ids"
    using linked_members [OF ids(1), of k] new by blast
  then have "linked s' (first_thread p) ids"
    using ids(1) linked_enter [of ids s' s] f by metis
  moreover have "threads_of s' (process_id p) = threads_of s (process_id p)"
    using new other by (auto simp: threads_of_def f split: if_splits)
  ultimately show ?thesis
    using ids unfolding process_ok_def by blast
qed

lemma process_ok_joined:
  assumes "process_ok s p" and f: "\<And>j. find_thread s' j = (if j = thread_id t then Some t else find_thread s j)"
    and new: "find_thread s (thread_id t) = None"
    and t: "thread_process t = process_id p" "process_next t = first_thread p"
    and p': "first_thread p' = Some (thread_id t)" "process_id p' = process_id p"
      "unat (thread_count p') = unat (thread_count p) + 1"
  shows "process_ok s' p'"
proof -
  obtain ids where ids: "linked s (first_thread p) ids" "distinct ids" "set ids = threads_of s (process_id p)"
      "unat (thread_count p) = length ids"
    using assms(1) by (auto simp: process_ok_def)
  have k: "thread_id t \<notin> set ids"
    using linked_members [OF ids(1), of "thread_id t"] new by blast
  then have "linked s' (first_thread p) ids"
    using ids(1) linked_enter [of ids s' s] f by metis
  then have "linked s' (first_thread p') (thread_id t # ids)"
    using f t p' by simp
  moreover have "set (thread_id t # ids) = threads_of s' (process_id p')"
    using ids(3) new t p' by (auto simp: threads_of_def f split: if_splits)
  moreover have "distinct (thread_id t # ids)" "unat (thread_count p') = length (thread_id t # ids)"
    using ids k p' by auto
  ultimately show ?thesis
    unfolding process_ok_def by blast
qed

section \<open>Inserting a thread\<close>

lemma next_id:
  fixes n :: u32
  assumes "n \<noteq> - 1"
  shows "max (n + 1) 1 = n + 1" "unat (n + 1) = unat n + 1" "m < n \<Longrightarrow> m < n + 1" "n < n + 1"
proof -
  have "unat n \<noteq> 2 ^ 32 - 1"
    using assms unat_max32 word_unat_eq_iff [of n "- 1"] by simp
  then have lt: "unat n + 1 < 2 ^ 32"
    using unat_bound [of n] by simp
  then show u: "unat (n + 1) = unat n + 1"
    by (simp add: unat_add_no_overflow)
  then show "max (n + 1) 1 = n + 1" "m < n \<Longrightarrow> m < n + 1" "n < n + 1"
    by (simp_all add: max_def word_le_nat_alt word_less_nat_alt unsigned_eq_0_iff)
qed

text \<open>What creating a thread relies on.\<close>

definition creation_ok :: "('c, 'm) Scheduler \<Rightarrow> bool" where
  "creation_ok s \<longleftrightarrow>
     ring_ok 7 (sched_trace s) \<and> length (threads s) \<le> MAX_TASKS \<and> ids_distinct s \<and> processes_inv s \<and>
     0 < next_thread_id s \<and> next_thread_id s \<noteq> - 1 \<and>
     (\<forall>j t. find_thread s j = Some t \<longrightarrow> thread_id t < next_thread_id s)"

lemma creation_fresh:
  assumes "creation_ok s"
  shows "find_thread s (next_thread_id s) = None"
proof (rule ccontr)
  assume "find_thread s (next_thread_id s) \<noteq> None"
  then obtain t where "find_thread s (next_thread_id s) = Some t"
    by blast
  then show False
    using find_threadD(2) assms by (fastforce simp: creation_ok_def)
qed

lemma process_index_SomeD:
  assumes "process_index s pid = Some n"
  shows "\<exists>p. n < length (processes s) \<and> processes s ! n = Some p \<and> process_id p = pid \<and> process_state p = Active"
  using position_SomeD [OF assms [unfolded process_index_def]] by (auto split: option.splits)

text \<open>Replacing one process of the table.\<close>

lemma live_update:
  "n < length ps \<Longrightarrow> ps ! n = Some p \<Longrightarrow> process_id p' = process_id p \<Longrightarrow>
   map process_id (List.map_filter (\<lambda>p. p) (ps[n := Some p'])) = map process_id (List.map_filter (\<lambda>p. p) ps) \<and>
   set (List.map_filter (\<lambda>p. p) (ps[n := Some p'])) \<subseteq> insert p' (set (List.map_filter (\<lambda>p. p) ps))"
proof (induction ps arbitrary: n)
  case (Cons q ps)
  then show ?case
    by (cases q; cases n) auto
qed simp

lemma processes_inv_insert:
  assumes inv: "processes_inv s" and n: "n < length (processes s)" "processes s ! n = Some p"
    and f: "\<And>j. find_thread s' j = (if j = thread_id t then Some t else find_thread s j)"
    and new: "find_thread s (thread_id t) = None"
    and t: "thread_process t = process_id p" "process_next t = first_thread p"
    and p': "first_thread p' = Some (thread_id t)" "process_id p' = process_id p"
      "unat (thread_count p') = unat (thread_count p) + 1"
    and s': "processes s' = (processes s)[n := Some p']" "next_process_id s' = next_process_id s"
  shows "processes_inv s'"
proof -
  have p: "p \<in> set (live_processes s)"
    using n by (metis in_map_filter nth_mem)
  note upd = live_update [OF n p'(2)]
  have d: "distinct (map process_id (live_processes s'))"
    using inv upd by (simp add: processes_inv_def s')
  have "process_id q < next_process_id s' \<and> process_ok s' q" if q: "q \<in> set (live_processes s')" for q
  proof (cases "process_id q = process_id p")
    case True
    have "p' \<in> set (live_processes s')"
      using n(1) by (simp add: s' in_map_filter set_update_memI)
    then have "q = p'"
      using d q True p'(2) by (metis distinct_map inj_onD)
    then show ?thesis
      using process_ok_joined [OF _ f new t p'] inv p p'(2) s'(2) by (simp add: processes_inv_def)
  next
    case False
    then have "q \<in> set (live_processes s)"
      using q upd p'(2) by (auto simp: s')
    then show ?thesis
      using process_ok_other [OF _ f new] inv False t(1) s'(2) by (auto simp: processes_inv_def)
  qed
  then show ?thesis
    using d by (simp add: processes_inv_def)
qed

text \<open>The thread that creation enters into the table.\<close>

definition created ::
  "('c, 'm) Scheduler \<Rightarrow> ProcessId \<Rightarrow> u32 \<Rightarrow> bool \<Rightarrow> 'c \<Rightarrow> 'm KernelStack option \<Rightarrow> ThreadId option \<Rightarrow> ('c, 'm) Thread"
where
  "created s pid w idle context stack link =
     (Thread_new (next_thread_id s) pid w idle context stack)
       \<lparr>process_next := link, virtual_runtime := if idle then 0 else min_virtual_runtime s\<rparr>"

definition inserted :: "('c, 'm) Scheduler \<Rightarrow> ('c, 'm) Thread \<Rightarrow> ('c, 'm) Scheduler \<Rightarrow> bool" where
  "inserted s t s' \<longleftrightarrow>
     (\<forall>j. find_thread s' j = (if j = thread_id t then Some t else find_thread s j)) \<and>
     ids_distinct s' \<and> processes_inv s' \<and> ring_ok 7 (sched_trace s') \<and>
     length (threads s') = length (threads s) \<and> next_thread_id s' = next_thread_id s + 1 \<and>
     sched_current s' = sched_current s \<and> sched_idle s' = sched_idle s \<and>
     sched_initialized s' = sched_initialized s \<and> min_virtual_runtime s' = min_virtual_runtime s \<and>
     need_reschedule s' = need_reschedule s \<and> boot_context s' = boot_context s"

lemma add_thread_outcome:
  assumes "unat (thread_count p) < 2 ^ 32 - 1"
  shows "\<exists>p'. add_thread p t = Inr (p', t\<lparr>process_next := first_thread p, thread_process := process_id p\<rparr>) \<and>
    first_thread p' = Some (thread_id t) \<and> process_id p' = process_id p \<and>
    unat (thread_count p') = unat (thread_count p) + 1"
  using assms by (simp add: add_thread_def add_words_def unat_add_no_overflow)

lemma insert_thread_success:
  assumes pre: "creation_ok s" and pi: "process_index s pid = Some pi"
    and ti: "position (\<lambda>slot. slot = None) (threads s) = Some ti"
  shows "\<exists>s' link. insert_thread pid w idle context stack s = Inr (Inr (next_thread_id s), s') \<and>
    inserted s (created s pid w idle context stack link) s'"
proof -
  let ?tid = "next_thread_id s"
  have nid: "max (?tid + 1) 1 = ?tid + 1"
    using next_id(1) pre by (simp add: creation_ok_def)
  obtain p where p: "pi < length (processes s)" "processes s ! pi = Some p" "process_id p = pid"
    using process_index_SomeD [OF pi] by blast
  have t: "ti < length (threads s)" "threads s ! ti = None"
    using position_SomeD [OF ti] by auto
  have "p \<in> set (live_processes s)"
    using p by (metis in_map_filter nth_mem)
  then have "process_ok s p"
    using pre by (simp add: creation_ok_def processes_inv_def)
  then obtain ids where "distinct ids" "unat (thread_count p) = length ids" "linked s (first_thread p) ids"
    by (auto simp: process_ok_def)
  then have "unat (thread_count p) \<le> 32"
    using distinct_ids_bound [of s ids] linked_members [of s _ ids] pre
    by (fastforce simp: creation_ok_def MAX_TASKS_def)
  then obtain p' where p': "add_thread p (Thread_new ?tid pid w idle context stack) =
        Inr (p', (Thread_new ?tid pid w idle context stack)\<lparr>process_next := first_thread p, thread_process := process_id p\<rparr>)"
      "first_thread p' = Some ?tid" "process_id p' = process_id p"
      "unat (thread_count p') = unat (thread_count p) + 1"
    using add_thread_outcome [of p "Thread_new ?tid pid w idle context stack"] by (auto simp: Thread_new_def)
  define u where "u = created s pid w idle context stack (first_thread p)"
  have uid: "thread_id u = ?tid" "thread_process u = process_id p" "process_next u = first_thread p"
    using p(3) by (simp_all add: u_def created_def Thread_new_def)
  define s1 where "s1 = s\<lparr>next_thread_id := ?tid + 1, processes := (processes s)[pi := Some p'],
    threads := (threads s)[ti := Some u]\<rparr>"
  have f: "find_thread s1 j = (if j = thread_id u then Some u else find_thread s j)" for j
    using find_enter [OF t(2,1), of u j] creation_fresh [OF pre] uid by (simp add: s1_def find_thread_def)
  have ids1: "ids_distinct s1"
    using enter_ids [OF t(2,1), of u] creation_fresh [OF pre] pre uid
    by (simp add: s1_def creation_ok_def ids_distinct_def)
  have proc1: "processes_inv s1"
    using processes_inv_insert [OF _ p(1,2) f _ uid(2,3) _ p'(3,4)] creation_fresh [OF pre] pre uid(1) p'(2)
    by (simp add: s1_def creation_ok_def)
  have "\<exists>r. (if \<not> idle then trace SchedEnqueue ?tid 0 0 s1 else Inr s1) = Inr (s1\<lparr>sched_trace := r\<rparr>) \<and> ring_ok 7 r"
  proof (cases idle)
    case True
    then show ?thesis
      using pre by (intro exI [of _ "sched_trace s"]) (simp add: s1_def creation_ok_def)
  next
    case False
    then show ?thesis
      using trace_outcome [of s1 SchedEnqueue ?tid 0 0] pre by (simp add: s1_def creation_ok_def)
  qed
  then obtain r where r: "(if \<not> idle then trace SchedEnqueue ?tid 0 0 s1 else Inr s1) = Inr (s1\<lparr>sched_trace := r\<rparr>)"
      "ring_ok 7 r"
    by blast
  have u: "(let t = (Thread_new ?tid pid w idle context stack)\<lparr>process_next := first_thread p, thread_process := pid\<rparr>
      in if \<not> idle \<and> virtual_runtime t < min_virtual_runtime s
         then t\<lparr>virtual_runtime := min_virtual_runtime s\<rparr> else t) = u"
    by (auto simp: u_def created_def Thread_new_def Let_def word_gt_0)
  have pi': "process_index (s\<lparr>next_thread_id := ?tid + 1\<rparr>) pid = Some pi"
    using pi by (simp add: process_index_def)
  have "insert_thread pid w idle context stack s =
      bind_panic (if \<not> idle then trace SchedEnqueue ?tid 0 0 s1 else Inr s1) (\<lambda>s. Inr (Inr ?tid, s))"
    unfolding insert_thread_def Let_def nid pi'
    using ti p(2,3) p'(1) u [unfolded Let_def] by (auto simp: s1_def split: if_splits)
  then have "insert_thread pid w idle context stack s = Inr (Inr ?tid, s1\<lparr>sched_trace := r\<rparr>)"
    using r(1) by simp
  moreover have "inserted s u (s1\<lparr>sched_trace := r\<rparr>)"
  proof -
    let ?s = "s1\<lparr>sched_trace := r\<rparr>"
    have same: "threads ?s = threads s1"
      by simp
    have "processes_inv ?s"
      using processes_inv_places [OF same_places_cong [OF same]] proc1 by simp
    moreover have "find_thread ?s = find_thread s1" "ids_distinct ?s"
      using find_thread_cong [OF same] ids_cong [OF same] ids1 by simp_all
    ultimately show ?thesis
      using f r(2) unfolding inserted_def by (simp add: s1_def)
  qed
  ultimately show ?thesis
    unfolding u_def by blast
qed

lemma insert_thread_errors:
  fixes s :: "('c, 'm) Scheduler"
  assumes "next_thread_id s \<noteq> - 1"
  shows "process_index s pid = None \<Longrightarrow> insert_thread pid w idle context stack s =
      Inr (Inl ProcessTableFull, s\<lparr>next_thread_id := next_thread_id s + 1\<rparr>)"
    "process_index s pid \<noteq> None \<Longrightarrow> None \<notin> set (threads s) \<Longrightarrow> insert_thread pid w idle context stack s =
      Inr (Inl ThreadTableFull, s\<lparr>next_thread_id := next_thread_id s + 1\<rparr>)"
proof -
  have i: "process_index (s\<lparr>next_thread_id := v\<rparr>) pid = process_index s pid" for v
    by (simp add: process_index_def)
  show "process_index s pid = None \<Longrightarrow> insert_thread pid w idle context stack s =
      Inr (Inl ProcessTableFull, s\<lparr>next_thread_id := next_thread_id s + 1\<rparr>)"
    by (simp add: insert_thread_def Let_def i next_id(1) [OF assms])
  show "insert_thread pid w idle context stack s =
      Inr (Inl ThreadTableFull, s\<lparr>next_thread_id := next_thread_id s + 1\<rparr>)"
    if "process_index s pid \<noteq> None" "None \<notin> set (threads s)"
  proof -
    have "position (\<lambda>slot. slot = None) (threads s) = None"
      using that(2) unfolding position_None by metis
    then show ?thesis
      using that(1) by (auto simp: insert_thread_def Let_def i next_id(1) [OF assms])
  qed
qed

section \<open>Spawning\<close>

lemma sched_inv_creation:
  assumes inv: "sched_inv s" and "next_thread_id s \<noteq> - 1"
  shows "creation_ok s"
proof -
  obtain c i t where c: "threads_inv s c i" "find_thread s c = Some t" "thread_ok s c i t"
    using sched_inv_current [OF inv] by metis
  then have "0 < next_thread_id s"
    by (auto simp: thread_ok_def)
  moreover have "thread_id u < next_thread_id s" if "find_thread s j = Some u" for j u
    using that c(1) by (auto simp: threads_inv_def threads_ok_def thread_ok_def)
  moreover have "ids_distinct s"
    using c(1) by (simp add: threads_inv_def threads_ok_def)
  ultimately show ?thesis
    using inv assms(2) by (auto simp: creation_ok_def sched_inv_def)
qed

lemma inserted_inv:
  assumes inv: "sched_inv s" and nid: "next_thread_id s \<noteq> - 1" and w: "w \<noteq> 0"
    and ins: "inserted s (created s pid w False context stack link) s'"
  shows "sched_inv s'"
proof -
  obtain c i u where c: "sched_current s = Some c" "sched_idle s = Some i" "threads_inv s c i"
    "find_thread s c = Some u" "thread_state u = Running" "thread_ok s c i u" "thread_id u = c"
    using sched_inv_current [OF inv] by metis
  let ?t = "created s pid w False context stack link"
  have t: "thread_id ?t = next_thread_id s" "thread_state ?t = Ready" "weight ?t = w" "\<not> thread_idle ?t"
      "blocked_on ?t = None"
    by (simp_all add: created_def Thread_new_def)
  have f: "find_thread s' j = (if j = next_thread_id s then Some ?t else find_thread s j)" for j
    using ins t(1) by (simp add: inserted_def)
  have s': "ids_distinct s'" "processes_inv s'" "ring_ok 7 (sched_trace s')"
      "length (threads s') = length (threads s)" "next_thread_id s' = next_thread_id s + 1"
      "sched_current s' = sched_current s" "sched_idle s' = sched_idle s" "sched_initialized s' = sched_initialized s"
    using ins by (simp_all add: inserted_def)
  obtain v where v: "find_thread s i = Some v"
    using c(3) by (auto simp: threads_inv_def threads_ok_def)
  have old: "thread_ok s c i x" if "find_thread s j = Some x" for j x
    using that c(3) by (auto simp: threads_inv_def threads_ok_def)
  have "thread_id v < next_thread_id s" "thread_id v = i"
    using old [OF v] find_threadD(2) [OF v] by (simp_all add: thread_ok_def)
  then have ne: "c \<noteq> next_thread_id s" "i \<noteq> next_thread_id s"
    using c(6,7) by (auto simp: thread_ok_def)
  have pos: "0 < next_thread_id s" "0 < next_thread_id s + 1"
    using c(6) next_id(3) [OF nid, of 0] by (auto simp: thread_ok_def)
  have "thread_ok s' c i x" if "find_thread s' j = Some x" for j x
  proof (cases "j = next_thread_id s")
    case True
    then show ?thesis
      using that f t ne w next_id(4) [OF nid] pos by (auto simp: thread_ok_def s')
  next
    case False
    then show ?thesis
      using that f old [of j x] next_id(3) [OF nid] by (auto simp: thread_ok_def s')
  qed
  then have "threads_inv s' c i"
    using s'(1) c(4,5) v ne f by (auto simp: threads_inv_def threads_ok_def)
  then show ?thesis
    using s' c inv by (auto simp: sched_inv_def)
qed

definition stack_fits :: "'m KernelStack \<Rightarrow> bool" where
  "stack_fits stack \<longleftrightarrow> unat (stack_base stack) + unat (stack_size stack) < 2 ^ 64"

text \<open>The context a thread starts with.\<close>

definition fresh_context :: "'c ContextOps \<Rightarrow> 'm KernelStack \<Rightarrow> usize \<Rightarrow> usize \<Rightarrow> 'c" where
  "fresh_context ops stack entry arg =
     context_set_entry_data ops
       (context_new ops (thread_trampoline_address ops) (stack_base stack + stack_size stack)) entry arg"

lemma bump_inv:
  assumes inv: "sched_inv s" and nid: "next_thread_id s \<noteq> - 1"
  shows "sched_inv (s\<lparr>next_thread_id := next_thread_id s + 1\<rparr>)"
proof -
  let ?s = "s\<lparr>next_thread_id := next_thread_id s + 1\<rparr>"
  have same: "threads ?s = threads s"
    by simp
  obtain c i where c: "sched_current s = Some c" "sched_idle s = Some i" "threads_inv s c i"
    using inv by (auto simp: sched_inv_def)
  have "thread_ok s c i t \<Longrightarrow> thread_ok ?s c i t" for t
    using next_id(3) [OF nid] by (auto simp: thread_ok_def)
  then have "threads_inv ?s c i"
    using c(3) unfolding threads_inv_def threads_ok_def find_thread_cong [OF same] ids_cong [OF same] by blast
  moreover have "processes_inv ?s"
    using processes_inv_places [OF same_places_cong [OF same]] inv by (simp add: sched_inv_def)
  ultimately show ?thesis
    using inv c by (auto simp: sched_inv_def)
qed

lemma spawn_outcome:
  assumes inv: "sched_inv s" and nid: "next_thread_id s \<noteq> - 1" and w: "w \<noteq> 0" and st: "stack_fits stack"
  shows "\<exists>res s'. spawn ops pid w stack entry arg s = Inr (res, s') \<and> sched_inv s' \<and>
    sched_idle s' = sched_idle s \<and>
    (if process_index s pid = None then res = Inl ProcessTableFull
     else if None \<notin> set (threads s) then res = Inl ThreadTableFull
     else res = Inr (next_thread_id s) \<and>
       (\<exists>link. inserted s (created s pid w False (fresh_context ops stack entry arg) (Some stack) link) s'))"
proof -
  let ?ctx = "fresh_context ops stack entry arg"
  have top: "stack_top stack = Inr (stack_base stack + stack_size stack)"
    using st by (simp add: stack_top_def add_words_def stack_fits_def)
  have sp: "spawn ops pid w stack entry arg s = insert_thread pid w False ?ctx (Some stack) s"
    by (simp add: spawn_def create_thread_with_stack_def top fresh_context_def Let_def)
  consider (noproc) "process_index s pid = None" | (full) "process_index s pid \<noteq> None" "None \<notin> set (threads s)"
    | (room) "process_index s pid \<noteq> None" "None \<in> set (threads s)"
    by blast
  then show ?thesis
  proof cases
    case noproc
    then show ?thesis
      using insert_thread_errors(1) [OF nid] bump_inv [OF inv nid] sp by simp
  next
    case full
    then show ?thesis
      using insert_thread_errors(2) [OF nid] bump_inv [OF inv nid] sp by simp
  next
    case room
    then obtain pi ti where "process_index s pid = Some pi" "position (\<lambda>slot. slot = None) (threads s) = Some ti"
      using position_None [of "\<lambda>slot. slot = None" "threads s"] by auto
    then obtain s' link where s': "insert_thread pid w False ?ctx (Some stack) s = Inr (Inr (next_thread_id s), s')"
        "inserted s (created s pid w False ?ctx (Some stack) link) s'"
      using insert_thread_success [OF sched_inv_creation [OF inv nid]] by blast
    then show ?thesis
      using inserted_inv [OF inv nid w s'(2)] room sp by (auto simp: inserted_def)
  qed
qed

section \<open>Initialization\<close>

lemma position_replicate: "0 < n \<Longrightarrow> position (\<lambda>slot. slot = None) (replicate n None) = Some 0"
  by (cases n) auto

lemma map_filter_replicate [simp]: "List.map_filter (\<lambda>x. x) (replicate n None) = []"
  by (induction n) auto

text \<open>The state after the kernel process has been created.\<close>

definition kernel_only :: "'c ContextOps \<Rightarrow> nat \<Rightarrow> nat \<Rightarrow> ('c, 'm) Scheduler" where
  "kernel_only ops n m =
     (Scheduler_new ops n m)\<lparr>next_process_id := 2, processes := (replicate m None)[0 := Some (Process_new 1)]\<rparr>"

lemma create_kernel_process:
  "0 < m \<Longrightarrow> create_process (Scheduler_new ops n m) = Inr (Inr 1, kernel_only ops n m)"
  by (simp add: create_process_def Scheduler_new_def position_replicate Let_def kernel_only_def max_def word_le_nat_alt)

lemma kernel_only_ok:
  fixes ops :: "'c ContextOps"
  assumes "0 < m" "n \<le> MAX_TASKS"
  shows "creation_ok (kernel_only ops n m :: ('c, 'm) Scheduler)"
    "process_index (kernel_only ops n m :: ('c, 'm) Scheduler) 1 = Some 0"
    "find_thread (kernel_only ops n m :: ('c, 'm) Scheduler) j = None"
proof -
  let ?s = "kernel_only ops n m :: ('c, 'm) Scheduler"
  have f: "find_thread ?s j = None" for j
    by (simp add: kernel_only_def Scheduler_new_def find_thread_def)
  show "find_thread ?s j = None"
    by (rule f)
  obtain m' where m: "m = Suc m'"
    using assms(1) by (cases m) auto
  then have p: "processes ?s = Some (Process_new 1) # replicate m' None"
    by (simp add: kernel_only_def)
  show "process_index ?s 1 = Some 0"
    by (simp add: process_index_def p Process_new_def)
  have "process_ok ?s (Process_new 1)"
    by (auto simp: process_ok_def Process_new_def threads_of_def f intro!: exI [of _ "[]"])
  then have "processes_inv ?s"
    by (simp add: processes_inv_def p) (simp add: Process_new_def kernel_only_def)
  moreover have "ids_distinct ?s" "next_thread_id ?s = 1" "length (threads ?s) = n"
      "sched_trace ?s = Ring_new (2 ^ 7)"
    by (simp_all add: kernel_only_def Scheduler_new_def ids_distinct_def TRACE_EVENTS_def)
  ultimately show "creation_ok ?s"
    using assms(2) by (simp add: creation_ok_def f Ring_new_ok [of 7, simplified] word_unat_eq_iff [of 1] unat_max32)
qed

lemma start_idle_inv:
  assumes ins: "inserted (kernel_only ops n m) (created (kernel_only ops n m) 1 SCHED_MIN_WEIGHT True context stack link) s"
    and n: "n \<le> MAX_TASKS" "0 < m"
  shows "\<exists>s'. start_idle 1 s = Inr (Inr (), s') \<and> sched_inv s' \<and> sched_current s' = Some 1 \<and> sched_idle s' = Some 1 \<and>
    min_virtual_runtime s' = 0 \<and> (\<forall>j t. find_thread s' j = Some t \<longrightarrow> j = 1)"
proof -
  let ?k = "kernel_only ops n m"
  let ?t = "created ?k 1 SCHED_MIN_WEIGHT True context stack link"
  have k: "next_thread_id ?k = 1" "length (threads ?k) = n" "min_virtual_runtime ?k = 0"
    by (simp_all add: kernel_only_def Scheduler_new_def)
  have t: "thread_id ?t = 1" "weight ?t = 1" "thread_idle ?t" "blocked_on ?t = None" "thread_state ?t = Ready"
    by (simp_all add: created_def Thread_new_def k SCHED_MIN_WEIGHT_def)
  have f: "find_thread s j = (if j = 1 then Some ?t else None)" for j
    using ins t(1) by (simp add: inserted_def kernel_only_ok(3) [OF n(2,1)])
  have s: "ids_distinct s" "processes_inv s" "ring_ok 7 (sched_trace s)" "length (threads s) = n" "next_thread_id s = 2"
      "min_virtual_runtime s = 0"
    using ins k by (simp_all add: inserted_def)
  define s1 where "s1 = modify_thread 1 (set_state Running) (s\<lparr>sched_idle := Some 1, sched_current := Some 1\<rparr>)"
  define s' where "s' = s1\<lparr>sched_initialized := True\<rparr>"
  have start: "start_idle 1 s = Inr (Inr (), s')"
    using f [of 1] by (simp add: start_idle_def Let_def s'_def s1_def find_thread_def)
  have f1: "find_thread s1 j = (if j = 1 then Some (set_state Running ?t) else None)" for j
  proof -
    have "find_thread (s\<lparr>sched_idle := Some 1, sched_current := Some 1\<rparr>) = find_thread s"
      by (rule find_thread_cong) simp
    then show ?thesis
      by (simp add: s1_def find_modify [OF keeps_set_state_id] f)
  qed
  have same: "threads s' = threads s1"
    by (simp add: s'_def)
  have "ids_distinct s1"
    using s(1) ids_cong [of "s\<lparr>sched_idle := Some 1, sched_current := Some 1\<rparr>" s]
    by (simp add: s1_def ids_modify [OF keeps_set_state_id])
  then have thr: "threads_inv s' 1 1"
    using f1 s(5) t unfolding threads_inv_def threads_ok_def find_thread_cong [OF same] ids_cong [OF same]
    by (auto simp: thread_ok_def s'_def s1_def)
  have "same_places (s\<lparr>sched_idle := Some 1, sched_current := Some 1\<rparr>) s1"
    unfolding s1_def by (rule same_places_modify [OF keeps_set_state])
  then have "same_places s s'"
    using same_places_trans [OF same_places_cong [of "s\<lparr>sched_idle := Some 1, sched_current := Some 1\<rparr>" s]
        same_places_field [OF _ same]] by simp
  then have "processes_inv s'"
    using processes_inv_places [of s s'] s(2) by (simp add: s'_def s1_def)
  then have "sched_inv s'"
    using thr s n by (intro sched_invI [of s' 1 1]) (simp_all add: s'_def s1_def modify_thread_def)
  moreover have "\<forall>j t. find_thread s' j = Some t \<longrightarrow> j = 1"
    using f1 find_thread_cong [OF same] by auto
  ultimately show ?thesis
    using start s(6) by (simp add: s'_def s1_def)
qed

lemma insert_idle:
  fixes ops :: "'c ContextOps"
  assumes "0 < n" "n \<le> MAX_TASKS" "0 < m"
  shows "\<exists>s' link. insert_thread 1 SCHED_MIN_WEIGHT True context stack (kernel_only ops n m) = Inr (Inr 1, s') \<and>
    inserted (kernel_only ops n m) (created (kernel_only ops n m) 1 SCHED_MIN_WEIGHT True context stack link) s'"
proof -
  have "position (\<lambda>slot. slot = None) (threads (kernel_only ops n m :: ('c, 'm) Scheduler)) = Some 0"
    using assms(1) by (simp add: kernel_only_def Scheduler_new_def position_replicate)
  then show ?thesis
    using insert_thread_success [OF kernel_only_ok(1) [OF assms(3,2)] kernel_only_ok(2) [OF assms(3,2)]]
    by (simp add: kernel_only_def Scheduler_new_def)
qed

end
