(* ===== verification/Task_Runs.thy ===== *)
theory Task_Runs
  imports Task_Creation
begin

text \<open>
  Runs of the scheduler: any sequence of calls of its entry points after initialization. Three calls
  break the invariant when their callers do not keep to a rule that the code does not check:
  blocking while the idle thread is current, entering the idle thread while another thread is
  current, and creating a thread when the counter of thread ids is at its last value. A run records
  whether all its calls kept to these rules. No call panics on any run; the invariant holds on the
  runs that kept to them.
\<close>

section \<open>Calls\<close>

datatype 'm sched_call =
  Spawn ProcessId u32 "'m KernelStack" usize usize
| Tick u64
| Preempt
| Reschedule
| EnterIdle
| Block WaitToken
| Wake ThreadId

text \<open>The state after a call. The results of the calls are not kept.\<close>

fun perform :: "'c ContextOps \<Rightarrow> 'm sched_call \<Rightarrow> ('c, 'm) Scheduler \<Rightarrow> ('c, 'm) Scheduler panics" where
  "perform ops (Spawn pid w stack entry arg) s = bind_panic (spawn ops pid w stack entry arg s) (\<lambda>(_, s). Inr s)"
| "perform ops (Tick elapsed) s = tick elapsed s"
| "perform ops Preempt s = bind_panic (preempt_contexts s) (\<lambda>(_, s). Inr s)"
| "perform ops Reschedule s = bind_panic (maybe_reschedule s) (\<lambda>(_, s). Inr s)"
| "perform ops EnterIdle s = Inr (snd (enter_idle_contexts s))"
| "perform ops (Block wait) s = bind_panic (block_current wait s) (\<lambda>(_, s). Inr s)"
| "perform ops (Wake tid) s = bind_panic (wake tid s) (\<lambda>(_, s). Inr s)"

text \<open>What the types of the arguments guarantee: weights are not zero and a stack lies below the end of memory.\<close>

fun well_typed :: "'m sched_call \<Rightarrow> bool" where
  "well_typed (Spawn pid w stack entry arg) \<longleftrightarrow> w \<noteq> 0 \<and> stack_fits stack"
| "well_typed _ \<longleftrightarrow> True"

fun keeps_rules :: "'m sched_call \<Rightarrow> ('c, 'm) Scheduler \<Rightarrow> bool" where
  "keeps_rules (Spawn pid w stack entry arg) s \<longleftrightarrow> next_thread_id s \<noteq> - 1"
| "keeps_rules EnterIdle s \<longleftrightarrow> sched_current s = sched_idle s"
| "keeps_rules (Block wait) s \<longleftrightarrow> sched_current s \<noteq> sched_idle s"
| "keeps_rules _ s \<longleftrightarrow> True"

inductive reachable :: "'c ContextOps \<Rightarrow> bool \<Rightarrow> ('c, 'm) Scheduler \<Rightarrow> bool" for ops :: "'c ContextOps" where
  reach_init: "0 < length (threads s) \<Longrightarrow> length (threads s) \<le> MAX_TASKS \<Longrightarrow> 0 < length (processes s) \<Longrightarrow>
    Scheduler_init ops s = Inr (Inr (), s') \<Longrightarrow> reachable ops True s'"
| reach_init_idle: "stack_fits stack \<Longrightarrow> 0 < length (threads s) \<Longrightarrow> length (threads s) \<le> MAX_TASKS \<Longrightarrow>
    0 < length (processes s) \<Longrightarrow> init_with_idle_thread ops stack entry arg s = Inr (Inr (), s') \<Longrightarrow>
    reachable ops True s'"
| reach_call: "reachable ops rules s \<Longrightarrow> well_typed call \<Longrightarrow> perform ops call s = Inr s' \<Longrightarrow>
    reachable ops (rules \<and> keeps_rules call s) s'"

section \<open>The invariant on disciplined runs\<close>

lemma init_idle_outcome:
  fixes s :: "('c, 'm) Scheduler"
  assumes "stack_fits stack" "0 < length (threads s)" "length (threads s) \<le> MAX_TASKS" "0 < length (processes s)"
  shows "\<exists>s'. init_with_idle_thread ops stack entry arg s = Inr (Inr (), s') \<and> sched_inv s' \<and>
    sched_current s' = Some 1 \<and> sched_idle s' = Some 1 \<and> min_virtual_runtime s' = 0 \<and>
    (\<forall>j t. find_thread s' j = Some t \<longrightarrow> j = 1)"
proof -
  let ?n = "length (threads s)" and ?m = "length (processes s)"
  let ?k = "kernel_only ops ?n ?m :: ('c, 'm) Scheduler"
  have top: "stack_top stack = Inr (stack_base stack + stack_size stack)"
    using assms(1) by (simp add: stack_top_def add_words_def stack_fits_def)
  obtain s1 link where s1: "insert_thread 1 SCHED_MIN_WEIGHT True (fresh_context ops stack entry arg) (Some stack) ?k =
        Inr (Inr 1, s1)"
      "inserted ?k (created ?k 1 SCHED_MIN_WEIGHT True (fresh_context ops stack entry arg) (Some stack) link) s1"
    using insert_idle [OF assms(2-4), of "fresh_context ops stack entry arg" "Some stack" ops] by blast
  then have "init_with_idle_thread ops stack entry arg s = start_idle 1 s1"
    by (simp add: init_with_idle_thread_def Let_def create_kernel_process [OF assms(4)]
        create_thread_with_stack_def top fresh_context_def)
  then show ?thesis
    using start_idle_inv [OF s1(2) assms(3,4)] by simp
qed

lemma init_outcome:
  fixes s :: "('c, 'm) Scheduler"
  assumes "0 < length (threads s)" "length (threads s) \<le> MAX_TASKS" "0 < length (processes s)"
  shows "\<exists>s'. Scheduler_init ops s = Inr (Inr (), s') \<and> sched_inv s'"
proof -
  let ?n = "length (threads s)" and ?m = "length (processes s)"
  let ?k = "kernel_only ops ?n ?m :: ('c, 'm) Scheduler"
  obtain s1 link where s1: "insert_thread 1 SCHED_MIN_WEIGHT True (context_empty ops) None ?k = Inr (Inr 1, s1)"
      "inserted ?k (created ?k 1 SCHED_MIN_WEIGHT True (context_empty ops) None link) s1"
    using insert_idle [OF assms, of "context_empty ops" None ops] by blast
  then have "Scheduler_init ops s = start_idle 1 s1"
    by (simp add: Scheduler_init_def Let_def create_kernel_process [OF assms(3)] create_thread_def)
  then show ?thesis
    using start_idle_inv [OF s1(2) assms(2,3)] by auto
qed

lemma perform_inv:
  assumes "sched_inv s" "well_typed call" "keeps_rules call s" "perform ops call s = Inr s'"
  shows "sched_inv s'"
proof (cases call)
  case (Spawn pid w stack entry arg)
  then show ?thesis
    using assms spawn_outcome [of s w stack ops pid entry arg] by auto
next
  case (Tick elapsed)
  then show ?thesis
    using assms tick_inv [of s elapsed] by (auto simp: tick_def)
next
  case Preempt
  then show ?thesis
    using assms preempt_inv [of s] by auto
next
  case Reschedule
  then show ?thesis
    using assms maybe_reschedule_inv [of s] by auto
next
  case EnterIdle
  then show ?thesis
    using assms enter_idle_inv [of s] by auto
next
  case (Block wait)
  then show ?thesis
    using assms block_inv [of s wait] by auto
next
  case (Wake tid)
  then show ?thesis
    using assms wake_inv [of s tid] by auto
qed

lemma reachable_rules_inv: "reachable ops rules s \<Longrightarrow> rules \<Longrightarrow> sched_inv s"
proof (induction rule: reachable.induct)
  case (reach_init s s')
  then show ?case
    using init_outcome [of s ops] by auto
next
  case (reach_init_idle stack s entry arg s')
  then show ?case
    using init_idle_outcome [of stack s ops entry arg] by auto
next
  case (reach_call rules s call s')
  then show ?case
    using perform_inv [of s call ops s'] by blast
qed

lemmas reachable_inv = reachable_rules_inv [where rules = True, simplified]

section \<open>No call panics\<close>

text \<open>
  What rules out a panic on any run: the trace ring is well formed, and no process counts more
  threads than there are.
\<close>

definition calm :: "('c, 'm) Scheduler \<Rightarrow> bool" where
  "calm s \<longleftrightarrow> ring_ok 7 (sched_trace s) \<and> length (threads s) \<le> MAX_TASKS \<and>
     (\<forall>p \<in> set (live_processes s). unat (thread_count p) \<le> length (live_threads s))"

text \<open>A step that changes neither the processes nor the number of threads.\<close>

definition same_population :: "('c, 'm) Scheduler \<Rightarrow> ('c, 'm) Scheduler \<Rightarrow> bool" where
  "same_population s s' \<longleftrightarrow> ring_ok 7 (sched_trace s') \<and> processes s' = processes s \<and>
     length (threads s') = length (threads s) \<and> length (live_threads s') = length (live_threads s)"

lemma calm_population: "calm s \<Longrightarrow> same_population s s' \<Longrightarrow> calm s'"
  by (simp add: calm_def same_population_def)

lemma same_population_refl: "ring_ok 7 (sched_trace s) \<Longrightarrow> same_population s s"
  by (simp add: same_population_def)

lemma length_live_update [simp]:
  "length (List.map_filter (\<lambda>t. t) (update_thread i f ts)) = length (List.map_filter (\<lambda>t. t) ts)"
  by (induction i f ts rule: update_thread.induct) auto

lemma same_population_modify [simp]: "same_population s (modify_thread i f s') = same_population s s'"
  by (simp add: same_population_def modify_thread_def)

lemma same_population_fields [simp]:
  "same_population s (s'\<lparr>sched_current := c\<rparr>) = same_population s s'"
  "same_population s (s'\<lparr>need_reschedule := b\<rparr>) = same_population s s'"
  "same_population s (s'\<lparr>min_virtual_runtime := v\<rparr>) = same_population s s'"
  "same_population (s\<lparr>need_reschedule := b\<rparr>) s' = same_population s s'"
  by (simp_all add: same_population_def)

lemma trace_population:
  assumes "same_population s s'"
  shows "\<exists>s''. trace k a b v s' = Inr s'' \<and> same_population s s''"
proof -
  obtain r where "trace k a b v s' = Inr (s'\<lparr>sched_trace := r\<rparr>)" "ring_ok 7 r"
    using assms trace_outcome [of s' k a b v] by (auto simp: same_population_def)
  then show ?thesis
    using assms by (auto simp: same_population_def)
qed

lemma schedule_population:
  assumes "same_population s s'"
  shows "\<exists>sw s''. schedule s' = Inr (sw, s'') \<and> same_population s s''"
proof (cases "sched_current s'")
  case (Some previous)
  show ?thesis
  proof (cases "case best_ready_thread s' of Some t \<Rightarrow> Some (thread_id t) | None \<Rightarrow> sched_idle s'")
    case None
    then show ?thesis
      using Some assms by (simp add: schedule_def)
  next
    case nxt: (Some nxt)
    define s1 where "s1 = (case find_thread s' previous of None \<Rightarrow> s' | Some t \<Rightarrow>
      if thread_state t = Running then modify_thread previous (\<lambda>t. t\<lparr>thread_state := Ready\<rparr>) s' else s')"
    define s2 where "s2 = (case find_thread s1 nxt of None \<Rightarrow> s1 | Some _ \<Rightarrow>
      modify_thread nxt (\<lambda>t. t\<lparr>thread_state := Running\<rparr>) s1)"
    have "same_population s (s2\<lparr>sched_current := Some nxt\<rparr>)"
      using assms by (auto simp: s1_def s2_def split: option.split)
    from trace_population [OF this, of SchedSwitch previous "ucast nxt" 0]
    obtain s3 where "trace SchedSwitch previous (ucast nxt) 0 (s2\<lparr>sched_current := Some nxt\<rparr>) = Inr s3"
        "same_population s s3"
      by blast
    then show ?thesis
      using Some nxt assms by (auto simp: schedule_def Let_def s1_def [symmetric] s2_def [symmetric])
  qed
qed (use assms in \<open>simp add: schedule_def\<close>)

lemma preempt_population:
  assumes "ring_ok 7 (sched_trace s)"
  shows "\<exists>res s'. preempt_contexts s = Inr (res, s') \<and> same_population s s'"
proof (cases "sched_initialized s \<and> need_reschedule s")
  case True
  obtain sw s1 where s1: "schedule (s\<lparr>need_reschedule := False\<rparr>) = Inr (sw, s1)" "same_population s s1"
    using schedule_population [of s "s\<lparr>need_reschedule := False\<rparr>"] same_population_refl [OF assms] by auto
  show ?thesis
  proof (cases sw)
    case None
    then show ?thesis
      using True s1 by (simp add: preempt_contexts_def)
  next
    case (Some w)
    obtain s2 where "trace SchedPreempt (switch_previous w) (ucast (switch_next w)) 0 s1 = Inr s2" "same_population s s2"
      using trace_population [OF s1(2)] by blast
    then show ?thesis
      using True s1(1) Some by (auto simp: preempt_contexts_def split: option.split)
  qed
qed (use same_population_refl [OF assms] in \<open>auto simp: preempt_contexts_def\<close>)

lemma tick_population:
  assumes "ring_ok 7 (sched_trace s)"
  shows "\<exists>s'. tick elapsed s = Inr s' \<and> same_population s s'"
proof -
  note s = same_population_refl [OF assms]
  have step: "\<exists>s''. bind_panic (trace SchedTick a 0 v (modify_thread c f s)) (\<lambda>s. Inr (Inr (), update_minimum v i s)) =
      Inr (Inr () :: ScheduleError + unit, s'') \<and> same_population s s''" for a v c f i
  proof -
    obtain s'' where "trace SchedTick a 0 v (modify_thread c f s) = Inr s''" "same_population s s''"
      using trace_population [of s "modify_thread c f s" SchedTick a 0 v] s by auto
    then show ?thesis
      by (auto simp: update_minimum_def Let_def split: option.split)
  qed
  have "\<exists>res s'. Scheduler_tick elapsed s = Inr (res, s') \<and> same_population s s'"
    unfolding Scheduler_tick_def Let_def using s step by (simp split: option.split) blast
  then show ?thesis
    by (auto simp: tick_def)
qed

lemma block_population:
  assumes "ring_ok 7 (sched_trace s)"
  shows "\<exists>res s'. block_current wait s = Inr (res, s') \<and> same_population s s'"
proof -
  note s = same_population_refl [OF assms]
  have "\<exists>res s'. bind_panic (trace SchedBlock c 0 wait (modify_thread c f s)) (\<lambda>s.
      bind_panic (schedule s) (\<lambda>(switch, s). Inr (Inr switch, s))) = Inr (res :: ScheduleError + Switch option, s') \<and> same_population s s'"
    for c f
  proof -
    obtain s1 where s1: "trace SchedBlock c 0 wait (modify_thread c f s) = Inr s1" "same_population s s1"
      using trace_population [of s "modify_thread c f s" SchedBlock c 0 wait] s by auto
    moreover obtain sw s2 where "schedule s1 = Inr (sw, s2)" "same_population s s2"
      using schedule_population [OF s1(2)] by blast
    ultimately show ?thesis
      by simp
  qed
  then show ?thesis
    unfolding block_current_def using s by (simp split: option.split)
qed

lemma wake_population:
  assumes "ring_ok 7 (sched_trace s)"
  shows "\<exists>res s'. wake tid s = Inr (res, s') \<and> same_population s s'"
proof -
  note s = same_population_refl [OF assms]
  have "\<exists>s'. bind_panic (trace SchedWake tid 0 0 (modify_thread tid f s)) (\<lambda>s. Inr (Inr (), s)) =
      Inr (Inr () :: ScheduleError + unit, s') \<and> same_population s s'" for f
    using trace_population [of s "modify_thread tid f s" SchedWake tid 0 0] s by auto
  then show ?thesis
    unfolding wake_def using s by (simp split: option.split) blast
qed

lemma enter_idle_population:
  assumes "ring_ok 7 (sched_trace s)"
  shows "same_population s (snd (enter_idle_contexts s))"
  using same_population_refl [OF assms] by (simp add: enter_idle_contexts_def Let_def split: option.split)

text \<open>Creating a thread adds one to the number of threads and at most one to the count of a process.\<close>

lemma length_live_insert:
  "ti < length ts \<Longrightarrow> ts ! ti = None \<Longrightarrow>
   length (List.map_filter (\<lambda>t. t) (ts[ti := Some t])) = Suc (length (List.map_filter (\<lambda>t. t) ts))"
proof (induction ts arbitrary: ti)
  case (Cons x ts)
  then show ?case
    by (cases ti) (auto split: option.split)
qed simp

lemma length_live_le: "length (List.map_filter (\<lambda>t. t) ts) \<le> length ts"
  by (induction ts) (auto split: option.split)

lemma live_replaced:
  "p \<in> set (List.map_filter (\<lambda>p. p) (ps[i := Some q])) \<Longrightarrow> p = q \<or> p \<in> set (List.map_filter (\<lambda>p. p) ps)"
  by (auto simp: in_map_filter dest: set_update_subset_insert [THEN subsetD])

lemma calm_trace:
  assumes "calm s"
  shows "\<exists>s'. trace k a b v s = Inr s' \<and> calm s'"
  using trace_population [OF same_population_refl, of s k a b v] calm_population assms by (auto simp: calm_def)

lemma spawn_calm:
  assumes calm: "calm s" and st: "stack_fits stack"
  shows "\<exists>res s'. spawn ops pid w stack entry arg s = Inr (res, s') \<and> calm s'"
proof -
  let ?ctx = "fresh_context ops stack entry arg" and ?s0 = "s\<lparr>next_thread_id := max (next_thread_id s + 1) 1\<rparr>"
  have top: "stack_top stack = Inr (stack_base stack + stack_size stack)"
    using st by (simp add: stack_top_def add_words_def stack_fits_def)
  have sp: "spawn ops pid w stack entry arg s = insert_thread pid w False ?ctx (Some stack) s"
    by (simp add: spawn_def create_thread_with_stack_def top fresh_context_def Let_def)
  have c0: "calm ?s0"
    using calm by (simp add: calm_def)
  show ?thesis
  proof (cases "\<exists>pi ti. process_index ?s0 pid = Some pi \<and> position (\<lambda>slot. slot = None) (threads s) = Some ti")
    case False
    then show ?thesis
      using c0 by (auto simp: sp insert_thread_def Let_def split: option.split)
  next
    case True
    then obtain pi ti where i: "process_index ?s0 pid = Some pi" "position (\<lambda>slot. slot = None) (threads s) = Some ti"
      by blast
    obtain p where p: "processes s ! pi = Some p" "pi < length (processes s)"
      using process_index_SomeD [OF i(1)] by auto
    have ti: "ti < length (threads s)" "threads s ! ti = None"
      using position_SomeD [OF i(2)] by simp_all
    have "p \<in> set (live_processes s)"
      using p nth_mem [OF p(2)] by (simp add: in_map_filter)
    then have n: "unat (thread_count p) \<le> length (live_threads s)"
      using calm by (simp add: calm_def)
    moreover have live: "length (live_threads s) < length (threads s)"
      using length_live_insert [OF ti] length_live_le [of "(threads s)[ti := Some undefined]"] by simp
    ultimately have small: "unat (thread_count p) + 1 < 2 ^ 32" "unat (thread_count p + 1) = Suc (unat (thread_count p))"
      using calm by (simp_all add: calm_def MAX_TASKS_def unat_add_no_overflow)
    obtain p' t where a: "add_thread p (Thread_new (next_thread_id s) pid w False ?ctx (Some stack)) = Inr (p', t)"
        "thread_count p' = thread_count p + 1"
      using small(1) by (simp add: add_thread_def add_words_def)
    define t' where "t' = (if virtual_runtime t < min_virtual_runtime s then t\<lparr>virtual_runtime := min_virtual_runtime s\<rparr> else t)"
    let ?s1 = "?s0\<lparr>processes := (processes s)[pi := Some p'], threads := (threads s)[ti := Some t']\<rparr>"
    have "unat (thread_count q) \<le> Suc (length (live_threads s))" if "q \<in> set (live_processes ?s1)" for q
      using live_replaced [of q "processes s" pi p'] that n small(2) a(2) calm by (fastforce simp: calm_def)
    then have "calm ?s1"
      using calm length_live_insert [OF ti] by (simp add: calm_def)
    then obtain s2 where "trace SchedEnqueue (next_thread_id s) 0 0 ?s1 = Inr s2" "calm s2"
      using calm_trace by blast
    then show ?thesis
      using i p(1) a(1) unfolding t'_def by (auto simp: sp insert_thread_def Let_def split: if_splits)
  qed
qed

lemma perform_calm:
  fixes s :: "('c, 'm) Scheduler"
  assumes "calm s" "well_typed call"
  shows "\<exists>s'. perform ops call s = Inr s' \<and> calm s'"
proof -
  have ring: "ring_ok 7 (sched_trace s)"
    using assms(1) by (simp add: calm_def)
  note pop = preempt_population [OF ring] tick_population [OF ring] block_population [OF ring] wake_population [OF ring]
    enter_idle_population [OF ring]
  have resched: "\<exists>res s'. maybe_reschedule s = Inr (res, s') \<and> same_population s s'"
    using schedule_population [of s "s\<lparr>need_reschedule := False\<rparr>"] same_population_refl [OF ring]
    by (auto simp: maybe_reschedule_def)
  have drop: "\<exists>s'. bind_panic m (\<lambda>(_, s). Inr s) = Inr s' \<and> calm s'"
    if "\<exists>res s'. m = Inr (res, s') \<and> same_population s s'" for m :: "('r \<times> ('c, 'm) Scheduler) panics"
    using that calm_population [OF assms(1)] by auto
  show ?thesis
  proof (cases call)
    case (Spawn pid w stack entry arg)
    then show ?thesis
      using spawn_calm [OF assms(1), of stack ops pid w entry arg] assms(2) by auto
  next
    case (Tick elapsed)
    then show ?thesis
      using pop(2) [of elapsed] calm_population [OF assms(1)] by auto
  next
    case EnterIdle
    then show ?thesis
      using pop(5) calm_population [OF assms(1)] by simp
  qed (use drop [OF pop(1)] drop [OF resched] drop [OF pop(3)] drop [OF pop(4)] in simp_all)
qed

lemma inv_calm:
  assumes "sched_inv s"
  shows "calm s"
proof -
  have "unat (thread_count p) \<le> length (live_threads s)" if "p \<in> set (live_processes s)" for p
  proof -
    have "process_ok s p"
      using assms that by (simp add: sched_inv_def processes_inv_def)
    then obtain ids where ids: "linked s (first_thread p) ids" "distinct ids" "unat (thread_count p) = length ids"
      by (auto simp: process_ok_def)
    have "j \<in> thread_id ` set (live_threads s)" if "j \<in> set ids" for j
      using linked_members [OF ids(1) that] find_threadD [of s j] by force
    then have "card (set ids) \<le> card (thread_id ` set (live_threads s))"
      by (intro card_mono) auto
    also have "\<dots> \<le> length (live_threads s)"
      by (meson card_image_le card_length finite_set order_trans)
    finally show ?thesis
      using ids by (simp add: distinct_card)
  qed
  then show ?thesis
    using assms by (simp add: calm_def sched_inv_def)
qed

lemma reachable_calm: "reachable ops rules s \<Longrightarrow> calm s"
proof (induction rule: reachable.induct)
  case (reach_init s s')
  then show ?case
    using inv_calm [OF reachable_inv [OF reachable.reach_init]] by blast
next
  case (reach_init_idle stack s entry arg s')
  then show ?case
    using inv_calm [OF reachable_inv [OF reachable.reach_init_idle]] by blast
next
  case (reach_call rules s call s')
  then show ?case
    using perform_calm [of s call ops] by auto
qed

end
