(* ===== verification/Task_Scheduling.thy ===== *)
theory Task_Scheduling
  imports Task_Runs
begin

text \<open>
  What the scheduler promises: no call on a reachable state panics, and reachable states satisfy the
  invariant as long as the callers keep to their rules; the thread that is switched to is the ready thread with the least virtual runtime; a tick
  charges the running thread in inverse proportion to its weight; and every ready thread runs after
  a bounded number of ticks.
\<close>

section \<open>The running thread\<close>

lemma inv_unique_running:
  assumes "sched_inv s"
  shows "\<exists>c t. sched_current s = Some c \<and> find_thread s c = Some t \<and>
    (\<forall>u \<in> set (live_threads s). thread_state u = Running \<longleftrightarrow> u = t)"
proof -
  obtain c i t where c: "sched_current s = Some c" "threads_inv s c i" "find_thread s c = Some t"
      "thread_state t = Running" "thread_id t = c"
    using sched_inv_current [OF assms] by metis
  have d: "ids_distinct s"
    using c(2) by (simp add: threads_inv_def threads_ok_def)
  have "u = t" if "u \<in> set (live_threads s)" "thread_state u = Running" for u
  proof -
    have u: "find_thread s (thread_id u) = Some u"
      using that(1) find_thread_iff [OF d] by blast
    then have "thread_ok s c i u"
      using c(2) by (simp add: threads_inv_def threads_ok_def)
    then show ?thesis
      using that(2) u c(3) by (simp add: thread_ok_def)
  qed
  then show ?thesis
    using c by blast
qed

text \<open>Whom the scheduler chooses: the least of the ready threads, or the idle thread.\<close>

lemma next_choice_least:
  assumes ok: "threads_ok s c i" and tn: "find_thread s (next_choice s i) = Some tn"
  shows "if next_choice s i = i then (\<forall>j u. find_thread s j = Some u \<longrightarrow> \<not> candidate u)
    else candidate tn \<and> (\<forall>j u. find_thread s j = Some u \<and> candidate u \<longrightarrow>
           (virtual_runtime tn, next_choice s i) \<le> (virtual_runtime u, j))"
proof -
  have d: "ids_distinct s"
    using ok by (simp add: threads_ok_def)
  show ?thesis
  proof (cases "best_ready_thread s")
    case None
    then show ?thesis
      using best_ready_None [OF d] by (auto simp: next_choice_def)
  next
    case (Some b)
    note b = best_ready_Some [OF d Some]
    have n: "next_choice s i = thread_id b"
      by (simp add: next_choice_def Some)
    then have "tn = b"
      using tn b(1) by simp
    moreover have "thread_ok s c i b"
      using ok b(1) by (simp add: threads_ok_def)
    then have "next_choice s i \<noteq> i"
      using b(2) n by (auto simp: thread_ok_def candidate_def)
    moreover have "(virtual_runtime b, next_choice s i) \<le> (virtual_runtime u, j)"
      if "find_thread s j = Some u" "candidate u" for j u
      using b(3) [OF that] find_threadD(2) [OF that(1)] n by simp
    ultimately show ?thesis
      using b(2) by simp
  qed
qed

section \<open>Accounting\<close>

lemma unat_ucast_up:
  assumes "LENGTH('a::len) \<le> LENGTH('b::len)"
  shows "unat (ucast (x :: 'a word) :: 'b word) = unat x"
proof -
  have "unat x < 2 ^ LENGTH('b)"
    using unat_bound [of x] assms by (meson less_le_trans one_le_numeral power_increasing)
  then show ?thesis
    by (simp add: unsigned_ucast_eq take_bit_nat_eq_self)
qed

lemma unat_ucast_down:
  "unat (x :: 'a::len word) < 2 ^ LENGTH('b::len) \<Longrightarrow> unat (ucast x :: 'b word) = unat x"
  by (simp add: unsigned_ucast_eq take_bit_nat_eq_self)

lemma runtime_delta_unat:
  assumes "w \<noteq> 0"
  shows "unat (runtime_delta elapsed w) =
    min (10000000 * unat elapsed * 1024 div unat w) (2 ^ 64 - 1)"
proof -
  have e: "unat elapsed < 2 ^ 64"
    by (rule unat_bound64)
  let ?ns = "ucast SCHED_TIME_SLICE_NS * ucast elapsed :: 128 word"
  have slice: "unat (ucast SCHED_TIME_SLICE_NS :: 128 word) = 10000000"
    by (simp add: SCHED_TIME_SLICE_NS_def TICK_RATE_HZ_def unat_div)
  have ue: "unat (ucast elapsed :: 128 word) = unat elapsed" and uw: "unat (ucast w :: 128 word) = unat w"
    and ub: "unat (ucast SCHED_BASE_WEIGHT :: 128 word) = 1024"
    by (simp_all add: unat_ucast_up SCHED_BASE_WEIGHT_def)
  have ns: "unat ?ns = 10000000 * unat elapsed"
    using e slice ue by (simp add: unat_mult_no_overflow)
  then have "unat (?ns * ucast SCHED_BASE_WEIGHT) = 10000000 * unat elapsed * 1024"
    using e ub by (simp add: unat_mult_no_overflow)
  then have sc: "unat (?ns * ucast SCHED_BASE_WEIGHT div ucast w) = 10000000 * unat elapsed * 1024 div unat w"
    using uw by (simp add: unat_div)
  let ?q = "?ns * ucast SCHED_BASE_WEIGHT div ucast w"
  have mx: "unat (ucast (- 1 :: u64) :: 128 word) = 2 ^ 64 - 1"
    using unat_ucast_up [where 'a = 64 and 'b = 128, of "- 1"] by (simp add: unsigned_minus_1_eq_mask mask_eq_exp_minus_1)
  have "unat (min ?q (ucast (- 1 :: u64))) = min (unat ?q) (2 ^ 64 - 1)"
    using mx by (simp add: min_def word_le_nat_alt)
  moreover have "unat (ucast x :: u64) = unat x" if "unat x < 2 ^ 64" for x :: "128 word"
    using that by (simp add: unat_ucast_down)
  moreover have "min (unat ?q) (2 ^ 64 - 1) < 2 ^ 64"
    by simp
  ultimately show ?thesis
    unfolding runtime_delta_def Let_def sc [symmetric] by metis
qed

lemma filter_update:
  "(\<And>t. Some t \<in> set ts \<Longrightarrow> thread_id t = c \<Longrightarrow> \<not> P t \<and> \<not> P (f t)) \<Longrightarrow>
   filter P (List.map_filter (\<lambda>t. t) (update_thread c f ts)) = filter P (List.map_filter (\<lambda>t. t) ts)"
  by (induction c f ts rule: update_thread.induct) auto

lemma best_ready_modify:
  assumes "ids_distinct s" "find_thread s c = Some t" "\<not> candidate t" "\<not> candidate (f t)"
  shows "best_ready_thread (modify_thread c f s) = best_ready_thread s"
proof -
  have "\<not> candidate u \<and> \<not> candidate (f u)" if "Some u \<in> set (threads s)" "thread_id u = c" for u
    using that assms find_thread_iff [OF assms(1), of c u] by (simp add: in_map_filter)
  moreover have "(\<lambda>t :: ('a, 'b) Thread. thread_state t = Ready \<and> \<not> thread_idle t) = candidate"
    by (simp add: candidate_def fun_eq_iff)
  ultimately show ?thesis
    using filter_update [of "threads s" c candidate f]
    by (simp add: best_ready_thread_def modify_thread_def)
qed

lemma best_ready_cong: "threads s' = threads s \<Longrightarrow> best_ready_thread s' = best_ready_thread s"
  by (simp add: best_ready_thread_def)

text \<open>The state after a tick, as the preemption that follows sees it.\<close>

lemma tick_effect:
  assumes inv: "sched_inv s" and e: "elapsed \<noteq> 0" and c: "sched_current s = Some c" "find_thread s c = Some t"
  defines "v \<equiv> saturating_add (virtual_runtime t) (runtime_delta elapsed (weight t))"
  shows "\<exists>s'. tick elapsed s = Inr s' \<and> sched_inv s' \<and> sched_current s' = Some c \<and> sched_idle s' = sched_idle s \<and>
    (\<forall>j. find_thread s' j = (if j = c then Some (set_runtime v t) else find_thread s j)) \<and>
    best_ready_thread s' = best_ready_thread s \<and>
    need_reschedule s' = (need_reschedule s \<or>
      (\<exists>best. best_ready_thread s = Some best \<and> virtual_runtime best < v)) \<and>
    min_virtual_runtime s' =
      (let current_min = (if thread_idle t then - 1 else v)
       in case best_ready_thread s of
            Some best \<Rightarrow> max (min_virtual_runtime s) (min (virtual_runtime best) current_min)
          | None \<Rightarrow> if thread_idle t then min_virtual_runtime s else max (min_virtual_runtime s) v)"
proof -
  obtain r where r: "Scheduler_tick elapsed s = Inr (Inr (), update_minimum v (thread_idle t)
      ((modify_thread c (set_runtime v) s)\<lparr>sched_trace := r\<rparr>))"
    using tick_outcome [OF inv e c] unfolding v_def by blast
  let ?s1 = "(modify_thread c (set_runtime v) s)\<lparr>sched_trace := r\<rparr>"
  let ?s' = "update_minimum v (thread_idle t) ?s1"
  obtain c' i t' where ci: "sched_current s = Some c'" "threads_inv s c' i" "find_thread s c' = Some t'"
      "thread_state t' = Running"
    using sched_inv_current [OF inv] by metis
  have d: "ids_distinct s" and run: "thread_state t = Running"
    using ci c by (auto simp: threads_inv_def threads_ok_def)
  have best: "best_ready_thread ?s1 = best_ready_thread s"
    using best_ready_modify [OF d c(2), of "set_runtime v"] run
      best_ready_cong [of ?s1 "modify_thread c (set_runtime v) s"] by (simp add: candidate_def)
  have "find_thread ?s' j = find_thread (modify_thread c (set_runtime v) s) j" for j
    by (simp add: find_thread_def)
  then have f: "find_thread ?s' j = (if j = c then Some (set_runtime v t) else find_thread s j)" for j
    using c(2) by (simp add: find_modify [OF keeps_set_runtime_id])
  have inv': "sched_inv ?s'"
    using tick_inv [OF inv, of elapsed] r by simp
  have "best_ready_thread ?s' = best_ready_thread s"
    using best best_ready_cong [of ?s' ?s1] by simp
  moreover have "need_reschedule ?s' = (need_reschedule s \<or>
      (\<exists>best. best_ready_thread s = Some best \<and> virtual_runtime best < v))"
    by (auto simp: update_minimum_def best Let_def split: option.split)
  moreover have "min_virtual_runtime ?s' =
      (let current_min = (if thread_idle t then - 1 else v)
       in case best_ready_thread s of
            Some best \<Rightarrow> max (min_virtual_runtime s) (min (virtual_runtime best) current_min)
          | None \<Rightarrow> if thread_idle t then min_virtual_runtime s else max (min_virtual_runtime s) v)"
  proof -
    have mx: "max a b = (if a < b then b else a)" for a b :: u64
      by (auto simp: max_def)
    show ?thesis
      unfolding mx by (cases "best_ready_thread s") (auto simp: update_minimum_def best Let_def)
  qed
  ultimately show ?thesis
    using r inv' f c(1) by (intro exI [of _ ?s']) (simp add: tick_def)
qed

section \<open>Progress\<close>

definition vruntime :: "('c, 'm) Scheduler \<Rightarrow> ThreadId \<Rightarrow> nat" where
  "vruntime s j = (case find_thread s j of None \<Rightarrow> 0 | Some t \<Rightarrow> unat (virtual_runtime t))"

definition thread_ids :: "('c, 'm) Scheduler \<Rightarrow> ThreadId set" where
  "thread_ids s = {j. find_thread s j \<noteq> None}"

text \<open>One timer interrupt: the tick and the preemption on the way out.\<close>

definition interrupt :: "u64 \<Rightarrow> ('c, 'm) Scheduler \<Rightarrow> ('c, 'm) Scheduler panics" where
  "interrupt elapsed s =
     bind_panic (tick elapsed s) (\<lambda>s. bind_panic (preempt_contexts s) (\<lambda>(_, s). Inr s))"

fun interrupts :: "u64 list \<Rightarrow> ('c, 'm) Scheduler \<Rightarrow> ('c, 'm) Scheduler panics" where
  "interrupts [] s = Inr s"
| "interrupts (e # es) s = bind_panic (interrupt e s) (interrupts es)"

text \<open>Whatever thread the interrupt leaves running, only the interrupted thread is charged.\<close>

lemma interrupt_effect:
  assumes inv: "sched_inv s" and e: "elapsed \<noteq> 0" and c: "sched_current s = Some c" "find_thread s c = Some t"
    and i: "sched_idle s = Some i"
  defines "v \<equiv> saturating_add (virtual_runtime t) (runtime_delta elapsed (weight t))"
  shows "\<exists>s'. interrupt elapsed s = Inr s' \<and> sched_inv s' \<and> sched_idle s' = Some i \<and>
    thread_ids s' = thread_ids s \<and>
    (\<forall>j. vruntime s' j = (if j = c then unat v else vruntime s j)) \<and>
    (if (need_reschedule s \<or> (\<exists>best. best_ready_thread s = Some best \<and> virtual_runtime best < v)) \<and>
        next_choice s i \<noteq> c
     then sched_current s' = Some (next_choice s i) else sched_current s' = Some c) \<and>
    (\<forall>j u. sched_current s' \<noteq> Some j \<and> j \<noteq> c \<and> find_thread s j = Some u \<longrightarrow> find_thread s' j = Some u)"
proof -
  obtain s1 where s1: "tick elapsed s = Inr s1" "sched_inv s1" "sched_current s1 = Some c" "sched_idle s1 = Some i"
      "\<And>j. find_thread s1 j = (if j = c then Some (set_runtime v t) else find_thread s j)"
      "best_ready_thread s1 = best_ready_thread s"
      "need_reschedule s1 = (need_reschedule s \<or>
        (\<exists>best. best_ready_thread s = Some best \<and> virtual_runtime best < v))"
    using tick_effect [OF inv e c] i unfolding v_def by auto
  have nc: "next_choice s1 i = next_choice s i"
    by (simp add: next_choice_def s1(6))
  let ?n = "next_choice s i" and ?r = "need_reschedule s1 \<and> next_choice s i \<noteq> c"
  have vr1: "vruntime s1 j = (if j = c then unat v else vruntime s j)" and ids1: "thread_ids s1 = thread_ids s" for j
    using c(2) by (auto simp: vruntime_def thread_ids_def s1(5))
  obtain res s' where p: "preempt_contexts s1 = Inr (res, s')" "sched_inv s'" "sched_idle s' = Some i"
    using preempt_inv [OF s1(2)] s1(4) by auto
  have same: "find_thread s' j = (if ?r then find_thread (switched (s1\<lparr>need_reschedule := False\<rparr>) c ?n) j
      else find_thread s1 j)" for j
    using preempt_outcome [OF s1(2-4)] p(1) unfolding nc by (auto simp: find_thread_def split: if_splits)
  have cur: "sched_current s' = (if ?r then Some ?n else Some c)"
    using preempt_outcome [OF s1(2-4)] p(1) s1(3) unfolding nc by (auto split: if_splits)
  have f: "find_thread s' j = (if ?r \<and> j = ?n then map_option (set_state Running) (find_thread s1 j)
      else if ?r \<and> j = c then map_option demote (find_thread s1 j) else find_thread s1 j)" for j
    using same [of j] find_switched [of c ?n "s1\<lparr>need_reschedule := False\<rparr>" j]
    by (auto simp: find_thread_def)
  have vr: "vruntime s' j = vruntime s1 j" and ids: "thread_ids s' = thread_ids s1" for j
    by (auto simp: vruntime_def thread_ids_def f demote_def split: option.split)
  have "find_thread s' j = Some u" if "sched_current s' \<noteq> Some j" "j \<noteq> c" "find_thread s j = Some u" for j u
    using that f [of j] s1(5) [of j] cur by (auto split: if_splits)
  then show ?thesis
    using s1 p vr ids vr1 ids1 cur by (intro exI [of _ s']) (auto simp: interrupt_def)
qed

text \<open>The charge of a tick is positive, and a runtime below the maximum grows.\<close>

lemma charge_positive:
  assumes "elapsed \<noteq> 0" "w \<noteq> 0"
  shows "2 \<le> unat (runtime_delta elapsed w)"
proof -
  have "0 < unat w"
    using assms(2) by (simp add: word_neq_0_conv word_less_nat_alt)
  moreover have "unat w < 2 ^ 32" "0 < unat elapsed"
    using unat_bound [of w] assms(1) by (simp_all add: word_neq_0_conv word_less_nat_alt)
  ultimately have "2 * unat w \<le> 10000000 * unat elapsed * 1024"
    by simp
  then have "2 \<le> 10000000 * unat elapsed * 1024 div unat w"
    using \<open>0 < unat w\<close> by (simp add: less_eq_div_iff_mult_less_eq)
  then show ?thesis
    by (simp add: runtime_delta_unat [OF assms(2)])
qed

lemma charge_grows:
  assumes "elapsed \<noteq> 0" "w \<noteq> 0"
  shows "unat x \<le> unat (saturating_add x (runtime_delta elapsed w))"
    "unat x < 2 ^ 64 - 1 \<Longrightarrow> unat x < unat (saturating_add x (runtime_delta elapsed w))"
  using charge_positive [OF assms] unat_bound64 [of x] by (auto simp: unat_saturating_add)

text \<open>How far the other threads are behind the runtime of \<open>k\<close>.\<close>

definition backlog :: "('c, 'm) Scheduler \<Rightarrow> ThreadId \<Rightarrow> nat" where
  "backlog s k = (\<Sum>j \<in> thread_ids s - {k}. vruntime s k + 1 - vruntime s j)"

lemma finite_thread_ids: "finite (thread_ids s)"
proof -
  have "thread_ids s \<subseteq> thread_id ` set (live_threads s)"
    using find_threadD by (fastforce simp: thread_ids_def)
  then show ?thesis
    using finite_surj by blast
qed

text \<open>A ready thread keeps waiting, with its runtime, while the others catch up.\<close>

definition waits :: "('c, 'm) Scheduler \<Rightarrow> ThreadId \<Rightarrow> bool" where
  "waits s k \<longleftrightarrow> (\<exists>t. find_thread s k = Some t \<and> candidate t) \<and> vruntime s k < 2 ^ 64 - 1"

lemma best_below:
  assumes "sched_inv s" "waits s k" "sched_idle s = Some i"
  shows "\<exists>b. best_ready_thread s = Some b \<and> next_choice s i = thread_id b \<and>
    unat (virtual_runtime b) \<le> vruntime s k \<and> vruntime s (thread_id b) = unat (virtual_runtime b) \<and>
    sched_current s \<noteq> Some (thread_id b)"
proof -
  obtain c' i' t' where ci: "sched_current s = Some c'" "threads_inv s c' i'" "find_thread s c' = Some t'"
      "thread_state t' = Running"
    using sched_inv_current [OF assms(1)] by metis
  have d: "ids_distinct s"
    using ci by (simp add: threads_inv_def threads_ok_def)
  obtain t where t: "find_thread s k = Some t" "candidate t"
    using assms(2) by (auto simp: waits_def)
  then obtain b where b: "best_ready_thread s = Some b"
    using best_ready_None [OF d] by fastforce
  note best = best_ready_Some [OF d b]
  have "virtual_runtime b \<le> virtual_runtime t"
    using best(3) [OF t] by (auto simp: less_eq_prod_def)
  then show ?thesis
    using b best(1,2) t ci by (auto simp: next_choice_def vruntime_def word_le_nat_alt candidate_def)
qed

lemma interrupt_progress:
  assumes inv: "sched_inv s" and w: "waits s k" and e: "elapsed \<noteq> 0" and c: "sched_current s = Some c"
  shows "\<exists>s' c'. interrupt elapsed s = Inr s' \<and> sched_inv s' \<and> sched_current s' = Some c' \<and>
    (c' = k \<or> waits s' k \<and> vruntime s' c' \<le> vruntime s' k \<and> backlog s' k \<le> backlog s k \<and>
      (vruntime s c \<le> vruntime s k \<longrightarrow> backlog s' k < backlog s k))"
proof -
  obtain i t where ci: "sched_idle s = Some i" "threads_inv s c i" "find_thread s c = Some t" "thread_state t = Running"
      "thread_ok s c i t"
    using sched_inv_current [OF inv] c by (metis option.inject)
  let ?v = "saturating_add (virtual_runtime t) (runtime_delta elapsed (weight t))"
  have wt: "weight t \<noteq> 0"
    using ci(5) by (simp add: thread_ok_def)
  obtain b where b: "best_ready_thread s = Some b" "next_choice s i = thread_id b"
      "unat (virtual_runtime b) \<le> vruntime s k" "vruntime s (thread_id b) = unat (virtual_runtime b)"
      "thread_id b \<noteq> c"
    using best_below [OF inv w ci(1)] c by auto
  obtain tk where tk: "find_thread s k = Some tk" "candidate tk"
    using w by (auto simp: waits_def)
  have kc: "k \<noteq> c"
    using tk ci by (auto simp: candidate_def)
  obtain s' where s': "interrupt elapsed s = Inr s'" "sched_inv s'" "thread_ids s' = thread_ids s"
      "\<And>j. vruntime s' j = (if j = c then unat ?v else vruntime s j)"
      "if need_reschedule s \<or> virtual_runtime b < ?v then sched_current s' = Some (thread_id b)
       else sched_current s' = Some c"
      "\<And>j u. sched_current s' \<noteq> Some j \<Longrightarrow> j \<noteq> c \<Longrightarrow> find_thread s j = Some u \<Longrightarrow> find_thread s' j = Some u"
    using interrupt_effect [OF inv e c ci(3,1)] b(1,2,5) by (simp split: if_splits) metis+
  have grow: "unat (virtual_runtime t) \<le> unat ?v"
      "unat (virtual_runtime t) < 2 ^ 64 - 1 \<Longrightarrow> unat (virtual_runtime t) < unat ?v"
    using charge_grows [OF e wt] by blast+
  have vc: "vruntime s c = unat (virtual_runtime t)"
    using ci(3) by (simp add: vruntime_def)
  have vk: "vruntime s' k = vruntime s k"
    using s'(4) kc by simp
  have low: "vruntime s' (the (sched_current s')) \<le> vruntime s' k"
    using s'(4,5) b(3-5) vk by (auto simp: word_less_nat_alt split: if_splits)
  have behind: "vruntime s' k + 1 - vruntime s' j \<le> vruntime s k + 1 - vruntime s j" for j
    using s'(4) vk vc grow(1) by (auto simp: diff_le_mono2)
  then have le: "backlog s' k \<le> backlog s k"
    unfolding backlog_def s'(3) by (intro sum_mono)
  have lt: "backlog s' k < backlog s k" if "vruntime s c \<le> vruntime s k"
    unfolding backlog_def s'(3)
  proof (rule sum_strict_mono_ex1)
    have "unat (virtual_runtime t) < unat ?v"
      using grow(2) that vc w by (simp add: waits_def)
    then have "vruntime s' k + 1 - vruntime s' c < vruntime s k + 1 - vruntime s c"
      using s'(4) vk vc that by simp
    moreover have "c \<in> thread_ids s - {k}"
      using ci(3) kc by (simp add: thread_ids_def)
    ultimately show "\<exists>j \<in> thread_ids s - {k}. vruntime s' k + 1 - vruntime s' j < vruntime s k + 1 - vruntime s j"
      by blast
  qed (use finite_thread_ids behind in auto)
  have wait: "waits s' k" if "sched_current s' \<noteq> Some k"
    using that s'(6) [of k tk] kc tk w vk by (auto simp: waits_def)
  obtain c' where c': "sched_current s' = Some c'"
    using s'(5) by (metis (full_types))
  then show ?thesis
    using s'(1,2) low le lt wait by (cases "c' = k") auto
qed

lemma scheduled_within:
  assumes inv: "sched_inv s" and w: "waits s k" and e: "\<And>e. e \<in> set es \<Longrightarrow> e \<noteq> 0"
    and c: "sched_current s = Some c" "vruntime s c \<le> vruntime s k" and n: "backlog s k \<le> length es"
  shows "\<exists>m \<le> length es. \<exists>s'. interrupts (take m es) s = Inr s' \<and> sched_current s' = Some k"
  using assms
proof (induction es arbitrary: s c)
  case Nil
  obtain i t where ci: "find_thread s c = Some t" "thread_state t = Running"
    using sched_inv_current [OF Nil.prems(1)] Nil.prems(4) by (metis option.inject)
  then have "c \<in> thread_ids s" "c \<noteq> k"
    using Nil.prems(2) by (auto simp: thread_ids_def waits_def candidate_def)
  then have "vruntime s k + 1 - vruntime s c \<le> backlog s k"
    unfolding backlog_def by (intro member_le_sum) (auto simp: finite_thread_ids)
  then show ?case
    using Nil.prems(5,6) by simp
next
  case (Cons e es)
  obtain s' c' where s': "interrupt e s = Inr s'" "sched_inv s'" "sched_current s' = Some c'"
      "c' = k \<or> waits s' k \<and> vruntime s' c' \<le> vruntime s' k \<and> backlog s' k < backlog s k"
    using interrupt_progress [OF Cons.prems(1,2) _ Cons.prems(4), of e] Cons.prems(3,5) by auto
  show ?case
  proof (cases "c' = k")
    case True
    then show ?thesis
      using s' by (intro exI [of _ 1]) simp
  next
    case False
    then obtain m s'' where "m \<le> length es" "interrupts (take m es) s' = Inr s''" "sched_current s'' = Some k"
      using Cons.IH [of s' c'] s' Cons.prems(3,6) by auto
    then show ?thesis
      using s'(1) by (intro exI [of _ "Suc m"]) simp
  qed
qed

section \<open>A small instance\<close>

text \<open>A scheduler with two thread entries, after initialization and after one thread has been spawned.\<close>

definition sample_ops :: "unit ContextOps" where
  "sample_ops = \<lparr>context_empty = (), context_new = (\<lambda>_ _. ()), context_set_entry_data = (\<lambda>_ _ _. ()),
     thread_trampoline_address = 0\<rparr>"

definition sample_stack :: "unit KernelStack" where
  "sample_stack = \<lparr>stack_pages = \<lparr>run_head = PageHandle_new 0 0, run_count = 2\<rparr>, stack_base = 0x8000,
     stack_size = KERNEL_STACK_SIZE, stack_unmap = None\<rparr>"

definition sample_idle :: "(unit, unit) Thread" where
  "sample_idle = \<lparr>thread_id = 1, thread_process = 1, thread_state = Running, thread_context = (),
     thread_stack = Some sample_stack, blocked_on = None, weight = 1, virtual_runtime = 0, process_next = None,
     thread_idle = True\<rparr>"

definition sample_worker :: "(unit, unit) Thread" where
  "sample_worker = \<lparr>thread_id = 2, thread_process = 1, thread_state = Ready, thread_context = (),
     thread_stack = Some sample_stack, blocked_on = None, weight = 1024, virtual_runtime = 0,
     process_next = Some 1, thread_idle = False\<rparr>"

definition sample_sched :: "(unit, unit) Scheduler" where
  "sample_sched = \<lparr>threads = [Some sample_idle, None],
     processes = [Some \<lparr>process_id = 1, first_thread = Some 1, thread_count = 1, process_state = Active\<rparr>],
     boot_context = (), next_thread_id = 2, next_process_id = 2, sched_current = Some 1, sched_idle = Some 1,
     min_virtual_runtime = 0, need_reschedule = False, sched_initialized = True,
     sched_trace = Ring_new TRACE_EVENTS\<rparr>"

lemma sample_stack_fits: "stack_fits sample_stack"
  by (simp add: stack_fits_def sample_stack_def KERNEL_STACK_SIZE_def PAGE_SIZE_def)


lemma sample_create: "create_process (Scheduler_new sample_ops 2 1 :: (unit, unit) Scheduler) =
  Inr (Inr 1, (Scheduler_new sample_ops 2 1)\<lparr>next_process_id := 2, processes := [Some (Process_new 1)]\<rparr>)"
  by (simp add: create_process_def Scheduler_new_def Let_def max_def word_le_nat_alt)


lemma sample_top: "stack_top sample_stack = Inr 0xA000"
  by (simp add: stack_top_def add_words_def sample_stack_def KERNEL_STACK_SIZE_def PAGE_SIZE_def KERNEL_STACK_PAGES_def)

lemma sample_init:
  "init_with_idle_thread sample_ops sample_stack 0 0 (Scheduler_new sample_ops 2 1) = Inr (Inr (), sample_sched)"
proof -
  let ?s = "(Scheduler_new sample_ops 2 1 :: (unit, unit) Scheduler)\<lparr>next_process_id := 2, processes := [Some (Process_new 1)]\<rparr>"
  have l: "length (threads (Scheduler_new sample_ops 2 1 :: (unit, unit) Scheduler)) = 2"
    "length (processes (Scheduler_new sample_ops 2 1 :: (unit, unit) Scheduler)) = 1"
    by (simp_all add: Scheduler_new_def)
  have r: "replicate 2 None = [None, None :: (unit, unit) Thread option]"
    by (simp add: numeral_2_eq_2)
  have "create_thread_with_stack sample_ops 1 SCHED_MIN_WEIGHT True sample_stack 0 0 ?s =
    Inr (Inr 1, sample_sched\<lparr>sched_current := None, sched_idle := None, sched_initialized := False,
      threads := [Some (sample_idle\<lparr>thread_state := Ready\<rparr>), None]\<rparr>)"
    by (simp add: create_thread_with_stack_def sample_top insert_thread_def Let_def process_index_def
       Scheduler_new_def Process_new_def Thread_new_def add_thread_def r max_def word_le_nat_alt
       sample_sched_def sample_idle_def SCHED_MIN_WEIGHT_def add_words_def)
  then show ?thesis
    unfolding init_with_idle_thread_def Let_def l sample_create
    by (simp add: start_idle_def sample_sched_def sample_idle_def find_thread_def modify_thread_def)
qed

lemma sample_reachable: "reachable sample_ops True sample_sched"
  using reach_init_idle [OF sample_stack_fits _ _ _ sample_init] by (simp add: Scheduler_new_def MAX_TASKS_def)

definition sample_ready :: "(unit, unit) Scheduler" where
  "sample_ready = sample_sched
     \<lparr>threads := [Some sample_idle, Some sample_worker],
      processes := [Some \<lparr>process_id = 1, first_thread = Some 2, thread_count = 2, process_state = Active\<rparr>],
      next_thread_id := 3,
      sched_trace := \<lparr>ring_array = (replicate TRACE_EVENTS TraceEvent_EMPTY)
          [0 := \<lparr>event_kind = SchedEnqueue, event_subject = 2, event_object = 0, event_value = 0\<rparr>],
        ring_cursor = 1, ring_len = 1\<rparr>\<rparr>"

lemma sample_spawn: "spawn sample_ops 1 1024 sample_stack 0 0 sample_sched = Inr (Inr 2, sample_ready)"
proof -
  have a: "and 1 (127::nat) = 1"
    by simp
  show ?thesis
    by (simp add: spawn_def create_thread_with_stack_def sample_top insert_thread_def Let_def process_index_def
       Thread_new_def add_thread_def max_def word_le_nat_alt a trace_def emit_def Ring_new_def TRACE_EVENTS_def
       sample_sched_def sample_idle_def sample_worker_def sample_ready_def add_words_def)
qed

lemma sample_ready_reachable: "reachable sample_ops True sample_ready"
  using reach_call [OF sample_reachable, of "Spawn 1 1024 sample_stack 0 0" sample_ready] sample_stack_fits
  by (simp add: sample_spawn) (simp add: sample_sched_def)

lemma sample_ready_fields:
  "sched_current sample_ready = Some 1" "sched_idle sample_ready = Some 1"
  "find_thread sample_ready j = (if j = 1 then Some sample_idle else if j = 2 then Some sample_worker else None)"
  by (auto simp: sample_ready_def sample_sched_def find_thread_def sample_idle_def sample_worker_def)

lemma sample_waits: "waits sample_ready 2" "backlog sample_ready 2 = 1"
proof -
  have "thread_ids sample_ready - {2} = {1}"
    by (auto simp: thread_ids_def sample_ready_fields)
  then show "backlog sample_ready 2 = 1"
    by (simp add: backlog_def vruntime_def sample_ready_fields sample_idle_def sample_worker_def)
  show "waits sample_ready 2"
    by (simp add: waits_def sample_ready_fields candidate_def sample_worker_def vruntime_def)
qed

section \<open>Properties\<close>

lemma spawn_error_keeps:
  assumes "stack_fits stack" "process_index s pid = None \<or> None \<notin> set (threads s)"
    "spawn ops pid w stack entry arg s = Inr (res, s')"
  shows "find_thread s' = find_thread s"
proof -
  have "stack_top stack = Inr (stack_base stack + stack_size stack)"
    using assms(1) by (simp add: stack_top_def add_words_def stack_fits_def)
  moreover have "process_index (s\<lparr>next_thread_id := n\<rparr>) pid = process_index s pid" for n
    by (simp add: process_index_def)
  moreover have "position (\<lambda>slot. slot = None) (threads s) = None" if "None \<notin> set (threads s)"
    using that position_None [of "\<lambda>slot. slot = None" "threads s"] by auto
  ultimately have "\<exists>n. s' = s\<lparr>next_thread_id := n\<rparr>"
    using assms(2,3) by (auto simp: spawn_def create_thread_with_stack_def insert_thread_def Let_def split: option.splits)
  then show ?thesis
    by (auto simp: find_thread_def fun_eq_iff)
qed

lemma next_id_fresh:
  assumes "sched_inv s"
  shows "find_thread s (next_thread_id s) = None"
proof (rule ccontr)
  assume "find_thread s (next_thread_id s) \<noteq> None"
  then obtain t where t: "find_thread s (next_thread_id s) = Some t"
    by blast
  then have "thread_id t < next_thread_id s"
    using assms by (auto simp: sched_inv_def threads_inv_def threads_ok_def thread_ok_def)
  then show False
    using find_threadD(2) [OF t] by simp
qed

lemma best_ready_behind:
  assumes "ids_distinct s"
  shows "(\<exists>best. best_ready_thread s = Some best \<and> virtual_runtime best < v) \<longleftrightarrow>
    (\<exists>j u. find_thread s j = Some u \<and> candidate u \<and> virtual_runtime u < v)"
proof (cases "best_ready_thread s")
  case None
  then show ?thesis
    using best_ready_None [OF assms] by auto
next
  case (Some b)
  note b = best_ready_Some [OF assms Some]
  have "virtual_runtime b \<le> virtual_runtime u" if "find_thread s j = Some u" "candidate u" for j u
    using b(3) [OF that] by (auto simp: less_eq_prod_def)
  then show ?thesis
    using b(1,2) Some by (auto intro: le_less_trans)
qed

text \<open>
  C1. Whatever sequence of calls follows initialization, no further call of the scheduler panics:
  creating a thread, a tick, a preemption, a reschedule, entering the idle thread, blocking and
  waking, each with any arguments of its type. As long as no caller has blocked the idle thread,
  entered the idle thread while another one was current or created a thread at the last thread id
  (rules the code does not check), the scheduler invariant holds: exactly one thread is running and
  it is the current one, thread ids are distinct, every thread has a weight, the idle thread is
  never blocked and the threads of a process form a list.\<close>
theorem scheduler_reachable_safe:
  assumes "reachable ops rules s" "well_typed call"
  shows "(\<exists>s'. perform ops call s = Inr s') \<and>
    (rules \<longrightarrow> sched_inv s \<and>
      (\<exists>c t. sched_current s = Some c \<and> find_thread s c = Some t \<and>
         (\<forall>u \<in> set (live_threads s). thread_state u = Running \<longleftrightarrow> u = t)))"
  using perform_calm [OF reachable_calm [OF assms(1)] assms(2), of ops] reachable_rules_inv [OF assms(1)]
    inv_unique_running by blast

theorem scheduler_reachable_safe_witness:
  "sched_inv sample_ready \<and> (\<exists>s'. tick 3 sample_ready = Inr s') \<and>
   (\<exists>res s'. block_current 7 sample_ready = Inr (res, s')) \<and>
   (\<exists>res s'. spawn sample_ops 1 5 sample_stack 0 0 sample_ready = Inr (res, s'))"
proof -
  have "well_typed (Tick 3 :: unit sched_call)" "well_typed (Block 7 :: unit sched_call)"
      "well_typed (Spawn 1 5 sample_stack 0 0)"
    by (simp_all add: sample_stack_fits)
  from this [THEN scheduler_reachable_safe [OF sample_ready_reachable]] show ?thesis
    by (auto simp: bind_panic_Inr_iff)
qed

text \<open>
  C35. A preemption that is due takes place: the processor goes to the ready thread with the least
  virtual runtime (the lower id among equals) and to the idle thread when none is ready. It only
  stays with the current thread when that is the idle thread and no thread is ready. The outgoing
  thread becomes ready, the incoming one running and no other thread changes; the contexts that
  are switched are those of the two threads.\<close>
theorem preempt_picks_least:
  assumes "sched_inv s" "need_reschedule s" "sched_current s = Some c" "sched_idle s = Some i"
  shows "\<exists>n t s'.
    preempt_contexts s =
      Inr (Inr (if n = c then None else Some \<lparr>pair_old = ThreadContext c, pair_new = ThreadContext n\<rparr>), s') \<and>
    (n = c \<longrightarrow> c = i) \<and> find_thread s n = Some t \<and>
    (if n = i then (\<forall>j u. find_thread s j = Some u \<longrightarrow> \<not> candidate u)
     else candidate t \<and> (\<forall>j u. find_thread s j = Some u \<and> candidate u \<longrightarrow>
            (virtual_runtime t, n) \<le> (virtual_runtime u, j))) \<and>
    sched_current s' = Some n \<and> \<not> need_reschedule s' \<and>
    (\<forall>j. find_thread s' j =
       (if j = n then map_option (set_state Running) (find_thread s j)
        else if j = c then map_option (set_state Ready) (find_thread s j) else find_thread s j))"
proof -
  obtain i' t where ci: "sched_idle s = Some i'" "threads_inv s c i'" "find_thread s c = Some t" "thread_state t = Running"
    using sched_inv_current [OF assms(1)] assms(3) by (metis option.inject)
  have d: "ids_distinct s" and ok: "threads_ok s c i"
    using ci assms(4) by (auto simp: threads_inv_def threads_ok_def)
  let ?n = "next_choice s i" and ?s = "s\<lparr>need_reschedule := False\<rparr>"
  obtain tn where tn: "find_thread s ?n = Some tn"
    using next_choice_found [OF ok] by blast
  note choice = next_choice_least [OF ok tn]
  have idle: "?n = c \<longrightarrow> c = i"
    using choice ci(3,4) tn by (auto simp: candidate_def split: if_splits)
  show ?thesis
  proof (cases "?n = c")
    case True
    have "find_thread ?s j = find_thread s j" for j
      by (simp add: find_thread_def)
    moreover have "map_option (set_state Running) (find_thread s c) = find_thread s c"
      using ci(3,4) by simp
    ultimately show ?thesis
      using preempt_outcome [OF assms(1,3,4)] assms(2,3) True tn choice idle
      by (intro exI [of _ ?n] exI [of _ tn] exI [of _ ?s]) simp
  next
    case False
    then obtain r where r: "preempt_contexts s =
        Inr (Inr (Some \<lparr>pair_old = ThreadContext c, pair_new = ThreadContext ?n\<rparr>), (switched ?s c ?n)\<lparr>sched_trace := r\<rparr>)"
      using preempt_outcome [OF assms(1,3,4)] assms(2) by auto
    let ?s' = "(switched ?s c ?n)\<lparr>sched_trace := r\<rparr>"
    have "find_thread ?s' j = (if j = ?n then map_option (set_state Running) (find_thread s j)
        else if j = c then map_option (set_state Ready) (find_thread s j) else find_thread s j)" for j
      using find_switched [of c ?n ?s j] False ci(3,4) by (auto simp: find_thread_def demote_def)
    moreover have "sched_current ?s' = Some ?n" "\<not> need_reschedule ?s'"
      by (simp_all add: switched_def modify_thread_def)
    ultimately show ?thesis
      using r False tn choice by (intro exI [of _ ?n] exI [of _ tn] exI [of _ ?s']) simp
  qed
qed

text \<open>From the idle thread to the ready worker, and from the worker, with nobody ready, back to the idle thread.\<close>

definition sample_busy :: "(unit, unit) Scheduler" where
  "sample_busy = sample_ready\<lparr>need_reschedule := True, sched_current := Some 2,
     threads := [Some (sample_idle\<lparr>thread_state := Ready\<rparr>), Some (sample_worker\<lparr>thread_state := Running\<rparr>)]\<rparr>"

lemma sample_busy_fields:
  "sched_current sample_busy = Some 2" "sched_idle sample_busy = Some 1" "need_reschedule sample_busy"
  "find_thread sample_busy j =
     (if j = 1 then Some (sample_idle\<lparr>thread_state := Ready\<rparr>)
      else if j = 2 then Some (sample_worker\<lparr>thread_state := Running\<rparr>) else None)"
  by (auto simp: sample_busy_def sample_ready_def sample_sched_def find_thread_def sample_idle_def sample_worker_def)

lemma sample_busy_inv: "sched_inv sample_busy"
proof -
  let ?s = "sample_ready\<lparr>need_reschedule := True\<rparr>"
  have inv: "sched_inv ?s" and ring: "ring_ok 7 (sched_trace sample_ready)"
    using reachable_inv [OF sample_ready_reachable] by (simp_all add: sched_inv_def [of sample_ready])
  have eq: "sample_busy = (switched ?s 1 2\<lparr>sched_trace := sched_trace sample_ready\<rparr>)\<lparr>need_reschedule := True\<rparr>"
    by (simp add: sample_busy_def switched_def modify_thread_def sample_ready_def sample_sched_def demote_def
        sample_idle_def sample_worker_def)
  have "next_choice ?s 1 = 2" "sched_current ?s = Some 1" "sched_idle ?s = Some 1"
    by (simp_all add: next_choice_def best_ready_thread_def sample_ready_def sample_sched_def sample_idle_def
        sample_worker_def)
  moreover obtain "threads_ok ?s 1 1"
    using inv \<open>sched_current ?s = Some 1\<close> \<open>sched_idle ?s = Some 1\<close> by (auto simp: sched_inv_def threads_inv_def)
  moreover have "sched_initialized ?s" "length (threads ?s) \<le> MAX_TASKS" "processes_inv ?s"
    using inv unfolding sched_inv_def by blast+
  ultimately show ?thesis
    using switched_inv [of ?s 1 1, OF _ _ _ ring] unfolding eq sched_inv_need by simp
qed

theorem preempt_picks_least_witness:
  "\<exists>s'. preempt_contexts sample_busy =
     Inr (Inr (Some \<lparr>pair_old = ThreadContext 2, pair_new = ThreadContext 1\<rparr>), s') \<and>
     sched_current s' = Some 1 \<and> find_thread s' 2 = Some sample_worker"
proof -
  obtain n t s' where s': "preempt_contexts sample_busy =
        Inr (Inr (if n = 2 then None else Some \<lparr>pair_old = ThreadContext 2, pair_new = ThreadContext n\<rparr>), s')"
      "n = 2 \<longrightarrow> 2 = (1 :: ThreadId)" "find_thread sample_busy n = Some t" "sched_current s' = Some n"
      "\<forall>j. find_thread s' j =
        (if j = n then map_option (set_state Running) (find_thread sample_busy j)
         else if j = 2 then map_option (set_state Ready) (find_thread sample_busy j) else find_thread sample_busy j)"
    using preempt_picks_least [OF sample_busy_inv sample_busy_fields(3,1,2)] by blast
  then have "n = 1"
    by (auto simp: sample_busy_fields(4) split: if_splits)
  then show ?thesis
    using s' by (auto simp: sample_busy_fields(4) sample_worker_def)
qed

text \<open>
  C36. A tick charges the current thread the virtual time its elapsed ticks are worth, 10 ms per
  tick scaled by 1024 over its weight and rounded down, and saturates instead of wrapping; no other
  thread is charged. The minimum virtual runtime never decreases, and a reschedule becomes due
  exactly when some ready thread is now behind the current one.\<close>
theorem tick_charges:
  assumes "sched_inv s" "elapsed \<noteq> 0" "sched_current s = Some c" "find_thread s c = Some t"
  shows "\<exists>s' t'. tick elapsed s = Inr s' \<and> find_thread s' c = Some t' \<and>
    unat (virtual_runtime t') =
      min (unat (virtual_runtime t) + 10000000 * unat elapsed * 1024 div unat (weight t)) (2 ^ 64 - 1) \<and>
    (\<forall>j. j \<noteq> c \<longrightarrow> find_thread s' j = find_thread s j) \<and>
    min_virtual_runtime s \<le> min_virtual_runtime s' \<and>
    (need_reschedule s' \<longleftrightarrow> need_reschedule s \<or>
      (\<exists>j u. find_thread s j = Some u \<and> candidate u \<and> virtual_runtime u < virtual_runtime t'))"
proof -
  let ?v = "saturating_add (virtual_runtime t) (runtime_delta elapsed (weight t))"
  obtain c' i t' where ci: "sched_current s = Some c'" "threads_inv s c' i" "find_thread s c' = Some t'"
      "thread_ok s c' i t'"
    using sched_inv_current [OF assms(1)] by metis
  have d: "ids_distinct s" and w: "weight t \<noteq> 0"
    using ci assms(3,4) by (auto simp: threads_inv_def threads_ok_def thread_ok_def)
  obtain s' where s': "tick elapsed s = Inr s'"
      "\<forall>j. find_thread s' j = (if j = c then Some (set_runtime ?v t) else find_thread s j)"
      "need_reschedule s' = (need_reschedule s \<or>
        (\<exists>best. best_ready_thread s = Some best \<and> virtual_runtime best < ?v))"
      "min_virtual_runtime s' =
        (let current_min = (if thread_idle t then - 1 else ?v)
         in case best_ready_thread s of
              Some best \<Rightarrow> max (min_virtual_runtime s) (min (virtual_runtime best) current_min)
            | None \<Rightarrow> if thread_idle t then min_virtual_runtime s else max (min_virtual_runtime s) ?v)"
    using tick_effect [OF assms] by blast
  have "min_virtual_runtime s \<le> min_virtual_runtime s'"
    unfolding s'(4) by (simp add: Let_def split: option.split)
  moreover have "unat ?v = min (unat (virtual_runtime t) + 10000000 * unat elapsed * 1024 div unat (weight t)) (2 ^ 64 - 1)"
    by (simp add: unat_saturating_add runtime_delta_unat [OF w])
  moreover have "(\<exists>best. best_ready_thread s = Some best \<and> virtual_runtime best < ?v) \<longleftrightarrow>
      (\<exists>j u. find_thread s j = Some u \<and> candidate u \<and> virtual_runtime u < ?v)"
    by (rule best_ready_behind [OF d])
  ultimately show ?thesis
    using s'(1-3) by (intro exI [of _ s'] exI [of _ "set_runtime ?v t"]) simp
qed

theorem tick_charges_witness:
  "\<exists>s' t'. tick 1 sample_ready = Inr s' \<and> find_thread s' 1 = Some t' \<and>
     unat (virtual_runtime t') = 10240000000 \<and> need_reschedule s'"
proof -
  have w: "find_thread sample_ready 2 = Some sample_worker" "candidate sample_worker"
    by (simp_all add: sample_ready_fields candidate_def sample_worker_def)
  obtain s' t' where s': "tick 1 sample_ready = Inr s'" "find_thread s' 1 = Some t'"
      "unat (virtual_runtime t') = 10240000000"
      "need_reschedule s' \<longleftrightarrow> need_reschedule sample_ready \<or>
        (\<exists>j u. find_thread sample_ready j = Some u \<and> candidate u \<and> virtual_runtime u < virtual_runtime t')"
    using tick_charges [OF reachable_inv [OF sample_ready_reachable] _ sample_ready_fields(1), of 1 sample_idle]
    by (auto simp: sample_ready_fields(3) sample_idle_def)
  moreover have "virtual_runtime sample_worker < virtual_runtime t'"
    using s'(3) by (simp add: sample_worker_def word_less_nat_alt)
  ultimately show ?thesis
    using w by blast
qed

text \<open>
  C2. No ready thread starves: once a thread is ready with a runtime below the maximum, it is the
  current thread after at most one timer interrupt more than the other threads' lag behind its
  runtime, whatever positive number of ticks each interrupt reports.\<close>
theorem ready_thread_runs:
  assumes "sched_inv s" "waits s k" "\<forall>e \<in> set es. e \<noteq> 0" "backlog s k < length es"
  shows "\<exists>m \<le> length es. \<exists>s'. interrupts (take m es) s = Inr s' \<and> sched_current s' = Some k"
proof -
  obtain e es' where es: "es = e # es'"
    using assms(4) by (cases es) auto
  obtain c where c: "sched_current s = Some c"
    using assms(1) by (auto simp: sched_inv_def)
  obtain s1 c1 where s1: "interrupt e s = Inr s1" "sched_inv s1" "sched_current s1 = Some c1"
      "c1 = k \<or> waits s1 k \<and> vruntime s1 c1 \<le> vruntime s1 k \<and> backlog s1 k \<le> backlog s k"
    using interrupt_progress [OF assms(1,2) _ c, of e] assms(3) es by auto
  show ?thesis
  proof (cases "c1 = k")
    case True
    then show ?thesis
      using s1 es by (intro exI [of _ 1]) simp
  next
    case False
    then obtain m s2 where "m \<le> length es'" "interrupts (take m es') s1 = Inr s2" "sched_current s2 = Some k"
      using scheduled_within [OF s1(2), of k es' c1] s1(3,4) assms(3,4) es by auto
    then show ?thesis
      using s1(1) es by (intro exI [of _ "Suc m"]) simp
  qed
qed

theorem ready_thread_runs_witness:
  "waits sample_ready 2 \<and>
   (\<exists>m s'. m \<le> 2 \<and> interrupts (take m [1, 1]) sample_ready = Inr s' \<and> sched_current s' = Some 2)"
proof -
  have "backlog sample_ready 2 < length [1, 1 :: u64]"
    by (simp add: sample_waits)
  from ready_thread_runs [OF reachable_inv [OF sample_ready_reachable] sample_waits(1) _ this]
  show ?thesis
    using sample_waits(1) by (simp add: numeral_2_eq_2)
qed

text \<open>
  C37. Spawning a thread reports a missing process or a full table and otherwise inserts exactly
  one thread: ready, with the next id, the requested weight, its runtime clamped to the minimum and
  a fresh context that enters the trampoline on its own stack. Every outcome keeps the invariant and
  the current thread.\<close>
theorem spawn_outcomes:
  assumes "sched_inv s" "next_thread_id s \<noteq> - 1" "w \<noteq> 0" "stack_fits stack"
  shows "\<exists>res s'. spawn ops pid w stack entry arg s = Inr (res, s') \<and> sched_inv s' \<and>
    (case res of
       Inl e \<Rightarrow> (e = ProcessTableFull \<and> process_index s pid = None \<or>
                e = ThreadTableFull \<and> process_index s pid \<noteq> None \<and> None \<notin> set (threads s)) \<and>
              find_thread s' = find_thread s
     | Inr tid \<Rightarrow> tid = next_thread_id s \<and> find_thread s tid = None \<and> sched_current s' = sched_current s \<and>
         (\<exists>t. find_thread s' = (find_thread s)(tid \<mapsto> t) \<and> thread_state t = Ready \<and> weight t = w \<and>
           thread_process t = pid \<and> virtual_runtime t = min_virtual_runtime s \<and> thread_stack t = Some stack \<and>
           thread_context t = fresh_context ops stack entry arg))"
proof -
  obtain res s' where r: "spawn ops pid w stack entry arg s = Inr (res, s')" "sched_inv s'"
      "if process_index s pid = None then res = Inl ProcessTableFull
       else if None \<notin> set (threads s) then res = Inl ThreadTableFull
       else res = Inr (next_thread_id s) \<and>
         (\<exists>link. inserted s (created s pid w False (fresh_context ops stack entry arg) (Some stack) link) s')"
    using spawn_outcome [OF assms, of ops pid entry arg] by blast
  show ?thesis
  proof (cases "process_index s pid = None \<or> None \<notin> set (threads s)")
    case True
    then have "find_thread s' = find_thread s"
      using spawn_error_keeps [OF assms(4) True r(1)] by simp
    then show ?thesis
      using True r by (intro exI [of _ res] exI [of _ s']) (auto split: if_splits)
  next
    case False
    then obtain link where l: "res = Inr (next_thread_id s)"
        "inserted s (created s pid w False (fresh_context ops stack entry arg) (Some stack) link) s'"
      using r(3) by auto
    let ?t = "created s pid w False (fresh_context ops stack entry arg) (Some stack) link"
    have "find_thread s' = (find_thread s)(next_thread_id s \<mapsto> ?t)"
      using l(2) by (auto simp: inserted_def created_def Thread_new_def fun_eq_iff)
    moreover have "find_thread s (next_thread_id s) = None"
      using next_id_fresh [OF assms(1)] .
    ultimately show ?thesis
      using r(1,2) l by (intro exI [of _ res] exI [of _ s'])
        (auto simp: inserted_def created_def Thread_new_def intro!: exI [of _ ?t])
  qed
qed

theorem spawn_outcomes_witness:
  "\<exists>s'. spawn sample_ops 1 1024 sample_stack 0 0 sample_sched = Inr (Inr 2, s') \<and> sched_inv s' \<and>
     find_thread sample_sched 2 = None"
  using spawn_outcomes [OF reachable_inv [OF sample_reachable] _ _ sample_stack_fits, of 1024 sample_ops 1 0 0]
  by (simp add: sample_spawn) (simp add: sample_sched_def)
end
