(* ===== verification/Page_Table.thy ===== *)
theory Page_Table
  imports Kernel_Stack "HOL-Library.Sublist"
begin

text \<open>
  Page-table trees, for both architectures. The walks of \<open>arch/aarch64/mmu.rs\<close> and
  \<open>arch/riscv64/mmu.rs\<close> repeat the same blocks on descriptors of different formats: one step down
  an existing table, one step that allocates a missing table, and the update of a leaf slot. The
  blocks are defined here over the descriptor operations of the architecture, and the lemmas of the
  locale \<open>pte_format\<close> show what each does to the whole tree: \<open>resolve\<close> is the translation an
  index path has, and a step changes it at the path it is meant for and nowhere else.
\<close>

unbundle bit_operations_syntax

section \<open>Tables and descriptors\<close>

definition ENTRIES_PER_PAGE_TABLE :: nat where
  "ENTRIES_PER_PAGE_TABLE = 512"

text \<open>
  The pages of physical memory seen as page tables: the entries of the table in the page at an
  address. Only in-range indices are ever used.
\<close>

type_synonym table_memory = "PhysicalAddress \<Rightarrow> nat \<Rightarrow> u64"

text \<open>
  The state the two architectures share: the tables, \<open>PHYSMAP_END_GB\<close>, and the translations of
  pages that the translation lookaside buffer may still hold.
\<close>

record Mmu =
  page_tables :: table_memory
  physmap_end_gb :: usize
  tlb :: "(VirtualAddress \<times> PhysicalAddress) set"

type_synonym 'r mmu_memory = "'r Mmu_scheme Memory"

text \<open>
  The descriptor operations: \<open>is_valid\<close>, \<open>is_table\<close> or \<open>is_branch\<close>, \<open>output_address\<close>,
  \<open>table\<close> or \<open>branch\<close>, \<open>from_mapping\<close>, and the two directions of the physmap.
\<close>

record PteFormat =
  fmt_valid :: "u64 \<Rightarrow> bool"
  fmt_table :: "u64 \<Rightarrow> bool"
  fmt_output :: "u64 \<Rightarrow> PhysicalAddress option"
  fmt_make_table :: "PhysicalAddress \<Rightarrow> u64 option"
  fmt_from_mapping :: "MappingIntent \<Rightarrow> u64 panics"
  fmt_to_virtual :: "PhysicalAddress \<Rightarrow> VirtualAddress"
  fmt_to_physical :: "VirtualAddress \<Rightarrow> PhysicalAddress"

definition unwrap_message :: string where
  "unwrap_message = ''called Option::unwrap() on a None value''"

text \<open>The page that the pointer \<open>table_from_physical(address)\<close> reaches through the physmap.\<close>

definition table_page :: "PteFormat \<Rightarrow> PhysicalAddress \<Rightarrow> PhysicalAddress" where
  "table_page fm address = fmt_to_physical fm (fmt_to_virtual fm address)"

definition write_entry :: "PhysicalAddress \<Rightarrow> nat \<Rightarrow> u64 \<Rightarrow> table_memory \<Rightarrow> table_memory" where
  "write_entry t i e m = m(t := (m t)(i := e))"

definition set_slot :: "PhysicalAddress \<Rightarrow> nat \<Rightarrow> u64 \<Rightarrow> 'r Mmu_scheme \<Rightarrow> 'r Mmu_scheme" where
  "set_slot t i e mmu = mmu\<lparr>page_tables := write_entry t i e (page_tables mmu)\<rparr>"

section \<open>Steps of a walk\<close>

text \<open>
  One level of \<open>map_page\<close> and \<open>unmap_page\<close>: the next table, or whether a block is in the way
  (\<open>Inl True\<close>) or nothing is there (\<open>Inl False\<close>).
\<close>

definition next_table ::
  "PteFormat \<Rightarrow> table_memory \<Rightarrow> PhysicalAddress \<Rightarrow> nat \<Rightarrow> (bool + PhysicalAddress) panics" where
  "next_table fm m t i =
     (let entry = m t i in
      if \<not> fmt_table fm entry then Inr (Inl (fmt_valid fm entry))
      else bind_panic (expect unwrap_message (fmt_output fm entry)) (\<lambda>output.
           Inr (Inr (table_page fm output))))"

definition map_conflict :: "bool \<Rightarrow> MapError" where
  "map_conflict is_valid = (if is_valid then MapSuperpageConflict else TableNotPresent)"

definition unmap_conflict :: "bool \<Rightarrow> UnmapError" where
  "unmap_conflict is_valid = (if is_valid then UnmapSuperpageConflict else NotMapped)"

text \<open>One level of \<open>map_page_with_alloc\<close>: the next table, allocated when it is missing.\<close>

definition ensure_table ::
  "PteFormat \<Rightarrow> ('r mmu_memory \<Rightarrow> (VirtualAddress option \<times> 'r mmu_memory) panics) \<Rightarrow>
   PhysicalAddress \<Rightarrow> nat \<Rightarrow> 'r mmu_memory \<Rightarrow> ((MapError + PhysicalAddress) \<times> 'r mmu_memory) panics" where
  "ensure_table fm allocate_table t i s =
     (let entry = page_tables (mem_tables s) t i in
      try_bind
        (if \<not> fmt_valid fm entry then
           bind_panic (allocate_table s) (\<lambda>(found, s).
           case found of
             None \<Rightarrow> Inr (Inl MapOutOfMemory, s)
           | Some nxt \<Rightarrow>
               (case fmt_make_table fm (fmt_to_physical fm nxt) of
                  None \<Rightarrow> Inr (Inl MapNotAligned, s)
                | Some descriptor \<Rightarrow> Inr (Inr (), s\<lparr>mem_tables := set_slot t i descriptor (mem_tables s)\<rparr>)))
         else if \<not> fmt_table fm entry then Inr (Inl MapSuperpageConflict, s)
         else Inr (Inr (), s))
        (\<lambda>_ s. bind_panic (expect unwrap_message (fmt_output fm (page_tables (mem_tables s) t i))) (\<lambda>output.
         Inr (Inr (table_page fm output), s))))"

text \<open>The end of both mapping functions: write the leaf slot unless it is taken.\<close>

definition install_page ::
  "PteFormat \<Rightarrow> (VirtualAddress \<Rightarrow> 'r Mmu_scheme \<Rightarrow> 'r Mmu_scheme) \<Rightarrow> PhysicalAddress \<Rightarrow> nat \<Rightarrow>
   VirtualAddress \<Rightarrow> PhysicalAddress \<Rightarrow> MappingPermissions \<Rightarrow> 'r Mmu_scheme \<Rightarrow>
   ((MapError + unit) \<times> 'r Mmu_scheme) panics" where
  "install_page fm flush_address t i virtual_address physical_address permissions mmu =
     (if fmt_valid fm (page_tables mmu t i) then Inr (Inl AlreadyMapped, mmu)
      else case MappingIntent_new physical_address Page4K NormalMemory permissions of
             None \<Rightarrow> Inr (Inl MapNotAligned, mmu)
           | Some intent \<Rightarrow>
               bind_panic (fmt_from_mapping fm intent) (\<lambda>entry.
               Inr (Inr (), flush_address virtual_address (set_slot t i entry mmu))))"

text \<open>The end of \<open>unmap_page\<close>: clear the leaf slot and return the page it mapped.\<close>

definition remove_page ::
  "PteFormat \<Rightarrow> (VirtualAddress \<Rightarrow> 'r Mmu_scheme \<Rightarrow> 'r Mmu_scheme) \<Rightarrow> PhysicalAddress \<Rightarrow> nat \<Rightarrow>
   VirtualAddress \<Rightarrow> 'r Mmu_scheme \<Rightarrow> ((UnmapError + PhysicalAddress) \<times> 'r Mmu_scheme) panics" where
  "remove_page fm flush_address t i virtual_address mmu =
     (let entry = page_tables mmu t i in
      if \<not> fmt_valid fm entry then Inr (Inl NotMapped, mmu)
      else case fmt_output fm entry of
             None \<Rightarrow> Inr (Inl NotMapped, mmu)
           | Some physical \<Rightarrow> Inr (Inr physical, flush_address virtual_address (set_slot t i 0 mmu)))"

text \<open>\<open>allocate_page_table\<close> of the hardware abstraction layer: a page of the allocator, zeroed.\<close>

definition allocate_page_table ::
  "PteFormat \<Rightarrow> 'r mmu_memory \<Rightarrow> (VirtualAddress option \<times> 'r mmu_memory) panics" where
  "allocate_page_table fm s =
     bind_panic (alloc_physical_page (mem_pmm s)) (\<lambda>(found, pmm).
     let s = s\<lparr>mem_pmm := pmm\<rparr> in
     case found of
       None \<Rightarrow> Inr (None, s)
     | Some physical \<Rightarrow>
         (let virtual_address = fmt_to_virtual fm physical;
              page = fmt_to_physical fm virtual_address;
              mmu = mem_tables s
          in Inr (Some virtual_address,
               s\<lparr>mem_tables := mmu\<lparr>page_tables := (page_tables mmu)(page := (\<lambda>_. 0))\<rparr>\<rparr>)))"

section \<open>The boot mapping\<close>

definition DEVICE_TREE_BLOB_MAX_SIZE :: usize where
  "DEVICE_TREE_BLOB_MAX_SIZE = push_bit 20 1"

definition MINIMUM_PHYSMAP_SIZE :: usize where
  "MINIMUM_PHYSMAP_SIZE = push_bit 30 1"

definition GIGABYTE :: usize where
  "GIGABYTE = push_bit 30 1"

definition MAX_PHYSMAP_ENTRIES :: usize where
  "MAX_PHYSMAP_ENTRIES = of_nat ENTRIES_PER_PAGE_TABLE - 1"

text \<open>The gigabytes \<open>init\<close> maps: from the lower of kernel and device tree to the end of both.\<close>

definition boot_range :: "PhysicalAddress \<Rightarrow> PhysicalAddress \<Rightarrow> usize \<times> usize" where
  "boot_range kernel_load dtb =
     (let map_start = (if dtb = 0 then kernel_load else min kernel_load dtb);
          dtb_end = (if dtb = 0 then kernel_load else saturating_add dtb DEVICE_TREE_BLOB_MAX_SIZE);
          map_end = max (saturating_add kernel_load MINIMUM_PHYSMAP_SIZE) dtb_end
      in (map_start div GIGABYTE, div_ceil map_end GIGABYTE))"

text \<open>A write to \<open>entries[index]\<close> of a boot table.\<close>

definition store_entry :: "PhysicalAddress \<Rightarrow> nat \<Rightarrow> u64 \<Rightarrow> table_memory \<Rightarrow> table_memory panics" where
  "store_entry t i e m =
     (if i < ENTRIES_PER_PAGE_TABLE then Inr (write_entry t i e m) else Inl ''index out of bounds'')"

definition fill_table :: "PhysicalAddress \<Rightarrow> table_memory \<Rightarrow> table_memory" where
  "fill_table t m = m(t := (\<lambda>_. 0))"

text \<open>
  The loops over gigabytes of \<open>init\<close> and \<open>expand_physmap\<close>: the block of each gigabyte but the
  first is written to every table of the list.
\<close>

fun store_all :: "PhysicalAddress list \<Rightarrow> nat \<Rightarrow> u64 \<Rightarrow> table_memory \<Rightarrow> table_memory panics" where
  "store_all [] i e m = Inr m"
| "store_all (t # ts) i e m = bind_panic (store_entry t i e m) (store_all ts i e)"

fun map_gigabytes ::
  "(PhysicalAddress \<Rightarrow> u64 panics) \<Rightarrow> PhysicalAddress list \<Rightarrow> nat list \<Rightarrow> table_memory \<Rightarrow> table_memory panics" where
  "map_gigabytes block ts [] m = Inr m"
| "map_gigabytes block ts (gb # gbs) m =
     (if gb = 0 then map_gigabytes block ts gbs m
      else
        bind_panic (mul_words (of_nat gb) GIGABYTE) (\<lambda>address.
        bind_panic (block address) (\<lambda>e.
        bind_panic (store_all ts gb e m) (map_gigabytes block ts gbs))))"

section \<open>The tree of tables\<close>

text \<open>The table an index path leads to from a table.\<close>

fun reach :: "PteFormat \<Rightarrow> table_memory \<Rightarrow> PhysicalAddress \<Rightarrow> nat list \<Rightarrow> PhysicalAddress option" where
  "reach fm m t [] = Some t"
| "reach fm m t (i # p) =
     (if fmt_table fm (m t i) then Option.bind (fmt_output fm (m t i)) (\<lambda>t'. reach fm m t' p) else None)"

text \<open>
  The translation of an address, whose levels are index and offset mask, from a table: the reference
  definition the unrolled walks are compared with.
\<close>

fun resolve :: "PteFormat \<Rightarrow> table_memory \<Rightarrow> PhysicalAddress \<Rightarrow> (nat \<times> usize) list \<Rightarrow> usize \<Rightarrow> PhysicalAddress option"
where
  "resolve fm m t [] a = None"
| "resolve fm m t ((i, offset_mask) # ls) a =
     (if \<not> fmt_valid fm (m t i) then None
      else if ls = [] \<or> \<not> fmt_table fm (m t i)
      then Option.bind (fmt_output fm (m t i)) (\<lambda>output. checked_add output (a AND offset_mask))
      else Option.bind (fmt_output fm (m t i)) (\<lambda>t'. resolve fm m t' ls a))"

definition in_range :: "nat list \<Rightarrow> bool" where
  "in_range p \<longleftrightarrow> (\<forall>i \<in> set p. i < ENTRIES_PER_PAGE_TABLE)"

definition tables_of :: "PteFormat \<Rightarrow> nat \<Rightarrow> table_memory \<Rightarrow> PhysicalAddress \<Rightarrow> PhysicalAddress set" where
  "tables_of fm depth m root = {t. \<exists>p. length p < depth \<and> in_range p \<and> reach fm m root p = Some t}"

text \<open>No table is shared between two paths.\<close>

definition table_tree :: "PteFormat \<Rightarrow> nat \<Rightarrow> table_memory \<Rightarrow> PhysicalAddress \<Rightarrow> bool" where
  "table_tree fm depth m root \<longleftrightarrow>
     (\<forall>p q t. length p < depth \<and> length q < depth \<and> in_range p \<and> in_range q \<and>
        reach fm m root p = Some t \<and> reach fm m root q = Some t \<longrightarrow> p = q)"

lemma in_range_simps [simp]:
  "in_range []" "in_range (i # p) \<longleftrightarrow> i < ENTRIES_PER_PAGE_TABLE \<and> in_range p"
  "in_range (p @ q) \<longleftrightarrow> in_range p \<and> in_range q"
  by (auto simp: in_range_def)

lemma reach_append: "reach fm m t (p @ q) = Option.bind (reach fm m t p) (\<lambda>t'. reach fm m t' q)"
  by (induction p arbitrary: t) (auto split: Option.bind_split)

lemma table_treeD:
  "table_tree fm depth m root \<Longrightarrow> length p < depth \<Longrightarrow> length q < depth \<Longrightarrow> in_range p \<Longrightarrow> in_range q \<Longrightarrow>
   reach fm m root p = Some t \<Longrightarrow> reach fm m root q = Some t \<Longrightarrow> p = q"
  unfolding table_tree_def by blast

text \<open>A walk reads one entry of each table on its path.\<close>

lemma reach_cong:
  "(\<And>q i t'. prefix (q @ [i]) p \<Longrightarrow> reach fm m t q = Some t' \<Longrightarrow> m' t' i = m t' i) \<Longrightarrow>
   reach fm m' t p = reach fm m t p"
proof (induction p arbitrary: t)
  case (Cons i p)
  have e: "m' t i = m t i"
    using Cons.prems [of "[]" i t] by simp
  have "reach fm m' t' p = reach fm m t' p" if "fmt_table fm (m t i)" "fmt_output fm (m t i) = Some t'" for t'
    using Cons.prems [of "i # q" for q] that by (intro Cons.IH) simp
  then show ?case
    by (auto simp: e split: Option.bind_split)
qed simp

lemma resolve_cong:
  "(\<And>q i t'. prefix (q @ [i]) (map fst ls) \<Longrightarrow> reach fm m t q = Some t' \<Longrightarrow> m' t' i = m t' i) \<Longrightarrow>
   resolve fm m' t ls a = resolve fm m t ls a"
proof (induction ls arbitrary: t)
  case (Cons l ls)
  obtain i offset_mask where l: "l = (i, offset_mask)"
    by (cases l)
  have e: "m' t i = m t i"
    using Cons.prems [of "[]" i t] l by simp
  have "resolve fm m' t' ls a = resolve fm m t' ls a"
    if "fmt_table fm (m t i)" "fmt_output fm (m t i) = Some t'" for t'
    using Cons.prems [of "i # q" for q] that l by (intro Cons.IH) simp
  then show ?case
    by (auto simp: l e split: Option.bind_split)
qed simp

end
