(* ===== verification/Page_Table_Laws.thy ===== *)
theory Page_Table_Laws
  imports Page_Table
begin

text \<open>
  What the steps of a walk do to the translations of a tree. The descriptor format enters through
  the locale \<open>pte_format\<close>, which \<open>Arm64_Mmu\<close> and \<open>Riscv_Mmu\<close> interpret: an empty descriptor
  is invalid, and descriptors give back the address they were made of when it is aligned and below
  the limit of the format.
\<close>

unbundle bit_operations_syntax

section \<open>Indices\<close>

lemma unat_index: "unat (drop_bit n a AND 0x1ff) = unat (a :: usize) div 2 ^ n mod 512"
proof -
  have "(0x1ff :: usize) = mask 9"
    by (simp add: mask_eq_exp_minus_1)
  then have "unat (drop_bit n a AND 0x1ff) = unat (drop_bit n a) mod 2 ^ 9"
    using unat_and_mask [of "drop_bit n a" 9] by (simp only:)
  moreover have "unat (drop_bit n a) = unat a div 2 ^ n"
    by (metis drop_bit_eq_div unat_drop_bit_eq)
  ultimately show ?thesis
    by simp
qed

text \<open>The indices and a fixed upper part determine the page number.\<close>

lemma digit_step:
  fixes x y k :: nat
  assumes "x div (k * 512) = y div (k * 512)"
  shows "x div k mod 512 = y div k mod 512 \<longleftrightarrow> x div k = y div k"
  using assms by (metis div_mult2_eq div_mult_mod_eq)

lemma page_number_digits:
  fixes x y :: nat
  shows "x div 2 ^ 39 = y div 2 ^ 39 \<Longrightarrow>
      x div 2 ^ 30 mod 512 = y div 2 ^ 30 mod 512 \<and> x div 2 ^ 21 mod 512 = y div 2 ^ 21 mod 512 \<and>
      x div 2 ^ 12 mod 512 = y div 2 ^ 12 mod 512 \<longleftrightarrow> x - x mod 4096 = y - y mod 4096"
    and "x div 2 ^ 48 = y div 2 ^ 48 \<Longrightarrow> x div 2 ^ 39 mod 512 = y div 2 ^ 39 mod 512 \<longleftrightarrow> x div 2 ^ 39 = y div 2 ^ 39"
proof -
  have up: "x div 2 ^ 12 = y div 2 ^ 12 \<Longrightarrow> x div 2 ^ 21 = y div 2 ^ 21" "x div 2 ^ 21 = y div 2 ^ 21 \<Longrightarrow> x div 2 ^ 30 = y div 2 ^ 30"
    using div_mult2_eq [of x "2 ^ 12" 512] div_mult2_eq [of y "2 ^ 12" 512]
      div_mult2_eq [of x "2 ^ 21" 512] div_mult2_eq [of y "2 ^ 21" 512] by simp_all
  have "x div 2 ^ 12 = y div 2 ^ 12 \<longleftrightarrow> x - x mod 4096 = y - y mod 4096"
    by (simp add: minus_mod_eq_mult_div)
  then show "x div 2 ^ 30 mod 512 = y div 2 ^ 30 mod 512 \<and> x div 2 ^ 21 mod 512 = y div 2 ^ 21 mod 512 \<and>
      x div 2 ^ 12 mod 512 = y div 2 ^ 12 mod 512 \<longleftrightarrow> x - x mod 4096 = y - y mod 4096"
    if "x div 2 ^ 39 = y div 2 ^ 39"
    using that up digit_step [of x "2 ^ 30" y] digit_step [of x "2 ^ 21" y] digit_step [of x "2 ^ 12" y] by auto
  show "x div 2 ^ 39 mod 512 = y div 2 ^ 39 mod 512 \<longleftrightarrow> x div 2 ^ 39 = y div 2 ^ 39" if "x div 2 ^ 48 = y div 2 ^ 48"
    using that digit_step [of x "2 ^ 39" y] by simp
qed

lemma page_number_upper: "x - x mod 4096 = y - y mod 4096 \<Longrightarrow> x div 2 ^ 39 = y div 2 ^ 39" for x y :: nat
proof -
  assume "x - x mod 4096 = y - y mod 4096"
  then have "x div 4096 = y div 4096"
    by (simp add: minus_mod_eq_mult_div)
  then show ?thesis
    using div_mult2_eq [of x 4096 "2 ^ 27"] div_mult2_eq [of y 4096 "2 ^ 27"] by simp
qed

section \<open>Translations along a path\<close>

lemma resolve_reached:
  assumes "reach fm m t p = Some t'" "map fst ls = p @ [i]" "\<And>e. fmt_table fm e \<Longrightarrow> fmt_valid fm e"
  shows "resolve fm m t ls a =
    (if fmt_valid fm (m t' i) then Option.bind (fmt_output fm (m t' i)) (\<lambda>output. checked_add output (a AND snd (last ls)))
     else None)"
  using assms
proof (induction p arbitrary: t ls)
  case Nil
  then show ?case
    by (cases ls) auto
next
  case (Cons j p)
  then obtain offset_mask ls' where ls: "ls = (j, offset_mask) # ls'" "map fst ls' = p @ [i]"
    by (cases ls) auto
  moreover have "ls' \<noteq> []"
    using ls(2) by auto
  ultimately show ?case
    using Cons.IH [of _ ls'] Cons.prems by (auto split: if_splits Option.bind_splits)
qed

lemma resolve_missing:
  assumes "reach fm m t p = Some t'" "map fst ls = p @ i # q" "\<not> fmt_valid fm (m t' i)"
    "\<And>e. fmt_table fm e \<Longrightarrow> fmt_valid fm e"
  shows "resolve fm m t ls a = None"
  using assms
proof (induction p arbitrary: t ls)
  case Nil
  then show ?case
    by (cases ls) auto
next
  case (Cons j p)
  then obtain offset_mask ls' where ls: "ls = (j, offset_mask) # ls'" "map fst ls' = p @ i # q"
    by (cases ls) auto
  moreover have "ls' \<noteq> []"
    using ls(2) by auto
  ultimately show ?case
    using Cons.IH [of _ ls'] Cons.prems by (auto split: if_splits Option.bind_splits)
qed

text \<open>Changing an entry of a table of the tree, seen from the root.\<close>

lemma write_entry_simps [simp]:
  "write_entry t i e m t i = e" "t' \<noteq> t \<Longrightarrow> write_entry t i e m t' = m t'"
  "j \<noteq> i \<Longrightarrow> write_entry t i e m t j = m t j"
  by (simp_all add: write_entry_def)

lemma prefix_inside:
  assumes "prefix (r @ [j]) q" "in_range q" "length q \<le> depth"
  shows "length r < depth" "in_range r"
  using assms by (auto simp: prefix_def)

lemma reach_write_entry:
  assumes tree: "table_tree fm depth m root" and p: "reach fm m root p = Some t" "in_range p" "length p < depth"
    and q: "in_range q" "length q \<le> depth" "\<not> prefix (p @ [i]) q"
  shows "reach fm (write_entry t i e m) root q = reach fm m root q"
proof (rule reach_cong)
  fix r j t' assume r: "prefix (r @ [j]) q" "reach fm m root r = Some t'"
  then have "t' = t \<Longrightarrow> r = p"
    using table_treeD [OF tree p(3) _ p(2) _ p(1)] prefix_inside [OF r(1) q(1,2)] by metis
  then show "write_entry t i e m t' j = m t' j"
    using r(1) q(3) by (cases "t' = t"; cases "j = i") auto
qed

lemma resolve_write_entry:
  assumes tree: "table_tree fm depth m root" and p: "reach fm m root p = Some t" "in_range p" "length p < depth"
    and q: "in_range (map fst ls)" "length ls \<le> depth" "\<not> prefix (p @ [i]) (map fst ls)"
  shows "resolve fm (write_entry t i e m) root ls a = resolve fm m root ls a"
proof (rule resolve_cong)
  fix r j t' assume r: "prefix (r @ [j]) (map fst ls)" "reach fm m root r = Some t'"
  then have "t' = t \<Longrightarrow> r = p"
    using table_treeD [OF tree p(3) _ p(2) _ p(1)] prefix_inside [OF r(1) q(1), of depth] q(2) by auto
  then show "write_entry t i e m t' j = m t' j"
    using r(1) q(3) by (cases "t' = t"; cases "j = i") auto
qed

text \<open>A page that is no table of the tree can be overwritten.\<close>

lemma in_tables: "reach fm m root p = Some t \<Longrightarrow> in_range p \<Longrightarrow> length p < depth \<Longrightarrow> t \<in> tables_of fm depth m root"
  unfolding tables_of_def by blast

lemma reach_other_page:
  assumes "n \<notin> tables_of fm depth m root" "in_range q" "length q \<le> depth"
  shows "reach fm (m(n := entries)) root q = reach fm m root q"
proof (rule reach_cong)
  fix r j t' assume r: "prefix (r @ [j]) q" "reach fm m root r = Some t'"
  show "(m(n := entries)) t' j = m t' j"
    using in_tables [OF r(2)] prefix_inside [OF r(1) assms(2,3)] assms(1) by auto
qed

lemma resolve_other_page:
  assumes "n \<notin> tables_of fm depth m root" "in_range (map fst ls)" "length ls \<le> depth"
  shows "resolve fm (m(n := entries)) root ls a = resolve fm m root ls a"
proof (rule resolve_cong)
  fix r j t' assume r: "prefix (r @ [j]) (map fst ls)" "reach fm m root r = Some t'"
  show "(m(n := entries)) t' j = m t' j"
    using in_tables [OF r(2)] prefix_inside [OF r(1) assms(2), of depth] assms(1,3) by auto
qed

lemma reach_same_tree:
  assumes "\<And>q. in_range q \<Longrightarrow> length q < depth \<Longrightarrow> reach fm m' root q = reach fm m root q"
  shows "table_tree fm depth m' root = table_tree fm depth m root" "tables_of fm depth m' root = tables_of fm depth m root"
proof -
  show "table_tree fm depth m' root = table_tree fm depth m root"
    using assms unfolding table_tree_def by metis
  show "tables_of fm depth m' root = tables_of fm depth m root"
    using assms unfolding tables_of_def by metis
qed

section \<open>Laws of a descriptor format\<close>

locale pte_format =
  fixes fm :: PteFormat and limit :: nat
  assumes empty_invalid: "\<not> fmt_valid fm 0"
    and table_valid: "fmt_table fm e \<Longrightarrow> fmt_valid fm e"
    and valid_output: "fmt_valid fm e \<Longrightarrow> \<exists>a. fmt_output fm e = Some a"
    and physmap_inverse: "fmt_to_physical fm (fmt_to_virtual fm a) = a"
    and make_table: "is_page_aligned a \<Longrightarrow> unat a < limit \<Longrightarrow>
      \<exists>d. fmt_make_table fm a = Some d \<and> fmt_table fm d \<and> fmt_output fm d = Some a"
    and make_leaf: "unat a < limit \<Longrightarrow> MappingIntent_new a Page4K NormalMemory permissions = Some intent \<Longrightarrow>
      \<exists>e. fmt_from_mapping fm intent = Inr e \<and> fmt_valid fm e \<and> fmt_output fm e = Some a"
begin

lemma table_page_id [simp]: "table_page fm a = a"
  by (simp add: table_page_def physmap_inverse)

lemma empty_no_table: "\<not> fmt_table fm 0"
  using table_valid empty_invalid by blast

text \<open>Writing a leaf slot changes the translations of that slot only.\<close>

lemma leaf_write:
  assumes tree: "table_tree fm (Suc (length p)) m root" and p: "reach fm m root p = Some t" "in_range p"
  shows "in_range q \<Longrightarrow> length q \<le> length p \<Longrightarrow> reach fm (write_entry t i e m) root q = reach fm m root q"
    "in_range (map fst ls) \<Longrightarrow> length ls = Suc (length p) \<Longrightarrow> resolve fm (write_entry t i e m) root ls a =
       (if map fst ls = p @ [i]
        then if fmt_valid fm e then Option.bind (fmt_output fm e) (\<lambda>output. checked_add output (a AND snd (last ls)))
             else None
        else resolve fm m root ls a)"
proof -
  have r: "reach fm (write_entry t i e m) root q = reach fm m root q" if "in_range q" "length q \<le> length p" for q
    using that by (intro reach_write_entry [OF tree p]) (auto dest: prefix_length_le)
  then show "in_range q \<Longrightarrow> length q \<le> length p \<Longrightarrow> reach fm (write_entry t i e m) root q = reach fm m root q" .
  assume ls: "in_range (map fst ls)" "length ls = Suc (length p)"
  show "resolve fm (write_entry t i e m) root ls a =
       (if map fst ls = p @ [i]
        then if fmt_valid fm e then Option.bind (fmt_output fm e) (\<lambda>output. checked_add output (a AND snd (last ls)))
             else None
        else resolve fm m root ls a)"
  proof (cases "map fst ls = p @ [i]")
    case True
    have "reach fm (write_entry t i e m) root p = Some t"
      using r p by simp
    then show ?thesis
      using resolve_reached [OF _ True table_valid] True by simp
  next
    case False
    have "length (map fst ls) = length (p @ [i])"
      using ls(2) by simp
    then have "\<not> prefix (p @ [i]) (map fst ls)"
      using False by (metis not_equal_is_parallel parallelD1)
    then show ?thesis
      using False resolve_write_entry [OF tree p _ ls(1)] ls(2) by simp
  qed
qed

text \<open>Installing a fresh empty table changes no translation and adds one path to the tree.\<close>

lemma table_install:
  assumes tree: "table_tree fm depth m root" and p: "reach fm m root p = Some t" "in_range (p @ [i])"
    and d: "Suc (length p) < depth" and invalid: "\<not> fmt_valid fm (m t i)"
    and n: "n \<notin> tables_of fm depth m root" "\<And>j. m n j = 0" and e: "fmt_table fm e" "fmt_output fm e = Some n"
  defines "m' \<equiv> write_entry t i e m"
  shows "in_range q \<Longrightarrow> length q < depth \<Longrightarrow>
      reach fm m' root q = (if q = p @ [i] then Some n else reach fm m root q)"
    and "in_range (map fst ls) \<Longrightarrow> length ls = depth \<Longrightarrow> resolve fm m' root ls a = resolve fm m root ls a"
proof -
  have pd: "length p < depth" "in_range p"
    using d p(2) by simp_all
  have nt: "n \<noteq> t"
    using n(1) in_tables [OF p(1)] pd by blast
  have rp: "reach fm m' root p = Some t"
    unfolding m'_def using reach_write_entry [OF tree p(1) pd(2,1) pd(2), of i e] p(1) pd by (auto dest: prefix_length_le)
  have below: "reach fm m' root (p @ i # q) = (if q = [] then Some n else None)" for q
  proof -
    have "reach fm m' n q = (if q = [] then Some n else None)"
      using n(2) nt by (cases q) (simp_all add: m'_def empty_no_table)
    then show ?thesis
      using rp e by (simp add: reach_append m'_def)
  qed
  show "reach fm m' root q = (if q = p @ [i] then Some n else reach fm m root q)"
    if "in_range q" "length q < depth" for q
  proof (cases "prefix (p @ [i]) q")
    case True
    then obtain r where q: "q = p @ i # r"
      by (auto simp: prefix_def)
    have "reach fm m root q = None"
      using p(1) invalid table_valid by (auto simp: q reach_append)
    then show ?thesis
      using below [of r] q by auto
  next
    case False
    then show ?thesis
      using reach_write_entry [OF tree p(1) pd(2,1) that(1) _ False] that(2) by (auto simp: m'_def)
  qed
  show "resolve fm m' root ls a = resolve fm m root ls a" if ls: "in_range (map fst ls)" "length ls = depth"
  proof (cases "prefix (p @ [i]) (map fst ls)")
    case True
    then obtain r where r: "map fst ls = p @ i # r"
      by (auto simp: prefix_def)
    have "length (map fst ls) = depth"
      using ls(2) by simp
    then obtain j r' where r': "r = j # r'"
      using r d by (cases r) auto
    have "reach fm m' root (p @ [i]) = Some n" "m' n j = 0"
      using below [of "[]"] n(2) nt by (simp_all add: m'_def)
    then have "resolve fm m' root ls a = None"
      using resolve_missing [of fm m' root "p @ [i]" n ls j r'] r r' empty_invalid table_valid by simp
    moreover have "resolve fm m root ls a = None"
      using resolve_missing [OF p(1) r invalid] table_valid by blast
    ultimately show ?thesis
      by simp
  next
    case False
    then show ?thesis
      unfolding m'_def using resolve_write_entry [OF tree p(1) pd(2,1) ls(1) _ False] ls(2) by simp
  qed
qed

end

end
