(* ===== verification/Page_Table_Memory.thy ===== *)
theory Page_Table_Memory
  imports Page_Table_Laws
begin

text \<open>
  Page tables and the page allocator together: \<open>memory_ok\<close> says that the tables form a tree none
  of whose pages is free, and the lemmas show that mapping and unmapping a page keep it, take pages
  from the allocator only for new tables, and change the translations as the caller asked.
\<close>

unbundle bit_operations_syntax

section \<open>Pages taken for tables\<close>

definition takes_pages :: "PhysicalMemoryManager \<Rightarrow> PhysicalMemoryManager \<Rightarrow> PageHandle list \<Rightarrow> bool" where
  "takes_pages pmm pmm' ns \<longleftrightarrow>
     same_config pmm pmm' \<and> free_list pmm = ns @ free_list pmm' \<and> status_updated pmm pmm' (set ns) (Allocated, False)"

definition memory_ok :: "PteFormat \<Rightarrow> nat \<Rightarrow> nat \<Rightarrow> PhysicalAddress \<Rightarrow> 'r mmu_memory \<Rightarrow> bool" where
  "memory_ok fm limit depth root s \<longleftrightarrow>
     pool_inv (mem_pmm s) \<and>
     (\<forall>h. managed (mem_pmm s) h \<longrightarrow> unat (handle_address (mem_pmm s) h) < limit) \<and>
     table_tree fm depth (page_tables (mem_tables s)) root \<and>
     tables_of fm depth (page_tables (mem_tables s)) root \<inter> set (free_addresses (mem_pmm s)) = {}"

definition same_translations :: "PteFormat \<Rightarrow> nat \<Rightarrow> PhysicalAddress \<Rightarrow> table_memory \<Rightarrow> table_memory \<Rightarrow> bool" where
  "same_translations fm depth root m m' \<longleftrightarrow>
     (\<forall>ls a. in_range (map fst ls) \<and> length ls = depth \<longrightarrow> resolve fm m' root ls a = resolve fm m root ls a)"

definition reach_kept :: "PteFormat \<Rightarrow> nat \<Rightarrow> PhysicalAddress \<Rightarrow> table_memory \<Rightarrow> table_memory \<Rightarrow> bool" where
  "reach_kept fm depth root m m' \<longleftrightarrow>
     (\<forall>q t. in_range q \<and> length q < depth \<and> reach fm m root q = Some t \<longrightarrow> reach fm m' root q = Some t)"

text \<open>The tree has grown by empty tables in the pages \<open>ns\<close>.\<close>

definition grown :: "PteFormat \<Rightarrow> nat \<Rightarrow> PhysicalAddress \<Rightarrow> PageHandle list \<Rightarrow> 'r mmu_memory \<Rightarrow> 'r mmu_memory \<Rightarrow> bool" where
  "grown fm depth root ns s s' \<longleftrightarrow>
     takes_pages (mem_pmm s) (mem_pmm s') ns \<and>
     (\<exists>m'. mem_tables s' = (mem_tables s)\<lparr>page_tables := m'\<rparr>) \<and>
     reach_kept fm depth root (page_tables (mem_tables s)) (page_tables (mem_tables s')) \<and>
     same_translations fm depth root (page_tables (mem_tables s)) (page_tables (mem_tables s')) \<and>
     tables_of fm depth (page_tables (mem_tables s')) root =
       tables_of fm depth (page_tables (mem_tables s)) root \<union> handle_address (mem_pmm s) ` set ns"

lemma takes_pages_refl [simp]: "takes_pages pmm pmm []"
  by (simp add: takes_pages_def status_updated_def)

lemma takes_pages_trans:
  assumes "takes_pages a b ns" "takes_pages b c ns'"
  shows "takes_pages a c (ns @ ns')"
proof -
  have cfg: "same_config a b" "same_config b c"
    using assms by (simp_all add: takes_pages_def)
  have m: "managed b h = managed a h" for h
    by (simp add: same_config_simps [OF cfg(1)])
  have "status_updated a c (set (ns @ ns')) (Allocated, False)"
    using assms m by (auto simp: takes_pages_def status_updated_def)
  then show ?thesis
    using assms same_config_trans [OF cfg] by (simp add: takes_pages_def)
qed

lemma takes_pages_addresses:
  assumes "takes_pages pmm pmm' ns"
  shows "free_addresses pmm = map (handle_address pmm) ns @ free_addresses pmm'"
  using assms handle_address_config [of pmm pmm'] by (auto simp: takes_pages_def free_addresses_def)

lemma grown_refl [simp]: "grown fm depth root [] s s"
  by (simp add: grown_def same_translations_def reach_kept_def) (metis Mmu.surjective Mmu.update_convs(1))

lemma grown_trans:
  assumes "grown fm depth root ns a b" "grown fm depth root ns' b c"
  shows "grown fm depth root (ns @ ns') a c"
proof -
  have cfg: "same_config (mem_pmm a) (mem_pmm b)"
    using assms(1) by (simp add: grown_def takes_pages_def)
  have "takes_pages (mem_pmm a) (mem_pmm c) (ns @ ns')"
    using assms takes_pages_trans by (auto simp: grown_def)
  moreover have "\<exists>m'. mem_tables c = (mem_tables a)\<lparr>page_tables := m'\<rparr>"
    using assms by (auto simp: grown_def)
  ultimately show ?thesis
    using assms unfolding grown_def same_translations_def reach_kept_def handle_address_config [OF cfg] by (auto simp: image_Un Un_assoc)
qed

lemma tree_extended:
  assumes tree: "table_tree fm depth m root" and n: "n \<notin> tables_of fm depth m root"
    and q0: "in_range q0" "length q0 < depth" "reach fm m root q0 = None"
    and r: "\<And>q. in_range q \<Longrightarrow> length q < depth \<Longrightarrow>
      reach fm m' root q = (if q = q0 then Some n else reach fm m root q)"
  shows "table_tree fm depth m' root" "tables_of fm depth m' root = insert n (tables_of fm depth m root)"
proof -
  have no: "reach fm m root q \<noteq> Some n" if "length q < depth" "in_range q" for q
    using n that in_tables by blast
  show "table_tree fm depth m' root"
    unfolding table_tree_def
  proof (intro allI impI)
    fix q q' t
    assume a: "length q < depth \<and> length q' < depth \<and> in_range q \<and> in_range q' \<and>
      reach fm m' root q = Some t \<and> reach fm m' root q' = Some t"
    then show "q = q'"
      using r [of q] r [of q'] no table_treeD [OF tree, of q q' t] by (auto split: if_splits)
  qed
  have "t \<in> tables_of fm depth m' root \<longleftrightarrow> t = n \<or> t \<in> tables_of fm depth m root" for t
    unfolding tables_of_def using r q0 by (auto split: if_splits) (metis option.distinct(1))
  then show "tables_of fm depth m' root = insert n (tables_of fm depth m root)"
    by blast
qed

section \<open>Mapping and unmapping along a path\<close>

text \<open>The levels above the leaf, for any number of levels.\<close>

fun ensure_path ::
  "PteFormat \<Rightarrow> ('r mmu_memory \<Rightarrow> (VirtualAddress option \<times> 'r mmu_memory) panics) \<Rightarrow>
   PhysicalAddress \<Rightarrow> nat list \<Rightarrow> 'r mmu_memory \<Rightarrow> ((MapError + PhysicalAddress) \<times> 'r mmu_memory) panics" where
  "ensure_path fm allocate_table t [] s = Inr (Inr t, s)"
| "ensure_path fm allocate_table t (i # p) s =
     try_bind (ensure_table fm allocate_table t i s) (\<lambda>t s. ensure_path fm allocate_table t p s)"

fun walk_path :: "PteFormat \<Rightarrow> table_memory \<Rightarrow> PhysicalAddress \<Rightarrow> nat list \<Rightarrow> (bool + PhysicalAddress) panics" where
  "walk_path fm m t [] = Inr (Inr t)"
| "walk_path fm m t (i # p) =
     bind_panic (next_table fm m t i) (\<lambda>r. case r of Inl v \<Rightarrow> Inr (Inl v) | Inr t \<Rightarrow> walk_path fm m t p)"

definition with_tables :: "('r mmu_memory) \<Rightarrow> ('e \<times> 'r Mmu_scheme) panics \<Rightarrow> ('e \<times> 'r mmu_memory) panics" where
  "with_tables s r = bind_panic r (\<lambda>(x, mmu). Inr (x, s\<lparr>mem_tables := mmu\<rparr>))"

text \<open>\<open>map_page_with_alloc\<close>, \<open>map_page\<close> and \<open>unmap_page\<close> after their checks, for any number of levels.\<close>

definition map_path ::
  "PteFormat \<Rightarrow> ('r mmu_memory \<Rightarrow> (VirtualAddress option \<times> 'r mmu_memory) panics) \<Rightarrow>
   (VirtualAddress \<Rightarrow> 'r Mmu_scheme \<Rightarrow> 'r Mmu_scheme) \<Rightarrow> PhysicalAddress \<Rightarrow> nat list \<Rightarrow> nat \<Rightarrow>
   VirtualAddress \<Rightarrow> PhysicalAddress \<Rightarrow> MappingPermissions \<Rightarrow> 'r mmu_memory \<Rightarrow>
   ((MapError + unit) \<times> 'r mmu_memory) panics" where
  "map_path fm allocate_table flush root path i va pa perms s =
     try_bind (ensure_path fm allocate_table root path s) (\<lambda>t s.
     with_tables s (install_page fm flush t i va pa perms (mem_tables s)))"

definition map_present_path ::
  "PteFormat \<Rightarrow> (VirtualAddress \<Rightarrow> 'r Mmu_scheme \<Rightarrow> 'r Mmu_scheme) \<Rightarrow> PhysicalAddress \<Rightarrow> nat list \<Rightarrow> nat \<Rightarrow>
   VirtualAddress \<Rightarrow> PhysicalAddress \<Rightarrow> MappingPermissions \<Rightarrow> 'r Mmu_scheme \<Rightarrow>
   ((MapError + unit) \<times> 'r Mmu_scheme) panics" where
  "map_present_path fm flush root path i va pa perms mmu =
     bind_panic (walk_path fm (page_tables mmu) root path) (\<lambda>r.
     case r of
       Inl v \<Rightarrow> Inr (Inl (map_conflict v), mmu)
     | Inr t \<Rightarrow> install_page fm flush t i va pa perms mmu)"

definition unmap_path ::
  "PteFormat \<Rightarrow> (VirtualAddress \<Rightarrow> 'r Mmu_scheme \<Rightarrow> 'r Mmu_scheme) \<Rightarrow> PhysicalAddress \<Rightarrow> nat list \<Rightarrow> nat \<Rightarrow>
   VirtualAddress \<Rightarrow> 'r Mmu_scheme \<Rightarrow> ((UnmapError + PhysicalAddress) \<times> 'r Mmu_scheme) panics" where
  "unmap_path fm flush root path i va mmu =
     bind_panic (walk_path fm (page_tables mmu) root path) (\<lambda>r.
     case r of
       Inl v \<Rightarrow> Inr (Inl (unmap_conflict v), mmu)
     | Inr t \<Rightarrow> remove_page fm flush t i va mmu)"

definition blocked_path :: "PteFormat \<Rightarrow> table_memory \<Rightarrow> PhysicalAddress \<Rightarrow> nat list \<Rightarrow> bool" where
  "blocked_path fm m root p \<longleftrightarrow>
     (\<exists>q i r t. p = q @ i # r \<and> reach fm m root q = Some t \<and> fmt_valid fm (m t i) \<and> \<not> fmt_table fm (m t i))"

text \<open>The translations of one page path are replaced, all others kept.\<close>

definition translations_set ::
  "PteFormat \<Rightarrow> PhysicalAddress \<Rightarrow> nat list \<Rightarrow> PhysicalAddress option \<Rightarrow> table_memory \<Rightarrow> table_memory \<Rightarrow> bool" where
  "translations_set fm root path target m m' \<longleftrightarrow>
     (\<forall>ls a. in_range (map fst ls) \<and> length ls = length path \<longrightarrow>
        resolve fm m' root ls a =
          (if map fst ls = path then Option.bind target (\<lambda>base. checked_add base (a AND snd (last ls)))
           else resolve fm m root ls a))"

definition untranslated :: "PteFormat \<Rightarrow> PhysicalAddress \<Rightarrow> nat list \<Rightarrow> table_memory \<Rightarrow> bool" where
  "untranslated fm root path m \<longleftrightarrow> (\<forall>ls a. map fst ls = path \<longrightarrow> resolve fm m root ls a = None)"

definition leaf_translated :: "PteFormat \<Rightarrow> PhysicalAddress \<Rightarrow> nat list \<Rightarrow> PhysicalAddress \<Rightarrow> table_memory \<Rightarrow> bool" where
  "leaf_translated fm root path pa m \<longleftrightarrow>
     (\<forall>ls a. map fst ls = path \<longrightarrow> resolve fm m root ls a = checked_add pa (a AND snd (last ls)))"

text \<open>An invalidation touches the buffer only.\<close>

definition flush_only :: "(VirtualAddress \<Rightarrow> 'r Mmu_scheme \<Rightarrow> 'r Mmu_scheme) \<Rightarrow> bool" where
  "flush_only flush \<longleftrightarrow> (\<forall>a mmu. \<exists>cached. flush a mmu = mmu\<lparr>tlb := cached\<rparr>)"

lemma flush_only_tables: "flush_only flush \<Longrightarrow> page_tables (flush a mmu) = page_tables mmu"
  unfolding flush_only_def by (metis Mmu.select_convs(1) Mmu.surjective Mmu.update_convs(3))

context pte_format
begin

lemma memory_okD:
  assumes "memory_ok fm limit depth root s"
  shows "pool_inv (mem_pmm s)" "table_tree fm depth (page_tables (mem_tables s)) root"
    "managed (mem_pmm s) h \<Longrightarrow> unat (handle_address (mem_pmm s) h) < limit"
    "h \<in> set (free_list (mem_pmm s)) \<Longrightarrow> handle_address (mem_pmm s) h \<notin> tables_of fm depth (page_tables (mem_tables s)) root"
  using assms by (auto simp: memory_ok_def free_addresses_def)

lemma allocate_empty:
  assumes "pool_inv (mem_pmm s)" "free_list (mem_pmm s) = []"
  shows "allocate_page_table fm s = Inr (None, s)"
  using address_pool.alloc_empty [OF assms(1)] assms(2)
  by (simp add: allocate_page_table_def free_addresses_def)

lemma allocate_next:
  assumes "pool_inv (mem_pmm s)" "free_list (mem_pmm s) = h # hs"
  defines "a \<equiv> handle_address (mem_pmm s) h"
  shows "\<exists>pmm'. pool_inv pmm' \<and> takes_pages (mem_pmm s) pmm' [h] \<and>
    allocate_page_table fm s = Inr (Some (fmt_to_virtual fm a),
      s\<lparr>mem_pmm := pmm',
        mem_tables := (mem_tables s)\<lparr>page_tables := (page_tables (mem_tables s))(a := (\<lambda>_. 0))\<rparr>\<rparr>)"
proof -
  obtain pmm' where p: "alloc_physical_page (mem_pmm s) = Inr (Some a, pmm')" "pool_inv pmm'" "free_list pmm' = hs"
      "same_config (mem_pmm s) pmm'" "status_updated (mem_pmm s) pmm' {h} (Allocated, False)"
    using address_pool_alloc [OF assms(1,2)] unfolding a_def by blast
  then show ?thesis
    using assms(2) by (intro exI [of _ pmm']) (simp add: allocate_page_table_def physmap_inverse takes_pages_def Let_def)
qed

lemma free_page_usable:
  assumes ok: "memory_ok fm limit depth root s" and h: "h \<in> set (free_list (mem_pmm s))"
  shows "is_page_aligned (handle_address (mem_pmm s) h)" "unat (handle_address (mem_pmm s) h) < limit"
    "handle_address (mem_pmm s) h \<notin> tables_of fm depth (page_tables (mem_tables s)) root"
  using memory_okD [OF ok] free_list_managed [OF memory_okD(1) [OF ok] h] h
    handle_address_aligned [OF pool_inv_wf [OF memory_okD(1) [OF ok]]] by auto

text \<open>A new table in the first free page.\<close>

lemma new_table:
  assumes ok: "memory_ok fm limit depth root s" and h: "free_list (mem_pmm s) = h # hs"
    and p: "reach fm (page_tables (mem_tables s)) root p = Some t" "in_range (p @ [i])" "Suc (length p) < depth"
    and invalid: "\<not> fmt_valid fm (page_tables (mem_tables s) t i)"
    and pmm': "pool_inv pmm'" "takes_pages (mem_pmm s) pmm' [h]"
    and d: "fmt_table fm d" "fmt_output fm d = Some (handle_address (mem_pmm s) h)"
  defines "n \<equiv> handle_address (mem_pmm s) h"
  defines "m' \<equiv> write_entry t i d ((page_tables (mem_tables s))(n := (\<lambda>_. 0)))"
  defines "s' \<equiv> s\<lparr>mem_pmm := pmm', mem_tables := (mem_tables s)\<lparr>page_tables := m'\<rparr>\<rparr>"
  shows "memory_ok fm limit depth root s'" "grown fm depth root [h] s s'" "reach fm m' root (p @ [i]) = Some n"
proof -
  let ?m = "page_tables (mem_tables s)" and ?pmm = "mem_pmm s"
  define z where "z = ?m(n := (\<lambda>_. 0))"
  note tree = memory_okD(2) [OF ok]
  have n: "n \<notin> tables_of fm depth ?m root"
    unfolding n_def using free_page_usable(3) [OF ok] h by simp
  have z: "in_range q \<Longrightarrow> length q \<le> depth \<Longrightarrow> reach fm z root q = reach fm ?m root q"
    "in_range (map fst ls) \<Longrightarrow> length ls \<le> depth \<Longrightarrow> resolve fm z root ls a = resolve fm ?m root ls a" for q ls a
    unfolding z_def using reach_other_page [OF n] resolve_other_page [OF n] by blast+
  have same: "table_tree fm depth z root" "n \<notin> tables_of fm depth z root"
    using reach_same_tree [of depth fm z root ?m] z(1) tree n by simp_all
  have "z t i = ?m t i" and z0: "z n j = 0" for j
    using n in_tables [OF p(1)] p(2,3) by (auto simp: z_def)
  then have inv: "\<not> fmt_valid fm (z t i)"
    using invalid by simp
  have pz: "reach fm z root p = Some t" and e: "fmt_table fm d" "fmt_output fm d = Some n"
    using z(1) p d by (simp_all add: n_def)
  note install = table_install [OF same(1) pz p(2,3) inv same(2) z0 e]
  have m': "m' = write_entry t i d z"
    by (simp add: m'_def z_def)
  have r: "reach fm m' root q = (if q = p @ [i] then Some n else reach fm ?m root q)"
    if "in_range q" "length q < depth" for q
    using install(1) [OF that] z(1) [of q] that unfolding m' by simp
  then show rp: "reach fm m' root (p @ [i]) = Some n"
    using p(2,3) by simp
  have res: "same_translations fm depth root ?m m'"
    using install(2) z(2) unfolding m' same_translations_def by simp
  have old: "reach fm ?m root (p @ [i]) = None"
    using p(1) invalid table_valid by (auto simp: reach_append)
  note tabs = tree_extended [OF tree n _ _ old r]
  have free: "set (free_addresses ?pmm) = insert n (set (free_addresses pmm'))" "n \<notin> set (free_addresses pmm')"
    using takes_pages_addresses [OF pmm'(2)] address_pool.avail_fresh [OF memory_okD(1) [OF ok]]
    by (simp_all add: n_def)
  have cfg: "same_config ?pmm pmm'"
    using pmm'(2) by (simp add: takes_pages_def)
  show "memory_ok fm limit depth root s'"
    using ok pmm'(1) tabs free p(2,3)
    by (auto simp: memory_ok_def s'_def same_config_simps [OF cfg] handle_address_config [OF cfg])
  show "grown fm depth root [h] s s'"
    unfolding grown_def s'_def reach_kept_def using pmm'(2) res tabs r old p(2,3) by (auto simp: n_def)
qed

text \<open>Every outcome of one level.\<close>

lemma ensure_table_spec:
  assumes ok: "memory_ok fm limit depth root s"
    and p: "reach fm (page_tables (mem_tables s)) root p = Some t" "in_range (p @ [i])" "Suc (length p) < depth"
  shows "\<exists>r s' ns. ensure_table fm (allocate_page_table fm) t i s = Inr (r, s') \<and>
    memory_ok fm limit depth root s' \<and> grown fm depth root ns s s' \<and>
    (case r of
       Inr t' \<Rightarrow> reach fm (page_tables (mem_tables s')) root (p @ [i]) = Some t'
     | Inl e \<Rightarrow> e = MapOutOfMemory \<and> free_list (mem_pmm s') = [] \<or>
         e = MapSuperpageConflict \<and> blocked_path fm (page_tables (mem_tables s')) root (p @ [i]))"
proof -
  let ?m = "page_tables (mem_tables s)"
  consider (table) "fmt_table fm (?m t i)" | (block) "fmt_valid fm (?m t i)" "\<not> fmt_table fm (?m t i)"
    | (empty) "\<not> fmt_valid fm (?m t i)" "free_list (mem_pmm s) = []"
    | (new) h hs where "\<not> fmt_valid fm (?m t i)" "free_list (mem_pmm s) = h # hs"
    using table_valid by (cases "free_list (mem_pmm s)") auto
  then show ?thesis
  proof cases
    case table
    then obtain o1 where "fmt_output fm (?m t i) = Some o1"
      using table_valid valid_output by blast
    then show ?thesis
      using table table_valid [OF table] ok p
      by (intro exI [of _ "Inr o1"] exI [of _ s] exI [of _ "[]"]) (simp add: ensure_table_def reach_append)
  next
    case block
    then have "blocked_path fm ?m root (p @ [i])"
      using p(1) unfolding blocked_path_def by blast
    then show ?thesis
      using block ok
      by (intro exI [of _ "Inl MapSuperpageConflict"] exI [of _ s] exI [of _ "[]"]) (simp add: ensure_table_def)
  next
    case empty
    then show ?thesis
      using allocate_empty [OF memory_okD(1) [OF ok]] ok
      by (intro exI [of _ "Inl MapOutOfMemory"] exI [of _ s] exI [of _ "[]"]) (simp add: ensure_table_def)
  next
    case new
    let ?n = "handle_address (mem_pmm s) h"
    have h: "h \<in> set (free_list (mem_pmm s))"
      using new by simp
    obtain d where d: "fmt_make_table fm ?n = Some d" "fmt_table fm d" "fmt_output fm d = Some ?n"
      using make_table free_page_usable(1,2) [OF ok h] by blast
    obtain pmm' where pmm': "pool_inv pmm'" "takes_pages (mem_pmm s) pmm' [h]"
        "allocate_page_table fm s = Inr (Some (fmt_to_virtual fm ?n),
          s\<lparr>mem_pmm := pmm', mem_tables := (mem_tables s)\<lparr>page_tables := ?m(?n := (\<lambda>_. 0))\<rparr>\<rparr>)"
      using allocate_next [OF memory_okD(1) [OF ok] new(2)] by blast
    let ?s' = "s\<lparr>mem_pmm := pmm', mem_tables := (mem_tables s)\<lparr>page_tables := write_entry t i d (?m(?n := (\<lambda>_. 0)))\<rparr>\<rparr>"
    have "ensure_table fm (allocate_page_table fm) t i s = Inr (Inr ?n, ?s')"
      using new(1) pmm'(3) d by (simp add: ensure_table_def physmap_inverse set_slot_def)
    moreover note new_table [OF ok new(2) p new(1) pmm'(1,2) d(2,3)]
    ultimately show ?thesis
      by (intro exI [of _ "Inr ?n"] exI [of _ ?s'] exI [of _ "[h]"]) simp
  qed
qed

lemma blocked_path_append: "blocked_path fm m root p \<Longrightarrow> blocked_path fm m root (p @ q)"
  unfolding blocked_path_def by fastforce

lemma ensure_path_spec:
  assumes "memory_ok fm limit depth root s"
    and "reach fm (page_tables (mem_tables s)) root p = Some t" "in_range (p @ q)" "length (p @ q) < depth"
  shows "\<exists>r s' ns. ensure_path fm (allocate_page_table fm) t q s = Inr (r, s') \<and>
    memory_ok fm limit depth root s' \<and> grown fm depth root ns s s' \<and>
    (case r of
       Inr t' \<Rightarrow> reach fm (page_tables (mem_tables s')) root (p @ q) = Some t'
     | Inl e \<Rightarrow> e = MapOutOfMemory \<and> free_list (mem_pmm s') = [] \<or>
         e = MapSuperpageConflict \<and> blocked_path fm (page_tables (mem_tables s')) root (p @ q))"
  using assms
proof (induction q arbitrary: p t s)
  case Nil
  then show ?case
    by (intro exI [of _ "Inr t"] exI [of _ s] exI [of _ "[]"]) simp
next
  case (Cons i q)
  obtain r s1 ns where s1: "ensure_table fm (allocate_page_table fm) t i s = Inr (r, s1)"
      "memory_ok fm limit depth root s1" "grown fm depth root ns s s1"
      "case r of
         Inr t' \<Rightarrow> reach fm (page_tables (mem_tables s1)) root (p @ [i]) = Some t'
       | Inl e \<Rightarrow> e = MapOutOfMemory \<and> free_list (mem_pmm s1) = [] \<or>
           e = MapSuperpageConflict \<and> blocked_path fm (page_tables (mem_tables s1)) root (p @ [i])"
    using ensure_table_spec [OF Cons.prems(1,2), of i] Cons.prems(3,4) by auto
  show ?case
  proof (cases r)
    case (Inl e)
    then show ?thesis
      using s1 blocked_path_append [of "page_tables (mem_tables s1)" root "p @ [i]" q]
      by (intro exI [of _ "Inl e"] exI [of _ s1] exI [of _ ns]) auto
  next
    case (Inr t')
    then obtain r2 s2 ns2 where s2: "ensure_path fm (allocate_page_table fm) t' q s1 = Inr (r2, s2)"
        "memory_ok fm limit depth root s2" "grown fm depth root ns2 s1 s2"
        "case r2 of
           Inr t' \<Rightarrow> reach fm (page_tables (mem_tables s2)) root (p @ i # q) = Some t'
         | Inl e \<Rightarrow> e = MapOutOfMemory \<and> free_list (mem_pmm s2) = [] \<or>
             e = MapSuperpageConflict \<and> blocked_path fm (page_tables (mem_tables s2)) root (p @ i # q)"
      using Cons.IH [OF s1(2), of "p @ [i]" t'] s1(4) Cons.prems(3,4)
      by (simp only: append_assoc append_Cons append_Nil sum.case) blast
    then show ?thesis
      using s1(1) Inr grown_trans [OF s1(3) s2(3)]
      by (intro exI [of _ r2] exI [of _ s2] exI [of _ "ns @ ns2"]) simp
  qed
qed

lemma walk_path_spec:
  "\<exists>r. walk_path fm m t p = Inr r \<and>
     (case r of
        Inr t' \<Rightarrow> reach fm m t p = Some t'
      | Inl v \<Rightarrow> reach fm m t p = None \<and> (v \<longleftrightarrow> blocked_path fm m t p))"
proof (induction p arbitrary: t)
  case (Cons i p)
  show ?case
  proof (cases "fmt_table fm (m t i)")
    case True
    then obtain t' where t': "fmt_output fm (m t i) = Some t'"
      using table_valid valid_output by blast
    have "blocked_path fm m t (i # p) \<longleftrightarrow> blocked_path fm m t' p"
    proof
      assume "blocked_path fm m t (i # p)"
      then obtain q j r u where q: "i # p = q @ j # r" "reach fm m t q = Some u" "fmt_valid fm (m u j)" "\<not> fmt_table fm (m u j)"
        unfolding blocked_path_def by blast
      then show "blocked_path fm m t' p"
        using True t' unfolding blocked_path_def by (cases q) auto
    next
      assume "blocked_path fm m t' p"
      then obtain q j r u where q: "p = q @ j # r" "reach fm m t' q = Some u" "fmt_valid fm (m u j)" "\<not> fmt_table fm (m u j)"
        unfolding blocked_path_def by blast
      then show "blocked_path fm m t (i # p)"
        using True t' unfolding blocked_path_def
        by (intro exI [of _ "i # q"] exI [of _ j] exI [of _ r] exI [of _ u]) simp
    qed
    moreover have "reach fm m t (i # p) = reach fm m t' p" "walk_path fm m t (i # p) = walk_path fm m t' p"
      using True t' by (simp_all add: next_table_def)
    ultimately show ?thesis
      using Cons.IH [of t'] by (simp only:)
  next
    case False
    have "blocked_path fm m t (i # p) \<longleftrightarrow> fmt_valid fm (m t i)"
      using False unfolding blocked_path_def by (fastforce simp: Cons_eq_append_conv)
    then show ?thesis
      using False by (simp add: next_table_def)
  qed
qed (simp add: blocked_path_def)

lemma leaf_memory_ok:
  assumes ok: "memory_ok fm limit (Suc (length p)) root s"
    and p: "reach fm (page_tables (mem_tables s)) root p = Some t" "in_range p" and fl: "flush_only flush"
  shows "memory_ok fm limit (Suc (length p)) root (s\<lparr>mem_tables := flush a (set_slot t i e (mem_tables s))\<rparr>)"
    "tables_of fm (Suc (length p)) (page_tables (flush a (set_slot t i e (mem_tables s)))) root =
     tables_of fm (Suc (length p)) (page_tables (mem_tables s)) root"
    "reach_kept fm (Suc (length p)) root (page_tables (mem_tables s))
       (page_tables (flush a (set_slot t i e (mem_tables s))))"
proof -
  let ?m = "page_tables (mem_tables s)"
  have r: "reach fm (write_entry t i e ?m) root q = reach fm ?m root q" if "in_range q" "length q < Suc (length p)" for q
    using leaf_write(1) [OF memory_okD(2) [OF ok] p] that by simp
  note same = reach_same_tree [OF this]
  show "reach_kept fm (Suc (length p)) root ?m (page_tables (flush a (set_slot t i e (mem_tables s))))"
    using r by (simp add: reach_kept_def flush_only_tables [OF fl] set_slot_def)
  show "memory_ok fm limit (Suc (length p)) root (s\<lparr>mem_tables := flush a (set_slot t i e (mem_tables s))\<rparr>)"
    using ok by (simp add: memory_ok_def flush_only_tables [OF fl] set_slot_def same)
  show "tables_of fm (Suc (length p)) (page_tables (flush a (set_slot t i e (mem_tables s)))) root =
     tables_of fm (Suc (length p)) ?m root"
    by (simp add: flush_only_tables [OF fl] set_slot_def same)
qed

lemma install_page_spec:
  assumes ok: "memory_ok fm limit (Suc (length p)) root s"
    and p: "reach fm (page_tables (mem_tables s)) root p = Some t" "in_range (p @ [i])" and fl: "flush_only flush"
    and a: "is_page_aligned pa" "unat pa < limit"
  shows "\<exists>r mmu'. install_page fm flush t i va pa perms (mem_tables s) = Inr (r, mmu') \<and>
    memory_ok fm limit (Suc (length p)) root (s\<lparr>mem_tables := mmu'\<rparr>) \<and>
    tables_of fm (Suc (length p)) (page_tables mmu') root =
      tables_of fm (Suc (length p)) (page_tables (mem_tables s)) root \<and>
    reach_kept fm (Suc (length p)) root (page_tables (mem_tables s)) (page_tables mmu') \<and>
    (case r of
       Inl e \<Rightarrow> e = AlreadyMapped \<and> fmt_valid fm (page_tables (mem_tables s) t i) \<and> mmu' = mem_tables s
     | Inr _ \<Rightarrow> \<not> fmt_valid fm (page_tables (mem_tables s) t i) \<and>
         (\<exists>m'. mmu' = flush va ((mem_tables s)\<lparr>page_tables := m'\<rparr>)) \<and>
         translations_set fm root (p @ [i]) (Some pa) (page_tables (mem_tables s)) (page_tables mmu'))"
proof (cases "fmt_valid fm (page_tables (mem_tables s) t i)")
  case True
  then show ?thesis
    using ok by (simp add: install_page_def reach_kept_def)
next
  case False
  obtain intent where intent: "MappingIntent_new pa Page4K NormalMemory perms = Some intent"
    using a(1) by (auto simp: MappingIntent_new_def mapping_is_aligned_def is_page_aligned_def page_offset_def PAGE_MASK_def)
  then obtain e where e: "fmt_from_mapping fm intent = Inr e" "fmt_valid fm e" "fmt_output fm e = Some pa"
    using make_leaf [OF a(2)] by blast
  have pr: "in_range p"
    using p(2) by simp
  let ?mmu = "flush va (set_slot t i e (mem_tables s))"
  have "install_page fm flush t i va pa perms (mem_tables s) = Inr (Inr (), ?mmu)"
    using False intent e(1) by (simp add: install_page_def)
  moreover have "translations_set fm root (p @ [i]) (Some pa) (page_tables (mem_tables s)) (page_tables ?mmu)"
    using leaf_write(2) [OF memory_okD(2) [OF ok] p(1) pr, of _ i e] e(2,3)
    by (simp add: translations_set_def flush_only_tables [OF fl] set_slot_def)
  moreover have "\<exists>m'. ?mmu = flush va ((mem_tables s)\<lparr>page_tables := m'\<rparr>)"
    unfolding set_slot_def by blast
  ultimately show ?thesis
    using False leaf_memory_ok [OF ok p(1) pr fl, of va i e] by simp
qed

lemma remove_page_spec:
  assumes ok: "memory_ok fm limit (Suc (length p)) root s"
    and p: "reach fm (page_tables (mem_tables s)) root p = Some t" "in_range (p @ [i])" and fl: "flush_only flush"
  shows "\<exists>r mmu'. remove_page fm flush t i va (mem_tables s) = Inr (r, mmu') \<and>
    memory_ok fm limit (Suc (length p)) root (s\<lparr>mem_tables := mmu'\<rparr>) \<and>
    tables_of fm (Suc (length p)) (page_tables mmu') root =
      tables_of fm (Suc (length p)) (page_tables (mem_tables s)) root \<and>
    reach_kept fm (Suc (length p)) root (page_tables (mem_tables s)) (page_tables mmu') \<and>
    (case r of
       Inl e \<Rightarrow> e = NotMapped \<and> \<not> fmt_valid fm (page_tables (mem_tables s) t i) \<and> mmu' = mem_tables s
     | Inr pa \<Rightarrow> fmt_valid fm (page_tables (mem_tables s) t i) \<and> fmt_output fm (page_tables (mem_tables s) t i) = Some pa \<and>
         (\<exists>m'. mmu' = flush va ((mem_tables s)\<lparr>page_tables := m'\<rparr>)) \<and>
         translations_set fm root (p @ [i]) None (page_tables (mem_tables s)) (page_tables mmu'))"
proof (cases "fmt_valid fm (page_tables (mem_tables s) t i)")
  case False
  then show ?thesis
    using ok by (simp add: remove_page_def reach_kept_def)
next
  case True
  then obtain pa where pa: "fmt_output fm (page_tables (mem_tables s) t i) = Some pa"
    using valid_output by blast
  have pr: "in_range p"
    using p(2) by simp
  let ?mmu = "flush va (set_slot t i 0 (mem_tables s))"
  have "remove_page fm flush t i va (mem_tables s) = Inr (Inr pa, ?mmu)"
    using True pa by (simp add: remove_page_def)
  moreover have "translations_set fm root (p @ [i]) None (page_tables (mem_tables s)) (page_tables ?mmu)"
    using leaf_write(2) [OF memory_okD(2) [OF ok] p(1) pr, of _ i 0] empty_invalid
    by (simp add: translations_set_def flush_only_tables [OF fl] set_slot_def)
  moreover have "\<exists>m'. ?mmu = flush va ((mem_tables s)\<lparr>page_tables := m'\<rparr>)"
    unfolding set_slot_def by blast
  ultimately show ?thesis
    using True pa leaf_memory_ok [OF ok p(1) pr fl, of va i 0] by simp
qed

lemma untranslated_slot:
  assumes "reach fm m root p = Some t" "\<not> fmt_valid fm (m t i)"
  shows "untranslated fm root (p @ [i]) m"
  using assms resolve_reached [OF assms(1) _ table_valid] by (simp add: untranslated_def)

lemma translated_slot:
  assumes "reach fm m root p = Some t" "fmt_valid fm (m t i)" "fmt_output fm (m t i) = Some pa"
  shows "leaf_translated fm root (p @ [i]) pa m"
  using assms resolve_reached [OF assms(1) _ table_valid] by (simp add: leaf_translated_def)

lemma same_translations_untranslated:
  assumes "same_translations fm (length path) root m m'" "in_range path"
  shows "untranslated fm root path m' = untranslated fm root path m"
proof -
  have "resolve fm m' root ls a = resolve fm m root ls a" if "map fst ls = path" for ls a
    using assms that unfolding same_translations_def by (metis length_map)
  then show ?thesis
    unfolding untranslated_def by metis
qed

lemma reached_not_blocked: "reach fm m root p = Some t \<Longrightarrow> \<not> blocked_path fm m root p"
  by (auto simp: blocked_path_def reach_append)

lemma walk_stops:
  "reach fm m t p = None \<Longrightarrow> \<exists>q j r u. p = q @ j # r \<and> reach fm m t q = Some u \<and> \<not> fmt_table fm (m u j)"
proof (induction p arbitrary: t)
  case (Cons i p)
  show ?case
  proof (cases "fmt_table fm (m t i)")
    case True
    then obtain t' where t': "fmt_output fm (m t i) = Some t'"
      using table_valid valid_output by blast
    then obtain q j r u where "p = q @ j # r" "reach fm m t' q = Some u" "\<not> fmt_table fm (m u j)"
      using Cons.IH [of t'] Cons.prems True by auto
    then show ?thesis
      using True t' by (intro exI [of _ "i # q"] exI [of _ j] exI [of _ r] exI [of _ u]) simp
  next
    case False
    then show ?thesis
      by (intro exI [of _ "[]"] exI [of _ i] exI [of _ p] exI [of _ t]) simp
  qed
qed simp

lemma untranslated_walk:
  assumes "reach fm m root p = None" "\<not> blocked_path fm m root p"
  shows "untranslated fm root (p @ [i]) m"
proof -
  obtain q j r u where q: "p = q @ j # r" "reach fm m root q = Some u" "\<not> fmt_table fm (m u j)"
    using walk_stops [OF assms(1)] by blast
  then have "\<not> fmt_valid fm (m u j)"
    using assms(2) unfolding blocked_path_def by blast
  then show ?thesis
    using resolve_missing [OF q(2) _ _ table_valid, of _ j "r @ [i]"] q(1) by (simp add: untranslated_def)
qed

lemma resolve_blocked:
  assumes "blocked_path fm m root p" "map fst ls = p @ q"
  shows "\<exists>output offset_mask. resolve fm m root ls a = checked_add output (a AND offset_mask) \<and>
    offset_mask \<in> snd ` set ls \<and> (\<exists>e. fmt_output fm e = Some output)"
  using assms
proof (induction p arbitrary: root ls)
  case Nil
  then show ?case
    by (simp add: blocked_path_def)
next
  case (Cons i p)
  then obtain offset_mask ls' where ls: "ls = (i, offset_mask) # ls'" "map fst ls' = p @ q"
    by (cases ls) auto
  show ?case
  proof (cases "fmt_table fm (m root i)")
    case True
    then obtain t where t: "fmt_output fm (m root i) = Some t"
      using table_valid valid_output by blast
    then have b: "blocked_path fm m t p"
      using Cons.prems(1) True unfolding blocked_path_def by (fastforce simp: Cons_eq_append_conv)
    then have "ls' \<noteq> []"
      using ls(2) by (auto simp: blocked_path_def)
    then show ?thesis
      using Cons.IH [OF b ls(2)] True t table_valid [OF True] ls(1) by auto
  next
    case False
    then have "fmt_valid fm (m root i)"
      using Cons.prems(1) unfolding blocked_path_def by (auto simp: Cons_eq_append_conv)
    then show ?thesis
      using False valid_output ls(1) by (fastforce split: Option.bind_split)
  qed
qed

lemma map_path_spec:
  assumes ok: "memory_ok fm limit (Suc (length path)) root s" and range: "in_range (path @ [i])"
    and fl: "flush_only flush" and a: "is_page_aligned pa" "unat pa < limit"
  shows "\<exists>r s' ns m'. map_path fm (allocate_page_table fm) flush root path i va pa perms s = Inr (r, s') \<and>
    memory_ok fm limit (Suc (length path)) root s' \<and> takes_pages (mem_pmm s) (mem_pmm s') ns \<and>
    tables_of fm (Suc (length path)) (page_tables (mem_tables s')) root =
      tables_of fm (Suc (length path)) (page_tables (mem_tables s)) root \<union> handle_address (mem_pmm s) ` set ns \<and>
    reach_kept fm (Suc (length path)) root (page_tables (mem_tables s)) m' \<and>
    (case r of
       Inl e \<Rightarrow> mem_tables s' = (mem_tables s)\<lparr>page_tables := m'\<rparr> \<and>
         same_translations fm (Suc (length path)) root (page_tables (mem_tables s)) m' \<and>
         (e = MapOutOfMemory \<and> free_list (mem_pmm s') = [] \<or>
          e = MapSuperpageConflict \<and> blocked_path fm m' root path \<or>
          e = AlreadyMapped \<and> (\<exists>t. reach fm m' root path = Some t \<and> fmt_valid fm (m' t i)))
     | Inr _ \<Rightarrow> mem_tables s' = flush va ((mem_tables s)\<lparr>page_tables := m'\<rparr>) \<and>
         reach fm m' root path \<noteq> None \<and> untranslated fm root (path @ [i]) (page_tables (mem_tables s)) \<and>
         translations_set fm root (path @ [i]) (Some pa) (page_tables (mem_tables s)) m')"
proof -
  let ?d = "Suc (length path)" and ?m = "page_tables (mem_tables s)"
  have pr: "in_range path" "length path < ?d"
    using range by simp_all
  obtain r s1 ns where s1: "ensure_path fm (allocate_page_table fm) root path s = Inr (r, s1)"
      "memory_ok fm limit ?d root s1" "grown fm ?d root ns s s1"
      "case r of
         Inr t' \<Rightarrow> reach fm (page_tables (mem_tables s1)) root path = Some t'
       | Inl e \<Rightarrow> e = MapOutOfMemory \<and> free_list (mem_pmm s1) = [] \<or>
           e = MapSuperpageConflict \<and> blocked_path fm (page_tables (mem_tables s1)) root path"
    using ensure_path_spec [OF ok, of "[]" root path, unfolded append_Nil, OF reach.simps(1) pr] by blast
  let ?m1 = "page_tables (mem_tables s1)"
  obtain m1 where upd: "mem_tables s1 = (mem_tables s)\<lparr>page_tables := m1\<rparr>"
    using s1(3) by (auto simp: grown_def)
  have g: "takes_pages (mem_pmm s) (mem_pmm s1) ns" "same_translations fm ?d root ?m ?m1"
      "tables_of fm ?d ?m1 root = tables_of fm ?d ?m root \<union> handle_address (mem_pmm s) ` set ns"
      "reach_kept fm ?d root ?m ?m1"
    using s1(3) by (simp_all add: grown_def)
  show ?thesis
  proof (cases r)
    case (Inl e)
    then show ?thesis
      using s1 g upd
      by (intro exI [of _ "Inl e"] exI [of _ s1] exI [of _ ns] exI [of _ ?m1]) (auto simp: map_path_def)
  next
    case (Inr t)
    then have t: "reach fm ?m1 root path = Some t"
      using s1(4) by simp
    obtain r' mmu' where i: "install_page fm flush t i va pa perms (mem_tables s1) = Inr (r', mmu')"
        "memory_ok fm limit ?d root (s1\<lparr>mem_tables := mmu'\<rparr>)" "tables_of fm ?d (page_tables mmu') root = tables_of fm ?d ?m1 root"
        "case r' of
           Inl e \<Rightarrow> e = AlreadyMapped \<and> fmt_valid fm (?m1 t i) \<and> mmu' = mem_tables s1
         | Inr _ \<Rightarrow> \<not> fmt_valid fm (?m1 t i) \<and>
             (\<exists>m'. mmu' = flush va ((mem_tables s1)\<lparr>page_tables := m'\<rparr>)) \<and>
             translations_set fm root (path @ [i]) (Some pa) ?m1 (page_tables mmu')"
        "reach_kept fm ?d root ?m1 (page_tables mmu')"
      using install_page_spec [OF s1(2) t range fl a, of va perms] by blast
    have run: "map_path fm (allocate_page_table fm) flush root path i va pa perms s = Inr (r', s1\<lparr>mem_tables := mmu'\<rparr>)"
      using s1(1) Inr i(1) by (simp add: map_path_def with_tables_def)
    show ?thesis
    proof (cases r')
      case (Inl e)
      then show ?thesis
        using run i g t upd
        by (intro exI [of _ r'] exI [of _ "s1\<lparr>mem_tables := mmu'\<rparr>"] exI [of _ ns] exI [of _ ?m1]) auto
    next
      case (Inr u)
      then obtain m' where m': "mmu' = flush va ((mem_tables s1)\<lparr>page_tables := m'\<rparr>)"
          "\<not> fmt_valid fm (?m1 t i)" "translations_set fm root (path @ [i]) (Some pa) ?m1 (page_tables mmu')"
        using i(4) by auto
      have pt: "page_tables mmu' = m'" "mmu' = flush va ((mem_tables s)\<lparr>page_tables := m'\<rparr>)"
        using m'(1) by (simp_all add: flush_only_tables [OF fl] upd)
      have "untranslated fm root (path @ [i]) ?m"
        using same_translations_untranslated [of "path @ [i]" root ?m ?m1] g(2) range untranslated_slot [OF t m'(2)] by simp
      moreover have "translations_set fm root (path @ [i]) (Some pa) ?m m'"
        using m'(3) g(2) unfolding translations_set_def same_translations_def pt(1) by simp
      moreover have "reach fm m' root path = Some t" "reach_kept fm ?d root ?m m'"
        using i(5) g(4) t pr unfolding reach_kept_def pt(1) by simp_all
      ultimately show ?thesis
        using run i(2,3) g(1,3) pt Inr
        by (intro exI [of _ r'] exI [of _ "s1\<lparr>mem_tables := mmu'\<rparr>"] exI [of _ ns] exI [of _ m']) simp
    qed
  qed
qed

lemma unmap_path_spec:
  assumes ok: "memory_ok fm limit (Suc (length path)) root s" and range: "in_range (path @ [i])" and fl: "flush_only flush"
  shows "\<exists>r mmu' m'. unmap_path fm flush root path i va (mem_tables s) = Inr (r, mmu') \<and>
    memory_ok fm limit (Suc (length path)) root (s\<lparr>mem_tables := mmu'\<rparr>) \<and>
    tables_of fm (Suc (length path)) (page_tables mmu') root =
      tables_of fm (Suc (length path)) (page_tables (mem_tables s)) root \<and>
    reach_kept fm (Suc (length path)) root (page_tables (mem_tables s)) (page_tables mmu') \<and>
    (case r of
       Inl e \<Rightarrow> mmu' = mem_tables s \<and>
         (if e = UnmapSuperpageConflict then blocked_path fm (page_tables (mem_tables s)) root path
          else e = NotMapped \<and> \<not> blocked_path fm (page_tables (mem_tables s)) root path \<and>
            untranslated fm root (path @ [i]) (page_tables (mem_tables s)))
     | Inr pa \<Rightarrow> mmu' = flush va ((mem_tables s)\<lparr>page_tables := m'\<rparr>) \<and>
         leaf_translated fm root (path @ [i]) pa (page_tables (mem_tables s)) \<and>
         translations_set fm root (path @ [i]) None (page_tables (mem_tables s)) m')"
proof -
  let ?m = "page_tables (mem_tables s)"
  obtain r where r: "walk_path fm ?m root path = Inr r"
      "case r of Inr t \<Rightarrow> reach fm ?m root path = Some t
       | Inl v \<Rightarrow> reach fm ?m root path = None \<and> (v \<longleftrightarrow> blocked_path fm ?m root path)"
    using walk_path_spec by blast
  show ?thesis
  proof (cases r)
    case (Inl v)
    have "untranslated fm root (path @ [i]) ?m" if "\<not> v"
      using untranslated_walk [of ?m root path i] r(2) Inl that by simp
    then show ?thesis
      using r Inl ok by (auto simp: unmap_path_def unmap_conflict_def reach_kept_def)
  next
    case (Inr t)
    then have t: "reach fm ?m root path = Some t"
      using r(2) by simp
    then have nb: "\<not> blocked_path fm ?m root path"
      by (rule reached_not_blocked)
    obtain r' mmu' where i: "remove_page fm flush t i va (mem_tables s) = Inr (r', mmu')"
        "memory_ok fm limit (Suc (length path)) root (s\<lparr>mem_tables := mmu'\<rparr>)"
        "tables_of fm (Suc (length path)) (page_tables mmu') root = tables_of fm (Suc (length path)) ?m root"
        "case r' of
           Inl e \<Rightarrow> e = NotMapped \<and> \<not> fmt_valid fm (?m t i) \<and> mmu' = mem_tables s
         | Inr pa \<Rightarrow> fmt_valid fm (?m t i) \<and> fmt_output fm (?m t i) = Some pa \<and>
             (\<exists>m'. mmu' = flush va ((mem_tables s)\<lparr>page_tables := m'\<rparr>)) \<and>
             translations_set fm root (path @ [i]) None ?m (page_tables mmu')"
        "reach_kept fm (Suc (length path)) root ?m (page_tables mmu')"
      using remove_page_spec [OF ok t range fl, of va] by blast
    have run: "unmap_path fm flush root path i va (mem_tables s) = Inr (r', mmu')"
      using r(1) Inr i(1) by (simp add: unmap_path_def)
    show ?thesis
    proof (cases r')
      case (Inl e)
      then show ?thesis
        using run i untranslated_slot [OF t] nb by auto
    next
      case (Inr pa)
      then obtain m' where m': "mmu' = flush va ((mem_tables s)\<lparr>page_tables := m'\<rparr>)"
        using i(4) by auto
      then have "page_tables mmu' = m'"
        by (simp add: flush_only_tables [OF fl])
      then show ?thesis
        using run i(2-5) Inr m' translated_slot [OF t]
        by (intro exI [of _ r'] exI [of _ mmu'] exI [of _ m']) simp
    qed
  qed
qed

end

end
