(* ===== verification/Page_Mapper.thy ===== *)
theory Page_Mapper
  imports Page_Table_Memory
begin

text \<open>
  The contract between the architecture's mapping functions and the kernel stacks that use them.
  \<open>paged_space\<close> is a tree of tables indexed by virtual addresses: its lemmas restate the outcome
  of mapping and unmapping in terms of the translation of every kernel address. \<open>page_mapper\<close> is
  what a client sees of it.
\<close>

unbundle bit_operations_syntax

locale paged_space = pte_format fm limit for fm :: PteFormat and limit :: nat +
  fixes levels :: "VirtualAddress \<Rightarrow> (nat \<times> usize) list"
    and depth :: nat
    and kernel_address :: "VirtualAddress \<Rightarrow> bool"
    and flush :: "VirtualAddress \<Rightarrow> 'r Mmu_scheme \<Rightarrow> 'r Mmu_scheme"
  assumes levels_length: "length (levels a) = depth" and levels_nonempty: "0 < depth"
    and levels_range: "in_range (map fst (levels a))"
    and levels_offset: "snd (last (levels a)) = PAGE_MASK"
    and levels_page: "kernel_address a \<Longrightarrow> kernel_address b \<Longrightarrow>
      map fst (levels a) = map fst (levels b) \<longleftrightarrow> align_down a = align_down b"
    and flush_buffer: "flush_only flush"
begin

definition path_of :: "VirtualAddress \<Rightarrow> nat list" where
  "path_of a = map fst (butlast (levels a))"

definition leaf_of :: "VirtualAddress \<Rightarrow> nat" where
  "leaf_of a = fst (last (levels a))"

lemma levels_path: "map fst (levels a) = path_of a @ [leaf_of a]"
proof -
  have "levels a \<noteq> []"
    using levels_length [of a] levels_nonempty by auto
  then show ?thesis
    unfolding path_of_def leaf_of_def by (metis append_butlast_last_id list.simps(8,9) map_append)
qed

lemma depth_path: "depth = Suc (length (path_of a))"
  using levels_length [of a] levels_nonempty by (simp add: path_of_def)

lemma range_path: "in_range (path_of a @ [leaf_of a])"
  using levels_range [of a] by (simp only: levels_path)

lemma aligned_offset: "is_page_aligned a \<Longrightarrow> a AND PAGE_MASK = 0"
  by (simp add: is_page_aligned_def page_offset_def)

lemma leaf_sum:
  assumes "is_page_aligned pa"
  shows "checked_add pa (a AND PAGE_MASK) = Some (pa + page_offset a)"
proof -
  obtain q where q: "unat pa = 4096 * q"
    using assms by (auto simp: is_page_aligned_iff dvd_def)
  have "unat (page_offset a) < 4096"
    by (simp add: unat_page_offset)
  then have "unat pa + unat (page_offset a) < 2 ^ 64"
    using q unat_bound64 [of pa] by simp
  then show ?thesis
    by (simp add: checked_add_eq_Some unat_add_no_overflow flip: page_offset_def)
qed

lemma translations_kept:
  "same_translations fm depth root m m' \<Longrightarrow> resolve fm m' root (levels a) a = resolve fm m root (levels a) a"
  using levels_length levels_range by (simp add: same_translations_def)

lemma translations_changed:
  assumes "translations_set fm root (path_of va @ [leaf_of va]) target m m'" "kernel_address va" "kernel_address a"
  shows "resolve fm m' root (levels a) a =
    (if align_down a = align_down va then Option.bind target (\<lambda>base. checked_add base (a AND PAGE_MASK))
     else resolve fm m root (levels a) a)"
proof -
  have "resolve fm m' root (levels a) a =
      (if map fst (levels a) = map fst (levels va) then Option.bind target (\<lambda>base. checked_add base (a AND snd (last (levels a))))
       else resolve fm m root (levels a) a)"
    using assms(1) levels_range [of a] levels_length depth_path
    unfolding translations_set_def levels_path [of va, symmetric] by simp
  then show ?thesis
    using levels_page [OF assms(3,2)] by (simp add: levels_offset)
qed

lemma aligned_align_down: "is_page_aligned va \<Longrightarrow> align_down va = va"
  by (simp add: word_unat_eq_iff unat_align_down is_page_aligned_iff)

lemma map_outcome:
  assumes ok: "memory_ok fm limit depth root s" and va: "kernel_address va" "is_page_aligned va"
    and pa: "is_page_aligned pa" "unat pa < limit"
  shows "\<exists>r s' ns m'. map_path fm (allocate_page_table fm) flush root (path_of va) (leaf_of va) va pa perms s = Inr (r, s') \<and>
    memory_ok fm limit depth root s' \<and> takes_pages (mem_pmm s) (mem_pmm s') ns \<and>
    tables_of fm depth (page_tables (mem_tables s')) root =
      tables_of fm depth (page_tables (mem_tables s)) root \<union> handle_address (mem_pmm s) ` set ns \<and>
    page_tables (mem_tables s') = m' \<and> reach_kept fm depth root (page_tables (mem_tables s)) m' \<and>
    (case r of
       Inl e \<Rightarrow> mem_tables s' = (mem_tables s)\<lparr>page_tables := m'\<rparr> \<and>
         (\<forall>a. resolve fm m' root (levels a) a = resolve fm (page_tables (mem_tables s)) root (levels a) a) \<and>
         (e = MapOutOfMemory \<and> free_list (mem_pmm s') = [] \<or>
          e = MapSuperpageConflict \<and> blocked_path fm m' root (path_of va) \<or>
          e = AlreadyMapped \<and> resolve fm (page_tables (mem_tables s)) root (levels va) va \<noteq> None)
     | Inr _ \<Rightarrow> mem_tables s' = flush va ((mem_tables s)\<lparr>page_tables := m'\<rparr>) \<and> reach fm m' root (path_of va) \<noteq> None \<and>
         (\<forall>a. kernel_address a \<and> align_down a = va \<longrightarrow> resolve fm (page_tables (mem_tables s)) root (levels a) a = None) \<and>
         (\<forall>a. kernel_address a \<longrightarrow> resolve fm m' root (levels a) a =
            (if align_down a = va then Some (pa + page_offset a)
             else resolve fm (page_tables (mem_tables s)) root (levels a) a)))"
proof -
  let ?p = "path_of va" and ?m = "page_tables (mem_tables s)"
  obtain r s' ns m' where s': "map_path fm (allocate_page_table fm) flush root ?p (leaf_of va) va pa perms s = Inr (r, s')"
      "memory_ok fm limit depth root s'" "takes_pages (mem_pmm s) (mem_pmm s') ns"
      "tables_of fm depth (page_tables (mem_tables s')) root = tables_of fm depth ?m root \<union> handle_address (mem_pmm s) ` set ns"
      "reach_kept fm depth root ?m m'"
      "case r of
         Inl e \<Rightarrow> mem_tables s' = (mem_tables s)\<lparr>page_tables := m'\<rparr> \<and> same_translations fm depth root ?m m' \<and>
           (e = MapOutOfMemory \<and> free_list (mem_pmm s') = [] \<or>
            e = MapSuperpageConflict \<and> blocked_path fm m' root ?p \<or>
            e = AlreadyMapped \<and> (\<exists>t. reach fm m' root ?p = Some t \<and> fmt_valid fm (m' t (leaf_of va))))
       | Inr _ \<Rightarrow> mem_tables s' = flush va ((mem_tables s)\<lparr>page_tables := m'\<rparr>) \<and> reach fm m' root ?p \<noteq> None \<and>
           untranslated fm root (?p @ [leaf_of va]) ?m \<and>
           translations_set fm root (?p @ [leaf_of va]) (Some pa) ?m m'"
    using map_path_spec [OF ok [unfolded depth_path [of va]] range_path flush_buffer pa, of va perms]
    unfolding depth_path [of va, symmetric] by blast
  have pt: "page_tables (mem_tables s') = m'"
    using s'(6) by (auto simp: flush_only_tables [OF flush_buffer] split: sum.splits)
  show ?thesis
  proof (cases r)
    case (Inl e)
    have same: "\<forall>a. resolve fm m' root (levels a) a = resolve fm ?m root (levels a) a"
      using s'(6) Inl translations_kept by simp
    have "resolve fm m' root (levels va) va \<noteq> None" if t: "reach fm m' root ?p = Some t" "fmt_valid fm (m' t (leaf_of va))" for t
    proof -
      obtain o1 where "fmt_output fm (m' t (leaf_of va)) = Some o1"
        using valid_output [OF t(2)] by blast
      then show ?thesis
        using resolve_reached [OF t(1) levels_path table_valid] t(2) aligned_offset [OF va(2)] unat_bound64 [of o1]
        by (simp add: levels_offset checked_add_def)
    qed
    then show ?thesis
      using Inl s' pt same by (intro exI [of _ r] exI [of _ s'] exI [of _ ns] exI [of _ m']) auto
  next
    case (Inr u)
    have "resolve fm ?m root (levels a) a = None" if "kernel_address a" "align_down a = va" for a
      using s'(6) Inr levels_path [of va] levels_page [OF that(1) va(1)] that(2) aligned_align_down [OF va(2)]
      by (simp add: untranslated_def)
    moreover have "resolve fm m' root (levels a) a =
        (if align_down a = va then Some (pa + page_offset a) else resolve fm ?m root (levels a) a)"
      if "kernel_address a" for a
      using s'(6) Inr translations_changed [of root va "Some pa" ?m m' a] va that leaf_sum [OF pa(1)]
        aligned_align_down [OF va(2)] by simp
    ultimately show ?thesis
      using Inr s' pt by (intro exI [of _ r] exI [of _ s'] exI [of _ ns] exI [of _ m']) simp
  qed
qed

lemma unmap_outcome:
  assumes ok: "memory_ok fm limit depth root s" and va: "kernel_address va"
  shows "\<exists>r mmu' m'. unmap_path fm flush root (path_of va) (leaf_of va) va (mem_tables s) = Inr (r, mmu') \<and>
    memory_ok fm limit depth root (s\<lparr>mem_tables := mmu'\<rparr>) \<and> page_tables mmu' = m' \<and>
    tables_of fm depth m' root = tables_of fm depth (page_tables (mem_tables s)) root \<and>
    reach_kept fm depth root (page_tables (mem_tables s)) m' \<and>
    (case r of
       Inl e \<Rightarrow> mmu' = mem_tables s \<and>
         (if e = UnmapSuperpageConflict then blocked_path fm (page_tables (mem_tables s)) root (path_of va)
          else e = NotMapped \<and> resolve fm (page_tables (mem_tables s)) root (levels va) va = None)
     | Inr pa \<Rightarrow> mmu' = flush va ((mem_tables s)\<lparr>page_tables := m'\<rparr>) \<and>
         resolve fm (page_tables (mem_tables s)) root (levels va) va = checked_add pa (va AND PAGE_MASK) \<and>
         (\<forall>a. kernel_address a \<longrightarrow> resolve fm m' root (levels a) a =
            (if align_down a = align_down va then None else resolve fm (page_tables (mem_tables s)) root (levels a) a)))"
proof -
  let ?p = "path_of va" and ?m = "page_tables (mem_tables s)"
  obtain r mmu' m' where u: "unmap_path fm flush root ?p (leaf_of va) va (mem_tables s) = Inr (r, mmu')"
      "memory_ok fm limit depth root (s\<lparr>mem_tables := mmu'\<rparr>)"
      "tables_of fm depth (page_tables mmu') root = tables_of fm depth ?m root"
      "reach_kept fm depth root ?m (page_tables mmu')"
      "case r of
         Inl e \<Rightarrow> mmu' = mem_tables s \<and>
           (if e = UnmapSuperpageConflict then blocked_path fm ?m root ?p
            else e = NotMapped \<and> \<not> blocked_path fm ?m root ?p \<and> untranslated fm root (?p @ [leaf_of va]) ?m)
       | Inr pa \<Rightarrow> mmu' = flush va ((mem_tables s)\<lparr>page_tables := m'\<rparr>) \<and>
           leaf_translated fm root (?p @ [leaf_of va]) pa ?m \<and> translations_set fm root (?p @ [leaf_of va]) None ?m m'"
    using unmap_path_spec [OF ok [unfolded depth_path [of va]] range_path flush_buffer, of va]
    unfolding depth_path [of va, symmetric] by blast
  show ?thesis
  proof (cases r)
    case (Inl e)
    then show ?thesis
      using u levels_path [of va]
      by (intro exI [of _ r] exI [of _ mmu'] exI [of _ "page_tables mmu'"]) (auto simp: untranslated_def)
  next
    case (Inr pa)
    then have pt: "page_tables mmu' = m'"
      using u(5) by (simp add: flush_only_tables [OF flush_buffer])
    have "resolve fm ?m root (levels va) va = checked_add pa (va AND PAGE_MASK)"
      using u(5) Inr levels_path [of va] by (simp add: leaf_translated_def levels_offset)
    moreover have "resolve fm m' root (levels a) a =
        (if align_down a = align_down va then None else resolve fm ?m root (levels a) a)" if "kernel_address a" for a
      using u(5) Inr translations_changed [of root va None ?m m' a] va that by simp
    ultimately show ?thesis
      using u Inr pt by (intro exI [of _ r] exI [of _ mmu'] exI [of _ m']) simp
  qed
qed

text \<open>The outcome of a mapping function, for the architecture's own translation.\<close>

lemma map_effect:
  assumes ok: "memory_ok fm limit depth root s" and va: "kernel_address va" and pa: "unat pa < limit"
    and tr: "\<And>m a. tr m a = (if canonical a then resolve fm m root (levels a) a else None)"
    and can: "\<And>a. kernel_address a \<Longrightarrow> canonical a"
    and run: "outcome = (if \<not> is_page_aligned va \<or> \<not> is_page_aligned pa then Inr (Inl MapNotAligned, s)
      else map_path fm (allocate_page_table fm) flush root (path_of va) (leaf_of va) va pa perms s)"
  shows "if \<not> is_page_aligned va \<or> \<not> is_page_aligned pa then outcome = Inr (Inl MapNotAligned, s)
    else \<exists>r s'. outcome = Inr (r, s') \<and> memory_ok fm limit depth root s' \<and>
      (case r of
         Inl e \<Rightarrow>
           (\<forall>a. tr (page_tables (mem_tables s')) a = tr (page_tables (mem_tables s)) a) \<and>
           (e = MapOutOfMemory \<and> free_list (mem_pmm s') = [] \<or>
            e = MapSuperpageConflict \<and> blocked_path fm (page_tables (mem_tables s')) root (path_of va) \<or>
            e = AlreadyMapped \<and> tr (page_tables (mem_tables s)) va \<noteq> None)
       | Inr _ \<Rightarrow>
           (\<forall>a. kernel_address a \<and> align_down a = va \<longrightarrow> tr (page_tables (mem_tables s)) a = None) \<and>
           (\<forall>a. kernel_address a \<longrightarrow> tr (page_tables (mem_tables s')) a =
              (if align_down a = va then Some (pa + page_offset a) else tr (page_tables (mem_tables s)) a)))"
proof (cases "is_page_aligned va \<and> is_page_aligned pa")
  case True
  from map_outcome [OF ok va conjunct1 [OF True] conjunct2 [OF True] pa, of perms] show ?thesis
  proof (elim exE conjE, goal_cases)
    case (1 r s' ns m')
    then show ?case
      using True run by (cases r) (simp_all add: tr can va)
  qed
qed (simp add: run)

text \<open>A page with a table that translates is unmapped.\<close>

lemma unmap_present:
  assumes ok: "memory_ok fm limit depth root s" and va: "kernel_address va" "is_page_aligned va"
    and t: "reach fm (page_tables (mem_tables s)) root (path_of va) \<noteq> None"
      "resolve fm (page_tables (mem_tables s)) root (levels va) va = Some pa"
  shows "\<exists>mmu'. unmap_path fm flush root (path_of va) (leaf_of va) va (mem_tables s) = Inr (Inr pa, mmu') \<and>
    memory_ok fm limit depth root (s\<lparr>mem_tables := mmu'\<rparr>) \<and>
    tables_of fm depth (page_tables mmu') root = tables_of fm depth (page_tables (mem_tables s)) root \<and>
    reach_kept fm depth root (page_tables (mem_tables s)) (page_tables mmu') \<and>
    (\<forall>a. kernel_address a \<longrightarrow> resolve fm (page_tables mmu') root (levels a) a =
       (if align_down a = va then None else resolve fm (page_tables (mem_tables s)) root (levels a) a))"
proof -
  let ?m = "page_tables (mem_tables s)"
  have nb: "\<not> blocked_path fm ?m root (path_of va)"
    using t(1) reached_not_blocked by blast
  obtain r mmu' m' where o: "unmap_path fm flush root (path_of va) (leaf_of va) va (mem_tables s) = Inr (r, mmu')"
      "memory_ok fm limit depth root (s\<lparr>mem_tables := mmu'\<rparr>)" "page_tables mmu' = m'"
      "tables_of fm depth m' root = tables_of fm depth ?m root" "reach_kept fm depth root ?m m'"
      "case r of
         Inl e \<Rightarrow> mmu' = mem_tables s \<and>
           (if e = UnmapSuperpageConflict then blocked_path fm ?m root (path_of va)
            else e = NotMapped \<and> resolve fm ?m root (levels va) va = None)
       | Inr pa \<Rightarrow> mmu' = flush va ((mem_tables s)\<lparr>page_tables := m'\<rparr>) \<and>
           resolve fm ?m root (levels va) va = checked_add pa (va AND PAGE_MASK) \<and>
           (\<forall>a. kernel_address a \<longrightarrow> resolve fm m' root (levels a) a =
              (if align_down a = align_down va then None else resolve fm ?m root (levels a) a))"
    using unmap_outcome [OF ok va(1)] by blast
  show ?thesis
  proof (cases r)
    case (Inl e)
    then show ?thesis
      using o(6) nb t(2) by (auto split: if_splits)
  next
    case (Inr pa')
    then have c: "checked_add pa' (va AND PAGE_MASK) = Some pa" "\<forall>a. kernel_address a \<longrightarrow>
        resolve fm m' root (levels a) a = (if align_down a = va then None else resolve fm ?m root (levels a) a)"
      using o(6) t(2) aligned_align_down [OF va(2)] by simp_all
    then have "pa' = pa"
      using aligned_offset [OF va(2)] by (simp add: checked_add_eq_Some word_unat_eq_iff)
    then show ?thesis
      using o(1-5) Inr c(2) by (intro exI [of _ mmu']) simp
  qed
qed

end

section \<open>Fences\<close>

text \<open>
  Cached translations of kernel pages agree with the tables. A fence that drops the page of an
  address keeps this through every change of a mapping.
\<close>

definition coherent :: "(VirtualAddress \<Rightarrow> bool) \<Rightarrow> (VirtualAddress \<Rightarrow> PhysicalAddress option) \<Rightarrow> (VirtualAddress \<times> PhysicalAddress) set \<Rightarrow> bool" where
  "coherent K tr cached \<longleftrightarrow> (\<forall>(page, pa) \<in> cached. K page \<and> is_page_aligned page \<longrightarrow> tr page = Some pa)"

lemma coherentD: "coherent K tr cached \<Longrightarrow> (page, pa) \<in> cached \<Longrightarrow> K page \<Longrightarrow> is_page_aligned page \<Longrightarrow> tr page = Some pa"
  unfolding coherent_def by blast

lemma coherentI:
  "(\<And>page pa. (page, pa) \<in> cached \<Longrightarrow> K page \<Longrightarrow> is_page_aligned page \<Longrightarrow> tr page = Some pa) \<Longrightarrow> coherent K tr cached"
  unfolding coherent_def by blast

locale fenced_space = paged_space +
  assumes flush_page: "tlb (flush va mmu) = {(page, pa) \<in> tlb mmu. align_down page \<noteq> align_down va}"
begin

abbreviation agrees :: "PhysicalAddress \<Rightarrow> 'd mmu_memory \<Rightarrow> bool" where
  "agrees root s \<equiv> coherent kernel_address (\<lambda>a. resolve fm (page_tables (mem_tables s)) root (levels a) a) (tlb (mem_tables s))"

lemma map_coherent:
  assumes ok: "memory_ok fm limit depth root s" and va: "kernel_address va" "is_page_aligned va"
    and pa: "is_page_aligned pa" "unat pa < limit" and c: "agrees root s"
    and run: "map_path fm (allocate_page_table fm) flush root (path_of va) (leaf_of va) va pa perms s = Inr (r, s')"
  shows "memory_ok fm limit depth root s' \<and> agrees root s' \<and>
    reach_kept fm depth root (page_tables (mem_tables s)) (page_tables (mem_tables s'))"
  using map_outcome [OF ok va pa, of perms]
proof (elim exE conjE, goal_cases)
  case (1 r1 s1 ns m')
  then have s1: "r1 = r" "s1 = s'"
    using run by simp_all
  show ?case
  proof (cases r)
    case (Inl e)
    then have "tlb (mem_tables s') = tlb (mem_tables s)"
      using 1 s1 by simp
    then show ?thesis
      using 1 s1 Inl c by (auto intro!: coherentI dest: coherentD)
  next
    case (Inr u)
    then have "tlb (mem_tables s') = {(page, x) \<in> tlb (mem_tables s). align_down page \<noteq> va}"
      using 1 s1 flush_page aligned_align_down [OF va(2)] by simp
    then show ?thesis
      using 1 s1 Inr c by (auto intro!: coherentI dest: coherentD)
  qed
qed

lemma unmap_coherent:
  assumes ok: "memory_ok fm limit depth root s" and va: "kernel_address va" and c: "agrees root s"
    and run: "unmap_path fm flush root (path_of va) (leaf_of va) va (mem_tables s) = Inr (r, mmu')"
  shows "memory_ok fm limit depth root (s\<lparr>mem_tables := mmu'\<rparr>) \<and> agrees root (s\<lparr>mem_tables := mmu'\<rparr>) \<and>
    reach_kept fm depth root (page_tables (mem_tables s)) (page_tables mmu')"
  using unmap_outcome [OF ok va]
proof (elim exE conjE, goal_cases)
  case (1 r1 mmu1 m')
  then have s1: "r1 = r" "mmu1 = mmu'"
    using run by simp_all
  show ?case
  proof (cases r)
    case (Inl e)
    then show ?thesis
      using 1 s1 c by simp
  next
    case (Inr pa)
    then have "tlb mmu' = {(page, x) \<in> tlb (mem_tables s). align_down page \<noteq> align_down va}"
      using 1 s1 flush_page by simp
    then show ?thesis
      using 1 s1 Inr c by (auto intro!: coherentI dest: coherentD)
  qed
qed

end

section \<open>The interface of a client\<close>

locale page_mapper =
  fixes mapper_ok :: "'m Memory \<Rightarrow> bool"
    and kernel_address :: "VirtualAddress \<Rightarrow> bool"
    and limit :: nat
    and translation :: "'m \<Rightarrow> VirtualAddress \<Rightarrow> PhysicalAddress option"
    and table_pages :: "'m \<Rightarrow> PhysicalAddress set"
    and has_table :: "'m \<Rightarrow> VirtualAddress \<Rightarrow> bool"
    and map_page :: "'m map_page"
    and unmap_page :: "'m unmap_page"
  assumes ok_pool: "mapper_ok s \<Longrightarrow> pool_inv (mem_pmm s)"
    and ok_tables: "mapper_ok s \<Longrightarrow> table_pages (mem_tables s) \<inter> set (free_addresses (mem_pmm s)) = {}"
    and ok_limit: "mapper_ok s \<Longrightarrow> managed (mem_pmm s) h \<Longrightarrow> unat (handle_address (mem_pmm s) h) < limit"
    and ok_other_pool: "mapper_ok s \<Longrightarrow> pool_inv pmm \<Longrightarrow> same_config (mem_pmm s) pmm \<Longrightarrow>
      table_pages (mem_tables s) \<inter> set (free_addresses pmm) = {} \<Longrightarrow> mapper_ok (s\<lparr>mem_pmm := pmm\<rparr>)"
    and mapping: "mapper_ok s \<Longrightarrow> kernel_address va \<Longrightarrow> is_page_aligned va \<Longrightarrow> is_page_aligned pa \<Longrightarrow> unat pa < limit \<Longrightarrow>
      \<exists>r s' ns. map_page va pa s = Inr (r, s') \<and> mapper_ok s' \<and> takes_pages (mem_pmm s) (mem_pmm s') ns \<and>
        table_pages (mem_tables s') = table_pages (mem_tables s) \<union> handle_address (mem_pmm s) ` set ns \<and>
        (\<forall>a. has_table (mem_tables s) a \<longrightarrow> has_table (mem_tables s') a) \<and>
        (case r of
           Inl e \<Rightarrow> \<forall>a. kernel_address a \<longrightarrow> translation (mem_tables s') a = translation (mem_tables s) a
         | Inr _ \<Rightarrow> has_table (mem_tables s') va \<and>
             (\<forall>a. kernel_address a \<and> align_down a = va \<longrightarrow> translation (mem_tables s) a = None) \<and>
             (\<forall>a. kernel_address a \<longrightarrow> translation (mem_tables s') a =
                (if align_down a = va then Some (pa + page_offset a) else translation (mem_tables s) a)))"
    and unmapping: "mapper_ok s \<Longrightarrow> kernel_address va \<Longrightarrow> is_page_aligned va \<Longrightarrow> has_table (mem_tables s) va \<Longrightarrow>
      translation (mem_tables s) va = Some pa \<Longrightarrow>
      \<exists>s'. unmap_page va s = Inr (Inr pa, s') \<and> mapper_ok s' \<and> mem_pmm s' = mem_pmm s \<and>
        table_pages (mem_tables s') = table_pages (mem_tables s) \<and>
        (\<forall>a. has_table (mem_tables s) a \<longrightarrow> has_table (mem_tables s') a) \<and>
        (\<forall>a. kernel_address a \<longrightarrow> translation (mem_tables s') a =
           (if align_down a = va then None else translation (mem_tables s) a))"

text \<open>Mapping functions that follow the paths of a paged space offer the interface.\<close>

context paged_space
begin

lemma mapper:
  assumes m: "\<And>va pa s. kernel_address va \<Longrightarrow> is_page_aligned va \<Longrightarrow> is_page_aligned pa \<Longrightarrow>
      map_fn va pa s = map_path fm (allocate_page_table fm) flush root (path_of va) (leaf_of va) va pa perms s"
    and u: "\<And>va s. kernel_address va \<Longrightarrow>
      unmap_fn va s = with_tables s (unmap_path fm flush root (path_of va) (leaf_of va) va (mem_tables s))"
  shows "page_mapper (memory_ok fm limit depth root) kernel_address limit
    (\<lambda>mmu a. resolve fm (page_tables mmu) root (levels a) a) (\<lambda>mmu. tables_of fm depth (page_tables mmu) root)
    (\<lambda>mmu a. reach fm (page_tables mmu) root (path_of a) \<noteq> None) map_fn unmap_fn"
proof unfold_locales
  fix s :: "'r mmu_memory" and va pa :: usize
  assume ok: "memory_ok fm limit depth root s"
  have kept: "reach fm m' root (path_of a) \<noteq> None"
    if "reach_kept fm depth root m m'" "reach fm m root (path_of a) \<noteq> None" for m m' a
    using that range_path [of a] depth_path [of a] unfolding reach_kept_def by fastforce
  assume va: "kernel_address va" "is_page_aligned va"
  {
    assume pa: "is_page_aligned pa" "unat pa < limit"
    obtain r s' ns m' where o: "map_fn va pa s = Inr (r, s')" "memory_ok fm limit depth root s'"
        "takes_pages (mem_pmm s) (mem_pmm s') ns"
        "tables_of fm depth (page_tables (mem_tables s')) root =
          tables_of fm depth (page_tables (mem_tables s)) root \<union> handle_address (mem_pmm s) ` set ns"
        "page_tables (mem_tables s') = m'" "reach_kept fm depth root (page_tables (mem_tables s)) m'"
        "case r of
           Inl e \<Rightarrow> mem_tables s' = (mem_tables s)\<lparr>page_tables := m'\<rparr> \<and>
             (\<forall>a. resolve fm m' root (levels a) a = resolve fm (page_tables (mem_tables s)) root (levels a) a) \<and>
             (e = MapOutOfMemory \<and> free_list (mem_pmm s') = [] \<or>
              e = MapSuperpageConflict \<and> blocked_path fm m' root (path_of va) \<or>
              e = AlreadyMapped \<and> resolve fm (page_tables (mem_tables s)) root (levels va) va \<noteq> None)
         | Inr _ \<Rightarrow> mem_tables s' = flush va ((mem_tables s)\<lparr>page_tables := m'\<rparr>) \<and> reach fm m' root (path_of va) \<noteq> None \<and>
             (\<forall>a. kernel_address a \<and> align_down a = va \<longrightarrow> resolve fm (page_tables (mem_tables s)) root (levels a) a = None) \<and>
             (\<forall>a. kernel_address a \<longrightarrow> resolve fm m' root (levels a) a =
                (if align_down a = va then Some (pa + page_offset a)
                 else resolve fm (page_tables (mem_tables s)) root (levels a) a))"
      using map_outcome [OF ok va pa, of perms] unfolding m [OF va pa(1)] by blast
    have c: "case r of
        Inl e \<Rightarrow> \<forall>a. kernel_address a \<longrightarrow> resolve fm m' root (levels a) a = resolve fm (page_tables (mem_tables s)) root (levels a) a
      | Inr _ \<Rightarrow> reach fm m' root (path_of va) \<noteq> None \<and>
          (\<forall>a. kernel_address a \<and> align_down a = va \<longrightarrow> resolve fm (page_tables (mem_tables s)) root (levels a) a = None) \<and>
          (\<forall>a. kernel_address a \<longrightarrow> resolve fm m' root (levels a) a =
             (if align_down a = va then Some (pa + page_offset a)
              else resolve fm (page_tables (mem_tables s)) root (levels a) a))"
      using o(7) by (cases r) simp_all
    show "\<exists>r s' ns. map_fn va pa s = Inr (r, s') \<and> memory_ok fm limit depth root s' \<and>
        takes_pages (mem_pmm s) (mem_pmm s') ns \<and>
        tables_of fm depth (page_tables (mem_tables s')) root =
          tables_of fm depth (page_tables (mem_tables s)) root \<union> handle_address (mem_pmm s) ` set ns \<and>
        (\<forall>a. reach fm (page_tables (mem_tables s)) root (path_of a) \<noteq> None \<longrightarrow>
           reach fm (page_tables (mem_tables s')) root (path_of a) \<noteq> None) \<and>
        (case r of
           Inl e \<Rightarrow> \<forall>a. kernel_address a \<longrightarrow> resolve fm (page_tables (mem_tables s')) root (levels a) a =
             resolve fm (page_tables (mem_tables s)) root (levels a) a
         | Inr _ \<Rightarrow> reach fm (page_tables (mem_tables s')) root (path_of va) \<noteq> None \<and>
             (\<forall>a. kernel_address a \<and> align_down a = va \<longrightarrow> resolve fm (page_tables (mem_tables s)) root (levels a) a = None) \<and>
             (\<forall>a. kernel_address a \<longrightarrow> resolve fm (page_tables (mem_tables s')) root (levels a) a =
                (if align_down a = va then Some (pa + page_offset a)
                 else resolve fm (page_tables (mem_tables s)) root (levels a) a)))"
    proof (intro exI conjI allI impI)
      show "map_fn va pa s = Inr (r, s')" "memory_ok fm limit depth root s'" "takes_pages (mem_pmm s) (mem_pmm s') ns"
        by (rule o(1-3))+
      show "reach fm (page_tables (mem_tables s')) root (path_of a) \<noteq> None"
        if "reach fm (page_tables (mem_tables s)) root (path_of a) \<noteq> None" for a
        unfolding o(5) using kept [OF o(6) that] .
    qed (rule o(4), unfold o(5), rule c)
  }
  assume t: "reach fm (page_tables (mem_tables s)) root (path_of va) \<noteq> None"
    "resolve fm (page_tables (mem_tables s)) root (levels va) va = Some pa"
  obtain mmu' where o: "unmap_path fm flush root (path_of va) (leaf_of va) va (mem_tables s) = Inr (Inr pa, mmu')"
      "memory_ok fm limit depth root (s\<lparr>mem_tables := mmu'\<rparr>)"
      "tables_of fm depth (page_tables mmu') root = tables_of fm depth (page_tables (mem_tables s)) root"
      "reach_kept fm depth root (page_tables (mem_tables s)) (page_tables mmu')"
      "\<forall>a. kernel_address a \<longrightarrow> resolve fm (page_tables mmu') root (levels a) a =
         (if align_down a = va then None else resolve fm (page_tables (mem_tables s)) root (levels a) a)"
    using unmap_present [OF ok va t] by blast
  show "\<exists>s'. unmap_fn va s = Inr (Inr pa, s') \<and> memory_ok fm limit depth root s' \<and> mem_pmm s' = mem_pmm s \<and>
        tables_of fm depth (page_tables (mem_tables s')) root = tables_of fm depth (page_tables (mem_tables s)) root \<and>
        (\<forall>a. reach fm (page_tables (mem_tables s)) root (path_of a) \<noteq> None \<longrightarrow>
           reach fm (page_tables (mem_tables s')) root (path_of a) \<noteq> None) \<and>
        (\<forall>a. kernel_address a \<longrightarrow> resolve fm (page_tables (mem_tables s')) root (levels a) a =
           (if align_down a = va then None else resolve fm (page_tables (mem_tables s)) root (levels a) a))"
    using o kept [OF o(4)] u [OF va(1)]
    by (intro exI [of _ "s\<lparr>mem_tables := mmu'\<rparr>"]) (simp add: with_tables_def)
next
  fix s :: "'r mmu_memory" and pmm
  assume "memory_ok fm limit depth root s" "pool_inv pmm" and cfg: "same_config (mem_pmm s) pmm"
    and "tables_of fm depth (page_tables (mem_tables s)) root \<inter> set (free_addresses pmm) = {}"
  then show "memory_ok fm limit depth root (s\<lparr>mem_pmm := pmm\<rparr>)"
    by (simp add: memory_ok_def same_config_simps [OF cfg] handle_address_config [OF cfg])
qed (auto simp: memory_ok_def)

end

text \<open>Unmapping undoes mapping.\<close>

context page_mapper
begin

lemma map_then_unmap:
  assumes ok: "mapper_ok s" and va: "kernel_address va" "is_page_aligned va" and pa: "is_page_aligned pa" "unat pa < limit"
    and m: "map_page va pa s = Inr (Inr u, s')"
  shows "\<exists>s''. unmap_page va s' = Inr (Inr pa, s'') \<and> mapper_ok s'' \<and> mem_pmm s'' = mem_pmm s' \<and>
    (\<forall>a. kernel_address a \<longrightarrow> translation (mem_tables s'') a = translation (mem_tables s) a)"
proof -
  have a: "align_down va = va" "page_offset va = 0"
    using va(2) by (simp_all add: word_unat_eq_iff unat_align_down is_page_aligned_iff unat_page_offset)
  have s': "mapper_ok s'" "has_table (mem_tables s') va"
      "\<forall>a. kernel_address a \<and> align_down a = va \<longrightarrow> translation (mem_tables s) a = None"
      "\<forall>a. kernel_address a \<longrightarrow> translation (mem_tables s') a =
        (if align_down a = va then Some (pa + page_offset a) else translation (mem_tables s) a)"
    using mapping [OF ok va pa] m by auto
  have "translation (mem_tables s') va = Some pa"
    using s'(4) va(1) a by simp
  then obtain s'' where u: "unmap_page va s' = Inr (Inr pa, s'')" "mapper_ok s''" "mem_pmm s'' = mem_pmm s'"
      "\<forall>a. kernel_address a \<longrightarrow> translation (mem_tables s'') a =
        (if align_down a = va then None else translation (mem_tables s') a)"
    using unmapping [OF s'(1) va s'(2)] by blast
  then show ?thesis
    using s'(3,4) by auto
qed

end

end
