(* ===== verification/Boot_Tables.thy ===== *)
theory Boot_Tables
  imports Page_Mapper
begin

text \<open>The boot tables of both architectures: what the loops over gigabytes leave in them.\<close>

unbundle bit_operations_syntax

lemma unat_GIGABYTE [simp]: "unat GIGABYTE = 2 ^ 30"
  by (simp add: GIGABYTE_def push_bit_eq_mult)

lemma gigabyte_address:
  assumes "gb < 2 ^ 34"
  shows "mul_words (of_nat gb) GIGABYTE = Inr (of_nat gb * GIGABYTE)" "unat (of_nat gb * GIGABYTE) = gb * 2 ^ 30"
proof -
  have g: "unat (of_nat gb :: usize) = gb"
    using assms by (simp add: unat_of_nat)
  then show "unat (of_nat gb * GIGABYTE) = gb * 2 ^ 30"
    using assms by (simp add: unat_mult_no_overflow)
  show "mul_words (of_nat gb) GIGABYTE = Inr (of_nat gb * GIGABYTE)"
    using g assms by (simp add: mul_words_def)
qed

lemma store_all_spec:
  "i < ENTRIES_PER_PAGE_TABLE \<Longrightarrow>
   \<exists>m'. store_all ts i e m = Inr m' \<and> (\<forall>t j. m' t j = (if t \<in> set ts \<and> j = i then e else m t j))"
proof (induction ts arbitrary: m)
  case (Cons t ts)
  obtain m' where "store_all ts i e (write_entry t i e m) = Inr m'"
      "\<forall>t' j. m' t' j = (if t' \<in> set ts \<and> j = i then e else write_entry t i e m t' j)"
    using Cons.IH [OF Cons.prems] by blast
  then show ?case
    using Cons.prems by (intro exI [of _ m']) (auto simp: store_entry_def write_entry_def)
qed simp

lemma map_gigabytes_spec:
  assumes "\<And>gb. gb \<in> set gbs \<Longrightarrow> gb < ENTRIES_PER_PAGE_TABLE"
    and "\<And>gb. gb \<in> set gbs \<Longrightarrow> gb \<noteq> 0 \<Longrightarrow> block (of_nat gb * GIGABYTE) = Inr (e gb)"
  shows "\<exists>m'. map_gigabytes block ts gbs m = Inr m' \<and>
    (\<forall>t i. m' t i = (if t \<in> set ts \<and> i \<in> set gbs \<and> i \<noteq> 0 then e i else m t i))"
  using assms
proof (induction gbs arbitrary: m)
  case (Cons gb gbs)
  show ?case
  proof (cases "gb = 0")
    case True
    then show ?thesis
      using Cons.IH [of m] Cons.prems by auto
  next
    case False
    have gb: "gb < ENTRIES_PER_PAGE_TABLE" "block (of_nat gb * GIGABYTE) = Inr (e gb)"
      using Cons.prems False by auto
    obtain m1 where m1: "store_all ts gb (e gb) m = Inr m1"
        "\<forall>t j. m1 t j = (if t \<in> set ts \<and> j = gb then e gb else m t j)"
      using store_all_spec [OF gb(1)] by blast
    obtain m' where "map_gigabytes block ts gbs m1 = Inr m'"
        "\<forall>t i. m' t i = (if t \<in> set ts \<and> i \<in> set gbs \<and> i \<noteq> 0 then e i else m1 t i)"
      using Cons.IH [of m1] Cons.prems by auto
    moreover have "mul_words (of_nat gb) GIGABYTE = Inr (of_nat gb * GIGABYTE)"
      using gb(1) by (intro gigabyte_address) (simp add: ENTRIES_PER_PAGE_TABLE_def)
    ultimately show ?thesis
      using False gb(2) m1 by (intro exI [of _ m']) auto
  qed
qed simp

lemma MAX_PHYSMAP_ENTRIES_nat [simp]: "unat MAX_PHYSMAP_ENTRIES = 511"
  by (simp add: MAX_PHYSMAP_ENTRIES_def ENTRIES_PER_PAGE_TABLE_def)

text \<open>The block of gigabyte \<open>gb\<close> and an offset in it.\<close>

lemma block_sum:
  assumes "gb < 512" "unat a div 2 ^ 30 mod 512 = gb" "offset_mask = mask 30"
  shows "\<exists>pa. checked_add (of_nat gb * GIGABYTE) (a AND offset_mask) = Some pa \<and> unat pa = unat a mod 2 ^ 39"
proof -
  have o: "unat (a AND offset_mask) = unat a mod 2 ^ 30"
    using assms(3) by (simp add: unat_and_mask)
  have b: "unat (of_nat gb * GIGABYTE) = gb * 2 ^ 30"
    using gigabyte_address(2) [of gb] assms(1) by simp
  define x where "x = unat a mod 2 ^ 39"
  have x: "x = gb * 2 ^ 30 + unat a mod 2 ^ 30"
    unfolding x_def using assms(2) mod_mult2_eq [of "unat a" "2 ^ 30" 512] by simp
  have "x < 2 ^ 64"
    by (simp add: x_def le_less_trans [OF mod_less_eq_dividend unat_bound64])
  then have "unat (of_nat x :: usize) = x"
    by (rule unat_of_nat_lt)
  then show ?thesis
    using o b x unfolding x_def [symmetric] by (intro exI [of _ "of_nat x"]) (simp only: checked_add_eq_Some)
qed

lemma gigabyte_aligned:
  assumes "gb < 512"
  shows "is_page_aligned (of_nat gb * GIGABYTE)" "mapping_is_aligned Block1G (of_nat gb * GIGABYTE)"
    "unat (of_nat gb * GIGABYTE) < 2 ^ 48"
proof -
  have u: "unat (of_nat gb * GIGABYTE) = gb * 2 ^ 30"
    using gigabyte_address(2) [of gb] assms by simp
  then show "is_page_aligned (of_nat gb * GIGABYTE)" "unat (of_nat gb * GIGABYTE) < 2 ^ 48"
    using assms by (simp_all add: is_page_aligned_iff)
  have "mapping_bytes Block1G - 1 = mask 30"
    by (simp add: mask_eq_exp_minus_1 push_bit_eq_mult)
  then have "unat (of_nat gb * GIGABYTE AND (mapping_bytes Block1G - 1)) = 0"
    using unat_and_mask [of "of_nat gb * GIGABYTE" 30] u by (simp only:) simp
  then show "mapping_is_aligned Block1G (of_nat gb * GIGABYTE)"
    by (simp add: mapping_is_aligned_def unsigned_eq_0_iff)
qed

section \<open>Tables of blocks\<close>

definition block_at :: "PteFormat \<Rightarrow> u64 \<Rightarrow> nat \<Rightarrow> bool" where
  "block_at fm e gb \<longleftrightarrow> fmt_valid fm e \<and> \<not> fmt_table fm e \<and> fmt_output fm e = Some (of_nat gb * GIGABYTE)"

definition block_table :: "PteFormat \<Rightarrow> (nat \<Rightarrow> bool) \<Rightarrow> (nat \<Rightarrow> u64) \<Rightarrow> bool" where
  "block_table fm P entries \<longleftrightarrow> (\<forall>i < 512. if P i then block_at fm (entries i) i else entries i = 0)"

lemma map_gigabytes_blocks:
  assumes block: "\<And>gb. gb < 512 \<Longrightarrow> \<exists>e. block (of_nat gb * GIGABYTE) = Inr e \<and> block_at fm e gb"
    and gbs: "\<And>gb. gb \<in> set gbs \<Longrightarrow> gb < 512"
  shows "\<exists>m'. map_gigabytes block ts gbs m = Inr m' \<and>
    (\<forall>t P. t \<in> set ts \<and> block_table fm P (m t) \<longrightarrow> block_table fm (\<lambda>i. P i \<or> i \<in> set gbs \<and> i \<noteq> 0) (m' t)) \<and>
    (\<forall>t. t \<notin> set ts \<longrightarrow> m' t = m t)"
proof -
  let ?e = "\<lambda>gb. projr (block (of_nat gb * GIGABYTE))"
  have e: "block (of_nat gb * GIGABYTE) = Inr (?e gb)" "block_at fm (?e gb) gb" if "gb < 512" for gb
    using block [OF that] by auto
  obtain m' where m': "map_gigabytes block ts gbs m = Inr m'"
      "\<forall>t i. m' t i = (if t \<in> set ts \<and> i \<in> set gbs \<and> i \<noteq> 0 then ?e i else m t i)"
    using map_gigabytes_spec [of gbs block ?e ts m] e(1) gbs by (auto simp: ENTRIES_PER_PAGE_TABLE_def)
  have "m' t = m t" if "t \<notin> set ts" for t
    using m'(2) that by (intro ext) simp
  moreover have "block_table fm (\<lambda>i. P i \<or> i \<in> set gbs \<and> i \<noteq> 0) (m' t)" if "t \<in> set ts" "block_table fm P (m t)" for t P
    using that m'(2) e(2) unfolding block_table_def by auto
  ultimately show ?thesis
    using m'(1) by blast
qed

context pte_format
begin

lemma block_table_resolve:
  assumes "block_table fm P (m t)" "i = unat a div 2 ^ 30 mod 512" "offset_mask = mask 30"
  shows "resolve fm m t ((i, offset_mask) # ls) a = (if P i then Some (take_bit 39 a) else None)"
proof -
  have i: "i < 512"
    by (simp add: assms(2))
  show ?thesis
  proof (cases "P i")
    case True
    then have b: "block_at fm (m t i) i"
      using assms(1) i by (simp add: block_table_def)
    obtain pa where pa: "checked_add (of_nat i * GIGABYTE) (a AND offset_mask) = Some pa" "unat pa = unat a mod 2 ^ 39"
      using block_sum [OF i assms(2) [symmetric] assms(3)] by blast
    have "unat (take_bit 39 a) = unat a mod 2 ^ 39"
      by (metis take_bit_eq_mod unsigned_take_bit_eq)
    then have "pa = take_bit 39 a"
      using pa(2) by (simp add: word_unat_eq_iff)
    then show ?thesis
      using True b pa(1) by (cases ls) (simp_all add: block_at_def)
  next
    case False
    then have "m t i = 0"
      using assms(1) i by (simp add: block_table_def)
    then show ?thesis
      using False empty_invalid by (cases ls) simp_all
  qed
qed

lemma block_table_reach:
  assumes "block_table fm P (m t)" "in_range p"
  shows "reach fm m t p = (if p = [] then Some t else None)"
  using assms empty_no_table
  by (cases p) (auto simp: block_table_def block_at_def ENTRIES_PER_PAGE_TABLE_def split: if_splits)

end

section \<open>The gigabytes of kernel and device tree\<close>

text \<open>
  What boot must have mapped: a gigabyte from the address the kernel is loaded at, and the largest
  device tree accepted, unless there is none.
\<close>

definition boot_memory :: "PhysicalAddress \<Rightarrow> PhysicalAddress \<Rightarrow> nat set" where
  "boot_memory kernel_load dtb =
     {unat kernel_load..<unat kernel_load + 2 ^ 30} \<union> (if dtb = 0 then {} else {unat dtb..<unat dtb + 2 ^ 20})"

text \<open>The gigabytes from the first to the last of them.\<close>

definition boot_gigabytes :: "PhysicalAddress \<Rightarrow> PhysicalAddress \<Rightarrow> nat set" where
  "boot_gigabytes kernel_load dtb =
     {gb. \<exists>x \<in> boot_memory kernel_load dtb. \<exists>y \<in> boot_memory kernel_load dtb. x div 2 ^ 30 \<le> gb \<and> gb \<le> y div 2 ^ 30}"

lemma less_ceil_gigabyte: "gb < unat (div_ceil x GIGABYTE) \<longleftrightarrow> gb * 2 ^ 30 < unat x"
proof -
  have "unat (div_ceil x GIGABYTE) = (unat x + 2 ^ 30 - 1) div 2 ^ 30"
    by (simp add: unat_div_ceil)
  moreover have "gb < (unat x + 2 ^ 30 - 1) div 2 ^ 30 \<longleftrightarrow> gb * 2 ^ 30 < unat x"
    by (auto simp: Suc_le_eq [symmetric] less_eq_div_iff_mult_less_eq)
  ultimately show ?thesis
    by simp
qed

lemma boot_range_gigabytes:
  assumes fits: "boot_memory kernel_load dtb \<subseteq> {..<2 ^ 39}"
  shows "\<exists>start_gb end_gb. boot_range kernel_load dtb = (start_gb, end_gb) \<and> start_gb < end_gb \<and> unat end_gb \<le> 512 \<and>
    (\<forall>gb. gb \<in> boot_gigabytes kernel_load dtb \<longleftrightarrow> unat start_gb \<le> gb \<and> gb < unat end_gb)"
proof -
  define lo where "lo = (if dtb = 0 then kernel_load else min kernel_load dtb)"
  define hi where "hi = max (saturating_add kernel_load MINIMUM_PHYSMAP_SIZE)
      (if dtb = 0 then kernel_load else saturating_add dtb DEVICE_TREE_BLOB_MAX_SIZE)"
  have range: "boot_range kernel_load dtb = (lo div GIGABYTE, div_ceil hi GIGABYTE)"
    by (simp add: boot_range_def lo_def hi_def Let_def)
  have "unat kernel_load + 2 ^ 30 - 1 \<in> boot_memory kernel_load dtb"
    by (simp add: boot_memory_def)
  then have k: "unat kernel_load + 2 ^ 30 \<le> 2 ^ 39"
    using fits by (auto dest!: subsetD)
  have d: "unat dtb + 2 ^ 20 \<le> 2 ^ 39" if "dtb \<noteq> 0"
  proof -
    have "unat dtb + 2 ^ 20 - 1 \<in> boot_memory kernel_load dtb"
      using that by (simp add: boot_memory_def)
    then show ?thesis
      using fits by (auto dest!: subsetD)
  qed
  have sizes: "unat MINIMUM_PHYSMAP_SIZE = 2 ^ 30" "unat DEVICE_TREE_BLOB_MAX_SIZE = 2 ^ 20"
    by (simp_all add: MINIMUM_PHYSMAP_SIZE_def DEVICE_TREE_BLOB_MAX_SIZE_def push_bit_eq_mult)
  have unat_max: "unat (max a b) = max (unat a) (unat b)" and unat_min: "unat (min a b) = min (unat a) (unat b)" for a b :: usize
    by (simp_all add: max_def min_def word_le_nat_alt)
  have lo: "unat lo = (if dtb = 0 then unat kernel_load else min (unat kernel_load) (unat dtb))"
    by (simp add: lo_def unat_min)
  have hi: "unat hi = (if dtb = 0 then unat kernel_load + 2 ^ 30 else max (unat kernel_load + 2 ^ 30) (unat dtb + 2 ^ 20))"
    using k d by (cases "dtb = 0") (simp_all add: hi_def unat_max unat_saturating_add sizes)
  have span: "boot_memory kernel_load dtb \<subseteq> {unat lo..<unat hi}" "unat lo \<in> boot_memory kernel_load dtb"
      "unat hi - 1 \<in> boot_memory kernel_load dtb" "unat lo < unat hi" "unat hi \<le> 2 ^ 39"
    using k d unfolding lo hi by (auto simp: boot_memory_def min_def max_def)
  have ends: "unat (lo div GIGABYTE) = unat lo div 2 ^ 30" "gb < unat (div_ceil hi GIGABYTE) \<longleftrightarrow> gb \<le> (unat hi - 1) div 2 ^ 30" for gb
    using span(4) by (simp_all add: unat_div_distrib less_ceil_gigabyte less_eq_div_iff_mult_less_eq, linarith)
  have "gb \<in> boot_gigabytes kernel_load dtb \<longleftrightarrow> unat lo div 2 ^ 30 \<le> gb \<and> gb \<le> (unat hi - 1) div 2 ^ 30" for gb
  proof
    assume "gb \<in> boot_gigabytes kernel_load dtb"
    then obtain x y where "x \<in> boot_memory kernel_load dtb" "y \<in> boot_memory kernel_load dtb" "x div 2 ^ 30 \<le> gb" "gb \<le> y div 2 ^ 30"
      by (auto simp: boot_gigabytes_def)
    moreover from this span(1) have "unat lo \<le> x" "y \<le> unat hi - 1"
      by fastforce+
    ultimately show "unat lo div 2 ^ 30 \<le> gb \<and> gb \<le> (unat hi - 1) div 2 ^ 30"
      by (meson div_le_mono le_trans)
  qed (use span(2,3) in \<open>auto simp: boot_gigabytes_def\<close>)
  moreover have "lo div GIGABYTE < div_ceil hi GIGABYTE"
  proof -
    have "unat lo div 2 ^ 30 \<le> (unat hi - 1) div 2 ^ 30"
      using span(4) by (intro div_le_mono) simp
    then have "unat (lo div GIGABYTE) < unat (div_ceil hi GIGABYTE)"
      unfolding ends .
    then show ?thesis
      by (simp add: word_less_nat_alt)
  qed
  moreover have "unat (div_ceil hi GIGABYTE) \<le> 512"
    using ends(2) [of 512] span(5) by (simp add: not_less [symmetric] less_ceil_gigabyte)
  ultimately show ?thesis
    unfolding range ends(1) [symmetric] ends(2) [symmetric] by blast
qed

text \<open>Where \<open>expand_physmap\<close> ends: at the end of memory, and before the last gigabyte.\<close>

lemma less_physmap_end:
  "gb < unat (min (div_ceil max_end GIGABYTE) MAX_PHYSMAP_ENTRIES) \<longleftrightarrow> gb * 2 ^ 30 < unat max_end \<and> gb < 511"
proof -
  have "unat (min a b) = min (unat a) (unat b)" for a b :: usize
    by (simp add: min_def word_le_nat_alt)
  then show ?thesis
    by (simp add: less_ceil_gigabyte)
qed

text \<open>The gigabytes as the loops count them, before and after \<open>expand_physmap\<close>.\<close>

lemma boot_gigabytes_span:
  assumes "start_gb < end_gb" and r: "\<forall>gb. gb \<in> boot_gigabytes kernel_load dtb \<longleftrightarrow> unat start_gb \<le> gb \<and> gb < unat end_gb"
  shows "gb = 0 \<or> unat start_gb \<le> gb \<and> gb < unat end_gb \<longleftrightarrow> gb = 0 \<or> gb \<in> boot_gigabytes kernel_load dtb"
    and "gb = 0 \<or> unat start_gb \<le> gb \<and> gb < max (unat end_gb) (unat (min (div_ceil max_end GIGABYTE) MAX_PHYSMAP_ENTRIES)) \<longleftrightarrow>
      gb = 0 \<or> gb \<in> boot_gigabytes kernel_load dtb \<or>
      (\<forall>b \<in> boot_gigabytes kernel_load dtb. b < gb) \<and> gb * 2 ^ 30 < unat max_end \<and> gb < 511"
proof -
  have lt: "unat start_gb < unat end_gb"
    using assms(1) by (simp add: word_less_nat_alt)
  have later: "(\<forall>b \<in> boot_gigabytes kernel_load dtb. b < gb) \<longleftrightarrow> unat end_gb \<le> gb"
  proof
    assume "\<forall>b \<in> boot_gigabytes kernel_load dtb. b < gb"
    moreover have "unat end_gb - 1 \<in> boot_gigabytes kernel_load dtb"
      using r lt by auto
    ultimately show "unat end_gb \<le> gb"
      by fastforce
  qed (use r in auto)
  show "gb = 0 \<or> unat start_gb \<le> gb \<and> gb < max (unat end_gb) (unat (min (div_ceil max_end GIGABYTE) MAX_PHYSMAP_ENTRIES)) \<longleftrightarrow>
      gb = 0 \<or> gb \<in> boot_gigabytes kernel_load dtb \<or>
      (\<forall>b \<in> boot_gigabytes kernel_load dtb. b < gb) \<and> gb * 2 ^ 30 < unat max_end \<and> gb < 511"
    using r lt unfolding less_max_iff_disj less_physmap_end later by (cases "gb < unat end_gb") (simp_all add: not_less)
  show "gb = 0 \<or> unat start_gb \<le> gb \<and> gb < unat end_gb \<longleftrightarrow> gb = 0 \<or> gb \<in> boot_gigabytes kernel_load dtb"
    using r by simp
qed

end
