(* ===== verification/Arm64_Mmu.thy ===== *)
theory Arm64_Mmu
  imports Boot_Tables
begin

text \<open>
  \<open>arch/aarch64/mmu.rs\<close>: descriptors, the boot tables, translation, mapping and unmapping with
  39-bit addresses and three levels of tables, and the maintenance of the translation lookaside
  buffer. The addresses of the two static tables are link-time constants and parameters.
\<close>

unbundle bit_operations_syntax

section \<open>Constants\<close>

definition ARM_KERNEL_VIRTUAL_BASE :: usize where
  "ARM_KERNEL_VIRTUAL_BASE = 0xffffff8000000000"

definition ARM_KERNEL_PHYSICAL_LOAD :: usize where
  "ARM_KERNEL_PHYSICAL_LOAD = 0x40080000"

definition PAGE_SHIFT :: nat where
  "PAGE_SHIFT = 12"

definition BLOCK_1G_MASK :: usize where
  "BLOCK_1G_MASK = GIGABYTE - 1"

definition BLOCK_2M :: usize where
  "BLOCK_2M = push_bit 21 1"

definition BLOCK_2M_MASK :: usize where
  "BLOCK_2M_MASK = BLOCK_2M - 1"

definition KERNEL_STACK_REGION_OFFSET :: usize where
  "KERNEL_STACK_REGION_OFFSET = (of_nat ENTRIES_PER_PAGE_TABLE - 1) * GIGABYTE"

definition MAIR_VALUE :: u64 where
  "MAIR_VALUE = push_bit 8 0x04 OR push_bit 16 0x44 OR push_bit 24 0xff OR push_bit 32 0xf0"

definition BOOT_KERNEL_PERMISSIONS :: MappingPermissions where
  "BOOT_KERNEL_PERMISSIONS = \<lparr>writable = True, executable = True, user_accessible = False\<rparr>"

definition ARM_VALID :: u64 where "ARM_VALID = push_bit 0 1"
definition ARM_TABLE_OR_PAGE :: u64 where "ARM_TABLE_OR_PAGE = push_bit 1 1"
definition ARM_ATTRIBUTE_INDEX_SHIFT :: nat where "ARM_ATTRIBUTE_INDEX_SHIFT = 2"
definition ARM_USER_ACCESSIBLE :: u64 where "ARM_USER_ACCESSIBLE = push_bit 6 1"
definition ARM_READ_ONLY :: u64 where "ARM_READ_ONLY = push_bit 7 1"
definition ARM_OUTER_SHAREABLE :: u64 where "ARM_OUTER_SHAREABLE = push_bit 8 2"
definition ARM_INNER_SHAREABLE :: u64 where "ARM_INNER_SHAREABLE = push_bit 8 3"
definition ARM_ACCESSED :: u64 where "ARM_ACCESSED = push_bit 10 1"
definition ARM_NON_GLOBAL :: u64 where "ARM_NON_GLOBAL = push_bit 11 1"
definition ARM_PRIVILEGED_EXECUTE_NEVER :: u64 where "ARM_PRIVILEGED_EXECUTE_NEVER = push_bit 53 1"
definition ARM_USER_EXECUTE_NEVER :: u64 where "ARM_USER_EXECUTE_NEVER = push_bit 54 1"

definition ARM_ADDRESS_MASK :: u64 where
  "ARM_ADDRESS_MASK = 0x0000fffffffff000"

section \<open>Descriptors\<close>

definition arm_is_valid :: "u64 \<Rightarrow> bool" where
  "arm_is_valid e \<longleftrightarrow> e AND ARM_VALID \<noteq> 0"

definition arm_is_table :: "u64 \<Rightarrow> bool" where
  "arm_is_table e \<longleftrightarrow> arm_is_valid e \<and> e AND ARM_TABLE_OR_PAGE \<noteq> 0"

definition arm_is_block :: "u64 \<Rightarrow> bool" where
  "arm_is_block e \<longleftrightarrow> arm_is_valid e \<and> e AND ARM_TABLE_OR_PAGE = 0"

definition arm_output_address :: "u64 \<Rightarrow> PhysicalAddress option" where
  "arm_output_address e = (if arm_is_valid e then Some (e AND ARM_ADDRESS_MASK) else None)"

definition arm_aligned_output_address :: "PhysicalAddress \<Rightarrow> u64 option" where
  "arm_aligned_output_address address =
     (if is_page_aligned address then Some (address AND ARM_ADDRESS_MASK) else None)"

definition arm_table :: "PhysicalAddress \<Rightarrow> u64 option" where
  "arm_table nxt = map_option (\<lambda>output. ARM_VALID OR ARM_TABLE_OR_PAGE OR output) (arm_aligned_output_address nxt)"

definition arm_apply_permissions :: "u64 \<Rightarrow> MappingPermissions \<Rightarrow> u64" where
  "arm_apply_permissions v permissions =
     (let v = (if \<not> writable permissions then v OR ARM_READ_ONLY else v);
          v = (if user_accessible permissions then v OR (ARM_USER_ACCESSIBLE OR ARM_NON_GLOBAL)
               else v OR ARM_USER_EXECUTE_NEVER)
      in if \<not> executable permissions
         then v OR (ARM_PRIVILEGED_EXECUTE_NEVER OR ARM_USER_EXECUTE_NEVER) else v)"

definition arm_mapping :: "MappingIntent \<Rightarrow> bool \<Rightarrow> u64 panics" where
  "arm_mapping intent table_or_page =
     (let attribute = (case intent_memory intent of DeviceMemory \<Rightarrow> 0 | NormalMemory \<Rightarrow> 3);
          shareability = (case intent_memory intent of
              DeviceMemory \<Rightarrow> ARM_OUTER_SHAREABLE | NormalMemory \<Rightarrow> ARM_INNER_SHAREABLE)
      in bind_panic (expect ''validated mapping'' (arm_aligned_output_address (intent_address intent))) (\<lambda>output.
         let v = ARM_VALID OR ARM_ACCESSED OR shareability OR output OR push_bit ARM_ATTRIBUTE_INDEX_SHIFT attribute;
             v = (if table_or_page then v OR ARM_TABLE_OR_PAGE else v)
         in Inr (arm_apply_permissions v (intent_permissions intent))))"

fun arm_from_mapping_size :: "MappingSize \<Rightarrow> MappingIntent \<Rightarrow> u64 panics" where
  "arm_from_mapping_size Page4K intent = arm_mapping intent True"
| "arm_from_mapping_size Block2M intent = arm_mapping intent False"
| "arm_from_mapping_size Block1G intent = arm_mapping intent False"

definition arm_from_mapping :: "MappingIntent \<Rightarrow> u64 panics" where
  "arm_from_mapping intent = arm_from_mapping_size (intent_size intent) intent"

section \<open>Addresses\<close>

definition arm_physical_to_virtual :: "PhysicalAddress \<Rightarrow> VirtualAddress" where
  "arm_physical_to_virtual address = address + ARM_KERNEL_VIRTUAL_BASE"

definition arm_virtual_to_physical :: "VirtualAddress \<Rightarrow> PhysicalAddress" where
  "arm_virtual_to_physical address = address - ARM_KERNEL_VIRTUAL_BASE"

definition arm_kernel_stack_region_base :: VirtualAddress where
  "arm_kernel_stack_region_base = ARM_KERNEL_VIRTUAL_BASE + KERNEL_STACK_REGION_OFFSET"

definition arm_is_canonical :: "VirtualAddress \<Rightarrow> bool" where
  "arm_is_canonical address \<longleftrightarrow> address < push_bit 39 1 \<or> ARM_KERNEL_VIRTUAL_BASE \<le> address"

definition arm_static_physical_address :: "usize \<Rightarrow> PhysicalAddress" where
  "arm_static_physical_address raw =
     (if ARM_KERNEL_VIRTUAL_BASE \<le> raw then arm_virtual_to_physical raw else raw)"

definition arm_format :: PteFormat where
  "arm_format =
     \<lparr>fmt_valid = arm_is_valid, fmt_table = arm_is_table, fmt_output = arm_output_address,
      fmt_make_table = arm_table, fmt_from_mapping = arm_from_mapping,
      fmt_to_virtual = arm_physical_to_virtual, fmt_to_physical = arm_virtual_to_physical\<rparr>"

definition arm_l1 :: "VirtualAddress \<Rightarrow> nat" where
  "arm_l1 address = unat (drop_bit 30 address AND 0x1ff)"

definition arm_l2 :: "VirtualAddress \<Rightarrow> nat" where
  "arm_l2 address = unat (drop_bit 21 address AND 0x1ff)"

definition arm_l3 :: "VirtualAddress \<Rightarrow> nat" where
  "arm_l3 address = unat (drop_bit 12 address AND 0x1ff)"

section \<open>The translation lookaside buffer\<close>

text \<open>
  The operand \<open>flush_address\<close> passes to \<open>tlbi vale1is\<close>. The instruction drops the translations
  of the page whose address bits 55 to 12 are bits 43 to 0 of the operand.
\<close>

definition arm_flush_operand :: "VirtualAddress \<Rightarrow> u64" where
  "arm_flush_operand address = drop_bit PAGE_SHIFT address AND 0x000fffffffff"

definition tlbi_vale1is :: "u64 \<Rightarrow> (VirtualAddress \<times> PhysicalAddress) set \<Rightarrow> (VirtualAddress \<times> PhysicalAddress) set" where
  "tlbi_vale1is operand cached =
     Set.filter (\<lambda>(page, _). drop_bit 12 page AND 0xfffffffffff \<noteq> operand AND 0xfffffffffff) cached"

definition arm_flush_address :: "VirtualAddress \<Rightarrow> 'r Mmu_scheme \<Rightarrow> 'r Mmu_scheme" where
  "arm_flush_address address mmu = mmu\<lparr>tlb := tlbi_vale1is (arm_flush_operand address) (tlb mmu)\<rparr>"

definition arm_flush_local :: "'r Mmu_scheme \<Rightarrow> 'r Mmu_scheme" where
  "arm_flush_local mmu = mmu\<lparr>tlb := {}\<rparr>"

section \<open>Boot\<close>

record ArmMmu = Mmu +
  mair_el1 :: u64
  tcr_el1 :: u64
  ttbr0_el1 :: u64
  ttbr1_el1 :: u64
  sctlr_el1 :: u64

text \<open>The addresses of \<open>LOW_TABLE\<close> and \<open>HIGH_TABLE\<close> as the running code sees them.\<close>

record ArmStatics =
  low_table :: usize
  high_table :: usize

definition arm_default_tcr :: u64 where
  "arm_default_tcr =
     25 OR push_bit 8 1 OR push_bit 10 1 OR push_bit 12 2 OR push_bit 16 25 OR push_bit 24 1 OR
     push_bit 26 1 OR push_bit 28 2 OR push_bit 30 2 OR push_bit 32 2"

definition arm_validate_boot_range :: "usize \<Rightarrow> usize \<Rightarrow> unit panics" where
  "arm_validate_boot_range start_gb end_gb =
     (if end_gb < start_gb \<or> of_nat ENTRIES_PER_PAGE_TABLE < end_gb
      then Inl ''mmu: boot physical range exceeds ARM64 boot page table'' else Inr ())"

definition arm_kernel_block :: "PhysicalAddress \<Rightarrow> MappingPermissions \<Rightarrow> u64 panics" where
  "arm_kernel_block address permissions =
     bind_panic (expect ''boot block is aligned'' (MappingIntent_new address Block1G NormalMemory permissions))
       arm_from_mapping"

definition arm_device_block :: "PhysicalAddress \<Rightarrow> u64 panics" where
  "arm_device_block address =
     bind_panic (expect ''device block is aligned'' (MappingIntent_new address Block1G DeviceMemory KERNEL_READ_WRITE))
       arm_from_mapping"

definition arm_write_mair :: "u64 \<Rightarrow> ArmMmu \<Rightarrow> ArmMmu" where
  "arm_write_mair v mmu = mmu\<lparr>mair_el1 := v\<rparr>"

definition arm_write_tcr :: "u64 \<Rightarrow> ArmMmu \<Rightarrow> ArmMmu" where
  "arm_write_tcr v mmu = mmu\<lparr>tcr_el1 := v\<rparr>"

definition arm_write_ttbr0 :: "PhysicalAddress \<Rightarrow> ArmMmu \<Rightarrow> ArmMmu" where
  "arm_write_ttbr0 address mmu = mmu\<lparr>ttbr0_el1 := address\<rparr>"

definition arm_write_ttbr1 :: "PhysicalAddress \<Rightarrow> ArmMmu \<Rightarrow> ArmMmu" where
  "arm_write_ttbr1 address mmu = mmu\<lparr>ttbr1_el1 := address\<rparr>"

definition arm_enable_mmu :: "ArmMmu \<Rightarrow> ArmMmu" where
  "arm_enable_mmu mmu = mmu\<lparr>sctlr_el1 := sctlr_el1 mmu OR 1\<rparr>"

definition arm_init :: "ArmStatics \<Rightarrow> PhysicalAddress \<Rightarrow> PhysicalAddress \<Rightarrow> ArmMmu \<Rightarrow> ArmMmu panics" where
  "arm_init st kernel_load dtb mmu =
     (let mmu = arm_write_tcr arm_default_tcr (arm_write_mair MAIR_VALUE mmu);
          (start_gb, end_gb) = boot_range kernel_load dtb;
          low = arm_static_physical_address (low_table st);
          high = arm_static_physical_address (high_table st)
      in bind_panic (arm_validate_boot_range start_gb end_gb) (\<lambda>_.
         let m = fill_table high (fill_table low (page_tables mmu)) in
         bind_panic (arm_device_block 0) (\<lambda>device.
         bind_panic (store_all [low, high] 0 device m) (\<lambda>m.
         bind_panic (map_gigabytes (\<lambda>address. arm_kernel_block address BOOT_KERNEL_PERMISSIONS) [low, high]
             [unat start_gb..<unat end_gb] m) (\<lambda>m.
         let mmu = mmu\<lparr>page_tables := m, physmap_end_gb := end_gb\<rparr>;
             mmu = arm_write_ttbr1 high (arm_write_ttbr0 low mmu)
         in Inr (arm_enable_mmu (arm_flush_local mmu)))))))"

definition arm_expand_physmap :: "ArmStatics \<Rightarrow> PhysicalAddress \<Rightarrow> 'r Mmu_scheme \<Rightarrow> 'r Mmu_scheme panics" where
  "arm_expand_physmap st max_end mmu =
     (let new_end = min (div_ceil max_end GIGABYTE) MAX_PHYSMAP_ENTRIES;
          current = physmap_end_gb mmu;
          high = arm_static_physical_address (high_table st)
      in bind_panic (map_gigabytes (\<lambda>address. arm_kernel_block address BOOT_KERNEL_PERMISSIONS) [high]
             [unat current..<unat new_end] (page_tables mmu)) (\<lambda>m.
         let mmu = mmu\<lparr>page_tables := m\<rparr> in
         Inr (if current < new_end then arm_flush_local (mmu\<lparr>physmap_end_gb := new_end\<rparr>) else mmu)))"

definition arm_remove_identity_mapping :: "ArmStatics \<Rightarrow> 'r Mmu_scheme \<Rightarrow> 'r Mmu_scheme" where
  "arm_remove_identity_mapping st mmu =
     arm_flush_local
       (mmu\<lparr>page_tables := fill_table (arm_static_physical_address (low_table st)) (page_tables mmu)\<rparr>)"

section \<open>Translation and mapping\<close>

definition arm_translate :: "table_memory \<Rightarrow> PhysicalAddress \<Rightarrow> VirtualAddress \<Rightarrow> PhysicalAddress option" where
  "arm_translate m root address =
     (if \<not> arm_is_canonical address then None
      else
        (let entry = m root (arm_l1 address) in
         if \<not> arm_is_valid entry then None
         else if arm_is_block entry
         then Option.bind (arm_output_address entry) (\<lambda>output. checked_add output (address AND BLOCK_1G_MASK))
         else
           Option.bind (arm_output_address entry) (\<lambda>output.
           let entry = m (table_page arm_format output) (arm_l2 address) in
           if \<not> arm_is_valid entry then None
           else if arm_is_block entry
           then Option.bind (arm_output_address entry) (\<lambda>output. checked_add output (address AND BLOCK_2M_MASK))
           else
             Option.bind (arm_output_address entry) (\<lambda>output.
             let entry = m (table_page arm_format output) (arm_l3 address) in
             if arm_is_valid entry
             then Option.bind (arm_output_address entry) (\<lambda>output. checked_add output (page_offset address))
             else None))))"

definition arm_map_page ::
  "PhysicalAddress \<Rightarrow> VirtualAddress \<Rightarrow> PhysicalAddress \<Rightarrow> MappingPermissions \<Rightarrow> 'r Mmu_scheme \<Rightarrow>
   ((MapError + unit) \<times> 'r Mmu_scheme) panics" where
  "arm_map_page root virtual_address physical_address permissions mmu =
     (if \<not> is_page_aligned virtual_address \<or> \<not> is_page_aligned physical_address
      then Inr (Inl MapNotAligned, mmu)
      else if \<not> arm_is_canonical virtual_address then Inr (Inl MapNotCanonical, mmu)
      else
        bind_panic (next_table arm_format (page_tables mmu) root (arm_l1 virtual_address)) (\<lambda>r.
        case r of
          Inl v \<Rightarrow> Inr (Inl (map_conflict v), mmu)
        | Inr l2_table \<Rightarrow>
            bind_panic (next_table arm_format (page_tables mmu) l2_table (arm_l2 virtual_address)) (\<lambda>r.
            case r of
              Inl v \<Rightarrow> Inr (Inl (map_conflict v), mmu)
            | Inr l3_table \<Rightarrow>
                install_page arm_format arm_flush_address l3_table (arm_l3 virtual_address)
                  virtual_address physical_address permissions mmu)))"

definition arm_map_page_with_alloc ::
  "PhysicalAddress \<Rightarrow> VirtualAddress \<Rightarrow> PhysicalAddress \<Rightarrow> MappingPermissions \<Rightarrow>
   ('r mmu_memory \<Rightarrow> (VirtualAddress option \<times> 'r mmu_memory) panics) \<Rightarrow> 'r mmu_memory \<Rightarrow>
   ((MapError + unit) \<times> 'r mmu_memory) panics" where
  "arm_map_page_with_alloc root virtual_address physical_address permissions allocate_table s =
     (if \<not> is_page_aligned virtual_address \<or> \<not> is_page_aligned physical_address
      then Inr (Inl MapNotAligned, s)
      else if \<not> arm_is_canonical virtual_address then Inr (Inl MapNotCanonical, s)
      else
        try_bind (ensure_table arm_format allocate_table root (arm_l1 virtual_address) s) (\<lambda>l2_table s.
        try_bind (ensure_table arm_format allocate_table l2_table (arm_l2 virtual_address) s) (\<lambda>l3_table s.
        with_tables s (install_page arm_format arm_flush_address l3_table (arm_l3 virtual_address)
          virtual_address physical_address permissions (mem_tables s)))))"

definition arm_unmap_page ::
  "PhysicalAddress \<Rightarrow> VirtualAddress \<Rightarrow> 'r Mmu_scheme \<Rightarrow> ((UnmapError + PhysicalAddress) \<times> 'r Mmu_scheme) panics" where
  "arm_unmap_page root virtual_address mmu =
     (if \<not> arm_is_canonical virtual_address then Inr (Inl UnmapNotCanonical, mmu)
      else
        bind_panic (next_table arm_format (page_tables mmu) root (arm_l1 virtual_address)) (\<lambda>r.
        case r of
          Inl v \<Rightarrow> Inr (Inl (unmap_conflict v), mmu)
        | Inr l2_table \<Rightarrow>
            bind_panic (next_table arm_format (page_tables mmu) l2_table (arm_l2 virtual_address)) (\<lambda>r.
            case r of
              Inl v \<Rightarrow> Inr (Inl (unmap_conflict v), mmu)
            | Inr l3_table \<Rightarrow>
                remove_page arm_format arm_flush_address l3_table (arm_l3 virtual_address) virtual_address mmu)))"

definition arm_map_kernel_page_with_alloc ::
  "ArmStatics \<Rightarrow> VirtualAddress \<Rightarrow> PhysicalAddress \<Rightarrow> MappingPermissions \<Rightarrow>
   ('r mmu_memory \<Rightarrow> (VirtualAddress option \<times> 'r mmu_memory) panics) \<Rightarrow> 'r mmu_memory \<Rightarrow>
   ((MapError + unit) \<times> 'r mmu_memory) panics" where
  "arm_map_kernel_page_with_alloc st virtual_address physical_address permissions allocate_table s =
     arm_map_page_with_alloc (arm_static_physical_address (high_table st)) virtual_address physical_address
       permissions allocate_table s"

definition arm_unmap_kernel_page ::
  "ArmStatics \<Rightarrow> VirtualAddress \<Rightarrow> 'r Mmu_scheme \<Rightarrow> ((UnmapError + PhysicalAddress) \<times> 'r Mmu_scheme) panics" where
  "arm_unmap_kernel_page st virtual_address mmu =
     arm_unmap_page (arm_static_physical_address (high_table st)) virtual_address mmu"

text \<open>The functions of the hardware abstraction layer that the kernel stacks are given.\<close>

definition arm_map_kernel_stack_page ::
  "ArmStatics \<Rightarrow> VirtualAddress \<Rightarrow> PhysicalAddress \<Rightarrow> 'r mmu_memory \<Rightarrow> ((MapError + unit) \<times> 'r mmu_memory) panics" where
  "arm_map_kernel_stack_page st virtual_address physical_address s =
     arm_map_kernel_page_with_alloc st virtual_address physical_address KERNEL_READ_WRITE
       (allocate_page_table arm_format) s"

definition arm_unmap_kernel_stack_page ::
  "ArmStatics \<Rightarrow> VirtualAddress \<Rightarrow> 'r mmu_memory \<Rightarrow> ((UnmapError + PhysicalAddress) \<times> 'r mmu_memory) panics" where
  "arm_unmap_kernel_stack_page st virtual_address s =
     with_tables s (arm_unmap_kernel_page st virtual_address (mem_tables s))"

section \<open>Descriptor laws\<close>

lemma aligned_bits: "is_page_aligned a \<Longrightarrow> n < 12 \<Longrightarrow> \<not> bit a n"
proof -
  assume a: "is_page_aligned a" "n < 12"
  then have "take_bit 12 a = 0"
    by (simp add: is_page_aligned_def page_offset_def PAGE_MASK_mask take_bit_eq_mask)
  then show ?thesis
    using a(2) by (metis bit_0_eq bit_take_bit_iff bot_apply bot_bool_def)
qed

lemma below_bits:
  assumes "unat (a :: 'a::len word) < 2 ^ k" "k \<le> n"
  shows "\<not> bit a n"
proof -
  have "unat (take_bit k a) = unat a"
    using assms(1) by (simp add: unsigned_take_bit_eq take_bit_nat_eq_self)
  then have "take_bit k a = a"
    by (simp add: word_unat_eq_iff)
  then show ?thesis
    using assms(2) by (metis bit_take_bit_iff not_less)
qed

lemma ARM_ADDRESS_MASK_bit: "bit ARM_ADDRESS_MASK n \<longleftrightarrow> 12 \<le> n \<and> n < 48"
proof -
  have eq: "ARM_ADDRESS_MASK = mask 48 AND NOT (mask 12)"
    by (simp add: ARM_ADDRESS_MASK_def mask_eq_exp_minus_1)
  show ?thesis
    unfolding eq by (auto simp: bit_simps)
qed

lemma arm_address_kept:
  assumes "is_page_aligned a" "unat a < 2 ^ 48"
  shows "a AND ARM_ADDRESS_MASK = a"
proof (rule bit_eqI)
  fix n show "bit (a AND ARM_ADDRESS_MASK) n = bit a n"
    using aligned_bits [OF assms(1), of n] below_bits [OF assms(2), of n]
    by (cases "n < 12"; cases "n < 48") (auto simp: bit_and_iff ARM_ADDRESS_MASK_bit)
qed

lemmas arm_flag_defs = ARM_VALID_def ARM_TABLE_OR_PAGE_def ARM_USER_ACCESSIBLE_def ARM_READ_ONLY_def
  ARM_OUTER_SHAREABLE_def ARM_INNER_SHAREABLE_def ARM_ACCESSED_def ARM_NON_GLOBAL_def
  ARM_PRIVILEGED_EXECUTE_NEVER_def ARM_USER_EXECUTE_NEVER_def ARM_ATTRIBUTE_INDEX_SHIFT_def

lemma arm_flags_outside_address [simp]:
  "ARM_VALID AND ARM_ADDRESS_MASK = 0" "ARM_TABLE_OR_PAGE AND ARM_ADDRESS_MASK = 0"
  "ARM_USER_ACCESSIBLE AND ARM_ADDRESS_MASK = 0" "ARM_READ_ONLY AND ARM_ADDRESS_MASK = 0"
  "ARM_OUTER_SHAREABLE AND ARM_ADDRESS_MASK = 0" "ARM_INNER_SHAREABLE AND ARM_ADDRESS_MASK = 0"
  "ARM_ACCESSED AND ARM_ADDRESS_MASK = 0" "ARM_NON_GLOBAL AND ARM_ADDRESS_MASK = 0"
  "ARM_PRIVILEGED_EXECUTE_NEVER AND ARM_ADDRESS_MASK = 0" "ARM_USER_EXECUTE_NEVER AND ARM_ADDRESS_MASK = 0"
  "push_bit ARM_ATTRIBUTE_INDEX_SHIFT 3 AND ARM_ADDRESS_MASK = 0"
  by (simp_all add: arm_flag_defs ARM_ADDRESS_MASK_def push_bit_eq_mult)

lemma arm_valid_bit: "arm_is_valid e \<longleftrightarrow> bit e 0"
  by (simp add: arm_is_valid_def ARM_VALID_def and_one_eq odd_iff_mod_2_eq_one bit_0)

lemma arm_table_bit: "e AND ARM_TABLE_OR_PAGE \<noteq> 0 \<longleftrightarrow> bit e 1"
  using and_exp_eq_0_iff_not_bit [of e 1] by (simp add: ARM_TABLE_OR_PAGE_def push_bit_eq_mult)

lemma arm_permissions_mask:
  "arm_apply_permissions v permissions AND ARM_ADDRESS_MASK = v AND ARM_ADDRESS_MASK"
  by (simp add: arm_apply_permissions_def Let_def bit.conj_disj_distrib2)

lemma arm_permissions_keep: "bit v n \<Longrightarrow> bit (arm_apply_permissions v permissions) n"
  by (simp add: arm_apply_permissions_def Let_def bit_or_iff)

lemma arm_flags_kind [simp]:
  "\<not> bit ARM_VALID (Suc 0)" "bit ARM_TABLE_OR_PAGE (Suc 0)" "\<not> bit ARM_USER_ACCESSIBLE (Suc 0)" "\<not> bit ARM_READ_ONLY (Suc 0)"
  "\<not> bit ARM_OUTER_SHAREABLE (Suc 0)" "\<not> bit ARM_INNER_SHAREABLE (Suc 0)" "\<not> bit ARM_ACCESSED (Suc 0)" "\<not> bit ARM_NON_GLOBAL (Suc 0)"
  "\<not> bit ARM_PRIVILEGED_EXECUTE_NEVER (Suc 0)" "\<not> bit ARM_USER_EXECUTE_NEVER (Suc 0)"
  "\<not> bit (push_bit ARM_ATTRIBUTE_INDEX_SHIFT (3 :: u64)) (Suc 0)"
  by (simp_all add: arm_flag_defs bit_push_bit_iff)

lemma arm_permissions_kind: "bit (arm_apply_permissions v permissions) (Suc 0) \<longleftrightarrow> bit v (Suc 0)"
  by (simp add: arm_apply_permissions_def Let_def bit_or_iff)

lemma arm_mapping_outcome:
  assumes "is_page_aligned (intent_address intent)" "unat (intent_address intent) < 2 ^ 48"
  shows "\<exists>e. arm_mapping intent page = Inr e \<and> arm_is_valid e \<and>
    arm_output_address e = Some (intent_address intent) \<and> (bit e 1 \<longleftrightarrow> page)"
proof -
  let ?a = "intent_address intent"
  obtain e where e: "arm_mapping intent page = Inr e"
    using assms(1) by (auto simp: arm_mapping_def arm_aligned_output_address_def Let_def)
  have "e AND ARM_ADDRESS_MASK = ?a"
    using e assms arm_address_kept [OF assms]
    by (auto simp: arm_mapping_def arm_aligned_output_address_def Let_def arm_permissions_mask
        bit.conj_disj_distrib2 split: MemoryKind.splits)
  moreover have "bit e 0"
    using e assms(1)
    by (auto simp: arm_mapping_def arm_aligned_output_address_def Let_def bit_or_iff ARM_VALID_def
        bit_simps intro!: arm_permissions_keep)
  moreover have "bit e 1 \<longleftrightarrow> page"
    using e assms(1)
    by (cases page) (auto simp: arm_mapping_def arm_aligned_output_address_def Let_def bit_or_iff bit_and_iff
        arm_permissions_kind ARM_ADDRESS_MASK_bit split: MemoryKind.splits)
  ultimately show ?thesis
    using e by (simp add: arm_output_address_def arm_valid_bit)
qed

interpretation arm_pte: pte_format arm_format "2 ^ 48"
proof
  show "\<not> fmt_valid arm_format 0"
    by (simp add: arm_format_def arm_is_valid_def)
  show "fmt_table arm_format e \<Longrightarrow> fmt_valid arm_format e" for e
    by (simp add: arm_format_def arm_is_table_def)
  show "fmt_valid arm_format e \<Longrightarrow> \<exists>a. fmt_output arm_format e = Some a" for e
    by (simp add: arm_format_def arm_output_address_def)
  show "fmt_to_physical arm_format (fmt_to_virtual arm_format a) = a" for a
    by (simp add: arm_format_def arm_physical_to_virtual_def arm_virtual_to_physical_def)
next
  fix a :: PhysicalAddress assume a: "is_page_aligned a" "unat a < 2 ^ 48"
  let ?d = "ARM_VALID OR ARM_TABLE_OR_PAGE OR a"
  have "bit ?d 0" "bit ?d 1"
    by (simp_all add: bit_or_iff ARM_VALID_def ARM_TABLE_OR_PAGE_def bit_simps)
  then show "\<exists>d. fmt_make_table arm_format a = Some d \<and> fmt_table arm_format d \<and> fmt_output arm_format d = Some a"
    using a arm_address_kept [OF a]
    by (simp add: arm_format_def arm_table_def arm_aligned_output_address_def arm_is_table_def arm_table_bit
        arm_valid_bit arm_output_address_def bit.conj_disj_distrib2)
next
  fix a permissions intent
  assume a: "unat a < 2 ^ 48" "MappingIntent_new a Page4K NormalMemory permissions = Some intent"
  then have "intent_address intent = a" "intent_size intent = Page4K" "is_page_aligned a"
    by (auto simp: MappingIntent_new_def split: if_splits)
  then show "\<exists>e. fmt_from_mapping arm_format intent = Inr e \<and> fmt_valid arm_format e \<and> fmt_output arm_format e = Some a"
    using arm_mapping_outcome [of intent True] a(1) by (auto simp: arm_format_def arm_from_mapping_def)
qed

section \<open>The kernel address space\<close>

definition arm_levels :: "VirtualAddress \<Rightarrow> (nat \<times> usize) list" where
  "arm_levels a = [(arm_l1 a, BLOCK_1G_MASK), (arm_l2 a, BLOCK_2M_MASK), (arm_l3 a, PAGE_MASK)]"

definition arm_kernel_address :: "VirtualAddress \<Rightarrow> bool" where
  "arm_kernel_address a \<longleftrightarrow> ARM_KERNEL_VIRTUAL_BASE \<le> a"

lemma arm_index_nat:
  "arm_l1 a = unat a div 2 ^ 30 mod 512" "arm_l2 a = unat a div 2 ^ 21 mod 512" "arm_l3 a = unat a div 2 ^ 12 mod 512"
  by (simp_all only: arm_l1_def arm_l2_def arm_l3_def unat_index)

lemma arm_kernel_upper: "arm_kernel_address a \<Longrightarrow> unat a div 2 ^ 39 = 2 ^ 25 - 1"
  using unat_bound64 [of a] by (auto simp: arm_kernel_address_def ARM_KERNEL_VIRTUAL_BASE_def word_le_nat_alt)

lemma arm_flush_only: "flush_only arm_flush_address"
  unfolding flush_only_def arm_flush_address_def by blast

interpretation arm_space: paged_space arm_format "2 ^ 48" arm_levels 3 arm_kernel_address arm_flush_address
proof
  show "in_range (map fst (arm_levels a))" for a
    by (simp add: arm_levels_def arm_index_nat ENTRIES_PER_PAGE_TABLE_def)
  show "map fst (arm_levels a) = map fst (arm_levels b) \<longleftrightarrow> align_down a = align_down b"
    if "arm_kernel_address a" "arm_kernel_address b" for a b
    using page_number_digits(1) [of "unat a" "unat b"] arm_kernel_upper that
    by (simp add: arm_levels_def arm_index_nat word_unat_eq_iff [of "align_down a"] unat_align_down)
qed (simp_all add: arm_levels_def arm_flush_only)

lemma arm_paths: "arm_space.path_of a = [arm_l1 a, arm_l2 a]" "arm_space.leaf_of a = arm_l3 a"
  by (simp_all add: arm_space.path_of_def arm_space.leaf_of_def arm_levels_def)

lemma arm_kernel_canonical: "arm_kernel_address a \<Longrightarrow> arm_is_canonical a"
  by (simp add: arm_kernel_address_def arm_is_canonical_def)

text \<open>The unrolled walks follow the reference definitions.\<close>

lemma arm_translate_resolve:
  "arm_translate m root a = (if arm_is_canonical a then resolve arm_format m root (arm_levels a) a else None)"
proof -
  have v: "fmt_valid arm_format = arm_is_valid" "fmt_output arm_format = arm_output_address"
      "fmt_table arm_format = arm_is_table"
    by (simp_all add: arm_format_def)
  have b: "arm_is_block e \<longleftrightarrow> arm_is_valid e \<and> \<not> arm_is_table e" for e
    by (auto simp: arm_is_block_def arm_is_table_def)
  show ?thesis
    by (auto simp: arm_translate_def arm_levels_def v b Let_def page_offset_def split: Option.bind_split)
qed

lemma arm_map_with_alloc_path:
  assumes "arm_is_canonical va" "is_page_aligned va" "is_page_aligned pa"
  shows "arm_map_page_with_alloc root va pa perms allocate s =
    map_path arm_format allocate arm_flush_address root [arm_l1 va, arm_l2 va] (arm_l3 va) va pa perms s"
  using assms by (simp add: arm_map_page_with_alloc_def map_path_def try_bind_assoc)

lemma arm_map_path:
  assumes "arm_is_canonical va" "is_page_aligned va" "is_page_aligned pa"
  shows "arm_map_page root va pa perms mmu =
    map_present_path arm_format arm_flush_address root [arm_l1 va, arm_l2 va] (arm_l3 va) va pa perms mmu"
  using assms by (auto simp: arm_map_page_def map_present_path_def next_table_def Let_def bind_panic_def split: sum.split)

lemma arm_unmap_path:
  assumes "arm_is_canonical va"
  shows "arm_unmap_page root va mmu =
    unmap_path arm_format arm_flush_address root [arm_l1 va, arm_l2 va] (arm_l3 va) va mmu"
  using assms by (auto simp: arm_unmap_page_def unmap_path_def next_table_def Let_def bind_panic_def split: sum.split)

abbreviation arm_root :: "ArmStatics \<Rightarrow> PhysicalAddress" where
  "arm_root st \<equiv> arm_static_physical_address (high_table st)"

interpretation arm_mapper: page_mapper "memory_ok arm_format (2 ^ 48) 3 (arm_root st)" arm_kernel_address "2 ^ 48"
  "\<lambda>mmu a. resolve arm_format (page_tables mmu) (arm_root st) (arm_levels a) a"
  "\<lambda>mmu. tables_of arm_format 3 (page_tables mmu) (arm_root st)"
  "\<lambda>mmu a. reach arm_format (page_tables mmu) (arm_root st) (arm_space.path_of a) \<noteq> None"
  "arm_map_kernel_stack_page st" "arm_unmap_kernel_stack_page st" for st
  by (rule arm_space.mapper [where perms = KERNEL_READ_WRITE])
    (simp_all add: arm_map_kernel_stack_page_def arm_map_kernel_page_with_alloc_def arm_map_with_alloc_path
      arm_unmap_kernel_stack_page_def arm_unmap_kernel_page_def arm_unmap_path arm_kernel_canonical arm_paths)

end
