(* ===== verification/Riscv_Mmu.thy ===== *)
theory Riscv_Mmu
  imports Boot_Tables
begin

text \<open>
  \<open>arch/riscv64/mmu.rs\<close>: page table entries, the boot tables, translation, mapping and unmapping
  with Sv48 (48-bit addresses, four levels of tables), and the fences of the translation lookaside
  buffer. The addresses of the three static tables are link-time constants and parameters.
\<close>

unbundle bit_operations_syntax

section \<open>Constants\<close>

definition RV_KERNEL_VIRTUAL_BASE :: usize where
  "RV_KERNEL_VIRTUAL_BASE = 0xffff800000000000"

definition RV_KERNEL_PHYSICAL_LOAD :: usize where
  "RV_KERNEL_PHYSICAL_LOAD = 0x80200000"

definition RV_PAGE_SHIFT :: nat where
  "RV_PAGE_SHIFT = 12"

definition GIGAPAGE_MASK :: usize where
  "GIGAPAGE_MASK = GIGABYTE - 1"

definition MEGAPAGE :: usize where
  "MEGAPAGE = push_bit 21 1"

definition MEGAPAGE_MASK :: usize where
  "MEGAPAGE_MASK = MEGAPAGE - 1"

definition LOWER_CANONICAL_LIMIT :: usize where
  "LOWER_CANONICAL_LIMIT = push_bit 47 1"

definition KERNEL_VPN3 :: nat where
  "KERNEL_VPN3 = unat (drop_bit 39 RV_KERNEL_VIRTUAL_BASE AND 0x1ff)"

definition MAX_BOOT_GIGAPAGES :: nat where
  "MAX_BOOT_GIGAPAGES = ENTRIES_PER_PAGE_TABLE"

definition RV_KERNEL_STACK_REGION_OFFSET :: usize where
  "RV_KERNEL_STACK_REGION_OFFSET = (of_nat ENTRIES_PER_PAGE_TABLE - 1) * GIGABYTE"

definition RV_VALID :: u64 where "RV_VALID = push_bit 0 1"
definition RV_READABLE :: u64 where "RV_READABLE = push_bit 1 1"
definition RV_WRITABLE :: u64 where "RV_WRITABLE = push_bit 2 1"
definition RV_EXECUTABLE :: u64 where "RV_EXECUTABLE = push_bit 3 1"
definition RV_USER :: u64 where "RV_USER = push_bit 4 1"
definition RV_GLOBAL :: u64 where "RV_GLOBAL = push_bit 5 1"
definition RV_ACCESSED :: u64 where "RV_ACCESSED = push_bit 6 1"
definition RV_DIRTY :: u64 where "RV_DIRTY = push_bit 7 1"
definition PHYSICAL_PAGE_NUMBER_SHIFT :: nat where "PHYSICAL_PAGE_NUMBER_SHIFT = 10"

section \<open>Page table entries\<close>

definition rv_is_valid :: "u64 \<Rightarrow> bool" where
  "rv_is_valid e \<longleftrightarrow> e AND RV_VALID \<noteq> 0"

definition rv_is_leaf :: "u64 \<Rightarrow> bool" where
  "rv_is_leaf e \<longleftrightarrow> e AND (RV_READABLE OR RV_WRITABLE OR RV_EXECUTABLE) \<noteq> 0"

definition rv_is_branch :: "u64 \<Rightarrow> bool" where
  "rv_is_branch e \<longleftrightarrow> rv_is_valid e \<and> \<not> rv_is_leaf e"

definition rv_output_address :: "u64 \<Rightarrow> PhysicalAddress option" where
  "rv_output_address e =
     (if rv_is_valid e then Some (push_bit RV_PAGE_SHIFT (drop_bit PHYSICAL_PAGE_NUMBER_SHIFT e)) else None)"

definition physical_page_number :: "PhysicalAddress \<Rightarrow> u64 option" where
  "physical_page_number address =
     (if is_page_aligned address
      then Some (push_bit PHYSICAL_PAGE_NUMBER_SHIFT (drop_bit RV_PAGE_SHIFT address)) else None)"

definition rv_branch :: "PhysicalAddress \<Rightarrow> u64 option" where
  "rv_branch t = map_option (\<lambda>number. RV_VALID OR number) (physical_page_number t)"

definition rv_apply_permissions :: "u64 \<Rightarrow> MappingPermissions \<Rightarrow> u64" where
  "rv_apply_permissions v permissions =
     (let v = (if writable permissions then v OR (RV_WRITABLE OR RV_DIRTY) else v);
          v = (if executable permissions then v OR RV_EXECUTABLE else v)
      in if user_accessible permissions then v OR RV_USER else v OR RV_GLOBAL)"

definition rv_from_mapping :: "MappingIntent \<Rightarrow> u64 panics" where
  "rv_from_mapping intent =
     bind_panic (expect ''validated mapping'' (physical_page_number (intent_address intent))) (\<lambda>number.
     Inr (rv_apply_permissions (RV_VALID OR RV_READABLE OR RV_ACCESSED OR number) (intent_permissions intent)))"

section \<open>Addresses\<close>

definition rv_physical_to_virtual :: "PhysicalAddress \<Rightarrow> VirtualAddress" where
  "rv_physical_to_virtual address = address + RV_KERNEL_VIRTUAL_BASE"

definition rv_virtual_to_physical :: "VirtualAddress \<Rightarrow> PhysicalAddress" where
  "rv_virtual_to_physical address = address - RV_KERNEL_VIRTUAL_BASE"

definition rv_kernel_stack_region_base :: VirtualAddress where
  "rv_kernel_stack_region_base = RV_KERNEL_VIRTUAL_BASE + RV_KERNEL_STACK_REGION_OFFSET"

definition rv_is_canonical :: "VirtualAddress \<Rightarrow> bool" where
  "rv_is_canonical address \<longleftrightarrow> address < LOWER_CANONICAL_LIMIT \<or> RV_KERNEL_VIRTUAL_BASE \<le> address"

definition rv_static_physical_address :: "usize \<Rightarrow> PhysicalAddress" where
  "rv_static_physical_address raw =
     (if RV_KERNEL_VIRTUAL_BASE \<le> raw then rv_virtual_to_physical raw else raw)"

definition rv_format :: PteFormat where
  "rv_format =
     \<lparr>fmt_valid = rv_is_valid, fmt_table = rv_is_branch, fmt_output = rv_output_address,
      fmt_make_table = rv_branch, fmt_from_mapping = rv_from_mapping,
      fmt_to_virtual = rv_physical_to_virtual, fmt_to_physical = rv_virtual_to_physical\<rparr>"

definition vpn3 :: "VirtualAddress \<Rightarrow> nat" where
  "vpn3 address = unat (drop_bit 39 address AND 0x1ff)"

definition vpn2 :: "VirtualAddress \<Rightarrow> nat" where
  "vpn2 address = unat (drop_bit 30 address AND 0x1ff)"

definition vpn1 :: "VirtualAddress \<Rightarrow> nat" where
  "vpn1 address = unat (drop_bit 21 address AND 0x1ff)"

definition vpn0 :: "VirtualAddress \<Rightarrow> nat" where
  "vpn0 address = unat (drop_bit 12 address AND 0x1ff)"

section \<open>The translation lookaside buffer\<close>

text \<open>
  With the zero register as second operand, \<open>sfence.vma\<close> drops the translations of every address
  space: all of them when the first operand is the zero register too, and those of one page when it
  holds an address. That is the privileged specification, which exempts global entries only when the
  second operand names an address space. The note at \<open>flush_address\<close> expects the address form to be
  allowed to leave global entries cached even so; what would follow is \<open>rv_skipping_fence_stale\<close> in
  \<open>Riscv_Address_Space\<close>.
\<close>

definition rv_flush_all :: "'r Mmu_scheme \<Rightarrow> 'r Mmu_scheme" where
  "rv_flush_all mmu = mmu\<lparr>tlb := {}\<rparr>"

definition sfence_vma :: "VirtualAddress \<Rightarrow> (VirtualAddress \<times> PhysicalAddress) set \<Rightarrow> (VirtualAddress \<times> PhysicalAddress) set" where
  "sfence_vma address cached = Set.filter (\<lambda>(page, _). drop_bit 12 page \<noteq> drop_bit 12 address) cached"

definition rv_flush_address :: "VirtualAddress \<Rightarrow> 'r Mmu_scheme \<Rightarrow> 'r Mmu_scheme" where
  "rv_flush_address address mmu = mmu\<lparr>tlb := sfence_vma address (tlb mmu)\<rparr>"

section \<open>Boot\<close>

record RiscvMmu = Mmu +
  satp :: u64

text \<open>The addresses of \<open>ROOT_TABLE\<close>, \<open>IDENTITY_L2_TABLE\<close> and \<open>PHYSMAP_L2_TABLE\<close> as the running code sees them.\<close>

record RiscvStatics =
  root_table :: usize
  identity_l2_table :: usize
  physmap_l2_table :: usize

definition MODE_SV48 :: u64 where
  "MODE_SV48 = 9"

definition sv48 :: "PhysicalAddress \<Rightarrow> u16 \<Rightarrow> u64" where
  "sv48 root asid = push_bit 60 MODE_SV48 OR push_bit 44 (ucast asid) OR drop_bit RV_PAGE_SHIFT root"

definition write_satp :: "u64 \<Rightarrow> RiscvMmu \<Rightarrow> RiscvMmu" where
  "write_satp v mmu = mmu\<lparr>satp := v\<rparr>"

definition rv_validate_boot_range :: "usize \<Rightarrow> usize \<Rightarrow> unit panics" where
  "rv_validate_boot_range start_gb end_gb =
     (if end_gb < start_gb \<or> of_nat MAX_BOOT_GIGAPAGES < end_gb
      then Inl ''mmu: boot physical range exceeds RISC-V boot page table'' else Inr ())"

definition kernel_leaf :: "PhysicalAddress \<Rightarrow> bool \<Rightarrow> u64 panics" where
  "kernel_leaf address can_execute =
     bind_panic (expect ''boot gigapage is aligned''
         (MappingIntent_new address Block1G NormalMemory
            \<lparr>writable = True, executable = can_execute, user_accessible = False\<rparr>))
       rv_from_mapping"

definition rv_init :: "RiscvStatics \<Rightarrow> PhysicalAddress \<Rightarrow> PhysicalAddress \<Rightarrow> RiscvMmu \<Rightarrow> RiscvMmu panics" where
  "rv_init st kernel_load dtb mmu =
     (let (start_gb, end_gb) = boot_range kernel_load dtb;
          root = rv_static_physical_address (root_table st);
          identity = rv_static_physical_address (identity_l2_table st);
          physmap = rv_static_physical_address (physmap_l2_table st)
      in bind_panic (rv_validate_boot_range start_gb end_gb) (\<lambda>_.
         let m = fill_table physmap (fill_table identity (fill_table root (page_tables mmu))) in
         bind_panic (kernel_leaf 0 False) (\<lambda>leaf.
         bind_panic (store_all [identity, physmap] 0 leaf m) (\<lambda>m.
         bind_panic (map_gigabytes (\<lambda>address. kernel_leaf address True) [identity, physmap]
             [unat start_gb..<unat end_gb] m) (\<lambda>m.
         bind_panic (expect ''identity table is page aligned'' (rv_branch identity)) (\<lambda>identity_branch.
         bind_panic (store_entry root 0 identity_branch m) (\<lambda>m.
         bind_panic (expect ''physmap table is page aligned'' (rv_branch physmap)) (\<lambda>physmap_branch.
         bind_panic (store_entry root KERNEL_VPN3 physmap_branch m) (\<lambda>m.
         let mmu = mmu\<lparr>page_tables := m, physmap_end_gb := end_gb\<rparr>
         in Inr (rv_flush_all (write_satp (sv48 root 0) mmu)))))))))))"

definition rv_expand_physmap :: "RiscvStatics \<Rightarrow> PhysicalAddress \<Rightarrow> 'r Mmu_scheme \<Rightarrow> 'r Mmu_scheme panics" where
  "rv_expand_physmap st max_end mmu =
     (let new_end = min (div_ceil max_end GIGABYTE) MAX_PHYSMAP_ENTRIES;
          current = physmap_end_gb mmu;
          physmap = rv_static_physical_address (physmap_l2_table st)
      in bind_panic (map_gigabytes (\<lambda>address. kernel_leaf address True) [physmap]
             [unat current..<unat new_end] (page_tables mmu)) (\<lambda>m.
         let mmu = mmu\<lparr>page_tables := m\<rparr> in
         Inr (if current < new_end then rv_flush_all (mmu\<lparr>physmap_end_gb := new_end\<rparr>) else mmu)))"

definition rv_remove_identity_mapping :: "RiscvStatics \<Rightarrow> 'r Mmu_scheme \<Rightarrow> 'r Mmu_scheme" where
  "rv_remove_identity_mapping st mmu =
     rv_flush_all
       (mmu\<lparr>page_tables := write_entry (rv_static_physical_address (root_table st)) 0 0 (page_tables mmu)\<rparr>)"

section \<open>Translation and mapping\<close>

definition rv_translate :: "table_memory \<Rightarrow> PhysicalAddress \<Rightarrow> VirtualAddress \<Rightarrow> PhysicalAddress option" where
  "rv_translate m root address =
     (if \<not> rv_is_canonical address then None
      else
        (let entry = m root (vpn3 address) in
         if \<not> rv_is_valid entry then None
         else if rv_is_leaf entry
         then Option.bind (rv_output_address entry) (\<lambda>output. checked_add output (address AND (push_bit 39 1 - 1)))
         else
           Option.bind (rv_output_address entry) (\<lambda>output.
           let entry = m (table_page rv_format output) (vpn2 address) in
           if \<not> rv_is_valid entry then None
           else if rv_is_leaf entry
           then Option.bind (rv_output_address entry) (\<lambda>output. checked_add output (address AND GIGAPAGE_MASK))
           else
             Option.bind (rv_output_address entry) (\<lambda>output.
             let entry = m (table_page rv_format output) (vpn1 address) in
             if \<not> rv_is_valid entry then None
             else if rv_is_leaf entry
             then Option.bind (rv_output_address entry) (\<lambda>output. checked_add output (address AND MEGAPAGE_MASK))
             else
               Option.bind (rv_output_address entry) (\<lambda>output.
               let entry = m (table_page rv_format output) (vpn0 address) in
               if rv_is_valid entry
               then Option.bind (rv_output_address entry) (\<lambda>output. checked_add output (page_offset address))
               else None)))))"

definition rv_map_page ::
  "PhysicalAddress \<Rightarrow> VirtualAddress \<Rightarrow> PhysicalAddress \<Rightarrow> MappingPermissions \<Rightarrow> 'r Mmu_scheme \<Rightarrow>
   ((MapError + unit) \<times> 'r Mmu_scheme) panics" where
  "rv_map_page root virtual_address physical_address permissions mmu =
     (if \<not> is_page_aligned virtual_address \<or> \<not> is_page_aligned physical_address
      then Inr (Inl MapNotAligned, mmu)
      else if \<not> rv_is_canonical virtual_address then Inr (Inl MapNotCanonical, mmu)
      else
        bind_panic (next_table rv_format (page_tables mmu) root (vpn3 virtual_address)) (\<lambda>r.
        case r of
          Inl v \<Rightarrow> Inr (Inl (map_conflict v), mmu)
        | Inr l2_table \<Rightarrow>
            bind_panic (next_table rv_format (page_tables mmu) l2_table (vpn2 virtual_address)) (\<lambda>r.
            case r of
              Inl v \<Rightarrow> Inr (Inl (map_conflict v), mmu)
            | Inr l1_table \<Rightarrow>
                bind_panic (next_table rv_format (page_tables mmu) l1_table (vpn1 virtual_address)) (\<lambda>r.
                case r of
                  Inl v \<Rightarrow> Inr (Inl (map_conflict v), mmu)
                | Inr l0_table \<Rightarrow>
                    install_page rv_format rv_flush_address l0_table (vpn0 virtual_address)
                      virtual_address physical_address permissions mmu))))"

definition rv_map_page_with_alloc ::
  "PhysicalAddress \<Rightarrow> VirtualAddress \<Rightarrow> PhysicalAddress \<Rightarrow> MappingPermissions \<Rightarrow>
   ('r mmu_memory \<Rightarrow> (VirtualAddress option \<times> 'r mmu_memory) panics) \<Rightarrow> 'r mmu_memory \<Rightarrow>
   ((MapError + unit) \<times> 'r mmu_memory) panics" where
  "rv_map_page_with_alloc root virtual_address physical_address permissions allocate_table s =
     (if \<not> is_page_aligned virtual_address \<or> \<not> is_page_aligned physical_address
      then Inr (Inl MapNotAligned, s)
      else if \<not> rv_is_canonical virtual_address then Inr (Inl MapNotCanonical, s)
      else
        try_bind (ensure_table rv_format allocate_table root (vpn3 virtual_address) s) (\<lambda>l2_table s.
        try_bind (ensure_table rv_format allocate_table l2_table (vpn2 virtual_address) s) (\<lambda>l1_table s.
        try_bind (ensure_table rv_format allocate_table l1_table (vpn1 virtual_address) s) (\<lambda>l0_table s.
        with_tables s (install_page rv_format rv_flush_address l0_table (vpn0 virtual_address)
          virtual_address physical_address permissions (mem_tables s))))))"

definition rv_unmap_page ::
  "PhysicalAddress \<Rightarrow> VirtualAddress \<Rightarrow> 'r Mmu_scheme \<Rightarrow> ((UnmapError + PhysicalAddress) \<times> 'r Mmu_scheme) panics" where
  "rv_unmap_page root virtual_address mmu =
     (if \<not> rv_is_canonical virtual_address then Inr (Inl UnmapNotCanonical, mmu)
      else
        bind_panic (next_table rv_format (page_tables mmu) root (vpn3 virtual_address)) (\<lambda>r.
        case r of
          Inl v \<Rightarrow> Inr (Inl (unmap_conflict v), mmu)
        | Inr l2_table \<Rightarrow>
            bind_panic (next_table rv_format (page_tables mmu) l2_table (vpn2 virtual_address)) (\<lambda>r.
            case r of
              Inl v \<Rightarrow> Inr (Inl (unmap_conflict v), mmu)
            | Inr l1_table \<Rightarrow>
                bind_panic (next_table rv_format (page_tables mmu) l1_table (vpn1 virtual_address)) (\<lambda>r.
                case r of
                  Inl v \<Rightarrow> Inr (Inl (unmap_conflict v), mmu)
                | Inr l0_table \<Rightarrow>
                    remove_page rv_format rv_flush_address l0_table (vpn0 virtual_address) virtual_address mmu))))"

definition rv_map_kernel_page_with_alloc ::
  "RiscvStatics \<Rightarrow> VirtualAddress \<Rightarrow> PhysicalAddress \<Rightarrow> MappingPermissions \<Rightarrow>
   ('r mmu_memory \<Rightarrow> (VirtualAddress option \<times> 'r mmu_memory) panics) \<Rightarrow> 'r mmu_memory \<Rightarrow>
   ((MapError + unit) \<times> 'r mmu_memory) panics" where
  "rv_map_kernel_page_with_alloc st virtual_address physical_address permissions allocate_table s =
     rv_map_page_with_alloc (rv_static_physical_address (root_table st)) virtual_address physical_address
       permissions allocate_table s"

definition rv_unmap_kernel_page ::
  "RiscvStatics \<Rightarrow> VirtualAddress \<Rightarrow> 'r Mmu_scheme \<Rightarrow> ((UnmapError + PhysicalAddress) \<times> 'r Mmu_scheme) panics" where
  "rv_unmap_kernel_page st virtual_address mmu =
     rv_unmap_page (rv_static_physical_address (root_table st)) virtual_address mmu"

text \<open>The functions of the hardware abstraction layer that the kernel stacks are given.\<close>

definition rv_map_kernel_stack_page ::
  "RiscvStatics \<Rightarrow> VirtualAddress \<Rightarrow> PhysicalAddress \<Rightarrow> 'r mmu_memory \<Rightarrow> ((MapError + unit) \<times> 'r mmu_memory) panics" where
  "rv_map_kernel_stack_page st virtual_address physical_address s =
     rv_map_kernel_page_with_alloc st virtual_address physical_address KERNEL_READ_WRITE
       (allocate_page_table rv_format) s"

definition rv_unmap_kernel_stack_page ::
  "RiscvStatics \<Rightarrow> VirtualAddress \<Rightarrow> 'r mmu_memory \<Rightarrow> ((UnmapError + PhysicalAddress) \<times> 'r mmu_memory) panics" where
  "rv_unmap_kernel_stack_page st virtual_address s =
     with_tables s (rv_unmap_kernel_page st virtual_address (mem_tables s))"

section \<open>Entry laws\<close>

lemmas rv_flag_defs = RV_VALID_def RV_READABLE_def RV_WRITABLE_def RV_EXECUTABLE_def RV_USER_def RV_GLOBAL_def
  RV_ACCESSED_def RV_DIRTY_def

lemma rv_valid_bit: "rv_is_valid e \<longleftrightarrow> bit e 0"
  by (simp add: rv_is_valid_def RV_VALID_def and_one_eq odd_iff_mod_2_eq_one bit_0)

lemma rv_flags_low:
  "drop_bit 10 RV_VALID = 0" "drop_bit 10 RV_READABLE = 0" "drop_bit 10 RV_WRITABLE = 0" "drop_bit 10 RV_EXECUTABLE = 0"
  "drop_bit 10 RV_USER = 0" "drop_bit 10 RV_GLOBAL = 0" "drop_bit 10 RV_ACCESSED = 0" "drop_bit 10 RV_DIRTY = 0"
  by (simp_all add: rv_flag_defs push_bit_eq_mult drop_bit_eq_div)

lemma rv_number_address:
  assumes "physical_page_number a = Some n"
  shows "push_bit 12 (drop_bit 10 n) = a" "is_page_aligned a" "\<And>k. k < 10 \<Longrightarrow> \<not> bit n k"
proof -
  have al: "is_page_aligned a" and n: "n = push_bit 10 (drop_bit 12 a)"
    using assms by (auto simp: physical_page_number_def PHYSICAL_PAGE_NUMBER_SHIFT_def RV_PAGE_SHIFT_def split: if_splits)
  have z: "\<not> bit a k" if "k < 12" for k
  proof -
    have "take_bit 12 a = 0"
      using al by (simp add: is_page_aligned_def page_offset_def PAGE_MASK_mask take_bit_eq_mask)
    then show ?thesis
      using that by (metis bit_0_eq bit_take_bit_iff bot_apply bot_bool_def)
  qed
  show "push_bit 12 (drop_bit 10 n) = a"
  proof (rule bit_eqI)
    fix k show "bit (push_bit 12 (drop_bit 10 n)) k = bit a k"
      using z [of k] by (cases "k < 12") (auto simp: n bit_push_bit_iff bit_drop_bit_eq dest: bit_imp_le_length)
  qed
  show "is_page_aligned a" "\<And>k. k < 10 \<Longrightarrow> \<not> bit n k"
    using al by (simp_all add: n bit_push_bit_iff)
qed

lemma rv_leaf_bits: "rv_is_leaf e \<longleftrightarrow> bit e 1 \<or> bit e 2 \<or> bit e 3"
proof -
  have f: "RV_READABLE = 2 ^ 1" "RV_WRITABLE = 2 ^ 2" "RV_EXECUTABLE = 2 ^ 3"
    by (simp_all add: rv_flag_defs push_bit_eq_mult)
  show ?thesis
    unfolding rv_is_leaf_def f bit.conj_disj_distrib or_eq_0_iff and_exp_eq_0_iff_not_bit by blast
qed

lemma rv_mapping_outcome:
  assumes "is_page_aligned (intent_address intent)"
  shows "\<exists>e. rv_from_mapping intent = Inr e \<and> rv_is_valid e \<and> rv_is_leaf e \<and> rv_output_address e = Some (intent_address intent)"
proof -
  obtain n where n: "physical_page_number (intent_address intent) = Some n"
    using assms by (simp add: physical_page_number_def)
  let ?e = "rv_apply_permissions (RV_VALID OR RV_READABLE OR RV_ACCESSED OR n) (intent_permissions intent)"
  have "bit ?e 0" "bit ?e 1"
    by (simp_all add: rv_apply_permissions_def Let_def bit_or_iff rv_flag_defs bit_push_bit_iff)
  moreover have "drop_bit 10 ?e = drop_bit 10 n"
    by (simp add: rv_apply_permissions_def Let_def drop_bit_or rv_flags_low)
  ultimately show ?thesis
    using n rv_number_address(1) [OF n]
    by (simp add: rv_from_mapping_def rv_valid_bit rv_leaf_bits rv_output_address_def RV_PAGE_SHIFT_def PHYSICAL_PAGE_NUMBER_SHIFT_def)
qed

lemma rv_branch_outcome:
  assumes "is_page_aligned a"
  shows "\<exists>d. rv_branch a = Some d \<and> rv_is_branch d \<and> rv_output_address d = Some a"
proof -
  obtain n where n: "physical_page_number a = Some n"
    using assms by (simp add: physical_page_number_def)
  have "bit (RV_VALID OR n) 0" "\<not> bit (RV_VALID OR n) 1" "\<not> bit (RV_VALID OR n) 2" "\<not> bit (RV_VALID OR n) 3"
    using rv_number_address(3) [OF n] by (simp_all add: bit_or_iff RV_VALID_def bit_push_bit_iff bit_1_iff)
  moreover have "drop_bit 10 (RV_VALID OR n) = drop_bit 10 n"
    by (simp add: drop_bit_or rv_flags_low)
  ultimately show ?thesis
    using rv_number_address(1) [OF n]
    by (simp add: rv_branch_def n rv_is_branch_def rv_valid_bit rv_leaf_bits rv_output_address_def
        RV_PAGE_SHIFT_def PHYSICAL_PAGE_NUMBER_SHIFT_def)
qed

interpretation rv_pte: pte_format rv_format "2 ^ 64"
proof
  show "\<not> fmt_valid rv_format 0"
    by (simp add: rv_format_def rv_is_valid_def)
  show "fmt_table rv_format e \<Longrightarrow> fmt_valid rv_format e" for e
    by (simp add: rv_format_def rv_is_branch_def)
  show "fmt_valid rv_format e \<Longrightarrow> \<exists>a. fmt_output rv_format e = Some a" for e
    by (simp add: rv_format_def rv_output_address_def)
  show "fmt_to_physical rv_format (fmt_to_virtual rv_format a) = a" for a
    by (simp add: rv_format_def rv_physical_to_virtual_def rv_virtual_to_physical_def)
  show "\<exists>d. fmt_make_table rv_format a = Some d \<and> fmt_table rv_format d \<and> fmt_output rv_format d = Some a"
    if "is_page_aligned a" for a
    using rv_branch_outcome [OF that] by (simp add: rv_format_def)
  show "\<exists>e. fmt_from_mapping rv_format intent = Inr e \<and> fmt_valid rv_format e \<and> fmt_output rv_format e = Some a"
    if "MappingIntent_new a Page4K NormalMemory permissions = Some intent" for a permissions intent
  proof -
    have "intent_address intent = a" "is_page_aligned a"
      using that by (auto simp: MappingIntent_new_def split: if_splits)
    then show ?thesis
      using rv_mapping_outcome [of intent] by (auto simp: rv_format_def)
  qed
qed

section \<open>The kernel address space\<close>

definition rv_levels :: "VirtualAddress \<Rightarrow> (nat \<times> usize) list" where
  "rv_levels a = [(vpn3 a, push_bit 39 1 - 1), (vpn2 a, GIGAPAGE_MASK), (vpn1 a, MEGAPAGE_MASK), (vpn0 a, PAGE_MASK)]"

definition rv_kernel_address :: "VirtualAddress \<Rightarrow> bool" where
  "rv_kernel_address a \<longleftrightarrow> RV_KERNEL_VIRTUAL_BASE \<le> a"

lemma rv_index_nat:
  "vpn3 a = unat a div 2 ^ 39 mod 512" "vpn2 a = unat a div 2 ^ 30 mod 512"
  "vpn1 a = unat a div 2 ^ 21 mod 512" "vpn0 a = unat a div 2 ^ 12 mod 512"
  by (simp_all only: vpn3_def vpn2_def vpn1_def vpn0_def unat_index)

lemma rv_kernel_upper: "rv_kernel_address a \<Longrightarrow> unat a div 2 ^ 48 = 2 ^ 16 - 1"
  using unat_bound64 [of a] by (auto simp: rv_kernel_address_def RV_KERNEL_VIRTUAL_BASE_def word_le_nat_alt)

lemma rv_flush_only: "flush_only rv_flush_address"
  unfolding flush_only_def rv_flush_address_def by blast

interpretation rv_space: paged_space rv_format "2 ^ 64" rv_levels 4 rv_kernel_address rv_flush_address
proof
  show "in_range (map fst (rv_levels a))" for a
    by (simp add: rv_levels_def rv_index_nat ENTRIES_PER_PAGE_TABLE_def)
  show "map fst (rv_levels a) = map fst (rv_levels b) \<longleftrightarrow> align_down a = align_down b"
    if "rv_kernel_address a" "rv_kernel_address b" for a b
    using page_number_digits [of "unat a" "unat b"] page_number_upper [of "unat a" "unat b"] rv_kernel_upper that
    by (auto simp: rv_levels_def rv_index_nat word_unat_eq_iff [of "align_down a"] unat_align_down)
qed (simp_all add: rv_levels_def rv_flush_only)

lemma rv_paths: "rv_space.path_of a = [vpn3 a, vpn2 a, vpn1 a]" "rv_space.leaf_of a = vpn0 a"
  by (simp_all add: rv_space.path_of_def rv_space.leaf_of_def rv_levels_def)

lemma rv_kernel_canonical: "rv_kernel_address a \<Longrightarrow> rv_is_canonical a"
  by (simp add: rv_kernel_address_def rv_is_canonical_def)

text \<open>The unrolled walks follow the reference definitions.\<close>

lemma rv_translate_resolve:
  "rv_translate m root a = (if rv_is_canonical a then resolve rv_format m root (rv_levels a) a else None)"
proof -
  have v: "fmt_valid rv_format = rv_is_valid" "fmt_output rv_format = rv_output_address"
      "fmt_table rv_format = rv_is_branch"
    by (simp_all add: rv_format_def)
  show ?thesis
    by (auto simp: rv_translate_def rv_levels_def v rv_is_branch_def Let_def page_offset_def split: Option.bind_split)
qed

lemma rv_map_with_alloc_path:
  assumes "rv_is_canonical va" "is_page_aligned va" "is_page_aligned pa"
  shows "rv_map_page_with_alloc root va pa perms allocate s =
    map_path rv_format allocate rv_flush_address root [vpn3 va, vpn2 va, vpn1 va] (vpn0 va) va pa perms s"
  using assms by (simp add: rv_map_page_with_alloc_def map_path_def try_bind_assoc)

lemma rv_map_path:
  assumes "rv_is_canonical va" "is_page_aligned va" "is_page_aligned pa"
  shows "rv_map_page root va pa perms mmu =
    map_present_path rv_format rv_flush_address root [vpn3 va, vpn2 va, vpn1 va] (vpn0 va) va pa perms mmu"
  using assms by (auto simp: rv_map_page_def map_present_path_def next_table_def Let_def bind_panic_def split: sum.split)

lemma rv_unmap_path:
  assumes "rv_is_canonical va"
  shows "rv_unmap_page root va mmu =
    unmap_path rv_format rv_flush_address root [vpn3 va, vpn2 va, vpn1 va] (vpn0 va) va mmu"
  using assms by (auto simp: rv_unmap_page_def unmap_path_def next_table_def Let_def bind_panic_def split: sum.split)

abbreviation rv_root :: "RiscvStatics \<Rightarrow> PhysicalAddress" where
  "rv_root st \<equiv> rv_static_physical_address (root_table st)"

interpretation rv_mapper: page_mapper "memory_ok rv_format (2 ^ 64) 4 (rv_root st)" rv_kernel_address "2 ^ 64"
  "\<lambda>mmu a. resolve rv_format (page_tables mmu) (rv_root st) (rv_levels a) a"
  "\<lambda>mmu. tables_of rv_format 4 (page_tables mmu) (rv_root st)"
  "\<lambda>mmu a. reach rv_format (page_tables mmu) (rv_root st) (rv_space.path_of a) \<noteq> None"
  "rv_map_kernel_stack_page st" "rv_unmap_kernel_stack_page st" for st
  by (rule rv_space.mapper [where perms = KERNEL_READ_WRITE])
    (simp_all add: rv_map_kernel_stack_page_def rv_map_kernel_page_with_alloc_def rv_map_with_alloc_path
      rv_unmap_kernel_stack_page_def rv_unmap_kernel_page_def rv_unmap_path rv_kernel_canonical rv_paths)

end
