(* ===== verification/Kernel_Stack_Mapping.thy ===== *)
theory Kernel_Stack_Mapping
  imports Kernel_Stack Pmm_Contiguous Arm64_Mmu Riscv_Mmu
begin

text \<open>
  Kernel stacks on mapped memory: creating, rolling back and dropping a stack over any mapping
  functions that keep the page mapper contract, and the two architectures as its instances.
\<close>

unbundle bit_operations_syntax

section \<open>Page runs as resources\<close>

definition owns_run :: "PhysicalMemoryManager \<Rightarrow> nat \<Rightarrow> nat \<Rightarrow> nat \<Rightarrow> bool" where
  "owns_run pmm i s cnt \<longleftrightarrow>
     i < arena_count pmm \<and> s + cnt \<le> page_count (arenas pmm ! i) \<and>
     (\<forall>j \<in> {s..<s + cnt}. status pmm (arena_handle i j) = (Allocated, j = s))"

abbreviation run_of :: "nat \<Rightarrow> nat \<Rightarrow> nat \<Rightarrow> PageRun" where
  "run_of i s cnt \<equiv> \<lparr>run_head = arena_handle i s, run_count = cnt\<rparr>"

abbreviation page_of_run :: "PhysicalMemoryManager \<Rightarrow> nat \<Rightarrow> nat \<Rightarrow> nat \<Rightarrow> PhysicalAddress" where
  "page_of_run pmm i s j \<equiv> handle_address pmm (arena_handle i (s + j))"

lemma owns_managed: "pool_inv pmm \<Longrightarrow> owns_run pmm i s cnt \<Longrightarrow> h \<in> set (run_handles i s cnt) \<Longrightarrow> managed pmm h"
  using run_handles_managed [OF pool_inv_wf, of pmm i s cnt h] by (simp add: owns_run_def)

lemma owns_not_free:
  assumes "pool_inv pmm" "owns_run pmm i s cnt"
  shows "set (run_handles i s cnt) \<inter> set (free_list pmm) = {}"
proof -
  have "pmm_inv pmm (free_list pmm)"
    using assms(1) by (simp add: pool_inv_def)
  then have "status pmm h = (Free, False)" if "h \<in> set (free_list pmm)" for h
    using free_status that by blast
  then show ?thesis
    using assms(2) by (fastforce simp: owns_run_def run_handles_def)
qed

lemma owns_taken:
  assumes "pool_inv pmm" "owns_run pmm i s cnt" "takes_pages pmm pmm' ns"
  shows "owns_run pmm' i s cnt"
proof -
  have t: "same_config pmm pmm'" "set ns \<subseteq> set (free_list pmm)" "status_updated pmm pmm' (set ns) (Allocated, False)"
    using assms(3) by (auto simp: takes_pages_def)
  have "status pmm' (arena_handle i j) = status pmm (arena_handle i j)" if "j \<in> {s..<s + cnt}" for j
  proof -
    have "arena_handle i j \<in> set (run_handles i s cnt)"
      using that by (simp add: run_handles_def)
    then show ?thesis
      using t(2,3) owns_not_free [OF assms(1,2)] owns_managed [OF assms(1,2)] by (auto simp: status_updated_def)
  qed
  then show ?thesis
    using assms(2) t(1) by (simp add: owns_run_def same_config_def)
qed

lemma owns_alloc:
  assumes "pool_inv pmm" "0 < cnt" "\<not> 64 \<le> alignment_log2"
  shows "pmm_alloc_contiguous pmm cnt alignment_log2 = Inr (None, pmm) \<and>
      (\<forall>i s. \<not> run_available pmm (unat alignment_log2) cnt i s) \<or>
    (\<exists>i s pmm'. pmm_alloc_contiguous pmm cnt alignment_log2 = Inr (Some (run_of i s cnt), pmm') \<and> pool_inv pmm' \<and>
      same_config pmm pmm' \<and> owns_run pmm' i s cnt \<and>
      set (free_list pmm') = set (free_list pmm) - set (run_handles i s cnt) \<and> set (run_handles i s cnt) \<subseteq> set (free_list pmm))"
proof -
  have inv: "pmm_inv pmm (free_list pmm)" and init: "initialized pmm"
    using assms(1) by (simp_all add: pool_inv_def)
  have eq: "pmm_alloc_contiguous pmm cnt alignment_log2 = alloc_contiguous pmm cnt alignment_log2"
    using init by (simp add: pmm_alloc_contiguous_def assert_initialized_def)
  from alloc_contiguous_cases [OF inv assms(2,3), folded eq] show ?thesis
  proof (elim disjE exE conjE)
    fix i s pmm'
    assume r: "first_run pmm (unat alignment_log2) cnt i s"
      "pmm_alloc_contiguous pmm cnt alignment_log2 = Inr (Some (run_of i s cnt), pmm')"
      "pmm_inv pmm' (filter (\<lambda>h. h \<notin> set (run_handles i s cnt)) (free_list pmm))" "run_taken pmm pmm' i s cnt"
    have av: "run_available pmm (unat alignment_log2) cnt i s"
      using r(1) by (simp add: first_run_def)
    have cfg: "same_config pmm pmm'"
      using r(4) by (simp add: run_taken_def)
    note pool' = pool_invI [OF r(3)]
    have init': "initialized pmm'"
      using cfg init by (simp add: same_config_def)
    have "status pmm' (arena_handle i j) = (Allocated, j = s)" if "j \<in> {s..<s + cnt}" for j
    proof -
      have i: "i < arena_count pmm" "s + cnt \<le> page_count (arenas pmm ! i)"
        using av by (simp_all add: run_available_def)
      note wf = pool_inv_wf [OF assms(1)]
      have "arena_handle i j = arena_handle i s \<longleftrightarrow> j = s"
        using inj_on_eq_iff [OF arena_handle_inj [OF wf i], of j s] that by auto
      then show ?thesis
        using r(4) that arena_handle_facts(1) [OF wf i(1), of j] i(2) by (auto simp: run_taken_def run_handles_def)
    qed
    then have "owns_run pmm' i s cnt"
      using av cfg by (simp add: owns_run_def run_available_def same_config_def)
    moreover have "set (run_handles i s cnt) \<subseteq> set (free_list pmm)"
      by (rule available_run_free [OF inv av])
    moreover have "pool_inv pmm'" "set (free_list pmm') = set (free_list pmm) - set (run_handles i s cnt)"
      using pool' [OF init'] by auto
    ultimately show ?thesis
      using r(2) cfg by blast
  qed simp
qed

lemma owns_drop:
  assumes "pool_inv pmm" "owns_run pmm i s cnt" "0 < cnt"
  shows "\<exists>pmm'. PageRun_drop pmm (run_of i s cnt) = Inr pmm' \<and> pool_inv pmm' \<and> same_config pmm pmm' \<and>
    free_list pmm' = free_list pmm @ run_handles i s cnt"
proof -
  have inv: "pmm_inv pmm (free_list pmm)" and init: "initialized pmm"
    using assms(1) by (simp_all add: pool_inv_def)
  have i: "i < arena_count pmm" "s + cnt \<le> page_count (arenas pmm ! i)"
      and st: "\<forall>j \<in> {s..<s + cnt}. status pmm (arena_handle i j) = (Allocated, j = s)"
    using assms(2) by (simp_all add: owns_run_def)
  have head: "contiguous_head (page_at pmm (arena_handle i s))"
    using st assms(3) by (auto simp: status_def)
  have "List.find (run_bad pmm i s) [s..<s + cnt] = None"
    using st by (auto simp: find_None_iff run_bad_def status_def)
  then obtain pmm' where "free_contiguous pmm (arena_handle i s) cnt = Inr (Inr (), pmm')"
      "pmm_inv pmm' (free_list pmm @ run_handles i s cnt)" "same_config pmm pmm'"
    using free_contiguous_run [OF inv i(1) assms(3) i(2) head] by auto
  then show ?thesis
    using assms(3) init pool_invI [of pmm' "free_list pmm @ run_handles i s cnt"]
    by (intro exI [of _ pmm']) (simp add: PageRun_drop_def free_contiguous_parts_def assert_initialized_def same_config_def)
qed

lemma run_page_sum:
  assumes "pool_inv pmm" "owns_run pmm i s cnt" "j < cnt"
  shows "page_of_run pmm i s j = page_of_run pmm i s 0 + of_nat j * PAGE_SIZE"
proof -
  note wf = pool_inv_wf [OF assms(1)]
  have i: "i < arena_count pmm" "s + cnt \<le> page_count (arenas pmm ! i)"
    using assms(2) by (simp_all add: owns_run_def)
  show ?thesis
    using arena_handle_facts(2,3) [OF wf i(1), of "s + j"] arena_handle_facts(2,3) [OF wf i(1), of s] i(2) assms(3)
    by (simp add: handle_address_def distrib_right)
qed

section \<open>Stack slots\<close>

lemma stack_sizes: "unat KERNEL_STACK_SLOT_SIZE = 12288" "unat KERNEL_STACK_SIZE = 8192" "unat MAX_KERNEL_STACK_SLOTS = 87381"
  "KERNEL_STACK_PAGES = 2" "unat KERNEL_STACK_GUARD_SIZE = 4096"
  by (simp_all add: KERNEL_STACK_SLOT_SIZE_def KERNEL_STACK_GUARD_SIZE_def KERNEL_STACK_SIZE_def MAX_KERNEL_STACK_SLOTS_def
      KERNEL_STACK_REGION_SIZE_def KERNEL_STACK_PAGES_def PAGE_SIZE_def push_bit_eq_mult unat_div)

lemma stack_slot_base_nat:
  assumes "slot < MAX_KERNEL_STACK_SLOTS" "unat region + 2 ^ 30 \<le> 2 ^ 64"
  shows "\<exists>base. stack_slot_base region slot = Some base \<and> unat base = unat region + unat slot * 12288 + 4096"
proof -
  have n: "unat slot < 87381"
    using assms(1) stack_sizes(3) by (simp add: word_less_nat_alt)
  have "\<exists>o1. checked_mul slot KERNEL_STACK_SLOT_SIZE = Some o1 \<and> unat o1 = unat slot * 12288"
    using n stack_sizes(1) by (simp add: checked_mul_def unat_mult_no_overflow)
  then obtain o1 where o1: "checked_mul slot KERNEL_STACK_SLOT_SIZE = Some o1" "unat o1 = unat slot * 12288"
    by blast
  have o2: "checked_add o1 KERNEL_STACK_GUARD_SIZE = Some (o1 + KERNEL_STACK_GUARD_SIZE)"
      "unat (o1 + KERNEL_STACK_GUARD_SIZE) = unat slot * 12288 + 4096"
    using o1(2) n stack_sizes(5) by (simp_all add: checked_add_def unat_add_no_overflow)
  have "unat region + (unat slot * 12288 + 4096) < 2 ^ 64"
    using n assms(2) by simp
  then show ?thesis
    using o1(1) o2 by (simp add: stack_slot_base_def checked_add_def unat_add_no_overflow)
qed

section \<open>Stacks over a page mapper\<close>

text \<open>
  \<open>holds\<close>: the memory is well formed and the run belongs to the stack, apart from the pages of the
  tables. \<open>pages_mapped\<close>: the first pages of the run are mapped from \<open>base\<close> on, over the
  translations \<open>old\<close>.
\<close>

abbreviation stack_page :: "VirtualAddress \<Rightarrow> nat \<Rightarrow> VirtualAddress" where
  "stack_page base j \<equiv> base + of_nat j * PAGE_SIZE"

context page_mapper
begin

definition holds :: "'m Memory \<Rightarrow> nat \<Rightarrow> nat \<Rightarrow> nat \<Rightarrow> bool" where
  "holds m i s cnt \<longleftrightarrow>
     mapper_ok m \<and> owns_run (mem_pmm m) i s cnt \<and>
     handle_address (mem_pmm m) ` set (run_handles i s cnt) \<inter> table_pages (mem_tables m) = {}"

definition slot_ok :: "VirtualAddress \<Rightarrow> nat \<Rightarrow> bool" where
  "slot_ok base n \<longleftrightarrow>
     is_page_aligned base \<and> unat base + n * 4096 \<le> 2 ^ 64 \<and> (\<forall>j < n. kernel_address (stack_page base j))"

definition pages_mapped :: "(VirtualAddress \<Rightarrow> PhysicalAddress option) \<Rightarrow> VirtualAddress \<Rightarrow> nat \<Rightarrow> nat \<Rightarrow> nat \<Rightarrow> 'm Memory \<Rightarrow> bool" where
  "pages_mapped old base n i s m \<longleftrightarrow>
     (\<forall>j < n. has_table (mem_tables m) (stack_page base j) \<and>
        (\<forall>a. kernel_address a \<and> align_down a = stack_page base j \<longrightarrow>
           old a = None \<and> translation (mem_tables m) a = Some (page_of_run (mem_pmm m) i s j + page_offset a))) \<and>
     (\<forall>a. kernel_address a \<and> (\<forall>j < n. align_down a \<noteq> stack_page base j) \<longrightarrow> translation (mem_tables m) a = old a)"

text \<open>
  The pages that are free or hold a table. A step that only makes tables keeps them: every page that
  was free is free or a new table.
\<close>

definition spare_pages :: "'m Memory \<Rightarrow> PhysicalAddress set" where
  "spare_pages m = set (free_addresses (mem_pmm m)) \<union> table_pages (mem_tables m)"

definition only_tables :: "'m Memory \<Rightarrow> 'm Memory \<Rightarrow> bool" where
  "only_tables m m' \<longleftrightarrow>
     same_config (mem_pmm m) (mem_pmm m') \<and> spare_pages m' = spare_pages m \<and>
     table_pages (mem_tables m) \<subseteq> table_pages (mem_tables m')"

lemma only_tables_refl [simp]: "only_tables m m"
  by (simp add: only_tables_def same_config_def)

lemma only_tables_trans: "only_tables a b \<Longrightarrow> only_tables b c \<Longrightarrow> only_tables a c"
  unfolding only_tables_def using same_config_trans by blast

lemma only_tables_map:
  assumes "takes_pages (mem_pmm m) (mem_pmm m') ns"
    "table_pages (mem_tables m') = table_pages (mem_tables m) \<union> handle_address (mem_pmm m) ` set ns"
  shows "only_tables m m'"
  using takes_pages_addresses [OF assms(1)] assms by (auto simp: only_tables_def spare_pages_def takes_pages_def)

lemma stack_page_facts:
  assumes "slot_ok base n" "j < n"
  shows "checked_add base (of_nat j * PAGE_SIZE) = Some (stack_page base j)" "unat (stack_page base j) = unat base + j * 4096"
    "kernel_address (stack_page base j)" "is_page_aligned (stack_page base j)"
    "align_down (stack_page base j) = stack_page base j" "page_offset (stack_page base j) = 0"
proof -
  have b: "unat base + j * 4096 < 2 ^ 64" "4096 dvd unat base"
    using assms by (auto simp: slot_ok_def is_page_aligned_iff)
  have j: "unat (of_nat j :: usize) = j"
    using b(1) by (simp add: unat_of_nat)
  have o: "unat (of_nat j * PAGE_SIZE :: usize) = j * 4096"
    using b(1) j by (simp add: unat_mult_no_overflow PAGE_SIZE_def)
  then show u: "unat (stack_page base j) = unat base + j * 4096"
    using b(1) by (simp add: unat_add_no_overflow)
  show "checked_add base (of_nat j * PAGE_SIZE) = Some (stack_page base j)"
    using b(1) o u by (simp add: checked_add_eq_Some)
  show "kernel_address (stack_page base j)"
    using assms by (simp add: slot_ok_def)
  show al: "is_page_aligned (stack_page base j)"
    using b(2) u by (simp add: is_page_aligned_iff)
  then show "align_down (stack_page base j) = stack_page base j"
    by (simp add: word_unat_eq_iff unat_align_down is_page_aligned_iff)
  show "page_offset (stack_page base j) = 0"
    using al by (simp add: is_page_aligned_def)
qed

lemma stack_page_inj:
  assumes "slot_ok base n" "j < n" "k < n"
  shows "stack_page base j = stack_page base k \<longleftrightarrow> j = k"
  using stack_page_facts(2) [OF assms(1,2)] stack_page_facts(2) [OF assms(1,3)] by (auto simp: word_unat_eq_iff)

lemma run_page:
  assumes "holds m i s cnt" "j < cnt"
  shows "PageRun_physical_address (mem_pmm m) (run_of i s cnt) j = Inr (Some (page_of_run (mem_pmm m) i s j))"
    "is_page_aligned (page_of_run (mem_pmm m) i s j)" "unat (page_of_run (mem_pmm m) i s j) < limit"
proof -
  have ok: "mapper_ok m" "owns_run (mem_pmm m) i s cnt"
    using assms(1) by (simp_all add: holds_def)
  note pool = ok_pool [OF ok(1)]
  have i: "i < arena_count (mem_pmm m)" "s + cnt \<le> page_count (arenas (mem_pmm m) ! i)"
    using ok(2) by (simp_all add: owns_run_def)
  have mg: "managed (mem_pmm m) (arena_handle i (s + j))"
    using owns_managed [OF pool ok(2)] assms(2) by (simp add: run_handles_def)
  show "PageRun_physical_address (mem_pmm m) (run_of i s cnt) j = Inr (Some (page_of_run (mem_pmm m) i s j))"
    by (rule PageRun_physical_address_run [OF pool i assms(2)])
  show "is_page_aligned (page_of_run (mem_pmm m) i s j)"
    using handle_address_aligned [OF pool_inv_wf [OF pool] mg] .
  show "unat (page_of_run (mem_pmm m) i s j) < limit"
    by (rule ok_limit [OF ok(1) mg])
qed

lemma holds_map:
  assumes "holds m i s cnt" "takes_pages (mem_pmm m) (mem_pmm m') ns" "mapper_ok m'"
    "table_pages (mem_tables m') = table_pages (mem_tables m) \<union> handle_address (mem_pmm m) ` set ns"
  shows "holds m' i s cnt" "page_of_run (mem_pmm m') i s j = page_of_run (mem_pmm m) i s j"
proof -
  have ok: "mapper_ok m" "owns_run (mem_pmm m) i s cnt"
      "handle_address (mem_pmm m) ` set (run_handles i s cnt) \<inter> table_pages (mem_tables m) = {}"
    using assms(1) by (simp_all add: holds_def)
  note pool = ok_pool [OF ok(1)]
  have cfg: "same_config (mem_pmm m) (mem_pmm m')" and ns: "set ns \<subseteq> set (free_list (mem_pmm m))"
    using assms(2) by (auto simp: takes_pages_def)
  note ha = handle_address_config [OF cfg]
  have "handle_address (mem_pmm m) h \<noteq> handle_address (mem_pmm m) k" if "h \<in> set (run_handles i s cnt)" "k \<in> set ns" for h k
  proof -
    have "managed (mem_pmm m) k"
      using that(2) ns pool by (auto simp: pool_inv_def pmm_inv_def free_handles_def)
    then show ?thesis
      using handle_address_inj [OF pool_inv_wf [OF pool] owns_managed [OF pool ok(2) that(1)], of k]
        owns_not_free [OF pool ok(2)] that ns by blast
  qed
  then show "holds m' i s cnt"
    using owns_taken [OF pool ok(2) assms(2)] assms(3,4) ok(3) by (auto simp: holds_def ha)
  show "page_of_run (mem_pmm m') i s j = page_of_run (mem_pmm m) i s j"
    by (simp add: ha)
qed

lemma pages_mapped_empty: "pages_mapped (translation (mem_tables m)) base 0 i s m"
  by (simp add: pages_mapped_def)

text \<open>Mapping one more page of the run.\<close>

lemma map_next_page:
  assumes h: "holds m i s cnt" and slot: "slot_ok base cnt" and n: "n < cnt" and p: "pages_mapped old base n i s m"
  shows "\<exists>r m'. map_page (stack_page base n) (page_of_run (mem_pmm m) i s n) m = Inr (r, m') \<and> holds m' i s cnt \<and>
    only_tables m m' \<and>
    (case r of Inl e \<Rightarrow> pages_mapped old base n i s m' | Inr _ \<Rightarrow> pages_mapped old base (Suc n) i s m')"
proof -
  have ok: "mapper_ok m"
    using h by (simp add: holds_def)
  note va = stack_page_facts [OF slot n]
  from mapping [OF ok va(3,4) run_page(2,3) [OF h n]] show ?thesis
  proof (elim exE conjE, goal_cases)
    case (1 r m' ns)
    note h' = holds_map(1) [OF h 1(3,2,4)] and pg = holds_map(2) [OF h 1(3,2,4)]
    note grow = only_tables_map [OF 1(3,4)]
    show ?case
    proof (cases r)
      case (Inl e)
      then have "pages_mapped old base n i s m'"
        using p 1(5,6) va(3) unfolding pages_mapped_def pg by (simp add: stack_page_facts(3) [OF slot] n less_trans)
      then show ?thesis
        using 1(1) h' grow Inl by auto
    next
      case (Inr u)
      have new: "\<forall>a. kernel_address a \<and> align_down a = stack_page base n \<longrightarrow> translation (mem_tables m) a = None"
        using 1(6) Inr by simp
      have tr: "\<forall>a. kernel_address a \<longrightarrow> translation (mem_tables m') a =
          (if align_down a = stack_page base n then Some (page_of_run (mem_pmm m) i s n + page_offset a)
           else translation (mem_tables m) a)"
        using 1(6) Inr by simp
      have ne: "stack_page base j \<noteq> stack_page base n" if "j < n" for j
        using stack_page_inj [OF slot _ n, of j] that n by simp
      have old: "old a = None" if "kernel_address a" "align_down a = stack_page base n" for a
        using new p that ne unfolding pages_mapped_def by metis
      have "pages_mapped old base (Suc n) i s m'"
        unfolding pages_mapped_def pg
      proof (intro conjI allI impI)
        fix j assume "j < Suc n"
        then show "has_table (mem_tables m') (stack_page base j)"
          using p 1(5,6) Inr unfolding pages_mapped_def by (cases "j = n") (auto simp: less_Suc_eq)
      next
        fix j a assume j: "j < Suc n" and a: "kernel_address a \<and> align_down a = stack_page base j"
        show "old a = None"
          using p old a j unfolding pages_mapped_def by (cases "j = n") (auto simp: less_Suc_eq)
        show "translation (mem_tables m') a = Some (page_of_run (mem_pmm m) i s j + page_offset a)"
          using p tr a j ne unfolding pages_mapped_def by (cases "j = n") (auto simp: less_Suc_eq)
      next
        fix a assume "kernel_address a \<and> (\<forall>j < Suc n. align_down a \<noteq> stack_page base j)"
        then show "translation (mem_tables m') a = old a"
          using p tr unfolding pages_mapped_def by (simp add: less_Suc_eq)
      qed
      then show ?thesis
        using 1(1) h' grow Inr by auto
    qed
  qed
qed

text \<open>Rolling back restores every translation.\<close>

lemma unmap_last_page:
  assumes h: "holds m i s cnt" and slot: "slot_ok base cnt" and n: "n < cnt" and p: "pages_mapped old base (Suc n) i s m"
  shows "\<exists>m'. unmap_page (stack_page base n) m = Inr (Inr (page_of_run (mem_pmm m) i s n), m') \<and> holds m' i s cnt \<and>
    mem_pmm m' = mem_pmm m \<and> table_pages (mem_tables m') = table_pages (mem_tables m) \<and> pages_mapped old base n i s m'"
proof -
  have ok: "mapper_ok m"
    using h by (simp add: holds_def)
  note va = stack_page_facts [OF slot n]
  have t: "has_table (mem_tables m) (stack_page base n)"
      "translation (mem_tables m) (stack_page base n) = Some (page_of_run (mem_pmm m) i s n)"
    using p va(3,5,6) unfolding pages_mapped_def by auto
  from unmapping [OF ok va(3,4) t] show ?thesis
  proof (elim exE conjE, goal_cases)
    case (1 m')
    have ne: "stack_page base j \<noteq> stack_page base n" if "j < n" for j
      using stack_page_inj [OF slot _ n, of j] that n by simp
    have "holds m' i s cnt"
      using h 1(2,3,4) by (simp add: holds_def)
    moreover have "pages_mapped old base n i s m'"
      unfolding pages_mapped_def 1(3)
    proof (intro conjI allI impI)
      fix j assume "j < n"
      then show "has_table (mem_tables m') (stack_page base j)"
        using p 1(5) unfolding pages_mapped_def by simp
    next
      fix j a assume "j < n" "kernel_address a \<and> align_down a = stack_page base j"
      then show "old a = None" "translation (mem_tables m') a = Some (page_of_run (mem_pmm m) i s j + page_offset a)"
        using p 1(6) ne unfolding pages_mapped_def by (auto simp: less_Suc_eq)
    next
      fix a assume a: "kernel_address a \<and> (\<forall>j < n. align_down a \<noteq> stack_page base j)"
      show "translation (mem_tables m') a = old a"
        using p a 1(6) unfolding pages_mapped_def by (cases "align_down a = stack_page base n") (auto simp: less_Suc_eq)
    qed
    ultimately show ?case
      using 1(1,3,4) by blast
  qed
qed

lemma rollback_restores:
  "holds m i s cnt \<Longrightarrow> slot_ok base cnt \<Longrightarrow> n \<le> cnt \<Longrightarrow> pages_mapped old base n i s m \<Longrightarrow>
   \<exists>m'. rollback_stack_mapping base n unmap_page m = Inr m' \<and> holds m' i s cnt \<and> mem_pmm m' = mem_pmm m \<and>
     table_pages (mem_tables m') = table_pages (mem_tables m) \<and> pages_mapped old base 0 i s m'"
proof (induction n arbitrary: m)
  case (Suc n)
  then have n: "n < cnt"
    by simp
  obtain m1 where m1: "unmap_page (stack_page base n) m = Inr (Inr (page_of_run (mem_pmm m) i s n), m1)" "holds m1 i s cnt"
      "mem_pmm m1 = mem_pmm m" "table_pages (mem_tables m1) = table_pages (mem_tables m)" "pages_mapped old base n i s m1"
    using unmap_last_page [OF Suc.prems(1,2) n Suc.prems(4)] by blast
  obtain m' where "rollback_stack_mapping base n unmap_page m1 = Inr m'" "holds m' i s cnt" "mem_pmm m' = mem_pmm m1"
      "table_pages (mem_tables m') = table_pages (mem_tables m1)" "pages_mapped old base 0 i s m'"
    using Suc.IH [OF m1(2) Suc.prems(2) _ m1(5)] n by auto
  then show ?case
    using m1 stack_page_facts(1) [OF Suc.prems(2) n] by auto
qed auto

text \<open>The mapping loop maps every remaining page or restores the translations.\<close>

lemma map_stack_pages_spec:
  "holds m i s cnt \<Longrightarrow> slot_ok base cnt \<Longrightarrow> n + left = cnt \<Longrightarrow> pages_mapped old base n i s m \<Longrightarrow>
   \<exists>r m'. map_stack_pages left n (run_of i s cnt) base map_page unmap_page m = Inr (r, m') \<and> holds m' i s cnt \<and>
     only_tables m m' \<and>
     (case r of Inl e \<Rightarrow> (\<exists>e'. e = StackMap e') \<and> pages_mapped old base 0 i s m' | Inr _ \<Rightarrow> pages_mapped old base cnt i s m')"
proof (induction left arbitrary: m n)
  case 0
  then show ?case
    by simp
next
  case (Suc left)
  then have n: "n < cnt"
    by simp
  obtain r1 m1 where m1: "map_page (stack_page base n) (page_of_run (mem_pmm m) i s n) m = Inr (r1, m1)" "holds m1 i s cnt"
      "only_tables m m1"
      "case r1 of Inl e \<Rightarrow> pages_mapped old base n i s m1 | Inr _ \<Rightarrow> pages_mapped old base (Suc n) i s m1"
    using map_next_page [OF Suc.prems(1,2) n Suc.prems(4)] by blast
  note step = run_page(1) [OF Suc.prems(1) n] stack_page_facts(1) [OF Suc.prems(2) n] m1(1)
  show ?case
  proof (cases r1)
    case (Inl e)
    then have p: "pages_mapped old base n i s m1"
      using m1(4) by simp
    obtain m' where "rollback_stack_mapping base n unmap_page m1 = Inr m'" "holds m' i s cnt" "pages_mapped old base 0 i s m'"
        "mem_pmm m' = mem_pmm m1" "table_pages (mem_tables m') = table_pages (mem_tables m1)"
      using rollback_restores [OF m1(2) Suc.prems(2) _ p] n by auto
    then show ?thesis
      using step m1(3) Inl by (simp add: only_tables_def spare_pages_def)
  next
    case (Inr u)
    then show ?thesis
      using Suc.IH [OF m1(2) Suc.prems(2), of "Suc n"] Suc.prems(3) m1(4) step only_tables_trans [OF m1(3)] by auto
  qed
qed

text \<open>Dropping the run of an unmapped stack.\<close>

lemma drop_run:
  assumes "holds m i s cnt" "0 < cnt"
  shows "\<exists>m'. drop_pages (run_of i s cnt) m = Inr m' \<and> mapper_ok m' \<and> mem_tables m' = mem_tables m \<and>
    same_config (mem_pmm m) (mem_pmm m') \<and> free_list (mem_pmm m') = free_list (mem_pmm m) @ run_handles i s cnt \<and>
    spare_pages m' = spare_pages m \<union> handle_address (mem_pmm m) ` set (run_handles i s cnt)"
proof -
  have ok: "mapper_ok m" "owns_run (mem_pmm m) i s cnt"
      "handle_address (mem_pmm m) ` set (run_handles i s cnt) \<inter> table_pages (mem_tables m) = {}"
    using assms(1) by (simp_all add: holds_def)
  obtain pmm' where d: "PageRun_drop (mem_pmm m) (run_of i s cnt) = Inr pmm'" "pool_inv pmm'" "same_config (mem_pmm m) pmm'"
      "free_list pmm' = free_list (mem_pmm m) @ run_handles i s cnt"
    using owns_drop [OF ok_pool [OF ok(1)] ok(2) assms(2)] by blast
  have "table_pages (mem_tables m) \<inter> set (free_addresses pmm') = {}"
    using ok_tables [OF ok(1)] ok(3) d(4) handle_address_config [OF d(3)] by (auto simp: free_addresses_def)
  then show ?thesis
    using d(1,3,4) ok_other_pool [OF ok(1) d(2,3)] handle_address_config [OF d(3)]
    by (intro exI [of _ "m\<lparr>mem_pmm := pmm'\<rparr>"]) (auto simp: drop_pages_def spare_pages_def free_addresses_def)
qed

text \<open>The stack is live: its pages are mapped over the translations \<open>old\<close> and belong to it.\<close>

definition stack_live :: "(VirtualAddress \<Rightarrow> PhysicalAddress option) \<Rightarrow> 'm KernelStack \<Rightarrow> 'm Memory \<Rightarrow> nat \<Rightarrow> nat \<Rightarrow> bool" where
  "stack_live old stack m i s \<longleftrightarrow>
     stack_pages stack = run_of i s KERNEL_STACK_PAGES \<and> stack_unmap stack = Some unmap_page \<and>
     stack_size stack = KERNEL_STACK_SIZE \<and> slot_ok (stack_base stack) KERNEL_STACK_PAGES \<and>
     holds m i s KERNEL_STACK_PAGES \<and> pages_mapped old (stack_base stack) KERNEL_STACK_PAGES i s m"

lemma drop_restores:
  assumes "stack_live old stack m i s"
  shows "\<exists>m'. KernelStack_drop stack m = Inr m' \<and> mapper_ok m' \<and> same_config (mem_pmm m) (mem_pmm m') \<and>
    table_pages (mem_tables m') = table_pages (mem_tables m) \<and>
    spare_pages m' = spare_pages m \<union> handle_address (mem_pmm m) ` set (run_handles i s KERNEL_STACK_PAGES) \<and>
    (\<forall>a. kernel_address a \<longrightarrow> translation (mem_tables m') a = old a)"
proof -
  have l: "stack_pages stack = run_of i s KERNEL_STACK_PAGES" "stack_unmap stack = Some unmap_page"
      "slot_ok (stack_base stack) KERNEL_STACK_PAGES" "holds m i s KERNEL_STACK_PAGES"
      "pages_mapped old (stack_base stack) KERNEL_STACK_PAGES i s m"
    using assms by (simp_all add: stack_live_def)
  obtain m1 where m1: "rollback_stack_mapping (stack_base stack) KERNEL_STACK_PAGES unmap_page m = Inr m1"
      "holds m1 i s KERNEL_STACK_PAGES" "mem_pmm m1 = mem_pmm m"
      "table_pages (mem_tables m1) = table_pages (mem_tables m)" "pages_mapped old (stack_base stack) 0 i s m1"
    using rollback_restores [OF l(4,3) _ l(5)] by blast
  obtain m' where "drop_pages (run_of i s KERNEL_STACK_PAGES) m1 = Inr m'" "mapper_ok m'" "mem_tables m' = mem_tables m1"
      "same_config (mem_pmm m1) (mem_pmm m')"
      "spare_pages m' = spare_pages m1 \<union> handle_address (mem_pmm m1) ` set (run_handles i s KERNEL_STACK_PAGES)"
    using drop_run [OF m1(2)] stack_sizes(4) by auto
  moreover have "spare_pages m1 = spare_pages m"
    using m1(3,4) by (simp add: spare_pages_def)
  ultimately show ?thesis
    using m1 l(1,2) by (intro exI [of _ m']) (simp add: KernelStack_drop_def pages_mapped_def)
qed

lemma create_outcome:
  assumes ok: "mapper_ok (stack_memory w)" and region: "is_page_aligned region" "unat region + 2 ^ 30 \<le> 2 ^ 64"
    and kernel: "\<forall>a. region \<le> a \<and> unat a < unat region + 2 ^ 30 \<longrightarrow> kernel_address a"
  shows "\<exists>r w'. create_mapped region map_page unmap_page w = Inr (r, w') \<and> mapper_ok (stack_memory w') \<and>
    next_stack_slot w' = next_stack_slot w + 1 \<and>
    (case r of
       Inl e \<Rightarrow>
         (\<forall>a. kernel_address a \<longrightarrow> translation (mem_tables (stack_memory w')) a = translation (mem_tables (stack_memory w)) a) \<and>
         only_tables (stack_memory w) (stack_memory w') \<and>
         (e = RegionExhausted \<and> MAX_KERNEL_STACK_SLOTS \<le> next_stack_slot w \<or>
          e = StackOutOfMemory \<and> (\<forall>i s. \<not> run_available (mem_pmm (stack_memory w)) 12 2 i s) \<or> (\<exists>e'. e = StackMap e'))
     | Inr stack \<Rightarrow>
         unat (stack_base stack) = unat region + unat (next_stack_slot w) * 12288 + 4096 \<and>
         unat (next_stack_slot w) < 87381 \<and>
         (\<exists>i s. stack_live (translation (mem_tables (stack_memory w))) stack (stack_memory w') i s \<and>
            set (run_handles i s KERNEL_STACK_PAGES) \<subseteq> set (free_list (mem_pmm (stack_memory w))) \<and>
            same_config (mem_pmm (stack_memory w)) (mem_pmm (stack_memory w')) \<and>
            spare_pages (stack_memory w) =
              spare_pages (stack_memory w') \<union> handle_address (mem_pmm (stack_memory w)) ` set (run_handles i s KERNEL_STACK_PAGES) \<and>
            table_pages (mem_tables (stack_memory w)) \<subseteq> table_pages (mem_tables (stack_memory w'))))"
proof (cases "MAX_KERNEL_STACK_SLOTS \<le> next_stack_slot w")
  case True
  then show ?thesis
    using ok by (simp add: create_mapped_def Let_def)
next
  case False
  let ?slot = "next_stack_slot w" and ?m = "stack_memory w"
  have slot: "?slot < MAX_KERNEL_STACK_SLOTS"
    using False by simp
  have n: "unat ?slot < 87381"
    using slot stack_sizes(3) by (simp add: word_less_nat_alt)
  obtain base where base: "stack_slot_base region ?slot = Some base" "unat base = unat region + unat ?slot * 12288 + 4096"
    using stack_slot_base_nat [OF slot region(2)] by blast
  have sok: "slot_ok base KERNEL_STACK_PAGES"
  proof -
    have u: "unat (stack_page base j) = unat base + j * 4096" if "j < 2" for j
    proof -
      have "unat (of_nat j * PAGE_SIZE :: usize) = j * 4096"
        using less_2_cases [OF that] by (elim disjE) (simp_all add: PAGE_SIZE_def)
      then show ?thesis
        using that base(2) n region(2) by (simp add: unat_add_no_overflow)
    qed
    have "kernel_address (stack_page base j)" if "j < 2" for j
      using u [OF that] that base(2) n by (intro kernel [rule_format]) (simp add: word_le_nat_alt)
    then show ?thesis
      using region base(2) n unfolding slot_ok_def stack_sizes(4) by (auto simp: is_page_aligned_iff)
  qed
  have log: "\<not> 64 \<le> PAGE_ALIGNMENT_LOG2" "unat PAGE_ALIGNMENT_LOG2 = 12" "0 < KERNEL_STACK_PAGES"
    by (simp_all add: PAGE_ALIGNMENT_LOG2_def stack_sizes(4))
  note alloc = owns_alloc [OF ok_pool [OF ok] log(3) log(1)]
  show ?thesis
  proof (cases "pmm_alloc_contiguous (mem_pmm ?m) KERNEL_STACK_PAGES PAGE_ALIGNMENT_LOG2 = Inr (None, mem_pmm ?m)")
    case True
    then have "\<forall>i s. \<not> run_available (mem_pmm ?m) 12 2 i s"
      using alloc log(2) stack_sizes(4) by simp
    then show ?thesis
      using True False ok by (simp add: create_mapped_def Let_def)
  next
    case found: False
    obtain i s pmm' where a: "pmm_alloc_contiguous (mem_pmm ?m) KERNEL_STACK_PAGES PAGE_ALIGNMENT_LOG2 =
          Inr (Some (run_of i s KERNEL_STACK_PAGES), pmm')" "pool_inv pmm'" "same_config (mem_pmm ?m) pmm'"
        "owns_run pmm' i s KERNEL_STACK_PAGES" "set (free_list pmm') = set (free_list (mem_pmm ?m)) - set (run_handles i s KERNEL_STACK_PAGES)"
        "set (run_handles i s KERNEL_STACK_PAGES) \<subseteq> set (free_list (mem_pmm ?m))"
      using alloc found by blast
    let ?m1 = "?m\<lparr>mem_pmm := pmm'\<rparr>"
    have free: "set (free_addresses pmm') \<subseteq> set (free_addresses (mem_pmm ?m))"
        "handle_address pmm' ` set (run_handles i s KERNEL_STACK_PAGES) \<subseteq> set (free_addresses (mem_pmm ?m))"
      using a(5,6) handle_address_config [OF a(3)] by (auto simp: free_addresses_def)
    have spare: "spare_pages ?m = spare_pages ?m1 \<union> handle_address (mem_pmm ?m) ` set (run_handles i s KERNEL_STACK_PAGES)"
      using a(5,6) handle_address_config [OF a(3)] by (auto simp: spare_pages_def free_addresses_def)
    have ok1: "mapper_ok ?m1"
      using ok_other_pool [OF ok a(2,3)] ok_tables [OF ok] free(1) by blast
    have h: "holds ?m1 i s KERNEL_STACK_PAGES"
      using ok1 a(4) free(2) ok_tables [OF ok] by (auto simp: holds_def)
    have p0: "pages_mapped (translation (mem_tables ?m)) base 0 i s ?m1"
      using pages_mapped_empty [of ?m1] by simp
    obtain r m2 where m2: "map_stack_pages KERNEL_STACK_PAGES 0 (run_of i s KERNEL_STACK_PAGES) base map_page unmap_page ?m1 = Inr (r, m2)"
        "holds m2 i s KERNEL_STACK_PAGES" "only_tables ?m1 m2"
        "case r of Inl e \<Rightarrow> (\<exists>e'. e = StackMap e') \<and> pages_mapped (translation (mem_tables ?m)) base 0 i s m2
         | Inr _ \<Rightarrow> pages_mapped (translation (mem_tables ?m)) base KERNEL_STACK_PAGES i s m2"
      using map_stack_pages_spec [OF h sok _ p0, of KERNEL_STACK_PAGES] by auto
    have cfg: "same_config (mem_pmm ?m) (mem_pmm m2)" and
      run: "spare_pages ?m = spare_pages m2 \<union> handle_address (mem_pmm ?m) ` set (run_handles i s KERNEL_STACK_PAGES)"
        "table_pages (mem_tables ?m) \<subseteq> table_pages (mem_tables m2)"
      using m2(3) same_config_trans [OF a(3)] spare by (simp_all add: only_tables_def)
    show ?thesis
    proof (cases r)
      case (Inl e)
      obtain m3 where m3: "drop_pages (run_of i s KERNEL_STACK_PAGES) m2 = Inr m3" "mapper_ok m3" "mem_tables m3 = mem_tables m2"
          "same_config (mem_pmm m2) (mem_pmm m3)"
          "spare_pages m3 = spare_pages m2 \<union> handle_address (mem_pmm m2) ` set (run_handles i s KERNEL_STACK_PAGES)"
        using drop_run [OF m2(2) log(3)] by blast
      have "only_tables ?m m3"
        using m3(3-5) run same_config_trans [OF cfg m3(4)] handle_address_config [OF cfg] by (simp add: only_tables_def)
      then show ?thesis
        using m3(1-3) False a(1) base(1) m2 Inl by (simp add: create_mapped_def Let_def pages_mapped_def)
    next
      case (Inr u)
      then have "stack_live (translation (mem_tables ?m)) \<lparr>stack_pages = run_of i s KERNEL_STACK_PAGES, stack_base = base,
          stack_size = KERNEL_STACK_SIZE, stack_unmap = Some unmap_page\<rparr> m2 i s"
        using m2(2,4) sok by (simp add: stack_live_def)
      moreover have "mapper_ok m2"
        using m2(2) by (simp add: holds_def)
      ultimately show ?thesis
        using False a(1,6) base n m2(1) Inr cfg run by (auto simp: create_mapped_def Let_def)
    qed
  qed
qed

text \<open>What a live stack's addresses translate to.\<close>

lemma live_page:
  assumes "slot_ok base 2"
  shows "(\<exists>j < 2. align_down a = stack_page base j) \<longleftrightarrow> base \<le> a \<and> unat a < unat base + 8192"
proof -
  have al: "unat (align_down a) = unat a div 4096 * 4096"
    by (simp add: unat_align_down minus_mod_eq_div_mult)
  have b: "unat base = unat base div 4096 * 4096"
    using assms div_mult_mod_eq [of "unat base" 4096] by (simp add: slot_ok_def is_page_aligned_iff)
  have "align_down a = stack_page base j \<longleftrightarrow> unat a div 4096 = unat base div 4096 + j" if "j < 2" for j
    using stack_page_facts(2) [OF assms that] al b by (simp only: word_unat_eq_iff) linarith
  moreover have "base \<le> a \<and> unat a < unat base + 8192 \<longleftrightarrow> (\<exists>j < 2. unat a div 4096 = unat base div 4096 + j)"
  proof -
    have "unat base \<le> unat a \<and> unat a < unat base + 8192 \<longleftrightarrow>
        unat base div 4096 \<le> unat a div 4096 \<and> unat a div 4096 < unat base div 4096 + 2"
      using b by linarith
    then show ?thesis
      by (auto simp: word_le_nat_alt intro!: exI [of _ "unat a div 4096 - unat base div 4096"])
  qed
  ultimately show ?thesis
    by auto
qed

lemma live_translations:
  assumes l: "stack_live old stack m i s" and a: "kernel_address a"
  shows "translation (mem_tables m) a =
    (if stack_base stack \<le> a \<and> unat a < unat (stack_base stack) + 8192
     then Some (page_of_run (mem_pmm m) i s 0 + (a - stack_base stack)) else old a) \<and>
    (stack_base stack \<le> a \<and> unat a < unat (stack_base stack) + 8192 \<longrightarrow> old a = None)"
proof -
  let ?base = "stack_base stack"
  have st: "slot_ok ?base 2" "holds m i s 2" "pages_mapped old ?base 2 i s m"
    using l stack_sizes(4) by (simp_all add: stack_live_def)
  show ?thesis
  proof (cases "\<exists>j < 2. align_down a = stack_page ?base j")
    case True
    then obtain j where j: "j < 2" "align_down a = stack_page ?base j"
      by blast
    have t: "old a = None" "translation (mem_tables m) a = Some (page_of_run (mem_pmm m) i s j + page_offset a)"
      using st(3) a j unfolding pages_mapped_def by auto
    have own: "owns_run (mem_pmm m) i s 2" and pool: "pool_inv (mem_pmm m)"
      using st(2) ok_pool by (simp_all add: holds_def)
    have "page_of_run (mem_pmm m) i s j = page_of_run (mem_pmm m) i s 0 + of_nat j * PAGE_SIZE"
      by (rule run_page_sum [OF pool own j(1)])
    moreover have "a = align_down a + page_offset a"
    proof -
      have "unat (align_down a) + unat (page_offset a) = unat a"
        by (simp add: unat_align_down unat_page_offset)
      then show ?thesis
        using unat_bound64 [of a] by (simp add: word_unat_eq_iff [of a] unat_add_no_overflow)
    qed
    ultimately have "page_of_run (mem_pmm m) i s j + page_offset a = page_of_run (mem_pmm m) i s 0 + (a - ?base)"
      using j(2) by (metis (no_types, lifting) add.assoc add_diff_cancel_left' )
    then show ?thesis
      using t live_page [OF st(1), of a] True by simp
  next
    case False
    then have "translation (mem_tables m) a = old a"
      using st(3) a unfolding pages_mapped_def by blast
    then show ?thesis
      using live_page [OF st(1), of a] False by auto
  qed
qed

lemma probe_restores:
  assumes ok: "mapper_ok (stack_memory w)" and region: "is_page_aligned region" "unat region + 2 ^ 30 \<le> 2 ^ 64"
    and kernel: "\<forall>a. region \<le> a \<and> unat a < unat region + 2 ^ 30 \<longrightarrow> kernel_address a"
  shows "\<exists>r w'. boot_probe region map_page unmap_page w = Inr (r, w') \<and> mapper_ok (stack_memory w') \<and>
    next_stack_slot w' = next_stack_slot w + 1 \<and> spare_pages (stack_memory w') = spare_pages (stack_memory w) \<and>
    table_pages (mem_tables (stack_memory w)) \<subseteq> table_pages (mem_tables (stack_memory w')) \<and>
    (case r of
       Inl e \<Rightarrow> (\<exists>w1. create_mapped region map_page unmap_page w = Inr (Inl e, w1)) \<and>
         (e = RegionExhausted \<and> MAX_KERNEL_STACK_SLOTS \<le> next_stack_slot w \<or>
          e = StackOutOfMemory \<and> (\<forall>i s. \<not> run_available (mem_pmm (stack_memory w)) 12 2 i s) \<or> (\<exists>e'. e = StackMap e'))
     | Inr _ \<Rightarrow> \<exists>stack w1. create_mapped region map_page unmap_page w = Inr (Inr stack, w1)) \<and>
    (\<forall>a. kernel_address a \<longrightarrow> translation (mem_tables (stack_memory w')) a = translation (mem_tables (stack_memory w)) a)"
  using create_outcome [OF assms]
proof (elim exE conjE, goal_cases)
  case (1 r w1)
  show ?case
  proof (cases r)
    case (Inl e)
    then show ?thesis
      using 1 by (simp add: boot_probe_def only_tables_def)
  next
    case (Inr stack)
    let ?m = "stack_memory w" and ?m1 = "stack_memory w1"
    obtain i s where l: "stack_live (translation (mem_tables ?m)) stack ?m1 i s" "same_config (mem_pmm ?m) (mem_pmm ?m1)"
        "spare_pages ?m = spare_pages ?m1 \<union> handle_address (mem_pmm ?m) ` set (run_handles i s KERNEL_STACK_PAGES)"
        "table_pages (mem_tables ?m) \<subseteq> table_pages (mem_tables ?m1)"
      using 1(4) Inr by auto
    obtain m' where d: "KernelStack_drop stack ?m1 = Inr m'" "mapper_ok m'" "same_config (mem_pmm ?m1) (mem_pmm m')"
        "table_pages (mem_tables m') = table_pages (mem_tables ?m1)"
        "spare_pages m' = spare_pages ?m1 \<union> handle_address (mem_pmm ?m1) ` set (run_handles i s KERNEL_STACK_PAGES)"
        "\<forall>a. kernel_address a \<longrightarrow> translation (mem_tables m') a = translation (mem_tables ?m) a"
      using drop_restores [OF l(1)] by blast
    have "only_tables ?m m'"
      using l(2-4) d(3-5) same_config_trans [OF l(2) d(3)] handle_address_config [OF l(2)] by (simp add: only_tables_def)
    then show ?thesis
      using 1(1,3) d(1,2,6) Inr by (simp add: boot_probe_def only_tables_def)
  qed
qed

text \<open>The pages of a live stack are neither free nor tables.\<close>

lemma live_apart:
  assumes "stack_live old stack m i s"
  shows "handle_address (mem_pmm m) ` set (run_handles i s KERNEL_STACK_PAGES) \<inter> spare_pages m = {}"
proof -
  have h: "mapper_ok m" "owns_run (mem_pmm m) i s KERNEL_STACK_PAGES"
      "handle_address (mem_pmm m) ` set (run_handles i s KERNEL_STACK_PAGES) \<inter> table_pages (mem_tables m) = {}"
    using assms by (simp_all add: stack_live_def holds_def)
  note pool = ok_pool [OF h(1)]
  have "handle_address (mem_pmm m) h \<noteq> handle_address (mem_pmm m) k"
    if "h \<in> set (run_handles i s KERNEL_STACK_PAGES)" "k \<in> set (free_list (mem_pmm m))" for h k
    using handle_address_inj [OF pool_inv_wf [OF pool] owns_managed [OF pool h(2) that(1)] free_list_managed [OF pool that(2)]]
      owns_not_free [OF pool h(2)] that by blast
  then show ?thesis
    using h(3) by (auto simp: spare_pages_def free_addresses_def)
qed

text \<open>The outcome of creating a stack for every kernel address.\<close>

lemma create_effect:
  assumes ok: "mapper_ok (stack_memory w)" and region: "is_page_aligned region" "unat region + 2 ^ 30 \<le> 2 ^ 64"
    and kernel: "\<forall>a. region \<le> a \<and> unat a < unat region + 2 ^ 30 \<longrightarrow> kernel_address a"
  shows "\<exists>r w'. create_mapped region map_page unmap_page w = Inr (r, w') \<and> mapper_ok (stack_memory w') \<and>
    next_stack_slot w' = next_stack_slot w + 1 \<and>
    (case r of
       Inl e \<Rightarrow>
         (\<forall>a. kernel_address a \<longrightarrow> translation (mem_tables (stack_memory w')) a = translation (mem_tables (stack_memory w)) a) \<and>
         spare_pages (stack_memory w') = spare_pages (stack_memory w) \<and>
         table_pages (mem_tables (stack_memory w)) \<subseteq> table_pages (mem_tables (stack_memory w')) \<and>
         (e = RegionExhausted \<and> MAX_KERNEL_STACK_SLOTS \<le> next_stack_slot w \<or>
          e = StackOutOfMemory \<and> (\<forall>i s. \<not> run_available (mem_pmm (stack_memory w)) 12 2 i s) \<or> (\<exists>e'. e = StackMap e'))
     | Inr stack \<Rightarrow>
         unat (stack_base stack) = unat region + unat (next_stack_slot w) * 12288 + 4096 \<and>
         stack_top stack = Inr (stack_base stack + 8192) \<and>
         (\<exists>p \<in> set (free_addresses (mem_pmm (stack_memory w))). p + PAGE_SIZE \<in> set (free_addresses (mem_pmm (stack_memory w))) \<and>
            spare_pages (stack_memory w') = spare_pages (stack_memory w) - {p, p + PAGE_SIZE} \<and>
            table_pages (mem_tables (stack_memory w)) \<subseteq> table_pages (mem_tables (stack_memory w')) \<and>
            (\<forall>a. kernel_address a \<longrightarrow> translation (mem_tables (stack_memory w')) a =
               (if stack_base stack \<le> a \<and> unat a < unat (stack_base stack) + 8192
                then Some (p + (a - stack_base stack)) else translation (mem_tables (stack_memory w)) a) \<and>
               (stack_base stack \<le> a \<and> unat a < unat (stack_base stack) + 8192 \<longrightarrow>
                translation (mem_tables (stack_memory w)) a = None))))"
  using create_outcome [OF assms]
proof (elim exE conjE, goal_cases)
  case (1 r w1)
  show ?case
  proof (cases r)
    case (Inl e)
    then show ?thesis
      using 1 by (intro exI [of _ r] exI [of _ w1]) (simp add: only_tables_def)
  next
    case (Inr stack)
    let ?m = "stack_memory w" and ?m1 = "stack_memory w1"
    obtain i s where l: "stack_live (translation (mem_tables ?m)) stack ?m1 i s"
        "set (run_handles i s KERNEL_STACK_PAGES) \<subseteq> set (free_list (mem_pmm ?m))" "same_config (mem_pmm ?m) (mem_pmm ?m1)"
        "spare_pages ?m = spare_pages ?m1 \<union> handle_address (mem_pmm ?m) ` set (run_handles i s KERNEL_STACK_PAGES)"
        "table_pages (mem_tables ?m) \<subseteq> table_pages (mem_tables ?m1)"
      using 1(4) Inr by auto
    have b: "unat (stack_base stack) = unat region + unat (next_stack_slot w) * 12288 + 4096" "unat (next_stack_slot w) < 87381"
        "stack_size stack = 8192"
      using 1(4) Inr l(1) by (auto simp: stack_live_def KERNEL_STACK_SIZE_def PAGE_SIZE_def)
    have top: "stack_top stack = Inr (stack_base stack + 8192)"
      using b region(2) by (simp add: stack_top_def add_words_def)
    have own: "owns_run (mem_pmm ?m1) i s 2" and pool: "pool_inv (mem_pmm ?m1)"
      using l(1) ok_pool stack_sizes(4) by (simp_all add: stack_live_def holds_def)
    have nxt: "page_of_run (mem_pmm ?m1) i s 1 = page_of_run (mem_pmm ?m1) i s 0 + PAGE_SIZE"
      using run_page_sum [OF pool own, of 1] by simp
    have "page_of_run (mem_pmm ?m1) i s j \<in> set (free_addresses (mem_pmm ?m))" if "j < 2" for j
      using l(2) less_2_cases [OF that] unfolding stack_sizes(4) handle_address_config [OF l(3)]
      by (auto simp: free_addresses_def run_handles_def)
    from this [of 0] this [of 1] have f: "page_of_run (mem_pmm ?m1) i s 0 \<in> set (free_addresses (mem_pmm ?m))"
        "page_of_run (mem_pmm ?m1) i s 0 + PAGE_SIZE \<in> set (free_addresses (mem_pmm ?m))"
      unfolding nxt by simp_all
    have run: "handle_address (mem_pmm ?m) ` set (run_handles i s KERNEL_STACK_PAGES) =
        {page_of_run (mem_pmm ?m1) i s 0, page_of_run (mem_pmm ?m1) i s 0 + PAGE_SIZE}"
      using nxt unfolding handle_address_config [OF l(3)] stack_sizes(4) by (auto simp: run_handles_def numeral_2_eq_2)
    have "handle_address (mem_pmm ?m1) ` set (run_handles i s KERNEL_STACK_PAGES) \<inter> spare_pages ?m1 = {}"
      using live_apart [OF l(1)] .
    then have sp: "spare_pages ?m1 = spare_pages ?m - {page_of_run (mem_pmm ?m1) i s 0, page_of_run (mem_pmm ?m1) i s 0 + PAGE_SIZE}"
      using l(4) run handle_address_config [OF l(3)] by auto
    show ?thesis
      using 1(1-3) Inr b(1) top f sp l(5) live_translations [OF l(1)]
      by (intro exI [of _ r] exI [of _ w1]) (simp add: bexI [of _ "page_of_run (mem_pmm ?m1) i s 0"])
  qed
qed

end

end
