(* ===== verification/Arm64_Address_Space.thy ===== *)
theory Arm64_Address_Space
  imports Arm64_Mmu
begin

text \<open>
  What the ARM64 memory management unit gives the kernel: the boot mapping, the effect of mapping
  and unmapping a kernel page on every kernel address, and how far the invalidation of the
  translation lookaside buffer reaches.
\<close>

unbundle bit_operations_syntax

section \<open>The boot mapping\<close>

lemma BLOCK_1G_MASK_mask: "BLOCK_1G_MASK = mask 30"
  by (simp add: BLOCK_1G_MASK_def GIGABYTE_def mask_eq_exp_minus_1 push_bit_eq_mult)

lemma arm_block_outcome:
  assumes "gb < 512" "MappingIntent_new (of_nat gb * GIGABYTE) Block1G kind permissions = Some intent"
  shows "\<exists>e. arm_from_mapping intent = Inr e \<and> block_at arm_format e gb"
proof -
  have "intent_address intent = of_nat gb * GIGABYTE" "intent_size intent = Block1G"
    using assms(2) by (auto simp: MappingIntent_new_def split: if_splits)
  then show ?thesis
    using arm_mapping_outcome [of intent False] gigabyte_aligned [OF assms(1)]
    by (auto simp: arm_from_mapping_def block_at_def arm_format_def arm_is_table_def arm_table_bit)
qed

lemma arm_boot_blocks:
  assumes "gb < 512"
  shows "\<exists>e. arm_kernel_block (of_nat gb * GIGABYTE) permissions = Inr e \<and> block_at arm_format e gb"
    "\<exists>e. arm_device_block (of_nat gb * GIGABYTE) = Inr e \<and> block_at arm_format e gb"
  using arm_block_outcome [OF assms] gigabyte_aligned [OF assms]
  by (auto simp: arm_kernel_block_def arm_device_block_def MappingIntent_new_def)

lemma arm_block_table_translate:
  assumes "block_table arm_format P (m t)" "arm_is_canonical a"
  shows "arm_translate m t a = (if P (arm_l1 a) then Some (take_bit 39 a) else None)"
  using arm_pte.block_table_resolve [where m = m and t = t, OF assms(1) arm_index_nat(1) BLOCK_1G_MASK_mask] assms(2)
  by (simp add: arm_translate_resolve arm_levels_def)

lemma arm_block_table_tree:
  assumes "block_table arm_format P (m t)"
  shows "table_tree arm_format 3 m t" "tables_of arm_format 3 m t = {t}"
  using arm_pte.block_table_reach [where m = m and t = t, OF assms]
  by (auto simp: table_tree_def tables_of_def split: if_splits intro!: exI [of _ "[]"])

text \<open>The tables \<open>init\<close> and \<open>expand_physmap\<close> leave behind.\<close>

abbreviation arm_low :: "ArmStatics \<Rightarrow> PhysicalAddress" where
  "arm_low st \<equiv> arm_static_physical_address (low_table st)"

lemma arm_init_tables:
  assumes range: "boot_range kernel_load dtb = (start_gb, end_gb)" "start_gb \<le> end_gb" "unat end_gb \<le> 512"
  shows "\<exists>mmu'. arm_init st kernel_load dtb mmu = Inr mmu' \<and> physmap_end_gb mmu' = end_gb \<and> tlb mmu' = {} \<and>
    ttbr0_el1 mmu' = arm_low st \<and> ttbr1_el1 mmu' = arm_root st \<and> mair_el1 mmu' = MAIR_VALUE \<and> tcr_el1 mmu' = arm_default_tcr \<and>
    bit (sctlr_el1 mmu') 0 \<and>
    (\<forall>t \<in> {arm_low st, arm_root st}. block_table arm_format (\<lambda>i. i = 0 \<or> unat start_gb \<le> i \<and> i < unat end_gb) (page_tables mmu' t))"
proof -
  let ?gbs = "[unat start_gb..<unat end_gb]"
  have ok: "arm_validate_boot_range start_gb end_gb = Inr ()"
    using range(2,3) by (auto simp: arm_validate_boot_range_def word_less_nat_alt word_le_nat_alt ENTRIES_PER_PAGE_TABLE_def)
  obtain d where d: "arm_device_block 0 = Inr d" "block_at arm_format d 0"
    using arm_boot_blocks(2) [of 0] by auto
  let ?m0 = "fill_table (arm_root st) (fill_table (arm_low st) (page_tables mmu))"
  obtain m1 where m1: "store_all [arm_low st, arm_root st] 0 d ?m0 = Inr m1"
      "\<forall>t j. m1 t j = (if t \<in> {arm_low st, arm_root st} \<and> j = 0 then d else ?m0 t j)"
    using store_all_spec [of 0 "[arm_low st, arm_root st]" d ?m0] by (auto simp: ENTRIES_PER_PAGE_TABLE_def)
  have t1: "block_table arm_format (\<lambda>i. i = 0) (m1 t)" if "t \<in> {arm_low st, arm_root st}" for t
    unfolding block_table_def using that m1(2) d(2) by (auto simp: fill_table_def)
  obtain m2 where m2: "map_gigabytes (\<lambda>address. arm_kernel_block address BOOT_KERNEL_PERMISSIONS) [arm_low st, arm_root st] ?gbs m1 = Inr m2"
      "\<forall>t P. t \<in> set [arm_low st, arm_root st] \<and> block_table arm_format P (m1 t) \<longrightarrow>
        block_table arm_format (\<lambda>i. P i \<or> i \<in> set ?gbs \<and> i \<noteq> 0) (m2 t)"
    using map_gigabytes_blocks [of "\<lambda>address. arm_kernel_block address BOOT_KERNEL_PERMISSIONS" arm_format ?gbs
        "[arm_low st, arm_root st]" m1] arm_boot_blocks(1) range(3) by auto
  have t: "block_table arm_format (\<lambda>i. i = 0 \<or> unat start_gb \<le> i \<and> i < unat end_gb) (m2 t)"
    if "t \<in> {arm_low st, arm_root st}" for t
  proof -
    have "(\<lambda>i. i = 0 \<or> i \<in> set ?gbs \<and> i \<noteq> 0) = (\<lambda>i. i = 0 \<or> unat start_gb \<le> i \<and> i < unat end_gb)"
      by auto
    then show ?thesis
      using m2(2) [rule_format, of t "\<lambda>i. i = 0"] t1 [OF that] that by simp
  qed
  show ?thesis
    unfolding arm_init_def range(1) Let_def
    using ok d(1) m1(1) m2(1) t
    by (auto simp: arm_write_tcr_def arm_write_mair_def arm_write_ttbr0_def arm_write_ttbr1_def
        arm_flush_local_def arm_enable_mmu_def bit_or_iff bit_1_iff)
qed

lemma arm_expand_tables:
  assumes "block_table arm_format P (page_tables mmu (arm_root st))"
    and new_end_def: "new_end = min (div_ceil max_end GIGABYTE) MAX_PHYSMAP_ENTRIES"
  shows "\<exists>mmu'. arm_expand_physmap st max_end mmu = Inr mmu' \<and>
    physmap_end_gb mmu' = max (physmap_end_gb mmu) new_end \<and>
    block_table arm_format (\<lambda>i. P i \<or> unat (physmap_end_gb mmu) \<le> i \<and> i < unat new_end \<and> i \<noteq> 0)
      (page_tables mmu' (arm_root st))"
proof -
  let ?gbs = "[unat (physmap_end_gb mmu)..<unat new_end]"
  have n: "unat new_end \<le> 511"
    by (simp add: new_end_def min_def word_le_nat_alt)
  obtain m2 where m2: "map_gigabytes (\<lambda>address. arm_kernel_block address BOOT_KERNEL_PERMISSIONS) [arm_root st] ?gbs
        (page_tables mmu) = Inr m2"
      "\<forall>t P. t \<in> set [arm_root st] \<and> block_table arm_format P (page_tables mmu t) \<longrightarrow>
        block_table arm_format (\<lambda>i. P i \<or> i \<in> set ?gbs \<and> i \<noteq> 0) (m2 t)"
    using map_gigabytes_blocks [of "\<lambda>address. arm_kernel_block address BOOT_KERNEL_PERMISSIONS" arm_format ?gbs
        "[arm_root st]" "page_tables mmu"] arm_boot_blocks(1) n by auto
  have "block_table arm_format (\<lambda>i. P i \<or> unat (physmap_end_gb mmu) \<le> i \<and> i < unat new_end \<and> i \<noteq> 0) (m2 (arm_root st))"
    using assms(1) m2(2) [rule_format, of "arm_root st" P] by (auto simp: block_table_def)
  then show ?thesis
    using m2(1) unfolding arm_expand_physmap_def Let_def new_end_def [symmetric]
    by (auto simp: arm_flush_local_def max_def)
qed

lemma arm_physmap_address:
  assumes "unat pa < 2 ^ 39"
  shows "arm_is_canonical pa" "take_bit 39 pa = pa" "arm_l1 pa = unat pa div 2 ^ 30"
    "arm_kernel_address (arm_physical_to_virtual pa)" "take_bit 39 (arm_physical_to_virtual pa) = pa"
    "arm_l1 (arm_physical_to_virtual pa) = unat pa div 2 ^ 30"
proof -
  let ?v = "arm_physical_to_virtual pa"
  have t: "unat (take_bit 39 a) = unat a mod 2 ^ 39" for a :: usize
    by (metis take_bit_eq_mod unsigned_take_bit_eq)
  have v: "unat ?v = unat pa + (2 ^ 64 - 2 ^ 39)"
    using assms unfolding arm_physical_to_virtual_def ARM_KERNEL_VIRTUAL_BASE_def
    by (subst unat_add_no_overflow) simp_all
  have d: "unat ?v div 2 ^ 30 mod 512 = unat pa div 2 ^ 30"
  proof -
    have "unat ?v = unat pa + (2 ^ 25 - 1) * 512 * 2 ^ 30"
      using v by simp
    then have "unat ?v div 2 ^ 30 = (2 ^ 25 - 1) * 512 + unat pa div 2 ^ 30"
      by (simp only: div_mult_self1 power_not_zero zero_neq_numeral not_False_eq_True)
    moreover have "unat pa div 2 ^ 30 < 512"
      using assms by simp
    ultimately show ?thesis
      by (simp only: mod_mult_self3 mod_less)
  qed
  show "arm_is_canonical pa"
    using assms by (simp add: arm_is_canonical_def word_less_nat_alt push_bit_eq_mult)
  show "take_bit 39 pa = pa"
    using assms t [of pa] by (simp add: word_unat_eq_iff)
  show "arm_l1 pa = unat pa div 2 ^ 30"
    using assms by (simp add: arm_index_nat)
  show "arm_kernel_address ?v"
    using v by (simp add: arm_kernel_address_def word_le_nat_alt ARM_KERNEL_VIRTUAL_BASE_def)
  have "unat ?v = unat pa + (2 ^ 25 - 1) * 2 ^ 39"
    using v by simp
  then have "unat ?v mod 2 ^ 39 = unat pa"
    using assms by (simp only: mod_mult_self1 mod_less)
  then show "take_bit 39 ?v = pa"
    using t [of ?v] by (simp add: word_unat_eq_iff)
  show "arm_l1 ?v = unat pa div 2 ^ 30"
    using d by (simp only: arm_index_nat)
qed

lemmas arm_boot_simps = div_ceil_def MAX_PHYSMAP_ENTRIES_def GIGABYTE_def saturating_add_def push_bit_eq_mult
  DEVICE_TREE_BLOB_MAX_SIZE_def MINIMUM_PHYSMAP_SIZE_def ENTRIES_PER_PAGE_TABLE_def

section \<open>Invalidation\<close>

lemma operand_masks: "(0xfffffffffff :: u64) = mask 44" "(0x000fffffffff :: u64) = mask 36"
  by (simp_all add: mask_eq_exp_minus_1)

lemma bit_operand: "bit (w AND mask k) n \<longleftrightarrow> n < k \<and> bit w n" for w :: u64
  by (auto simp: bit_and_iff bit_mask_iff dest: bit_imp_le_length)

lemma tlbi_operand_bits:
  "drop_bit 12 page AND 0xfffffffffff = operand AND 0xfffffffffff \<longleftrightarrow> (\<forall>n < 44. bit page (n + 12) = bit operand n)"
  (is "?l = ?r \<longleftrightarrow> _") for page operand :: u64
proof
  have b: "bit ?l n \<longleftrightarrow> n < 44 \<and> bit page (n + 12)" "bit ?r n \<longleftrightarrow> n < 44 \<and> bit operand n" for n
    unfolding operand_masks bit_operand by (simp_all add: bit_drop_bit_eq add.commute)
  show "\<forall>n < 44. bit page (n + 12) = bit operand n" if "?l = ?r"
    using b that by metis
  show "?l = ?r" if "\<forall>n < 44. bit page (n + 12) = bit operand n"
    by (rule bit_eqI) (use b that in metis)
qed

lemma arm_flush_operand_bit: "bit (arm_flush_operand va) n \<longleftrightarrow> n < 36 \<and> bit va (n + 12)"
  unfolding arm_flush_operand_def operand_masks bit_operand by (simp add: PAGE_SHIFT_def bit_drop_bit_eq add.commute)

lemma arm_flush_keeps:
  "(align_down va, pa) \<in> tlb (arm_flush_address va mmu) \<longleftrightarrow>
    (align_down va, pa) \<in> tlb mmu \<and> \<not> (\<forall>n < 44. 36 \<le> n \<longrightarrow> \<not> bit va (n + 12))"
proof -
  have "bit (align_down va) (n + 12) = bit va (n + 12)" for n
    by (auto simp: align_down_def PAGE_MASK_mask bit_and_iff bit_not_iff bit_mask_iff dest: bit_imp_le_length)
  then show ?thesis
    by (auto simp: arm_flush_address_def tlbi_vale1is_def tlbi_operand_bits arm_flush_operand_bit)
qed

lemma arm_kernel_high_bit:
  assumes "arm_kernel_address va"
  shows "bit va 48"
proof -
  have "unat va div 2 ^ 48 = unat va div 2 ^ 39 div 2 ^ 9"
    by (simp flip: div_mult2_eq)
  then have "odd (unat va div 2 ^ 48)"
    using arm_kernel_upper [OF assms] by simp
  then have "bit (unat va) 48"
    by (simp add: bit_iff_odd)
  then show ?thesis
    by (simp add: bit_unsigned_iff)
qed

section \<open>A small instance\<close>

text \<open>The kernel table with the tables of the first kernel stack pages, beside the sample allocator.\<close>

definition arm_sample_statics :: ArmStatics where
  "arm_sample_statics = \<lparr>low_table = 0x40100000, high_table = 0x40200000\<rparr>"

definition arm_sample_tables :: table_memory where
  "arm_sample_tables t i =
     (if t = 0x40200000 \<and> i = 511 then 0x40301003 else if t = 0x40301000 \<and> i = 0 then 0x40300003 else 0)"

definition arm_sample :: "unit mmu_memory" where
  "arm_sample =
     \<lparr>mem_pmm = sample_pmm, mem_tables = \<lparr>page_tables = arm_sample_tables, physmap_end_gb = 3, tlb = {}\<rparr>\<rparr>"

definition arm_blank :: ArmMmu where
  "arm_blank =
     \<lparr>page_tables = (\<lambda>_ _. 0), physmap_end_gb = 0, tlb = {}, mair_el1 = 0, tcr_el1 = 0, ttbr0_el1 = 0,
      ttbr1_el1 = 0, sctlr_el1 = 0\<rparr>"

lemma arm_sample_root [simp]: "arm_root arm_sample_statics = 0x40200000"
  by (simp add: arm_sample_statics_def arm_static_physical_address_def ARM_KERNEL_VIRTUAL_BASE_def)

lemma arm_sample_entries:
  "arm_is_table 0x40301003" "arm_output_address 0x40301003 = Some 0x40301000"
  "arm_is_table 0x40300003" "arm_output_address 0x40300003 = Some 0x40300000" "\<not> arm_is_table 0" "\<not> arm_is_valid 0"
  by (simp_all add: arm_is_table_def arm_is_valid_def ARM_VALID_def ARM_TABLE_OR_PAGE_def arm_output_address_def ARM_ADDRESS_MASK_def)

lemma arm_sample_reach:
  "reach arm_format arm_sample_tables 0x40200000 p =
    (if p = [] then Some 0x40200000 else if p = [511] then Some 0x40301000 else if p = [511, 0] then Some 0x40300000 else None)"
proof -
  have "reach arm_format arm_sample_tables 0x40300000 q = (if q = [] then Some 0x40300000 else None)" for q
    by (cases q) (simp_all add: arm_sample_tables_def arm_format_def arm_sample_entries)
  then have "reach arm_format arm_sample_tables 0x40301000 q =
      (if q = [] then Some 0x40301000 else if q = [0] then Some 0x40300000 else None)" for q
    by (cases q) (auto simp: arm_sample_tables_def arm_format_def arm_sample_entries)
  then show ?thesis
    by (cases p) (auto simp: arm_sample_tables_def arm_format_def arm_sample_entries)
qed

lemma arm_sample_ok: "memory_ok arm_format (2 ^ 48) 3 (arm_root arm_sample_statics) arm_sample"
proof -
  have "table_tree arm_format 3 arm_sample_tables 0x40200000"
    by (auto simp: table_tree_def arm_sample_reach split: if_splits)
  moreover have "tables_of arm_format 3 arm_sample_tables 0x40200000 \<subseteq> {0x40200000, 0x40301000, 0x40300000}"
    by (auto simp: tables_of_def arm_sample_reach split: if_splits)
  moreover have "unat (handle_address sample_pmm h) < 2 ^ 48" if "managed sample_pmm h" for h
    using that by (auto simp: sample_managed sample_handle_address)
  ultimately show ?thesis
    using sample_pool(1) by (auto simp: memory_ok_def arm_sample_def sample_addresses)
qed

lemma arm_sample_address:
  "arm_kernel_address arm_kernel_stack_region_base" "is_page_aligned arm_kernel_stack_region_base"
  "arm_l1 arm_kernel_stack_region_base = 511" "arm_l2 arm_kernel_stack_region_base = 0" "arm_l3 arm_kernel_stack_region_base = 0"
  by (simp_all add: arm_kernel_address_def arm_kernel_stack_region_base_def ARM_KERNEL_VIRTUAL_BASE_def
      KERNEL_STACK_REGION_OFFSET_def is_page_aligned_iff arm_index_nat GIGABYTE_def ENTRIES_PER_PAGE_TABLE_def push_bit_eq_mult)

lemma arm_sample_map:
  "\<exists>s'. arm_map_kernel_stack_page arm_sample_statics arm_kernel_stack_region_base 0x50000000 arm_sample = Inr (Inr (), s')"
proof -
  have al: "is_page_aligned 0x50000000"
    by (simp add: is_page_aligned_iff)
  then obtain intent where i: "MappingIntent_new 0x50000000 Page4K NormalMemory KERNEL_READ_WRITE = Some intent"
    by (simp add: MappingIntent_new_def mapping_is_aligned_def PAGE_SIZE_def)
  obtain e where e: "fmt_from_mapping arm_format intent = Inr e"
    using arm_pte.make_leaf [OF _ i] by auto
  have v: "fmt_valid arm_format 0x40301003" "fmt_valid arm_format 0x40300003"
      "fmt_table arm_format 0x40301003" "fmt_table arm_format 0x40300003"
      "fmt_output arm_format 0x40301003 = Some 0x40301000" "fmt_output arm_format 0x40300003 = Some 0x40300000"
    using arm_sample_entries arm_pte.table_valid by (simp_all add: arm_format_def)
  show ?thesis
    using arm_kernel_canonical [OF arm_sample_address(1)] arm_sample_address al v arm_pte.empty_invalid
    by (simp add: arm_map_kernel_stack_page_def arm_map_kernel_page_with_alloc_def arm_map_page_with_alloc_def
        ensure_table_def arm_sample_def arm_sample_tables_def install_page_def with_tables_def i e Let_def)
qed

section \<open>Properties\<close>

lemma arm_boot_range_mapping:
  assumes "boot_range kernel_load dtb = (start_gb, end_gb)" "start_gb \<le> end_gb" "unat end_gb \<le> 512"
    and "arm_low st \<noteq> arm_root st" and "new_end = min (div_ceil max_end GIGABYTE) MAX_PHYSMAP_ENTRIES"
  shows "\<exists>mmu1 mmu2. arm_init st kernel_load dtb mmu = Inr mmu1 \<and> arm_expand_physmap st max_end mmu1 = Inr mmu2 \<and>
    ttbr0_el1 mmu1 = arm_low st \<and> ttbr1_el1 mmu1 = arm_root st \<and> bit (sctlr_el1 mmu1) 0 \<and>
    (\<forall>pa. unat pa < 2 ^ 39 \<longrightarrow>
       arm_translate (page_tables mmu1) (arm_low st) pa =
         (let gb = unat pa div 2 ^ 30 in if gb = 0 \<or> unat start_gb \<le> gb \<and> gb < unat end_gb then Some pa else None) \<and>
       arm_translate (page_tables mmu1) (arm_root st) (arm_physical_to_virtual pa) =
         arm_translate (page_tables mmu1) (arm_low st) pa \<and>
       arm_translate (page_tables mmu2) (arm_root st) (arm_physical_to_virtual pa) =
         (let gb = unat pa div 2 ^ 30 in
          if gb = 0 \<or> unat start_gb \<le> gb \<and> gb < max (unat end_gb) (unat new_end) then Some pa else None)) \<and>
    (\<forall>a. arm_translate (page_tables (arm_remove_identity_mapping st mmu2)) (arm_low st) a = None \<and>
       arm_translate (page_tables (arm_remove_identity_mapping st mmu2)) (arm_root st) a =
         arm_translate (page_tables mmu2) (arm_root st) a)"
proof -
  let ?P = "\<lambda>i. i = 0 \<or> unat start_gb \<le> i \<and> i < unat end_gb"
  obtain mmu1 where i: "arm_init st kernel_load dtb mmu = Inr mmu1" "physmap_end_gb mmu1 = end_gb"
      "ttbr0_el1 mmu1 = arm_low st" "ttbr1_el1 mmu1 = arm_root st" "bit (sctlr_el1 mmu1) 0"
      "block_table arm_format ?P (page_tables mmu1 (arm_low st))" "block_table arm_format ?P (page_tables mmu1 (arm_root st))"
    using arm_init_tables [OF assms(1-3), of st mmu] by auto
  let ?Q = "\<lambda>i. ?P i \<or> unat end_gb \<le> i \<and> i < unat new_end \<and> i \<noteq> 0"
  obtain mmu2 where x: "arm_expand_physmap st max_end mmu1 = Inr mmu2"
      "block_table arm_format ?Q (page_tables mmu2 (arm_root st))"
    using arm_expand_tables [OF i(7) assms(5)] i(2) by auto
  have Q: "?Q gb \<longleftrightarrow> gb = 0 \<or> unat start_gb \<le> gb \<and> gb < max (unat end_gb) (unat new_end)" for gb
    using assms(2) by (auto simp: word_le_nat_alt)
  note physmap = arm_kernel_canonical [OF arm_physmap_address(4)]
  have t: "arm_translate (page_tables mmu1) (arm_low st) pa = (if ?P (unat pa div 2 ^ 30) then Some pa else None)"
    "arm_translate (page_tables mmu1) (arm_root st) (arm_physical_to_virtual pa) = (if ?P (unat pa div 2 ^ 30) then Some pa else None)"
    "arm_translate (page_tables mmu2) (arm_root st) (arm_physical_to_virtual pa) = (if ?Q (unat pa div 2 ^ 30) then Some pa else None)"
    if "unat pa < 2 ^ 39" for pa
    using arm_block_table_translate [where m = "page_tables mmu1" and t = "arm_low st", OF i(6) arm_physmap_address(1) [OF that]]
      arm_block_table_translate [where m = "page_tables mmu1" and t = "arm_root st", OF i(7) physmap [OF that]]
      arm_block_table_translate [where m = "page_tables mmu2" and t = "arm_root st", OF x(2) physmap [OF that]]
    by (simp_all only: arm_physmap_address(2-6) [OF that])
  have low: "arm_translate (page_tables (arm_remove_identity_mapping st mmu2)) (arm_low st) a = None" for a
    by (simp add: arm_remove_identity_mapping_def arm_flush_local_def fill_table_def arm_translate_def arm_is_valid_def)
  have high: "arm_translate (page_tables (arm_remove_identity_mapping st mmu2)) (arm_root st) a =
      arm_translate (page_tables mmu2) (arm_root st) a" for a
  proof -
    have "arm_low st \<notin> tables_of arm_format 3 (page_tables mmu2) (arm_root st)"
      using arm_block_table_tree(2) [where m = "page_tables mmu2" and t = "arm_root st", OF x(2)] assms(4) by simp
    then show ?thesis
      using resolve_other_page [of "arm_low st" arm_format 3 "page_tables mmu2" "arm_root st" "arm_levels a" "\<lambda>_. 0" a]
        arm_space.levels_range arm_space.levels_length
      by (simp add: arm_remove_identity_mapping_def arm_flush_local_def fill_table_def arm_translate_resolve)
  qed
  show ?thesis
    unfolding Let_def Q [symmetric]
    by (intro exI [of _ mmu1] exI [of _ mmu2] conjI allI impI i x t(1) low high) (simp_all only: t)
qed

text \<open>
  C13. Booting maps physical memory where the kernel expects it. After \<open>init\<close> the identity table
  and the physmap translate exactly the first gigabyte and the gigabytes from the first to the last
  byte of the kernel's gigabyte and the device tree, each address to itself; after \<open>expand_physmap\<close>
  the physmap also covers every later gigabyte below the end of RAM, except the last entry, which is
  left to the kernel stacks; and after \<open>remove_identity_mapping\<close> no lower address translates while
  the physmap is unchanged. Memory that boot needs must lie below 512 gigabytes.\<close>
theorem arm_boot_mapping:
  assumes "boot_memory kernel_load dtb \<subseteq> {..<2 ^ 39}" and "arm_low st \<noteq> arm_root st"
  shows "\<exists>mmu1 mmu2. arm_init st kernel_load dtb mmu = Inr mmu1 \<and> arm_expand_physmap st max_end mmu1 = Inr mmu2 \<and>
    ttbr0_el1 mmu1 = arm_low st \<and> ttbr1_el1 mmu1 = arm_root st \<and> bit (sctlr_el1 mmu1) 0 \<and>
    (\<forall>pa. unat pa < 2 ^ 39 \<longrightarrow>
       arm_translate (page_tables mmu1) (arm_low st) pa =
         (let gb = unat pa div 2 ^ 30 in if gb = 0 \<or> gb \<in> boot_gigabytes kernel_load dtb then Some pa else None) \<and>
       arm_translate (page_tables mmu1) (arm_root st) (arm_physical_to_virtual pa) =
         arm_translate (page_tables mmu1) (arm_low st) pa \<and>
       arm_translate (page_tables mmu2) (arm_root st) (arm_physical_to_virtual pa) =
         (let gb = unat pa div 2 ^ 30 in
          if gb = 0 \<or> gb \<in> boot_gigabytes kernel_load dtb \<or>
             (\<forall>b \<in> boot_gigabytes kernel_load dtb. b < gb) \<and> gb * 2 ^ 30 < unat max_end \<and> gb < 511
          then Some pa else None)) \<and>
    (\<forall>a. arm_translate (page_tables (arm_remove_identity_mapping st mmu2)) (arm_low st) a = None \<and>
       arm_translate (page_tables (arm_remove_identity_mapping st mmu2)) (arm_root st) a =
         arm_translate (page_tables mmu2) (arm_root st) a)"
proof -
  obtain start_gb end_gb where r: "boot_range kernel_load dtb = (start_gb, end_gb)" "start_gb < end_gb" "unat end_gb \<le> 512"
      "\<forall>gb. gb \<in> boot_gigabytes kernel_load dtb \<longleftrightarrow> unat start_gb \<le> gb \<and> gb < unat end_gb"
    using boot_range_gigabytes [OF assms(1)] by blast
  show ?thesis
    using arm_boot_range_mapping [OF r(1) less_imp_le [OF r(2)] r(3) assms(2) refl, of mmu max_end]
    unfolding Let_def boot_gigabytes_span [OF r(2,4)] .
qed

lemma arm_sample_gigabytes:
  "boot_memory 0x40080000 0x48000000 \<subseteq> {..<2 ^ 39}" "boot_gigabytes 0x40080000 0x48000000 = {1, 2}"
proof -
  show fits: "boot_memory 0x40080000 0x48000000 \<subseteq> {..<2 ^ 39}"
    by (auto simp: boot_memory_def)
  have range: "boot_range 0x40080000 0x48000000 = (1, 3)"
    by (simp add: boot_range_def arm_boot_simps)
  show "boot_gigabytes 0x40080000 0x48000000 = {1, 2}"
  proof (intro set_eqI)
    fix gb
    obtain start_gb end_gb where "boot_range 0x40080000 0x48000000 = (start_gb, end_gb)"
        "gb \<in> boot_gigabytes 0x40080000 0x48000000 \<longleftrightarrow> unat start_gb \<le> gb \<and> gb < unat end_gb"
      using boot_range_gigabytes [OF fits] by blast
    then show "gb \<in> boot_gigabytes 0x40080000 0x48000000 \<longleftrightarrow> gb \<in> {1, 2}"
      using range by auto
  qed
qed

theorem arm_boot_mapping_witness:
  "\<exists>mmu1 mmu2. arm_init arm_sample_statics 0x40080000 0x48000000 arm_blank = Inr mmu1 \<and>
    arm_expand_physmap arm_sample_statics 0x100000000 mmu1 = Inr mmu2 \<and>
    arm_translate (page_tables mmu1) 0x40100000 0x40080000 = Some 0x40080000 \<and>
    arm_translate (page_tables mmu1) 0x40200000 (arm_physical_to_virtual 0xc0000000) = None \<and>
    arm_translate (page_tables mmu2) 0x40200000 (arm_physical_to_virtual 0xc0000000) = Some 0xc0000000 \<and>
    arm_translate (page_tables (arm_remove_identity_mapping arm_sample_statics mmu2)) 0x40100000 0x40080000 = None"
proof -
  have a: "arm_low arm_sample_statics = 0x40100000"
    by (simp add: arm_sample_statics_def arm_static_physical_address_def ARM_KERNEL_VIRTUAL_BASE_def)
  have "unat (0x40080000 :: usize) < 2 ^ 39" "unat (0xc0000000 :: usize) < 2 ^ 39"
    by simp_all
  note sizes = this
  note boot = arm_boot_mapping [OF arm_sample_gigabytes(1), of arm_sample_statics arm_blank "0x100000000",
      unfolded arm_sample_gigabytes(2) a arm_sample_root]
  have ne: "0x40100000 \<noteq> (0x40200000 :: usize)"
    by simp
  have g: "unat (0x40080000 :: usize) div 2 ^ 30 = 1" "unat (0xc0000000 :: usize) div 2 ^ 30 = 3" "unat (0x100000000 :: usize) = 2 ^ 32"
    by simp_all
  obtain mmu1 mmu2 where i: "arm_init arm_sample_statics 0x40080000 0x48000000 arm_blank = Inr mmu1"
      "arm_expand_physmap arm_sample_statics 0x100000000 mmu1 = Inr mmu2"
    and t: "\<And>pa. unat pa < 2 ^ 39 \<Longrightarrow> arm_translate (page_tables mmu1) 0x40100000 pa =
         (let gb = unat pa div 2 ^ 30 in if gb = 0 \<or> gb \<in> {1, 2} then Some pa else None)"
      "\<And>pa. unat pa < 2 ^ 39 \<Longrightarrow> arm_translate (page_tables mmu1) 0x40200000 (arm_physical_to_virtual pa) =
         arm_translate (page_tables mmu1) 0x40100000 pa"
      "\<And>pa. unat pa < 2 ^ 39 \<Longrightarrow> arm_translate (page_tables mmu2) 0x40200000 (arm_physical_to_virtual pa) =
         (let gb = unat pa div 2 ^ 30 in if gb = 0 \<or> gb \<in> {1, 2} \<or>
             (\<forall>b \<in> {1, 2}. b < gb) \<and> gb * 2 ^ 30 < unat (0x100000000 :: usize) \<and> gb < 511 then Some pa else None)"
      "\<And>x. arm_translate (page_tables (arm_remove_identity_mapping arm_sample_statics mmu2)) 0x40100000 x = None"
    using boot [OF ne] by blast
  show ?thesis
    using i t(1) [OF sizes(1)] t(1,2,3) [OF sizes(2)] t(4) unfolding Let_def g by auto
qed

text \<open>
  C10. Mapping a kernel page through the ARM64 tables never panics. It succeeds only for an address
  without a translation, and then the page translates to the physical page, every other kernel
  address keeps its translation and new tables come from pages that were free. Misaligned addresses
  are rejected; on any error no translation changes, and the error names its cause.\<close>
theorem arm_map_kernel_page:
  assumes "memory_ok arm_format (2 ^ 48) 3 (arm_root st) s" "arm_kernel_address va" "unat pa < 2 ^ 48"
  shows "if \<not> is_page_aligned va \<or> \<not> is_page_aligned pa
    then arm_map_kernel_page_with_alloc st va pa perms (allocate_page_table arm_format) s = Inr (Inl MapNotAligned, s)
    else \<exists>r s'. arm_map_kernel_page_with_alloc st va pa perms (allocate_page_table arm_format) s = Inr (r, s') \<and>
      memory_ok arm_format (2 ^ 48) 3 (arm_root st) s' \<and>
      (case r of
         Inl e \<Rightarrow>
           (\<forall>a. arm_translate (page_tables (mem_tables s')) (arm_root st) a =
             arm_translate (page_tables (mem_tables s)) (arm_root st) a) \<and>
           (e = MapOutOfMemory \<and> free_list (mem_pmm s') = [] \<or>
            e = MapSuperpageConflict \<and>
              blocked_path arm_format (page_tables (mem_tables s')) (arm_root st) [arm_l1 va, arm_l2 va] \<or>
            e = AlreadyMapped \<and> arm_translate (page_tables (mem_tables s)) (arm_root st) va \<noteq> None)
       | Inr _ \<Rightarrow>
           (\<forall>a. arm_kernel_address a \<and> align_down a = va \<longrightarrow>
              arm_translate (page_tables (mem_tables s)) (arm_root st) a = None) \<and>
           (\<forall>a. arm_kernel_address a \<longrightarrow> arm_translate (page_tables (mem_tables s')) (arm_root st) a =
              (if align_down a = va then Some (pa + page_offset a)
               else arm_translate (page_tables (mem_tables s)) (arm_root st) a)))"
  unfolding arm_paths(1) [symmetric]
  by (rule arm_space.map_effect [OF assms, where canonical = arm_is_canonical and perms = perms])
    (use arm_kernel_canonical [OF assms(2)] in \<open>simp_all add: arm_translate_resolve arm_kernel_canonical
      arm_map_kernel_page_with_alloc_def arm_map_page_with_alloc_def arm_paths map_path_def try_bind_assoc\<close>)

theorem arm_map_kernel_page_witness:
  "\<exists>s'. arm_map_kernel_page_with_alloc arm_sample_statics arm_kernel_stack_region_base 0x50000000 KERNEL_READ_WRITE
      (allocate_page_table arm_format) arm_sample = Inr (Inr (), s') \<and>
    arm_translate (page_tables (mem_tables arm_sample)) 0x40200000 arm_kernel_stack_region_base = None \<and>
    arm_translate (page_tables (mem_tables s')) 0x40200000 arm_kernel_stack_region_base = Some 0x50000000"
proof -
  have al: "is_page_aligned 0x50000000" "unat (0x50000000 :: usize) < 2 ^ 48"
    by (simp_all add: is_page_aligned_iff)
  have va: "align_down arm_kernel_stack_region_base = arm_kernel_stack_region_base" "page_offset arm_kernel_stack_region_base = 0"
    using arm_sample_address(2) by (simp_all add: arm_space.aligned_align_down is_page_aligned_def)
  obtain s' where "arm_map_kernel_page_with_alloc arm_sample_statics arm_kernel_stack_region_base 0x50000000
      KERNEL_READ_WRITE (allocate_page_table arm_format) arm_sample = Inr (Inr (), s')"
    using arm_sample_map unfolding arm_map_kernel_stack_page_def by blast
  with arm_map_kernel_page [OF arm_sample_ok arm_sample_address(1) al(2), of KERNEL_READ_WRITE] show ?thesis
    using arm_sample_address(1,2) al(1) va by simp
qed

text \<open>
  C12. Unmapping a kernel stack page undoes mapping it: after a successful
  \<open>map_kernel_stack_page\<close>, \<open>unmap_kernel_stack_page\<close> returns the same physical page and every
  kernel address translates again as it did before; the table pages stay allocated.\<close>
theorem arm_map_unmap:
  assumes "memory_ok arm_format (2 ^ 48) 3 (arm_root st) s" "arm_kernel_address va" "is_page_aligned va"
    and "is_page_aligned pa" "unat pa < 2 ^ 48"
    and "arm_map_kernel_stack_page st va pa s = Inr (Inr (), s')"
  shows "\<exists>s''. arm_unmap_kernel_stack_page st va s' = Inr (Inr pa, s'') \<and>
    memory_ok arm_format (2 ^ 48) 3 (arm_root st) s'' \<and> mem_pmm s'' = mem_pmm s' \<and>
    (\<forall>a. arm_kernel_address a \<longrightarrow> arm_translate (page_tables (mem_tables s'')) (arm_root st) a =
       arm_translate (page_tables (mem_tables s)) (arm_root st) a)"
  using arm_mapper.map_then_unmap [OF assms] by (auto simp: arm_translate_resolve)

theorem arm_map_unmap_witness:
  "\<exists>s' s''. arm_map_kernel_stack_page arm_sample_statics arm_kernel_stack_region_base 0x50000000 arm_sample = Inr (Inr (), s') \<and>
    arm_unmap_kernel_stack_page arm_sample_statics arm_kernel_stack_region_base s' = Inr (Inr 0x50000000, s'') \<and>
    arm_translate (page_tables (mem_tables s'')) 0x40200000 arm_kernel_stack_region_base =
      arm_translate (page_tables (mem_tables arm_sample)) 0x40200000 arm_kernel_stack_region_base"
proof -
  have al: "is_page_aligned 0x50000000" "unat (0x50000000 :: usize) < 2 ^ 48"
    by (simp_all add: is_page_aligned_iff)
  obtain s' where s': "arm_map_kernel_stack_page arm_sample_statics arm_kernel_stack_region_base 0x50000000 arm_sample = Inr (Inr (), s')"
    using arm_sample_map by blast
  show ?thesis
    using s' arm_map_unmap [OF arm_sample_ok arm_sample_address(1,2) al s'] arm_sample_address(1) by auto
qed

text \<open>
  C15. How far \<open>flush_address\<close> reaches. For an address of the lower half it drops the cached
  translation of the page. For a kernel address it does not: the operand is cut to 36 bits, so the
  upper address bits that \<open>tlbi vale1is\<close> compares are zero, and whatever the translation lookaside
  buffer holds for the kernel page stays there after the page is unmapped.\<close>
theorem arm_flush_reach:
  "(arm_kernel_address va \<longrightarrow> (align_down va, pa) \<in> tlb (arm_flush_address va mmu) \<longleftrightarrow> (align_down va, pa) \<in> tlb mmu) \<and>
   (unat va < 2 ^ 48 \<longrightarrow> (align_down va, pa) \<notin> tlb (arm_flush_address va mmu))"
proof -
  have "36 \<le> (36 :: nat)" "(36 :: nat) < 44"
    by simp_all
  moreover have "bit va (36 + 12)" if "arm_kernel_address va"
    using arm_kernel_high_bit [OF that] by simp
  moreover have "\<not> bit va (n + 12)" if "unat va < 2 ^ 48" "36 \<le> n" for n
    using below_bits [OF that(1)] that(2) by simp
  ultimately show ?thesis
    unfolding arm_flush_keeps by blast
qed

theorem arm_flush_reach_witness:
  "(0xffffff8000001000, 0x50000000) \<in> tlb (arm_flush_address 0xffffff8000001000 (arm_blank\<lparr>tlb := {(0xffffff8000001000, 0x50000000)}\<rparr>)) \<and>
   (0x1000, 0x50000000) \<notin> tlb (arm_flush_address 0x1000 (arm_blank\<lparr>tlb := {(0x1000, 0x50000000)}\<rparr>))"
proof -
  have "align_down 0xffffff8000001000 = 0xffffff8000001000" "align_down 0x1000 = 0x1000"
      "arm_kernel_address 0xffffff8000001000" "unat (0x1000 :: usize) < 2 ^ 48"
    by (simp_all add: word_unat_eq_iff unat_align_down arm_kernel_address_def ARM_KERNEL_VIRTUAL_BASE_def)
  then show ?thesis
    using arm_flush_reach [of "0xffffff8000001000" "0x50000000" "arm_blank\<lparr>tlb := {(0xffffff8000001000, 0x50000000)}\<rparr>"]
      arm_flush_reach [of "0x1000" "0x50000000" "arm_blank\<lparr>tlb := {(0x1000, 0x50000000)}\<rparr>"] by simp
qed

end
