(* ===== verification/Riscv_Address_Space.thy ===== *)
theory Riscv_Address_Space
  imports Riscv_Mmu
begin

text \<open>
  What the RISC-V memory management unit gives the kernel: the boot mapping, the effect of mapping
  and unmapping a kernel page on every kernel address, and that the translation lookaside buffer
  and the cached steps of the table walk never go stale.
\<close>

unbundle bit_operations_syntax

section \<open>The boot mapping\<close>

lemma GIGAPAGE_MASK_mask: "GIGAPAGE_MASK = mask 30"
  by (simp add: GIGAPAGE_MASK_def GIGABYTE_def mask_eq_exp_minus_1 push_bit_eq_mult)

lemma KERNEL_VPN3_nat [simp]: "KERNEL_VPN3 = 256"
  by (simp add: KERNEL_VPN3_def RV_KERNEL_VIRTUAL_BASE_def drop_bit_eq_div)

lemma rv_boot_blocks:
  assumes "gb < 512"
  shows "\<exists>e. kernel_leaf (of_nat gb * GIGABYTE) can_execute = Inr e \<and> block_at rv_format e gb"
proof -
  obtain intent where i: "MappingIntent_new (of_nat gb * GIGABYTE) Block1G NormalMemory
      \<lparr>writable = True, executable = can_execute, user_accessible = False\<rparr> = Some intent"
      "intent_address intent = of_nat gb * GIGABYTE"
    using gigabyte_aligned [OF assms] by (simp add: MappingIntent_new_def)
  then show ?thesis
    using rv_mapping_outcome [of intent] gigabyte_aligned [OF assms]
    by (auto simp: kernel_leaf_def block_at_def rv_format_def rv_is_branch_def)
qed

abbreviation rv_identity :: "RiscvStatics \<Rightarrow> PhysicalAddress" where
  "rv_identity st \<equiv> rv_static_physical_address (identity_l2_table st)"

abbreviation rv_physmap :: "RiscvStatics \<Rightarrow> PhysicalAddress" where
  "rv_physmap st \<equiv> rv_static_physical_address (physmap_l2_table st)"

text \<open>The static tables: three pages.\<close>

definition rv_statics_ok :: "RiscvStatics \<Rightarrow> bool" where
  "rv_statics_ok st \<longleftrightarrow>
     is_page_aligned (rv_identity st) \<and> is_page_aligned (rv_physmap st) \<and>
     distinct [rv_root st, rv_identity st, rv_physmap st]"

text \<open>
  The shape of the tables after \<open>init\<close>: the root reaches the identity table unless it was removed
  and the physmap table, and both hold gigapages.
\<close>

definition rv_boot_tables :: "RiscvStatics \<Rightarrow> bool \<Rightarrow> (nat \<Rightarrow> bool) \<Rightarrow> (nat \<Rightarrow> bool) \<Rightarrow> table_memory \<Rightarrow> bool" where
  "rv_boot_tables st low P Q m \<longleftrightarrow>
     (\<forall>i < 512. if i = 0 \<and> low then rv_is_branch (m (rv_root st) i) \<and> rv_output_address (m (rv_root st) i) = Some (rv_identity st)
        else if i = 256 then rv_is_branch (m (rv_root st) i) \<and> rv_output_address (m (rv_root st) i) = Some (rv_physmap st)
        else m (rv_root st) i = 0) \<and>
     block_table rv_format P (m (rv_identity st)) \<and> block_table rv_format Q (m (rv_physmap st))"

lemma rv_boot_reach:
  assumes "rv_boot_tables st low P Q m" "in_range p"
  shows "reach rv_format m (rv_root st) p =
    (if p = [] then Some (rv_root st) else if low \<and> p = [0] then Some (rv_identity st)
     else if p = [256] then Some (rv_physmap st) else None)"
proof (cases p)
  case (Cons i q)
  have b: "block_table rv_format P (m (rv_identity st))" "block_table rv_format Q (m (rv_physmap st))"
    using assms(1) by (simp_all add: rv_boot_tables_def)
  have r: "reach rv_format m (rv_identity st) q = (if q = [] then Some (rv_identity st) else None)"
      "reach rv_format m (rv_physmap st) q = (if q = [] then Some (rv_physmap st) else None)"
    using rv_pte.block_table_reach [where m = m and t = "rv_identity st", OF b(1)]
      rv_pte.block_table_reach [where m = m and t = "rv_physmap st", OF b(2)] assms(2) Cons by simp_all
  have i: "if i = 0 \<and> low then rv_is_branch (m (rv_root st) i) \<and> rv_output_address (m (rv_root st) i) = Some (rv_identity st)
      else if i = 256 then rv_is_branch (m (rv_root st) i) \<and> rv_output_address (m (rv_root st) i) = Some (rv_physmap st)
      else m (rv_root st) i = 0"
    using assms Cons by (simp add: rv_boot_tables_def ENTRIES_PER_PAGE_TABLE_def)
  show ?thesis
    using Cons i r rv_pte.empty_no_table rv_pte.table_page_id by (auto simp: rv_format_def split: if_splits)
qed simp

lemma rv_boot_tree:
  assumes "rv_boot_tables st low P Q m" "rv_statics_ok st"
  shows "table_tree rv_format 4 m (rv_root st)" "tables_of rv_format 4 m (rv_root st) \<subseteq> {rv_root st, rv_identity st, rv_physmap st}"
  using rv_boot_reach [OF assms(1)] assms(2)
  by (auto simp: table_tree_def tables_of_def rv_statics_ok_def split: if_splits)

lemma rv_boot_translate:
  assumes "rv_boot_tables st low P Q m" "rv_is_canonical a"
  shows "vpn3 a = 0 \<Longrightarrow> rv_translate m (rv_root st) a = (if low \<and> P (vpn2 a) then Some (take_bit 39 a) else None)"
    and "vpn3 a = 256 \<Longrightarrow> rv_translate m (rv_root st) a = (if Q (vpn2 a) then Some (take_bit 39 a) else None)"
proof -
  have b: "block_table rv_format P (m (rv_identity st))" "block_table rv_format Q (m (rv_physmap st))"
    using assms(1) by (simp_all add: rv_boot_tables_def)
  note b1 = rv_pte.block_table_resolve [where m = m and t = "rv_identity st", OF b(1) rv_index_nat(2) GIGAPAGE_MASK_mask]
  note b2 = rv_pte.block_table_resolve [where m = m and t = "rv_physmap st", OF b(2) rv_index_nat(2) GIGAPAGE_MASK_mask]
  have r: "if low then rv_is_branch (m (rv_root st) 0) \<and> rv_output_address (m (rv_root st) 0) = Some (rv_identity st)
      else m (rv_root st) 0 = 0"
      "rv_is_branch (m (rv_root st) 256)" "rv_output_address (m (rv_root st) 256) = Some (rv_physmap st)"
    using assms(1) by (auto simp: rv_boot_tables_def)
  show "rv_translate m (rv_root st) a = (if low \<and> P (vpn2 a) then Some (take_bit 39 a) else None)" if "vpn3 a = 0"
    using that r(1) b1 assms(2) rv_pte.empty_invalid rv_pte.table_page_id
    by (auto simp: rv_translate_resolve rv_levels_def rv_format_def rv_is_branch_def split: if_splits)
  show "rv_translate m (rv_root st) a = (if Q (vpn2 a) then Some (take_bit 39 a) else None)" if "vpn3 a = 256"
    using that r(2,3) b2 assms(2) rv_pte.table_page_id
    by (simp add: rv_translate_resolve rv_levels_def rv_format_def rv_is_branch_def)
qed

lemma rv_init_tables:
  assumes range: "boot_range kernel_load dtb = (start_gb, end_gb)" "start_gb \<le> end_gb" "unat end_gb \<le> 512"
    and st: "rv_statics_ok st"
  shows "\<exists>mmu'. rv_init st kernel_load dtb mmu = Inr mmu' \<and> physmap_end_gb mmu' = end_gb \<and> tlb mmu' = {} \<and>
    satp mmu' = sv48 (rv_root st) 0 \<and>
    rv_boot_tables st True (\<lambda>i. i = 0 \<or> unat start_gb \<le> i \<and> i < unat end_gb)
      (\<lambda>i. i = 0 \<or> unat start_gb \<le> i \<and> i < unat end_gb) (page_tables mmu')"
proof -
  let ?gbs = "[unat start_gb..<unat end_gb]" and ?ts = "[rv_identity st, rv_physmap st]"
  have P: "(\<lambda>i. i = 0 \<or> i \<in> set ?gbs \<and> i \<noteq> 0) = (\<lambda>i. i = 0 \<or> unat start_gb \<le> i \<and> i < unat end_gb)"
    by auto
  have ok: "rv_validate_boot_range start_gb end_gb = Inr ()"
    using range(2,3) by (auto simp: rv_validate_boot_range_def word_less_nat_alt word_le_nat_alt MAX_BOOT_GIGAPAGES_def
        ENTRIES_PER_PAGE_TABLE_def)
  obtain d where d: "kernel_leaf 0 False = Inr d" "block_at rv_format d 0"
    using rv_boot_blocks [of 0] by auto
  let ?m0 = "fill_table (rv_physmap st) (fill_table (rv_identity st) (fill_table (rv_root st) (page_tables mmu)))"
  obtain m1 where m1: "store_all ?ts 0 d ?m0 = Inr m1" "\<forall>t j. m1 t j = (if t \<in> set ?ts \<and> j = 0 then d else ?m0 t j)"
    using store_all_spec [of 0 ?ts d ?m0] by (auto simp: ENTRIES_PER_PAGE_TABLE_def)
  have t1: "block_table rv_format (\<lambda>i. i = 0) (m1 t)" if "t \<in> set ?ts" for t
    unfolding block_table_def using that m1(2) d(2) by (auto simp: fill_table_def)
  have r1: "m1 (rv_root st) = (\<lambda>_. 0)"
    using m1(2) st by (auto simp: rv_statics_ok_def fill_table_def)
  obtain m2 where m2: "map_gigabytes (\<lambda>address. kernel_leaf address True) ?ts ?gbs m1 = Inr m2"
      "\<forall>t P. t \<in> set ?ts \<and> block_table rv_format P (m1 t) \<longrightarrow>
        block_table rv_format (\<lambda>i. P i \<or> i \<in> set ?gbs \<and> i \<noteq> 0) (m2 t)"
      "\<forall>t. t \<notin> set ?ts \<longrightarrow> m2 t = m1 t"
    using map_gigabytes_blocks [of "\<lambda>address. kernel_leaf address True" rv_format ?gbs ?ts m1] rv_boot_blocks range(3) by auto
  obtain b1 b2 where b: "rv_branch (rv_identity st) = Some b1" "rv_is_branch b1" "rv_output_address b1 = Some (rv_identity st)"
      "rv_branch (rv_physmap st) = Some b2" "rv_is_branch b2" "rv_output_address b2 = Some (rv_physmap st)"
    using rv_branch_outcome st unfolding rv_statics_ok_def by blast
  let ?m = "write_entry (rv_root st) 256 b2 (write_entry (rv_root st) 0 b1 m2)"
  have keep: "?m t = m2 t" if "t \<in> set ?ts" for t
    using that st by (auto simp: rv_statics_ok_def write_entry_def)
  have t: "block_table rv_format (\<lambda>i. i = 0 \<or> unat start_gb \<le> i \<and> i < unat end_gb) (?m t)" if "t \<in> set ?ts" for t
    using m2(2) [rule_format, of t "\<lambda>i. i = 0"] t1 [OF that] that unfolding P keep [OF that] by simp
  have "m2 (rv_root st) = (\<lambda>_. 0)"
    using m2(3) r1 st by (simp add: rv_statics_ok_def)
  then have "rv_boot_tables st True (\<lambda>i. i = 0 \<or> unat start_gb \<le> i \<and> i < unat end_gb)
      (\<lambda>i. i = 0 \<or> unat start_gb \<le> i \<and> i < unat end_gb) ?m"
    using t b(2,3,5,6) unfolding rv_boot_tables_def by (simp add: write_entry_def)
  then show ?thesis
    unfolding rv_init_def range(1) Let_def
    using ok d(1) m1(1) m2(1) b(1,4)
    by (simp add: store_entry_def ENTRIES_PER_PAGE_TABLE_def rv_flush_all_def write_satp_def)
qed

lemma rv_expand_tables:
  assumes "rv_boot_tables st low P Q (page_tables mmu)" "rv_statics_ok st"
    and new_end_def: "new_end = min (div_ceil max_end GIGABYTE) MAX_PHYSMAP_ENTRIES"
  shows "\<exists>mmu'. rv_expand_physmap st max_end mmu = Inr mmu' \<and>
    physmap_end_gb mmu' = max (physmap_end_gb mmu) new_end \<and>
    rv_boot_tables st low P (\<lambda>i. Q i \<or> unat (physmap_end_gb mmu) \<le> i \<and> i < unat new_end \<and> i \<noteq> 0) (page_tables mmu')"
proof -
  let ?gbs = "[unat (physmap_end_gb mmu)..<unat new_end]"
  have n: "unat new_end \<le> 511"
    by (simp add: new_end_def min_def word_le_nat_alt)
  obtain m2 where m2: "map_gigabytes (\<lambda>address. kernel_leaf address True) [rv_physmap st] ?gbs (page_tables mmu) = Inr m2"
      "\<forall>t P. t \<in> set [rv_physmap st] \<and> block_table rv_format P (page_tables mmu t) \<longrightarrow>
        block_table rv_format (\<lambda>i. P i \<or> i \<in> set ?gbs \<and> i \<noteq> 0) (m2 t)"
      "\<forall>t. t \<notin> set [rv_physmap st] \<longrightarrow> m2 t = page_tables mmu t"
    using map_gigabytes_blocks [of "\<lambda>address. kernel_leaf address True" rv_format ?gbs "[rv_physmap st]" "page_tables mmu"]
      rv_boot_blocks n by auto
  have Q: "(\<lambda>i. Q i \<or> i \<in> set ?gbs \<and> i \<noteq> 0) = (\<lambda>i. Q i \<or> unat (physmap_end_gb mmu) \<le> i \<and> i < unat new_end \<and> i \<noteq> 0)"
    by auto
  have keep: "m2 (rv_root st) = page_tables mmu (rv_root st)" "m2 (rv_identity st) = page_tables mmu (rv_identity st)"
    using m2(3) assms(2) by (auto simp: rv_statics_ok_def)
  have "rv_boot_tables st low P (\<lambda>i. Q i \<or> unat (physmap_end_gb mmu) \<le> i \<and> i < unat new_end \<and> i \<noteq> 0) m2"
    using assms(1) m2(2) [rule_format, of "rv_physmap st" Q] unfolding Q rv_boot_tables_def keep by simp
  then show ?thesis
    using m2(1) unfolding rv_expand_physmap_def Let_def new_end_def [symmetric]
    by (auto simp: rv_flush_all_def max_def)
qed

lemma rv_remove_tables:
  assumes "rv_boot_tables st low P Q (page_tables mmu)" "rv_statics_ok st"
  shows "rv_boot_tables st False P Q (page_tables (rv_remove_identity_mapping st mmu))"
  using assms by (auto simp: rv_boot_tables_def rv_remove_identity_mapping_def rv_flush_all_def write_entry_def rv_statics_ok_def)

lemma rv_physmap_address:
  assumes "unat pa < 2 ^ 39"
  shows "rv_is_canonical pa" "take_bit 39 pa = pa" "vpn3 pa = 0" "vpn2 pa = unat pa div 2 ^ 30"
    "rv_kernel_address (rv_physical_to_virtual pa)" "take_bit 39 (rv_physical_to_virtual pa) = pa"
    "vpn3 (rv_physical_to_virtual pa) = 256" "vpn2 (rv_physical_to_virtual pa) = unat pa div 2 ^ 30"
proof -
  let ?v = "rv_physical_to_virtual pa"
  have t: "unat (take_bit 39 a) = unat a mod 2 ^ 39" for a :: usize
    by (metis take_bit_eq_mod unsigned_take_bit_eq)
  have v: "unat ?v = unat pa + (2 ^ 64 - 2 ^ 47)"
    using assms unfolding rv_physical_to_virtual_def RV_KERNEL_VIRTUAL_BASE_def
    by (subst unat_add_no_overflow) simp_all
  have v39: "unat ?v = unat pa + (2 ^ 25 - 256) * 2 ^ 39"
    using v by simp
  have "unat ?v div 2 ^ 39 = (2 ^ 25 - 256) + unat pa div 2 ^ 39"
    unfolding v39 by (simp only: div_mult_self1 power_not_zero zero_neq_numeral not_False_eq_True)
  then show "vpn3 ?v = 256"
    using assms by (simp add: rv_index_nat)
  have d: "unat ?v div 2 ^ 30 mod 512 = unat pa div 2 ^ 30"
  proof -
    have "unat ?v = unat pa + (2 ^ 25 - 256) * 512 * 2 ^ 30"
      using v by simp
    then have "unat ?v div 2 ^ 30 = (2 ^ 25 - 256) * 512 + unat pa div 2 ^ 30"
      by (simp only: div_mult_self1 power_not_zero zero_neq_numeral not_False_eq_True)
    moreover have "unat pa div 2 ^ 30 < 512"
      using assms by simp
    ultimately show ?thesis
      by (simp only: mod_mult_self3 mod_less)
  qed
  show "rv_is_canonical pa"
    using assms by (simp add: rv_is_canonical_def LOWER_CANONICAL_LIMIT_def word_less_nat_alt push_bit_eq_mult)
  show "take_bit 39 pa = pa"
    using assms t [of pa] by (simp add: word_unat_eq_iff)
  show "vpn3 pa = 0" "vpn2 pa = unat pa div 2 ^ 30"
    using assms by (simp_all add: rv_index_nat)
  show "rv_kernel_address ?v"
    using v by (simp add: rv_kernel_address_def word_le_nat_alt RV_KERNEL_VIRTUAL_BASE_def)
  have "unat ?v mod 2 ^ 39 = unat pa"
    using assms unfolding v39 by (simp only: mod_mult_self1 mod_less)
  then show "take_bit 39 ?v = pa"
    using t [of ?v] by (simp add: word_unat_eq_iff)
  show "vpn2 ?v = unat pa div 2 ^ 30"
    using d by (simp only: rv_index_nat)
qed

lemma rv_low_address: "rv_is_canonical a \<Longrightarrow> \<not> rv_kernel_address a \<Longrightarrow> vpn3 a < 256"
proof -
  assume "rv_is_canonical a" "\<not> rv_kernel_address a"
  then have "unat a < 2 ^ 47"
    by (simp add: rv_is_canonical_def rv_kernel_address_def LOWER_CANONICAL_LIMIT_def word_less_nat_alt push_bit_eq_mult)
  then show ?thesis
    by (simp add: rv_index_nat)
qed

lemma rv_boot_lower:
  assumes "rv_boot_tables st False P Q m" "\<not> rv_kernel_address a"
  shows "rv_translate m (rv_root st) a = None"
proof (cases "rv_is_canonical a")
  case True
  have "m (rv_root st) (vpn3 a) = 0"
    using assms(1) rv_low_address [OF True assms(2)] by (auto simp: rv_boot_tables_def split: if_splits)
  then show ?thesis
    by (simp add: rv_translate_def rv_is_valid_def)
qed (simp add: rv_translate_def)

section \<open>Fences\<close>

lemma align_down_same_page: "drop_bit 12 a = drop_bit 12 b \<longleftrightarrow> align_down a = align_down b" for a b :: usize
proof -
  have "unat (drop_bit 12 x) = unat x div 4096" for x :: usize
    using unat_drop_bit_eq [of 12 x] by (simp add: drop_bit_eq_div)
  then have "drop_bit 12 a = drop_bit 12 b \<longleftrightarrow> unat a div 4096 = unat b div 4096"
    by (metis word_unat_eq_iff)
  then show ?thesis
    by (simp add: word_unat_eq_iff [of "align_down a"] unat_align_down minus_mod_eq_mult_div)
qed

interpretation rv_fenced: fenced_space rv_format "2 ^ 64" rv_levels 4 rv_kernel_address rv_flush_address
  by unfold_locales (auto simp: rv_flush_address_def sfence_vma_def align_down_same_page)

text \<open>Every cached translation of a kernel page is the one the tables give.\<close>

definition rv_coherent :: "RiscvStatics \<Rightarrow> 'r mmu_memory \<Rightarrow> bool" where
  "rv_coherent st s \<longleftrightarrow>
     coherent rv_kernel_address (rv_translate (page_tables (mem_tables s)) (rv_root st)) (tlb (mem_tables s))"

lemma rv_coherent_agrees: "rv_coherent st s \<longleftrightarrow> rv_fenced.agrees (rv_root st) s"
  unfolding rv_coherent_def coherent_def by (auto simp: rv_translate_resolve rv_kernel_canonical)

text \<open>
  Beside translations the hardware may cache the non-leaf entries of a walk: the table a path of
  indices leads to. An address-scoped fence reaches leaf entries only, so such a step stays cached
  through every mapping and unmapping and must stay right by itself.
\<close>

type_synonym walk_cache = "(nat list \<times> PhysicalAddress) set"

definition rv_walks_ok :: "RiscvStatics \<Rightarrow> 'r mmu_memory \<Rightarrow> walk_cache \<Rightarrow> bool" where
  "rv_walks_ok st s walks \<longleftrightarrow>
     (\<forall>(p, t) \<in> walks. in_range p \<and> length p < 4 \<and> reach rv_format (page_tables (mem_tables s)) (rv_root st) p = Some t)"

text \<open>Whether the leaf entry of a page is global.\<close>

definition rv_page_global :: "table_memory \<Rightarrow> PhysicalAddress \<Rightarrow> VirtualAddress \<Rightarrow> bool" where
  "rv_page_global m root page =
     (case reach rv_format m root [vpn3 page, vpn2 page, vpn1 page] of
        Some t \<Rightarrow> m t (vpn0 page) AND RV_GLOBAL \<noteq> 0
      | None \<Rightarrow> False)"

text \<open>
  What happens to the tables and the caches of one hart: the walker caches a translation, starting
  at the root or at a cached step; it caches a step; the hardware drops what it cached; and the
  kernel maps and unmaps pages. \<open>skips\<close> tells how the hardware reads the fence of \<open>unmap_page\<close>: the
  privileged specification exempts global entries from a fence for one address space only, while the
  note at \<open>flush_address\<close> expects that the fence for all of them may leave global entries as well.
\<close>

inductive rv_mmu_step :: "bool \<Rightarrow> RiscvStatics \<Rightarrow> 'r mmu_memory \<times> walk_cache \<Rightarrow> 'r mmu_memory \<times> walk_cache \<Rightarrow> bool"
  for skips st where
  walk: "(p, t) \<in> insert ([], rv_root st) walks \<Longrightarrow> rv_is_canonical page \<Longrightarrow> take (length p) (map fst (rv_levels page)) = p \<Longrightarrow>
    resolve rv_format (page_tables (mem_tables s)) t (drop (length p) (rv_levels page)) page = Some pa \<Longrightarrow>
    rv_mmu_step skips st (s, walks) (s\<lparr>mem_tables := (mem_tables s)\<lparr>tlb := insert (page, pa) (tlb (mem_tables s))\<rparr>\<rparr>, walks)"
| remember: "(p, t) \<in> insert ([], rv_root st) walks \<Longrightarrow> length p < 3 \<Longrightarrow> i < ENTRIES_PER_PAGE_TABLE \<Longrightarrow>
    rv_is_branch (page_tables (mem_tables s) t i) \<Longrightarrow> rv_output_address (page_tables (mem_tables s) t i) = Some t' \<Longrightarrow>
    rv_mmu_step skips st (s, walks) (s, insert (p @ [i], t') walks)"
| evict: "cached \<subseteq> tlb (mem_tables s) \<Longrightarrow> walks' \<subseteq> walks \<Longrightarrow>
    rv_mmu_step skips st (s, walks) (s\<lparr>mem_tables := (mem_tables s)\<lparr>tlb := cached\<rparr>\<rparr>, walks')"
| stack_map: "rv_kernel_address va \<Longrightarrow> rv_map_kernel_stack_page st va pa s = Inr (r, s') \<Longrightarrow>
    rv_mmu_step skips st (s, walks) (s', walks)"
| stack_unmap: "rv_kernel_address va \<Longrightarrow> rv_unmap_kernel_stack_page st va s = Inr (r, s') \<Longrightarrow>
    kept \<subseteq> {(page, pa) \<in> tlb (mem_tables s). skips \<and> rv_page_global (page_tables (mem_tables s)) (rv_root st) page} \<Longrightarrow>
    rv_mmu_step skips st (s, walks)
      (s'\<lparr>mem_tables := (mem_tables s')\<lparr>tlb := tlb (mem_tables s') \<union> kept\<rparr>\<rparr>, walks)"

lemma rv_resolve_from:
  assumes "reach rv_format m root p = Some t" "take (length p) (map fst ls) = p" "length p < length ls"
  shows "resolve rv_format m t (drop (length p) ls) a = resolve rv_format m root ls a"
  using assms
proof (induction p arbitrary: root ls)
  case (Cons i p)
  then obtain j offset_mask ls' where ls: "ls = (j, offset_mask) # ls'"
    by (cases ls) auto
  then show ?case
    using Cons.prems Cons.IH [of _ ls'] rv_pte.table_valid
    by (auto simp: Option.bind_eq_Some_conv split: if_splits)
qed simp

lemma rv_walks_kept:
  assumes "rv_walks_ok st s walks" "reach_kept rv_format 4 (rv_root st) (page_tables (mem_tables s)) (page_tables (mem_tables s'))"
  shows "rv_walks_ok st s' walks"
  using assms unfolding rv_walks_ok_def reach_kept_def by fast

lemma rv_walks_start:
  assumes "rv_walks_ok st s walks" "(p, t) \<in> insert ([], rv_root st) walks"
  shows "in_range p" "length p < 4" "reach rv_format (page_tables (mem_tables s)) (rv_root st) p = Some t"
  using assms by (auto simp: rv_walks_ok_def)

definition rv_caches_ok :: "RiscvStatics \<Rightarrow> 'r mmu_memory \<times> walk_cache \<Rightarrow> bool" where
  "rv_caches_ok st = (\<lambda>(s, walks).
     memory_ok rv_format (2 ^ 64) 4 (rv_root st) s \<and> rv_coherent st s \<and> rv_walks_ok st s walks)"

lemma rv_map_step:
  assumes va: "rv_kernel_address va" and run: "rv_map_kernel_stack_page st va pa s = Inr (r, s')"
    and ok: "memory_ok rv_format (2 ^ 64) 4 (rv_root st) s" "rv_coherent st s"
  shows "memory_ok rv_format (2 ^ 64) 4 (rv_root st) s' \<and> rv_coherent st s' \<and>
    reach_kept rv_format 4 (rv_root st) (page_tables (mem_tables s)) (page_tables (mem_tables s'))"
proof (cases "is_page_aligned va \<and> is_page_aligned pa")
  case True
  then show ?thesis
    using rv_fenced.map_coherent [OF ok(1) va, of pa KERNEL_READ_WRITE r s'] run ok(2) rv_kernel_canonical [OF va] unat_bound64 [of pa]
    by (simp add: rv_map_kernel_stack_page_def rv_map_kernel_page_with_alloc_def rv_map_with_alloc_path rv_paths rv_coherent_agrees)
next
  case False
  then have "s' = s"
    using run by (auto simp: rv_map_kernel_stack_page_def rv_map_kernel_page_with_alloc_def rv_map_page_with_alloc_def)
  then show ?thesis
    using ok by (simp add: reach_kept_def)
qed

lemma rv_unmap_step:
  assumes va: "rv_kernel_address va" and run: "rv_unmap_kernel_stack_page st va s = Inr (r, s')"
    and ok: "memory_ok rv_format (2 ^ 64) 4 (rv_root st) s" "rv_coherent st s"
  shows "memory_ok rv_format (2 ^ 64) 4 (rv_root st) s' \<and> rv_coherent st s' \<and>
    reach_kept rv_format 4 (rv_root st) (page_tables (mem_tables s)) (page_tables (mem_tables s'))"
proof -
  obtain mmu' where "rv_unmap_page (rv_root st) va (mem_tables s) = Inr (r, mmu')" "s' = s\<lparr>mem_tables := mmu'\<rparr>"
    using run by (auto simp: rv_unmap_kernel_stack_page_def rv_unmap_kernel_page_def with_tables_def bind_panic_def split: sum.splits)
  then show ?thesis
    using rv_fenced.unmap_coherent [OF ok(1) va, of r mmu'] ok(2) rv_kernel_canonical [OF va]
    by (simp add: rv_unmap_path rv_paths rv_coherent_agrees)
qed

lemma rv_step_coherent:
  assumes "rv_mmu_step False st a b" "rv_caches_ok st a"
  shows "rv_caches_ok st b"
  using assms
proof (induction rule: rv_mmu_step.induct)
  case (walk p t walks page s pa)
  then have "rv_translate (page_tables (mem_tables s)) (rv_root st) page = Some pa"
    using rv_walks_start [of st s walks p t] rv_resolve_from [of "page_tables (mem_tables s)" "rv_root st" p t "rv_levels page" page]
    by (simp add: rv_caches_ok_def rv_translate_resolve rv_space.levels_length)
  then show ?case
    using walk.prems
    by (auto simp: rv_caches_ok_def memory_ok_def rv_coherent_def rv_walks_ok_def intro!: coherentI dest: coherentD)
next
  case (remember p t walks i s t')
  have ok: "rv_walks_ok st s walks"
    using remember.prems by (simp add: rv_caches_ok_def)
  have "reach rv_format (page_tables (mem_tables s)) (rv_root st) (p @ [i]) = Some t'"
    using rv_walks_start(3) [OF ok remember.hyps(1)] remember.hyps(4,5) by (simp add: reach_append rv_format_def)
  then show ?case
    using remember rv_walks_start(1) [OF ok remember.hyps(1)] by (auto simp: rv_caches_ok_def rv_walks_ok_def in_range_def)
next
  case (evict cached s walks' walks)
  then show ?case
    by (auto simp: rv_caches_ok_def memory_ok_def rv_coherent_def rv_walks_ok_def intro!: coherentI dest: coherentD)
next
  case (stack_map va pa s r s' walks)
  then show ?case
    using rv_map_step [OF stack_map.hyps] rv_walks_kept [of st s walks s'] by (simp add: rv_caches_ok_def)
next
  case (stack_unmap va s r s' kept walks)
  then show ?case
    using rv_unmap_step [OF stack_unmap.hyps(1,2)] rv_walks_kept [of st s walks s'] by (simp add: rv_caches_ok_def)
qed

section \<open>A small instance\<close>

text \<open>The kernel table with the tables of the first kernel stack pages, beside the sample allocator.\<close>

definition rv_sample_statics :: RiscvStatics where
  "rv_sample_statics = \<lparr>root_table = 0x80300000, identity_l2_table = 0x80301000, physmap_l2_table = 0x80302000\<rparr>"

definition rv_sample_tables :: table_memory where
  "rv_sample_tables t i =
     (if t = 0x80300000 \<and> i = 256 then 0x200c0801
      else if t = 0x80302000 \<and> i = 511 then 0x200c1001
      else if t = 0x80304000 \<and> i = 0 then 0x200c0c01 else 0)"

definition rv_sample :: "unit mmu_memory" where
  "rv_sample =
     \<lparr>mem_pmm = sample_pmm, mem_tables = \<lparr>page_tables = rv_sample_tables, physmap_end_gb = 3, tlb = {}\<rparr>\<rparr>"

definition rv_blank :: RiscvMmu where
  "rv_blank = \<lparr>page_tables = (\<lambda>_ _. 0), physmap_end_gb = 0, tlb = {}, satp = 0\<rparr>"

lemma rv_sample_root [simp]: "rv_root rv_sample_statics = 0x80300000"
  by (simp add: rv_sample_statics_def rv_static_physical_address_def RV_KERNEL_VIRTUAL_BASE_def)

lemma rv_sample_entries:
  "rv_is_branch 0x200c0801" "rv_output_address 0x200c0801 = Some 0x80302000"
  "rv_is_branch 0x200c1001" "rv_output_address 0x200c1001 = Some 0x80304000"
  "rv_is_branch 0x200c0c01" "rv_output_address 0x200c0c01 = Some 0x80303000" "\<not> rv_is_branch 0" "\<not> rv_is_valid 0"
  by (simp_all add: rv_is_branch_def rv_is_valid_def rv_is_leaf_def rv_flag_defs rv_output_address_def push_bit_eq_mult
      drop_bit_eq_div RV_PAGE_SHIFT_def PHYSICAL_PAGE_NUMBER_SHIFT_def)

lemma rv_sample_reach:
  "reach rv_format rv_sample_tables 0x80300000 p =
    (if p = [] then Some 0x80300000 else if p = [256] then Some 0x80302000 else if p = [256, 511] then Some 0x80304000
     else if p = [256, 511, 0] then Some 0x80303000 else None)"
proof -
  have "reach rv_format rv_sample_tables 0x80303000 q = (if q = [] then Some 0x80303000 else None)" for q
    by (cases q) (simp_all add: rv_sample_tables_def rv_format_def rv_sample_entries)
  then have "reach rv_format rv_sample_tables 0x80304000 q =
      (if q = [] then Some 0x80304000 else if q = [0] then Some 0x80303000 else None)" for q
    by (cases q) (auto simp: rv_sample_tables_def rv_format_def rv_sample_entries)
  then have "reach rv_format rv_sample_tables 0x80302000 q =
      (if q = [] then Some 0x80302000 else if q = [511] then Some 0x80304000 else if q = [511, 0] then Some 0x80303000 else None)" for q
    by (cases q) (auto simp: rv_sample_tables_def rv_format_def rv_sample_entries)
  then show ?thesis
    by (cases p) (auto simp: rv_sample_tables_def rv_format_def rv_sample_entries)
qed

lemma rv_sample_ok: "memory_ok rv_format (2 ^ 64) 4 (rv_root rv_sample_statics) rv_sample"
proof -
  have "table_tree rv_format 4 rv_sample_tables 0x80300000"
    by (auto simp: table_tree_def rv_sample_reach split: if_splits)
  moreover have "tables_of rv_format 4 rv_sample_tables 0x80300000 \<subseteq> {0x80300000, 0x80302000, 0x80304000, 0x80303000}"
    by (auto simp: tables_of_def rv_sample_reach split: if_splits)
  moreover have "unat (handle_address sample_pmm h) < 2 ^ 64" if "managed sample_pmm h" for h
    using that by (auto simp: sample_managed sample_handle_address)
  ultimately show ?thesis
    using sample_pool(1) by (auto simp: memory_ok_def rv_sample_def sample_addresses)
qed

lemma rv_sample_address:
  "rv_kernel_address rv_kernel_stack_region_base" "is_page_aligned rv_kernel_stack_region_base"
  "vpn3 rv_kernel_stack_region_base = 256" "vpn2 rv_kernel_stack_region_base = 511"
  "vpn1 rv_kernel_stack_region_base = 0" "vpn0 rv_kernel_stack_region_base = 0"
  by (simp_all add: rv_kernel_address_def rv_kernel_stack_region_base_def RV_KERNEL_VIRTUAL_BASE_def
      RV_KERNEL_STACK_REGION_OFFSET_def is_page_aligned_iff rv_index_nat GIGABYTE_def ENTRIES_PER_PAGE_TABLE_def push_bit_eq_mult)

text \<open>Entries of kernel pages are global.\<close>

lemma rv_kernel_leaf_global:
  assumes "rv_from_mapping intent = Inr e" "\<not> user_accessible (intent_permissions intent)"
  shows "e AND RV_GLOBAL \<noteq> 0"
proof -
  have "bit e 5"
    using assms by (auto simp: rv_from_mapping_def bind_panic_def rv_apply_permissions_def Let_def bit_or_iff rv_flag_defs
        bit_push_bit_iff split: sum.splits)
  moreover have f: "RV_GLOBAL = 2 ^ 5"
    by (simp add: rv_flag_defs push_bit_eq_mult)
  ultimately show ?thesis
    unfolding f and_exp_eq_0_iff_not_bit by blast
qed

lemma rv_sample_map:
  "\<exists>s'. rv_map_kernel_stack_page rv_sample_statics rv_kernel_stack_region_base 0x90000000 rv_sample = Inr (Inr (), s') \<and>
    rv_page_global (page_tables (mem_tables s')) 0x80300000 rv_kernel_stack_region_base"
proof -
  have al: "is_page_aligned 0x90000000"
    by (simp add: is_page_aligned_iff)
  then obtain intent where i: "MappingIntent_new 0x90000000 Page4K NormalMemory KERNEL_READ_WRITE = Some intent"
    by (simp add: MappingIntent_new_def mapping_is_aligned_def PAGE_SIZE_def)
  obtain e where e: "fmt_from_mapping rv_format intent = Inr e"
    using rv_pte.make_leaf [OF _ i] by auto
  have v: "fmt_valid rv_format 0x200c0801" "fmt_valid rv_format 0x200c1001" "fmt_valid rv_format 0x200c0c01"
      "fmt_table rv_format 0x200c0801" "fmt_table rv_format 0x200c1001" "fmt_table rv_format 0x200c0c01"
      "fmt_output rv_format 0x200c0801 = Some 0x80302000" "fmt_output rv_format 0x200c1001 = Some 0x80304000"
      "fmt_output rv_format 0x200c0c01 = Some 0x80303000"
    using rv_sample_entries rv_pte.table_valid by (simp_all add: rv_format_def)
  have g: "e AND RV_GLOBAL \<noteq> 0"
    using rv_kernel_leaf_global [of intent e] e i
    by (auto simp: rv_format_def MappingIntent_new_def KERNEL_READ_WRITE_def split: if_splits)
  show ?thesis
    using rv_kernel_canonical [OF rv_sample_address(1)] rv_sample_address al v rv_pte.empty_invalid g
    by (simp add: rv_map_kernel_stack_page_def rv_map_kernel_page_with_alloc_def rv_map_page_with_alloc_def
        ensure_table_def rv_sample_def rv_sample_tables_def install_page_def with_tables_def i e Let_def
        set_slot_def rv_flush_address_def rv_page_global_def write_entry_def)
qed

section \<open>Properties\<close>

lemma rv_boot_range_mapping:
  assumes "boot_range kernel_load dtb = (start_gb, end_gb)" "start_gb \<le> end_gb" "unat end_gb \<le> 512"
    and "rv_statics_ok st" and "new_end = min (div_ceil max_end GIGABYTE) MAX_PHYSMAP_ENTRIES"
  shows "\<exists>mmu1 mmu2. rv_init st kernel_load dtb mmu = Inr mmu1 \<and> rv_expand_physmap st max_end mmu1 = Inr mmu2 \<and>
    satp mmu1 = sv48 (rv_root st) 0 \<and> tlb mmu1 = {} \<and>
    (\<forall>pa. unat pa < 2 ^ 39 \<longrightarrow>
       rv_translate (page_tables mmu1) (rv_root st) pa =
         (let gb = unat pa div 2 ^ 30 in if gb = 0 \<or> unat start_gb \<le> gb \<and> gb < unat end_gb then Some pa else None) \<and>
       rv_translate (page_tables mmu1) (rv_root st) (rv_physical_to_virtual pa) =
         rv_translate (page_tables mmu1) (rv_root st) pa \<and>
       rv_translate (page_tables mmu2) (rv_root st) (rv_physical_to_virtual pa) =
         (let gb = unat pa div 2 ^ 30 in
          if gb = 0 \<or> unat start_gb \<le> gb \<and> gb < max (unat end_gb) (unat new_end) then Some pa else None) \<and>
       rv_translate (page_tables (rv_remove_identity_mapping st mmu2)) (rv_root st) (rv_physical_to_virtual pa) =
         rv_translate (page_tables mmu2) (rv_root st) (rv_physical_to_virtual pa)) \<and>
    (\<forall>a. \<not> rv_kernel_address a \<longrightarrow>
       rv_translate (page_tables (rv_remove_identity_mapping st mmu2)) (rv_root st) a = None)"
proof -
  let ?P = "\<lambda>i. i = 0 \<or> unat start_gb \<le> i \<and> i < unat end_gb"
  obtain mmu1 where i: "rv_init st kernel_load dtb mmu = Inr mmu1" "physmap_end_gb mmu1 = end_gb" "satp mmu1 = sv48 (rv_root st) 0"
      "tlb mmu1 = {}" "rv_boot_tables st True ?P ?P (page_tables mmu1)"
    using rv_init_tables [OF assms(1-4), of mmu] by blast
  let ?Q = "\<lambda>i. ?P i \<or> unat end_gb \<le> i \<and> i < unat new_end \<and> i \<noteq> 0"
  obtain mmu2 where x: "rv_expand_physmap st max_end mmu1 = Inr mmu2" "rv_boot_tables st True ?P ?Q (page_tables mmu2)"
    using rv_expand_tables [OF i(5) assms(4,5)] i(2) by auto
  note y = rv_remove_tables [OF x(2) assms(4)]
  have Q: "?Q gb \<longleftrightarrow> gb = 0 \<or> unat start_gb \<le> gb \<and> gb < max (unat end_gb) (unat new_end)" for gb
    using assms(2) by (auto simp: word_le_nat_alt)
  note physmap = rv_kernel_canonical [OF rv_physmap_address(5)]
  have t: "rv_translate (page_tables mmu1) (rv_root st) pa = (if ?P (unat pa div 2 ^ 30) then Some pa else None)"
    "rv_translate (page_tables mmu1) (rv_root st) (rv_physical_to_virtual pa) = (if ?P (unat pa div 2 ^ 30) then Some pa else None)"
    "rv_translate (page_tables mmu2) (rv_root st) (rv_physical_to_virtual pa) = (if ?Q (unat pa div 2 ^ 30) then Some pa else None)"
    "rv_translate (page_tables (rv_remove_identity_mapping st mmu2)) (rv_root st) (rv_physical_to_virtual pa) =
      (if ?Q (unat pa div 2 ^ 30) then Some pa else None)"
    if "unat pa < 2 ^ 39" for pa
    using rv_boot_translate(1) [OF i(5) rv_physmap_address(1,3) [OF that]]
      rv_boot_translate(2) [OF i(5) physmap rv_physmap_address(7), OF that that]
      rv_boot_translate(2) [OF x(2) physmap rv_physmap_address(7), OF that that]
      rv_boot_translate(2) [OF y physmap rv_physmap_address(7), OF that that]
    by (simp_all only: rv_physmap_address(2,4,6,8) [OF that] simp_thms)
  show ?thesis
    unfolding Let_def Q [symmetric]
    by (rule exI [of _ mmu1], rule exI [of _ mmu2], intro conjI allI impI i x t(1) rv_boot_lower [OF y]) (simp_all only: t not_False_eq_True)
qed

lemmas rv_boot_simps = div_ceil_def MAX_PHYSMAP_ENTRIES_def GIGABYTE_def saturating_add_def push_bit_eq_mult
  DEVICE_TREE_BLOB_MAX_SIZE_def MINIMUM_PHYSMAP_SIZE_def ENTRIES_PER_PAGE_TABLE_def

text \<open>
  C14. Booting maps physical memory where the kernel expects it. After \<open>init\<close> the lower half and
  the physmap translate exactly the first gigabyte and the gigabytes from the first to the last byte
  of the kernel's gigabyte and the device tree, each address to itself, under the root written to
  \<open>satp\<close>; after \<open>expand_physmap\<close> the physmap also covers every later gigabyte below the end of RAM,
  except the last gigapage, which is left to the kernel stacks; and after \<open>remove_identity_mapping\<close>
  no lower address translates while the physmap is unchanged. Memory that boot needs must lie below
  512 gigabytes, and the three static tables must be distinct pages.\<close>
theorem rv_boot_mapping:
  assumes "boot_memory kernel_load dtb \<subseteq> {..<2 ^ 39}" and "rv_statics_ok st"
  shows "\<exists>mmu1 mmu2. rv_init st kernel_load dtb mmu = Inr mmu1 \<and> rv_expand_physmap st max_end mmu1 = Inr mmu2 \<and>
    satp mmu1 = sv48 (rv_root st) 0 \<and> tlb mmu1 = {} \<and>
    (\<forall>pa. unat pa < 2 ^ 39 \<longrightarrow>
       rv_translate (page_tables mmu1) (rv_root st) pa =
         (let gb = unat pa div 2 ^ 30 in if gb = 0 \<or> gb \<in> boot_gigabytes kernel_load dtb then Some pa else None) \<and>
       rv_translate (page_tables mmu1) (rv_root st) (rv_physical_to_virtual pa) =
         rv_translate (page_tables mmu1) (rv_root st) pa \<and>
       rv_translate (page_tables mmu2) (rv_root st) (rv_physical_to_virtual pa) =
         (let gb = unat pa div 2 ^ 30 in
          if gb = 0 \<or> gb \<in> boot_gigabytes kernel_load dtb \<or>
             (\<forall>b \<in> boot_gigabytes kernel_load dtb. b < gb) \<and> gb * 2 ^ 30 < unat max_end \<and> gb < 511
          then Some pa else None) \<and>
       rv_translate (page_tables (rv_remove_identity_mapping st mmu2)) (rv_root st) (rv_physical_to_virtual pa) =
         rv_translate (page_tables mmu2) (rv_root st) (rv_physical_to_virtual pa)) \<and>
    (\<forall>a. \<not> rv_kernel_address a \<longrightarrow>
       rv_translate (page_tables (rv_remove_identity_mapping st mmu2)) (rv_root st) a = None)"
proof -
  obtain start_gb end_gb where r: "boot_range kernel_load dtb = (start_gb, end_gb)" "start_gb < end_gb" "unat end_gb \<le> 512"
      "\<forall>gb. gb \<in> boot_gigabytes kernel_load dtb \<longleftrightarrow> unat start_gb \<le> gb \<and> gb < unat end_gb"
    using boot_range_gigabytes [OF assms(1)] by blast
  show ?thesis
    using rv_boot_range_mapping [OF r(1) less_imp_le [OF r(2)] r(3) assms(2) refl, of mmu max_end]
    unfolding Let_def boot_gigabytes_span [OF r(2,4)] .
qed

lemma rv_sample_gigabytes:
  "boot_memory 0x80200000 0x88000000 \<subseteq> {..<2 ^ 39}" "boot_gigabytes 0x80200000 0x88000000 = {2, 3}"
proof -
  show fits: "boot_memory 0x80200000 0x88000000 \<subseteq> {..<2 ^ 39}"
    by (auto simp: boot_memory_def)
  have range: "boot_range 0x80200000 0x88000000 = (2, 4)"
    by (simp add: boot_range_def rv_boot_simps)
  show "boot_gigabytes 0x80200000 0x88000000 = {2, 3}"
  proof (intro set_eqI)
    fix gb
    obtain start_gb end_gb where "boot_range 0x80200000 0x88000000 = (start_gb, end_gb)"
        "gb \<in> boot_gigabytes 0x80200000 0x88000000 \<longleftrightarrow> unat start_gb \<le> gb \<and> gb < unat end_gb"
      using boot_range_gigabytes [OF fits] by blast
    then show "gb \<in> boot_gigabytes 0x80200000 0x88000000 \<longleftrightarrow> gb \<in> {2, 3}"
      using range by auto
  qed
qed

theorem rv_boot_mapping_witness:
  "\<exists>mmu1 mmu2. rv_init rv_sample_statics 0x80200000 0x88000000 rv_blank = Inr mmu1 \<and>
    rv_expand_physmap rv_sample_statics 0x140000000 mmu1 = Inr mmu2 \<and>
    rv_translate (page_tables mmu1) 0x80300000 0x80200000 = Some 0x80200000 \<and>
    rv_translate (page_tables mmu1) 0x80300000 (rv_physical_to_virtual 0x100000000) = None \<and>
    rv_translate (page_tables mmu2) 0x80300000 (rv_physical_to_virtual 0x100000000) = Some 0x100000000 \<and>
    rv_translate (page_tables (rv_remove_identity_mapping rv_sample_statics mmu2)) 0x80300000 0x80200000 = None"
proof -
  have a: "rv_statics_ok rv_sample_statics"
    by (simp add: rv_statics_ok_def rv_sample_statics_def rv_static_physical_address_def RV_KERNEL_VIRTUAL_BASE_def is_page_aligned_iff)
  have sizes: "unat (0x80200000 :: usize) < 2 ^ 39" "unat (0x100000000 :: usize) < 2 ^ 39" and low: "\<not> rv_kernel_address 0x80200000"
    by (simp_all add: rv_kernel_address_def RV_KERNEL_VIRTUAL_BASE_def)
  note boot = rv_boot_mapping [OF rv_sample_gigabytes(1) a, of rv_blank "0x140000000",
      unfolded rv_sample_gigabytes(2) rv_sample_root]
  have g: "unat (0x80200000 :: usize) div 2 ^ 30 = 2" "unat (0x100000000 :: usize) div 2 ^ 30 = 4"
      "unat (0x140000000 :: usize) = 5 * 2 ^ 30"
    by simp_all
  obtain mmu1 mmu2 where i: "rv_init rv_sample_statics 0x80200000 0x88000000 rv_blank = Inr mmu1"
      "rv_expand_physmap rv_sample_statics 0x140000000 mmu1 = Inr mmu2"
    and t: "\<And>pa. unat pa < 2 ^ 39 \<Longrightarrow> rv_translate (page_tables mmu1) 0x80300000 pa =
         (let gb = unat pa div 2 ^ 30 in if gb = 0 \<or> gb \<in> {2, 3} then Some pa else None)"
      "\<And>pa. unat pa < 2 ^ 39 \<Longrightarrow> rv_translate (page_tables mmu1) 0x80300000 (rv_physical_to_virtual pa) =
         rv_translate (page_tables mmu1) 0x80300000 pa"
      "\<And>pa. unat pa < 2 ^ 39 \<Longrightarrow> rv_translate (page_tables mmu2) 0x80300000 (rv_physical_to_virtual pa) =
         (let gb = unat pa div 2 ^ 30 in if gb = 0 \<or> gb \<in> {2, 3} \<or>
             (\<forall>b \<in> {2, 3}. b < gb) \<and> gb * 2 ^ 30 < unat (0x140000000 :: usize) \<and> gb < 511 then Some pa else None)"
      "\<And>x. \<not> rv_kernel_address x \<Longrightarrow>
         rv_translate (page_tables (rv_remove_identity_mapping rv_sample_statics mmu2)) 0x80300000 x = None"
    using boot by blast
  show ?thesis
    using i t(1) [OF sizes(1)] t(1,2,3) [OF sizes(2)] t(4) [OF low] unfolding Let_def g by auto
qed

text \<open>
  C11. Mapping a kernel page through the RISC-V tables never panics. It succeeds only for an address
  without a translation, and then the page translates to the physical page, every other kernel
  address keeps its translation and new tables come from pages that were free. Misaligned addresses
  are rejected; on any error no translation changes, and the error names its cause.\<close>
theorem rv_map_kernel_page:
  assumes "memory_ok rv_format (2 ^ 64) 4 (rv_root st) s" "rv_kernel_address va"
  shows "if \<not> is_page_aligned va \<or> \<not> is_page_aligned pa
    then rv_map_kernel_page_with_alloc st va pa perms (allocate_page_table rv_format) s = Inr (Inl MapNotAligned, s)
    else \<exists>r s'. rv_map_kernel_page_with_alloc st va pa perms (allocate_page_table rv_format) s = Inr (r, s') \<and>
      memory_ok rv_format (2 ^ 64) 4 (rv_root st) s' \<and>
      (case r of
         Inl e \<Rightarrow>
           (\<forall>a. rv_translate (page_tables (mem_tables s')) (rv_root st) a =
             rv_translate (page_tables (mem_tables s)) (rv_root st) a) \<and>
           (e = MapOutOfMemory \<and> free_list (mem_pmm s') = [] \<or>
            e = MapSuperpageConflict \<and>
              blocked_path rv_format (page_tables (mem_tables s')) (rv_root st) [vpn3 va, vpn2 va, vpn1 va] \<or>
            e = AlreadyMapped \<and> rv_translate (page_tables (mem_tables s)) (rv_root st) va \<noteq> None)
       | Inr _ \<Rightarrow>
           (\<forall>a. rv_kernel_address a \<and> align_down a = va \<longrightarrow>
              rv_translate (page_tables (mem_tables s)) (rv_root st) a = None) \<and>
           (\<forall>a. rv_kernel_address a \<longrightarrow> rv_translate (page_tables (mem_tables s')) (rv_root st) a =
              (if align_down a = va then Some (pa + page_offset a)
               else rv_translate (page_tables (mem_tables s)) (rv_root st) a)))"
  unfolding rv_paths(1) [symmetric]
  by (rule rv_space.map_effect [OF assms unat_bound64, where canonical = rv_is_canonical and perms = perms])
    (use rv_kernel_canonical [OF assms(2)] in \<open>simp_all add: rv_translate_resolve rv_kernel_canonical
      rv_map_kernel_page_with_alloc_def rv_map_page_with_alloc_def rv_paths map_path_def try_bind_assoc\<close>)

theorem rv_map_kernel_page_witness:
  "\<exists>s'. rv_map_kernel_page_with_alloc rv_sample_statics rv_kernel_stack_region_base 0x90000000 KERNEL_READ_WRITE
      (allocate_page_table rv_format) rv_sample = Inr (Inr (), s') \<and>
    rv_translate (page_tables (mem_tables rv_sample)) 0x80300000 rv_kernel_stack_region_base = None \<and>
    rv_translate (page_tables (mem_tables s')) 0x80300000 rv_kernel_stack_region_base = Some 0x90000000"
proof -
  have al: "is_page_aligned 0x90000000"
    by (simp add: is_page_aligned_iff)
  have va: "align_down rv_kernel_stack_region_base = rv_kernel_stack_region_base" "page_offset rv_kernel_stack_region_base = 0"
    using rv_sample_address(2) by (simp_all add: rv_space.aligned_align_down is_page_aligned_def)
  obtain s' where "rv_map_kernel_page_with_alloc rv_sample_statics rv_kernel_stack_region_base 0x90000000
      KERNEL_READ_WRITE (allocate_page_table rv_format) rv_sample = Inr (Inr (), s')"
    using rv_sample_map unfolding rv_map_kernel_stack_page_def by blast
  with rv_map_kernel_page [OF rv_sample_ok rv_sample_address(1), of "0x90000000" KERNEL_READ_WRITE] show ?thesis
    using rv_sample_address(1,2) al va by simp
qed

text \<open>
  C5. The translation caches of a RISC-V hart never go stale on kernel pages, as long as a fence for
  one address and every address space drops all cached leaf entries of that page, global ones
  included, as the privileged specification says. However the walker's caching of translations and
  of steps of a walk, evictions, and the kernel's mapping and unmapping of stack pages interleave,
  starting from caches that agree with the tables: the tables stay well formed, every cached
  translation of a kernel page is the one they give, and every cached step leads to the table that
  they hold at its path, though no fence ever drops it. Caching of invalid entries is not
  considered.\<close>
theorem rv_tlb_coherent:
  assumes "(rv_mmu_step False st)\<^sup>*\<^sup>* (s, walks) (s', walks')"
    and "memory_ok rv_format (2 ^ 64) 4 (rv_root st) s" "rv_coherent st s" "rv_walks_ok st s walks"
  shows "memory_ok rv_format (2 ^ 64) 4 (rv_root st) s' \<and> rv_coherent st s' \<and> rv_walks_ok st s' walks'"
proof -
  have "rv_caches_ok st b" if "(rv_mmu_step False st)\<^sup>*\<^sup>* a b" "rv_caches_ok st a" for a b :: "'a mmu_memory \<times> walk_cache"
    using that by (induction rule: rtranclp_induct) (auto intro: rv_step_coherent)
  from this [OF assms(1)] show ?thesis
    using assms(2-4) by (simp add: rv_caches_ok_def)
qed

text \<open>
  One stack page is mapped, walked and unmapped: the state before the unmapping, for either reading
  of the fence.
\<close>

lemma rv_sample_run:
  "\<exists>s1 s2 s3. rv_map_kernel_stack_page rv_sample_statics rv_kernel_stack_region_base 0x90000000 rv_sample = Inr (Inr (), s1) \<and>
    s2 = s1\<lparr>mem_tables := (mem_tables s1)\<lparr>tlb := insert (rv_kernel_stack_region_base, 0x90000000) (tlb (mem_tables s1))\<rparr>\<rparr> \<and>
    rv_page_global (page_tables (mem_tables s2)) 0x80300000 rv_kernel_stack_region_base \<and>
    (rv_mmu_step skips rv_sample_statics)\<^sup>*\<^sup>* (rv_sample, {}) (s2, {([256], 0x80302000)}) \<and>
    rv_unmap_kernel_stack_page rv_sample_statics rv_kernel_stack_region_base s2 = Inr (Inr 0x90000000, s3) \<and>
    rv_translate (page_tables (mem_tables s3)) 0x80300000 rv_kernel_stack_region_base = None"
proof -
  let ?st = rv_sample_statics and ?va = rv_kernel_stack_region_base and ?root = "0x80300000 :: usize"
  have al: "is_page_aligned 0x90000000" "unat (0x90000000 :: usize) < 2 ^ 64"
    by (simp_all add: is_page_aligned_iff)
  note va = rv_sample_address(1,2) and ok = rv_sample_ok [unfolded rv_sample_root]
  obtain s1 where s1: "rv_map_kernel_stack_page ?st ?va 0x90000000 rv_sample = Inr (Inr (), s1)"
      "rv_page_global (page_tables (mem_tables s1)) ?root ?va"
    using rv_sample_map by blast
  have m: "memory_ok rv_format (2 ^ 64) 4 ?root s1" "reach rv_format (page_tables (mem_tables s1)) ?root (rv_space.path_of ?va) \<noteq> None"
      "resolve rv_format (page_tables (mem_tables s1)) ?root (rv_levels ?va) ?va = Some 0x90000000"
    using rv_mapper.mapping [OF rv_sample_ok va al] s1(1) va rv_space.aligned_align_down [OF va(2)] by (auto simp: is_page_aligned_def)
  define s2 where "s2 = s1\<lparr>mem_tables := (mem_tables s1)\<lparr>tlb := insert (?va, 0x90000000) (tlb (mem_tables s1))\<rparr>\<rparr>"
  have ok2: "memory_ok rv_format (2 ^ 64) 4 (rv_root ?st) s2" and pt: "page_tables (mem_tables s2) = page_tables (mem_tables s1)"
    using m(1) by (simp_all add: memory_ok_def s2_def)
  obtain s3 where s3: "rv_unmap_kernel_stack_page ?st ?va s2 = Inr (Inr 0x90000000, s3)"
      "\<forall>a. rv_kernel_address a \<longrightarrow> resolve rv_format (page_tables (mem_tables s3)) ?root (rv_levels a) a =
        (if align_down a = ?va then None else resolve rv_format (page_tables (mem_tables s2)) ?root (rv_levels a) a)"
    using rv_mapper.unmapping [OF ok2 va] m(2,3) unfolding pt rv_sample_root by blast
  have n3: "rv_translate (page_tables (mem_tables s3)) ?root ?va = None"
    using s3(2) va(1) rv_space.aligned_align_down [OF va(2)] by (simp add: rv_translate_resolve)
  have "rv_mmu_step skips ?st (rv_sample, {}) (rv_sample, {([256], 0x80302000)})"
    using rv_mmu_step.remember [of "[]" ?root ?st "{}" 256 rv_sample "0x80302000" skips] rv_sample_entries
    by (simp add: rv_sample_def rv_sample_tables_def ENTRIES_PER_PAGE_TABLE_def)
  moreover have "rv_mmu_step skips ?st (rv_sample, {([256], 0x80302000)}) (s1, {([256], 0x80302000)})"
    by (rule rv_mmu_step.stack_map [OF va(1) s1(1)])
  moreover have "rv_mmu_step skips ?st (s1, {([256], 0x80302000)}) (s2, {([256], 0x80302000)})"
    unfolding s2_def
  proof (rule rv_mmu_step.walk)
    have "reach rv_format rv_sample_tables ?root [256] = Some 0x80302000"
      by (simp only: rv_sample_reach) simp
    moreover have "reach_kept rv_format 4 ?root rv_sample_tables (page_tables (mem_tables s1))"
      using rv_map_step [OF va(1) s1(1)] ok by (simp add: rv_sample_def rv_coherent_def coherent_def)
    moreover have "in_range [256] \<and> length [256 :: nat] < 4"
      by (simp add: in_range_def ENTRIES_PER_PAGE_TABLE_def)
    ultimately have "reach rv_format (page_tables (mem_tables s1)) ?root [256] = Some 0x80302000"
      unfolding reach_kept_def by blast
    then show "resolve rv_format (page_tables (mem_tables s1)) 0x80302000 (drop (length [256::nat]) (rv_levels ?va)) ?va = Some 0x90000000"
      using rv_resolve_from [of "page_tables (mem_tables s1)" ?root "[256]" "0x80302000" "rv_levels ?va" ?va] m(3)
      by (simp add: rv_levels_def rv_sample_address)
  qed (simp_all add: rv_levels_def rv_sample_address rv_kernel_canonical va)
  ultimately have "(rv_mmu_step skips ?st)\<^sup>*\<^sup>* (rv_sample, {}) (s2, {([256], 0x80302000)})"
    by (meson converse_rtranclp_into_rtranclp rtranclp.rtrancl_refl)
  then show ?thesis
    using s1 s3(1) n3 pt unfolding s2_def by (intro exI conjI) auto
qed

text \<open>
  On hardware that reads the fence as the note at \<open>flush_address\<close> does, unmapping a stack page leaves
  its translation cached: stack pages are global, and \<open>unmap_page\<close> uses the fence for one address.
\<close>

lemma rv_skipping_fence_stale:
  "\<exists>s walks. (rv_mmu_step True rv_sample_statics)\<^sup>*\<^sup>* (rv_sample, {}) (s, walks) \<and>
    (rv_kernel_stack_region_base, 0x90000000) \<in> tlb (mem_tables s) \<and>
    rv_translate (page_tables (mem_tables s)) 0x80300000 rv_kernel_stack_region_base = None"
proof -
  let ?st = rv_sample_statics and ?va = rv_kernel_stack_region_base
  obtain s1 s2 s3 where s: "s2 = s1\<lparr>mem_tables := (mem_tables s1)\<lparr>tlb := insert (?va, 0x90000000) (tlb (mem_tables s1))\<rparr>\<rparr>"
      "rv_page_global (page_tables (mem_tables s2)) 0x80300000 ?va"
      "(rv_mmu_step True ?st)\<^sup>*\<^sup>* (rv_sample, {}) (s2, {([256], 0x80302000)})"
      "rv_unmap_kernel_stack_page ?st ?va s2 = Inr (Inr 0x90000000, s3)"
      "rv_translate (page_tables (mem_tables s3)) 0x80300000 ?va = None"
    using rv_sample_run [of True] by blast
  let ?s4 = "s3\<lparr>mem_tables := (mem_tables s3)\<lparr>tlb := tlb (mem_tables s3) \<union> {(?va, 0x90000000)}\<rparr>\<rparr>"
  have "rv_mmu_step True ?st (s2, {([256], 0x80302000)}) (?s4, {([256], 0x80302000)})"
    by (rule rv_mmu_step.stack_unmap [OF rv_sample_address(1) s(4)]) (use s(1,2) in simp)
  with s(3) have "(rv_mmu_step True ?st)\<^sup>*\<^sup>* (rv_sample, {}) (?s4, {([256], 0x80302000)})"
    by (rule rtranclp.rtrancl_into_rtrancl)
  then show ?thesis
    using s(5) by (intro exI [of _ ?s4] exI [of _ "{([256], 0x80302000)}"]) simp
qed

theorem rv_tlb_coherent_witness:
  "\<exists>s1 s2 s3. rv_map_kernel_stack_page rv_sample_statics rv_kernel_stack_region_base 0x90000000 rv_sample = Inr (Inr (), s1) \<and>
    s2 = s1\<lparr>mem_tables := (mem_tables s1)\<lparr>tlb := insert (rv_kernel_stack_region_base, 0x90000000) (tlb (mem_tables s1))\<rparr>\<rparr> \<and>
    rv_unmap_kernel_stack_page rv_sample_statics rv_kernel_stack_region_base s2 = Inr (Inr 0x90000000, s3) \<and>
    (rv_kernel_stack_region_base, 0x90000000) \<notin> tlb (mem_tables s3) \<and> rv_coherent rv_sample_statics s3 \<and>
    rv_walks_ok rv_sample_statics s3 {([256], 0x80302000)}"
proof -
  let ?st = rv_sample_statics and ?va = rv_kernel_stack_region_base
  obtain s1 s2 s3 where s: "rv_map_kernel_stack_page ?st ?va 0x90000000 rv_sample = Inr (Inr (), s1)"
      "s2 = s1\<lparr>mem_tables := (mem_tables s1)\<lparr>tlb := insert (?va, 0x90000000) (tlb (mem_tables s1))\<rparr>\<rparr>"
      "(rv_mmu_step False ?st)\<^sup>*\<^sup>* (rv_sample, {}) (s2, {([256], 0x80302000)})"
      "rv_unmap_kernel_stack_page ?st ?va s2 = Inr (Inr 0x90000000, s3)"
      "rv_translate (page_tables (mem_tables s3)) 0x80300000 ?va = None"
    using rv_sample_run [of False] by blast
  have "rv_mmu_step False ?st (s2, {([256], 0x80302000)}) (s3, {([256], 0x80302000)})"
    using rv_mmu_step.stack_unmap [OF rv_sample_address(1) s(4), of "{}" False "{([256], 0x80302000)}"] by simp
  with s(3) have run: "(rv_mmu_step False ?st)\<^sup>*\<^sup>* (rv_sample, {}) (s3, {([256], 0x80302000)})"
    by (rule rtranclp.rtrancl_into_rtrancl)
  have "rv_coherent ?st rv_sample" "rv_walks_ok ?st rv_sample {}"
    by (simp_all add: rv_coherent_def coherent_def rv_walks_ok_def rv_sample_def)
  note c = rv_tlb_coherent [OF run rv_sample_ok this]
  then have "(?va, 0x90000000) \<notin> tlb (mem_tables s3)"
    using coherentD [of rv_kernel_address _ "tlb (mem_tables s3)" ?va "0x90000000"] rv_sample_address(1,2) s(5)
    unfolding rv_coherent_def rv_sample_root by fastforce
  then show ?thesis
    using s(1,2,4) c by blast
qed

end
