(* ===== verification/Kernel_Stack_Space.thy ===== *)
theory Kernel_Stack_Space
  imports Kernel_Stack_Mapping Arm64_Address_Space Riscv_Address_Space
begin

text \<open>
  Kernel stacks on the two architectures: what creating a stack and the boot probe do to the
  translations of the kernel.
\<close>

unbundle bit_operations_syntax

section \<open>The stack regions\<close>

lemma arm_stack_region_base: "arm_kernel_stack_region_base = 0xffffffffc0000000"
  by (simp add: arm_kernel_stack_region_base_def ARM_KERNEL_VIRTUAL_BASE_def KERNEL_STACK_REGION_OFFSET_def GIGABYTE_def
      ENTRIES_PER_PAGE_TABLE_def push_bit_eq_mult)

lemma arm_stack_region:
  "is_page_aligned arm_kernel_stack_region_base" "unat arm_kernel_stack_region_base + 2 ^ 30 \<le> 2 ^ 64"
  "\<forall>a. arm_kernel_stack_region_base \<le> a \<and> unat a < unat arm_kernel_stack_region_base + 2 ^ 30 \<longrightarrow> arm_kernel_address a"
  by (simp_all add: arm_stack_region_base is_page_aligned_iff)
    (auto simp: arm_kernel_address_def ARM_KERNEL_VIRTUAL_BASE_def word_le_nat_alt)

lemma rv_stack_region_base: "rv_kernel_stack_region_base = 0xffff807fc0000000"
  by (simp add: rv_kernel_stack_region_base_def RV_KERNEL_VIRTUAL_BASE_def RV_KERNEL_STACK_REGION_OFFSET_def GIGABYTE_def
      ENTRIES_PER_PAGE_TABLE_def push_bit_eq_mult)

lemma rv_stack_region:
  "is_page_aligned rv_kernel_stack_region_base" "unat rv_kernel_stack_region_base + 2 ^ 30 \<le> 2 ^ 64"
  "\<forall>a. rv_kernel_stack_region_base \<le> a \<and> unat a < unat rv_kernel_stack_region_base + 2 ^ 30 \<longrightarrow> rv_kernel_address a"
  by (simp_all add: rv_stack_region_base is_page_aligned_iff)
    (auto simp: rv_kernel_address_def RV_KERNEL_VIRTUAL_BASE_def word_le_nat_alt)

text \<open>The pages of the memory system that are free or hold a page table reached from the root.\<close>

definition table_or_free :: "PteFormat \<Rightarrow> nat \<Rightarrow> PhysicalAddress \<Rightarrow> 'r mmu_memory \<Rightarrow> PhysicalAddress set" where
  "table_or_free fm depth root m =
     set (free_addresses (mem_pmm m)) \<union> tables_of fm depth (page_tables (mem_tables m)) root"

lemma spare_pages_of:
  "arm_mapper.spare_pages st1 = table_or_free arm_format 3 (arm_root st1)"
  "rv_mapper.spare_pages st2 = table_or_free rv_format 4 (rv_root st2)"
  by (simp_all add: arm_mapper.spare_pages_def rv_mapper.spare_pages_def table_or_free_def fun_eq_iff)

section \<open>A small instance\<close>

text \<open>The sample allocator with both of its pages free.\<close>

definition stack_sample_pmm :: PhysicalMemoryManager where
  "stack_sample_pmm = projr (free_page_handle sample_pmm (PageHandle_new 0 1))"

definition arm_stack_sample :: "Mmu StackWorld" where
  "arm_stack_sample = \<lparr>next_stack_slot = 0, stack_memory = arm_sample\<lparr>mem_pmm := stack_sample_pmm\<rparr>\<rparr>"

definition rv_stack_sample :: "Mmu StackWorld" where
  "rv_stack_sample = \<lparr>next_stack_slot = 0, stack_memory = rv_sample\<lparr>mem_pmm := stack_sample_pmm\<rparr>\<rparr>"

lemma stack_sample_pool:
  "pool_inv stack_sample_pmm" "free_list stack_sample_pmm = [PageHandle_new 0 0, PageHandle_new 0 1]"
  "same_config sample_pmm stack_sample_pmm"
  using pool_release [OF sample_pool(1), of "PageHandle_new 0 1"] sample_allocated sample_pool(2)
  by (auto simp: stack_sample_pmm_def)

lemma stack_sample_addresses: "free_addresses stack_sample_pmm = [0x80000000, 0x80001000]"
  by (simp add: free_addresses_def stack_sample_pool(2) handle_address_config [OF stack_sample_pool(3)] sample_handle_address)

lemma arm_stack_sample_ok: "memory_ok arm_format (2 ^ 48) 3 (arm_root arm_sample_statics) (stack_memory arm_stack_sample)"
proof -
  have "tables_of arm_format 3 arm_sample_tables 0x40200000 \<subseteq> {0x40200000, 0x40301000, 0x40300000}"
    by (auto simp: tables_of_def arm_sample_reach split: if_splits)
  then have "tables_of arm_format 3 arm_sample_tables 0x40200000 \<inter> set (free_addresses stack_sample_pmm) = {}"
    unfolding stack_sample_addresses by fastforce
  then show ?thesis
    using arm_mapper.ok_other_pool [OF arm_sample_ok stack_sample_pool(1)] stack_sample_pool(3)
    by (simp add: arm_stack_sample_def arm_sample_def)
qed

lemma rv_sample_tables_of:
  "tables_of rv_format 4 rv_sample_tables 0x80300000 = {0x80300000, 0x80302000, 0x80304000, 0x80303000}"
proof
  have "t \<in> tables_of rv_format 4 rv_sample_tables 0x80300000"
    if "p \<in> {[], [256], [256, 511], [256, 511, 0]}" "reach rv_format rv_sample_tables 0x80300000 p = Some t" for p t
    using that(1) in_tables [OF that(2), of 4] by (auto simp: in_range_def ENTRIES_PER_PAGE_TABLE_def)
  from this [of "[]"] this [of "[256]"] this [of "[256, 511]"] this [of "[256, 511, 0]"]
  show "{0x80300000, 0x80302000, 0x80304000, 0x80303000} \<subseteq> tables_of rv_format 4 rv_sample_tables 0x80300000"
    unfolding rv_sample_reach by simp
qed (auto simp: tables_of_def rv_sample_reach split: if_splits)

lemma rv_stack_sample_ok: "memory_ok rv_format (2 ^ 64) 4 (rv_root rv_sample_statics) (stack_memory rv_stack_sample)"
proof -
  have "tables_of rv_format 4 rv_sample_tables 0x80300000 \<inter> set (free_addresses stack_sample_pmm) = {}"
    unfolding stack_sample_addresses rv_sample_tables_of by fastforce
  then show ?thesis
    using rv_mapper.ok_other_pool [OF rv_sample_ok stack_sample_pool(1)] stack_sample_pool(3)
    by (simp add: rv_stack_sample_def rv_sample_def)
qed

lemma stack_sample_run: "run_available stack_sample_pmm 12 2 0 0"
proof -
  have r: "run_handles 0 0 2 = [PageHandle_new 0 0, PageHandle_new 0 1]"
    by (simp add: run_handles_def arena_handle_def upt_rec numeral_2_eq_2)
  have "status stack_sample_pmm h = (Free, False)" if "h \<in> set (free_list stack_sample_pmm)" for h
    using free_status that stack_sample_pool(1) by (auto simp: pool_inv_def)
  then have "\<forall>h \<in> set (run_handles 0 0 2). page_state (page_at stack_sample_pmm h) = Free"
    unfolding r stack_sample_pool(2) [symmetric] by (simp add: status_def)
  moreover have "arenas stack_sample_pmm = arenas sample_pmm" "arena_count stack_sample_pmm = arena_count sample_pmm"
    using stack_sample_pool(3) by (simp_all add: same_config_def)
  ultimately show ?thesis
    by (simp add: run_available_def) (simp add: sample_pmm_def sample_arena_def)
qed

text \<open>With the tables of the sample present, the stack pages are mapped without allocating.\<close>

lemma arm_sample_stack_map:
  assumes "page_tables (mem_tables s) 0x40200000 511 = 0x40301003" "page_tables (mem_tables s) 0x40301000 0 = 0x40300003"
    and "arm_l1 va = 511" "arm_l2 va = 0" "arm_kernel_address va" "is_page_aligned va"
    and "page_tables (mem_tables s) 0x40300000 (arm_l3 va) = 0" "is_page_aligned pa" "unat pa < 2 ^ 48"
  shows "\<exists>e. arm_map_kernel_stack_page arm_sample_statics va pa s =
    Inr (Inr (), s\<lparr>mem_tables := arm_flush_address va (set_slot 0x40300000 (arm_l3 va) e (mem_tables s))\<rparr>)"
proof -
  obtain intent where i: "MappingIntent_new pa Page4K NormalMemory KERNEL_READ_WRITE = Some intent"
    using assms(8) by (auto simp: MappingIntent_new_def mapping_is_aligned_def is_page_aligned_def page_offset_def PAGE_MASK_def PAGE_SIZE_def)
  obtain e where e: "fmt_from_mapping arm_format intent = Inr e"
    using arm_pte.make_leaf [OF assms(9) i] by auto
  have v: "fmt_valid arm_format 0x40301003" "fmt_valid arm_format 0x40300003"
      "fmt_table arm_format 0x40301003" "fmt_table arm_format 0x40300003"
      "fmt_output arm_format 0x40301003 = Some 0x40301000" "fmt_output arm_format 0x40300003 = Some 0x40300000"
    using arm_sample_entries arm_pte.table_valid by (simp_all add: arm_format_def)
  show ?thesis
    using arm_kernel_canonical [OF assms(5)] assms v arm_pte.empty_invalid
    by (intro exI [of _ e]) (simp add: arm_map_kernel_stack_page_def arm_map_kernel_page_with_alloc_def arm_map_page_with_alloc_def
        ensure_table_def install_page_def with_tables_def i e Let_def)
qed

lemma rv_sample_stack_map:
  assumes "page_tables (mem_tables s) 0x80300000 256 = 0x200c0801" "page_tables (mem_tables s) 0x80302000 511 = 0x200c1001"
    and "page_tables (mem_tables s) 0x80304000 0 = 0x200c0c01"
    and "vpn3 va = 256" "vpn2 va = 511" "vpn1 va = 0" "rv_kernel_address va" "is_page_aligned va"
    and "page_tables (mem_tables s) 0x80303000 (vpn0 va) = 0" "is_page_aligned pa"
  shows "\<exists>e. rv_map_kernel_stack_page rv_sample_statics va pa s =
    Inr (Inr (), s\<lparr>mem_tables := rv_flush_address va (set_slot 0x80303000 (vpn0 va) e (mem_tables s))\<rparr>)"
proof -
  obtain intent where i: "MappingIntent_new pa Page4K NormalMemory KERNEL_READ_WRITE = Some intent"
    using assms(10) by (auto simp: MappingIntent_new_def mapping_is_aligned_def is_page_aligned_def page_offset_def PAGE_MASK_def PAGE_SIZE_def)
  obtain e where e: "fmt_from_mapping rv_format intent = Inr e"
    using rv_pte.make_leaf [OF unat_bound64 i] by auto
  have v: "fmt_valid rv_format 0x200c0801" "fmt_valid rv_format 0x200c1001" "fmt_valid rv_format 0x200c0c01"
      "fmt_table rv_format 0x200c0801" "fmt_table rv_format 0x200c1001" "fmt_table rv_format 0x200c0c01"
      "fmt_output rv_format 0x200c0801 = Some 0x80302000" "fmt_output rv_format 0x200c1001 = Some 0x80304000"
      "fmt_output rv_format 0x200c0c01 = Some 0x80303000"
    using rv_sample_entries rv_pte.table_valid by (simp_all add: rv_format_def)
  show ?thesis
    using rv_kernel_canonical [OF assms(7)] assms v rv_pte.empty_invalid
    by (intro exI [of _ e]) (simp add: rv_map_kernel_stack_page_def rv_map_kernel_page_with_alloc_def rv_map_page_with_alloc_def
        ensure_table_def install_page_def with_tables_def i e Let_def)
qed

text \<open>The sample allocator has a run for the first stack, so the stack is created when both pages can be mapped.\<close>

lemma sample_stack_created:
  assumes w: "mem_pmm (stack_memory w) = stack_sample_pmm" "next_stack_slot w = 0"
    and va: "stack_slot_base region 0 = Some va0" "checked_add va0 0 = Some va0" "checked_add va0 PAGE_SIZE = Some va1"
    and maps: "\<And>pmm pa. is_page_aligned pa \<Longrightarrow> unat pa < 2 ^ 48 \<Longrightarrow>
      \<exists>m'. map_page va0 pa ((stack_memory w)\<lparr>mem_pmm := pmm\<rparr>) = Inr (Inr (), m') \<and> mem_pmm m' = pmm \<and>
        (\<forall>pb. is_page_aligned pb \<and> unat pb < 2 ^ 48 \<longrightarrow> (\<exists>m''. map_page va1 pb m' = Inr (Inr (), m'')))"
  shows "\<exists>stack w'. create_mapped region map_page unmap_page w = Inr (Inr stack, w')"
proof -
  let ?m = "stack_memory w"
  have "\<not> 64 \<le> PAGE_ALIGNMENT_LOG2" "0 < KERNEL_STACK_PAGES" "unat PAGE_ALIGNMENT_LOG2 = 12"
    by (simp_all add: PAGE_ALIGNMENT_LOG2_def stack_sizes(4))
  then obtain i s pmm' where a: "pmm_alloc_contiguous (mem_pmm ?m) KERNEL_STACK_PAGES PAGE_ALIGNMENT_LOG2 =
        Inr (Some (run_of i s KERNEL_STACK_PAGES), pmm')" "pool_inv pmm'" "owns_run pmm' i s KERNEL_STACK_PAGES"
      "same_config stack_sample_pmm pmm'"
    using owns_alloc [OF stack_sample_pool(1), of KERNEL_STACK_PAGES PAGE_ALIGNMENT_LOG2] stack_sample_run w(1)
    by (auto simp: stack_sizes(4))
  have i: "i < arena_count pmm'" "s + 2 \<le> page_count (arenas pmm' ! i)"
    using a(3) by (simp_all add: owns_run_def stack_sizes(4))
  have pg: "PageRun_physical_address pmm' (run_of i s 2) j = Inr (Some (page_of_run pmm' i s j))"
      "is_page_aligned (page_of_run pmm' i s j)" "unat (page_of_run pmm' i s j) < 2 ^ 48" if "j < 2" for j
  proof -
    show "PageRun_physical_address pmm' (run_of i s 2) j = Inr (Some (page_of_run pmm' i s j))"
      by (rule PageRun_physical_address_run [OF a(2) i that])
    have mg: "managed pmm' (arena_handle i (s + j))"
      using owns_managed [OF a(2,3)] less_2_cases [OF that] by (auto simp: run_handles_def stack_sizes(4))
    then show "is_page_aligned (page_of_run pmm' i s j)"
      by (rule handle_address_aligned [OF pool_inv_wf [OF a(2)]])
    have "managed sample_pmm (arena_handle i (s + j))"
      using mg same_config_simps [OF same_config_trans [OF stack_sample_pool(3) a(4)]] by simp
    then show "unat (page_of_run pmm' i s j) < 2 ^ 48"
      unfolding handle_address_config [OF same_config_trans [OF stack_sample_pool(3) a(4)]]
      by (auto simp: sample_managed sample_handle_address)
  qed
  obtain m1 m2 where m: "map_page va0 (page_of_run pmm' i s 0) (?m\<lparr>mem_pmm := pmm'\<rparr>) = Inr (Inr (), m1)" "mem_pmm m1 = pmm'"
      "map_page va1 (page_of_run pmm' i s 1) m1 = Inr (Inr (), m2)"
    using maps [OF pg(2,3) [of 0], of pmm'] pg(2,3) [of 1] by fastforce
  then have "map_stack_pages 2 0 (run_of i s 2) va0 map_page unmap_page (?m\<lparr>mem_pmm := pmm'\<rparr>) = Inr (Inr (), m2)"
    using pg(1) [of 0] pg(1) [of 1] va(2,3) by (simp add: numeral_2_eq_2)
  moreover have "\<not> MAX_KERNEL_STACK_SLOTS \<le> 0"
    using stack_sizes(3) by (auto simp: word_le_nat_alt)
  ultimately show ?thesis
    using a(1) va(1) w(2) by (simp add: create_mapped_def Let_def stack_sizes(4))
qed

lemma arm_stack_sample_created:
  "\<exists>stack w'. create_mapped arm_kernel_stack_region_base (arm_map_kernel_stack_page arm_sample_statics)
      (arm_unmap_kernel_stack_page arm_sample_statics) arm_stack_sample = Inr (Inr stack, w')"
proof (rule sample_stack_created)
  let ?va0 = "0xffffffffc0001000 :: usize" and ?va1 = "0xffffffffc0002000 :: usize" and ?m = "stack_memory arm_stack_sample"
  show "stack_slot_base arm_kernel_stack_region_base 0 = Some ?va0" "checked_add ?va0 0 = Some ?va0" "checked_add ?va0 PAGE_SIZE = Some ?va1"
    by (simp_all add: stack_slot_base_def arm_stack_region_base checked_mul_def checked_add_def KERNEL_STACK_GUARD_SIZE_def PAGE_SIZE_def)
  have va: "arm_l1 ?va0 = 511" "arm_l2 ?va0 = 0" "arm_l3 ?va0 = 1" "arm_kernel_address ?va0" "is_page_aligned ?va0"
      "arm_l1 ?va1 = 511" "arm_l2 ?va1 = 0" "arm_l3 ?va1 = 2" "arm_kernel_address ?va1" "is_page_aligned ?va1"
    by (simp_all add: arm_index_nat arm_kernel_address_def ARM_KERNEL_VIRTUAL_BASE_def is_page_aligned_iff)
  show "\<exists>m'. arm_map_kernel_stack_page arm_sample_statics ?va0 pa (?m\<lparr>mem_pmm := pmm\<rparr>) = Inr (Inr (), m') \<and> mem_pmm m' = pmm \<and>
      (\<forall>pb. is_page_aligned pb \<and> unat pb < 2 ^ 48 \<longrightarrow>
        (\<exists>m''. arm_map_kernel_stack_page arm_sample_statics ?va1 pb m' = Inr (Inr (), m'')))"
    if pa: "is_page_aligned pa" "unat pa < 2 ^ 48" for pmm pa
  proof -
    let ?m1 = "?m\<lparr>mem_pmm := pmm\<rparr>"
    have t1: "page_tables (mem_tables ?m1) = arm_sample_tables"
      by (simp add: arm_stack_sample_def arm_sample_def)
    obtain e where e: "arm_map_kernel_stack_page arm_sample_statics ?va0 pa ?m1 =
        Inr (Inr (), ?m1\<lparr>mem_tables := arm_flush_address ?va0 (set_slot 0x40300000 1 e (mem_tables ?m1))\<rparr>)"
      using arm_sample_stack_map [of ?m1 ?va0 pa] pa va t1 by (auto simp: arm_sample_tables_def)
    let ?m2 = "?m1\<lparr>mem_tables := arm_flush_address ?va0 (set_slot 0x40300000 1 e (mem_tables ?m1))\<rparr>"
    have "page_tables (mem_tables ?m2) = write_entry 0x40300000 1 e arm_sample_tables"
      using t1 by (simp add: arm_flush_address_def set_slot_def)
    then have "\<exists>m''. arm_map_kernel_stack_page arm_sample_statics ?va1 pb ?m2 = Inr (Inr (), m'')"
      if "is_page_aligned pb" "unat pb < 2 ^ 48" for pb
      using arm_sample_stack_map [of ?m2 ?va1 pb] that va by (auto simp: arm_sample_tables_def write_entry_def)
    then show ?thesis
      using e by (intro exI [of _ ?m2]) simp
  qed
qed (simp_all add: arm_stack_sample_def)

lemma rv_stack_sample_created:
  "\<exists>stack w'. create_mapped rv_kernel_stack_region_base (rv_map_kernel_stack_page rv_sample_statics)
      (rv_unmap_kernel_stack_page rv_sample_statics) rv_stack_sample = Inr (Inr stack, w')"
proof (rule sample_stack_created)
  let ?va0 = "0xffff807fc0001000 :: usize" and ?va1 = "0xffff807fc0002000 :: usize" and ?m = "stack_memory rv_stack_sample"
  show "stack_slot_base rv_kernel_stack_region_base 0 = Some ?va0" "checked_add ?va0 0 = Some ?va0" "checked_add ?va0 PAGE_SIZE = Some ?va1"
    by (simp_all add: stack_slot_base_def rv_stack_region_base checked_mul_def checked_add_def KERNEL_STACK_GUARD_SIZE_def PAGE_SIZE_def)
  have va: "vpn3 ?va0 = 256" "vpn2 ?va0 = 511" "vpn1 ?va0 = 0" "vpn0 ?va0 = 1" "rv_kernel_address ?va0" "is_page_aligned ?va0"
      "vpn3 ?va1 = 256" "vpn2 ?va1 = 511" "vpn1 ?va1 = 0" "vpn0 ?va1 = 2" "rv_kernel_address ?va1" "is_page_aligned ?va1"
    by (simp_all add: rv_index_nat rv_kernel_address_def RV_KERNEL_VIRTUAL_BASE_def is_page_aligned_iff)
  show "\<exists>m'. rv_map_kernel_stack_page rv_sample_statics ?va0 pa (?m\<lparr>mem_pmm := pmm\<rparr>) = Inr (Inr (), m') \<and> mem_pmm m' = pmm \<and>
      (\<forall>pb. is_page_aligned pb \<and> unat pb < 2 ^ 48 \<longrightarrow>
        (\<exists>m''. rv_map_kernel_stack_page rv_sample_statics ?va1 pb m' = Inr (Inr (), m'')))"
    if pa: "is_page_aligned pa" for pmm pa
  proof -
    let ?m1 = "?m\<lparr>mem_pmm := pmm\<rparr>"
    have t1: "page_tables (mem_tables ?m1) = rv_sample_tables"
      by (simp add: rv_stack_sample_def rv_sample_def)
    obtain e where e: "rv_map_kernel_stack_page rv_sample_statics ?va0 pa ?m1 =
        Inr (Inr (), ?m1\<lparr>mem_tables := rv_flush_address ?va0 (set_slot 0x80303000 1 e (mem_tables ?m1))\<rparr>)"
      using rv_sample_stack_map [of ?m1 ?va0 pa] pa va t1 by (auto simp: rv_sample_tables_def)
    let ?m2 = "?m1\<lparr>mem_tables := rv_flush_address ?va0 (set_slot 0x80303000 1 e (mem_tables ?m1))\<rparr>"
    have "page_tables (mem_tables ?m2) = write_entry 0x80303000 1 e rv_sample_tables"
      using t1 by (simp add: rv_flush_address_def set_slot_def)
    then have "\<exists>m''. rv_map_kernel_stack_page rv_sample_statics ?va1 pb ?m2 = Inr (Inr (), m'')"
      if "is_page_aligned pb" for pb
      using rv_sample_stack_map [of ?m2 ?va1 pb] that va by (auto simp: rv_sample_tables_def write_entry_def)
    then show ?thesis
      using e by (intro exI [of _ ?m2]) simp
  qed
qed (simp_all add: rv_stack_sample_def)

section \<open>Properties\<close>

text \<open>
  C6. Creating a kernel stack on ARM64 never panics. On success the stack lies in the next slot of
  the stack region, above a guard page, its two pages were free and contiguous, exactly the
  addresses of the stack are added to the kernel's translations (so the guard page stays as it
  was), they had no translation before, and no other page left the allocator except for new page
  tables. On an error every translation is as before, every page that was free is free again or
  holds a new page table, which stays in the tree, and the error says whether the region, the memory
  or a table was the reason. The slot is used up either way.\<close>
theorem arm_stack_created:
  assumes "memory_ok arm_format (2 ^ 48) 3 (arm_root st) (stack_memory w)"
  shows "\<exists>r w'. create_mapped arm_kernel_stack_region_base (arm_map_kernel_stack_page st) (arm_unmap_kernel_stack_page st) w = Inr (r, w') \<and>
    memory_ok arm_format (2 ^ 48) 3 (arm_root st) (stack_memory w') \<and> next_stack_slot w' = next_stack_slot w + 1 \<and>
    (case r of
       Inl e \<Rightarrow>
         (\<forall>a. arm_kernel_address a \<longrightarrow> arm_translate (page_tables (mem_tables (stack_memory w'))) (arm_root st) a =
            arm_translate (page_tables (mem_tables (stack_memory w))) (arm_root st) a) \<and>
         table_or_free arm_format 3 (arm_root st) (stack_memory w') = table_or_free arm_format 3 (arm_root st) (stack_memory w) \<and>
         tables_of arm_format 3 (page_tables (mem_tables (stack_memory w))) (arm_root st) \<subseteq>
           tables_of arm_format 3 (page_tables (mem_tables (stack_memory w'))) (arm_root st) \<and>
         (e = RegionExhausted \<and> MAX_KERNEL_STACK_SLOTS \<le> next_stack_slot w \<or>
          e = StackOutOfMemory \<and> (\<forall>i s. \<not> run_available (mem_pmm (stack_memory w)) 12 2 i s) \<or> (\<exists>e'. e = StackMap e'))
     | Inr stack \<Rightarrow>
         unat (stack_base stack) = unat arm_kernel_stack_region_base + unat (next_stack_slot w) * 12288 + 4096 \<and>
         stack_top stack = Inr (stack_base stack + 8192) \<and>
         (\<exists>p \<in> set (free_addresses (mem_pmm (stack_memory w))). p + PAGE_SIZE \<in> set (free_addresses (mem_pmm (stack_memory w))) \<and>
            table_or_free arm_format 3 (arm_root st) (stack_memory w') =
              table_or_free arm_format 3 (arm_root st) (stack_memory w) - {p, p + PAGE_SIZE} \<and>
            tables_of arm_format 3 (page_tables (mem_tables (stack_memory w))) (arm_root st) \<subseteq>
              tables_of arm_format 3 (page_tables (mem_tables (stack_memory w'))) (arm_root st) \<and>
            (\<forall>a. arm_kernel_address a \<longrightarrow> arm_translate (page_tables (mem_tables (stack_memory w'))) (arm_root st) a =
               (if stack_base stack \<le> a \<and> unat a < unat (stack_base stack) + 8192
                then Some (p + (a - stack_base stack))
                else arm_translate (page_tables (mem_tables (stack_memory w))) (arm_root st) a) \<and>
               (stack_base stack \<le> a \<and> unat a < unat (stack_base stack) + 8192 \<longrightarrow>
                arm_translate (page_tables (mem_tables (stack_memory w))) (arm_root st) a = None))))"
proof -
  have tr: "arm_translate m (arm_root st) a = resolve arm_format m (arm_root st) (arm_levels a) a" if "arm_kernel_address a" for m a
    using arm_kernel_canonical [OF that] by (simp add: arm_translate_resolve)
  from arm_mapper.create_effect [OF assms arm_stack_region, unfolded spare_pages_of(1)] show ?thesis
    by (simp only: tr cong: imp_cong)
qed

theorem arm_stack_created_witness:
  "\<exists>stack w'. create_mapped arm_kernel_stack_region_base (arm_map_kernel_stack_page arm_sample_statics)
      (arm_unmap_kernel_stack_page arm_sample_statics) arm_stack_sample = Inr (Inr stack, w') \<and>
    stack_base stack = 0xffffffffc0001000 \<and>
    arm_translate (page_tables (mem_tables (stack_memory w'))) 0x40200000 0xffffffffc0002ff0 = Some 0x80001ff0"
proof -
  have k: "arm_kernel_address 0xffffffffc0002ff0"
    by (simp add: arm_kernel_address_def ARM_KERNEL_VIRTUAL_BASE_def)
  obtain stack w' where c: "create_mapped arm_kernel_stack_region_base (arm_map_kernel_stack_page arm_sample_statics)
      (arm_unmap_kernel_stack_page arm_sample_statics) arm_stack_sample = Inr (Inr stack, w')"
    using arm_stack_sample_created by blast
  have w: "next_stack_slot arm_stack_sample = 0" "mem_pmm (stack_memory arm_stack_sample) = stack_sample_pmm"
    by (simp_all add: arm_stack_sample_def)
  have "unat (stack_base stack) = unat arm_kernel_stack_region_base + 4096 \<and>
      (\<exists>p \<in> set (free_addresses stack_sample_pmm). p + PAGE_SIZE \<in> set (free_addresses stack_sample_pmm) \<and>
         (\<forall>a. arm_kernel_address a \<longrightarrow> stack_base stack \<le> a \<and> unat a < unat (stack_base stack) + 8192 \<longrightarrow>
            arm_translate (page_tables (mem_tables (stack_memory w'))) (arm_root arm_sample_statics) a = Some (p + (a - stack_base stack))))"
    using arm_stack_created [OF arm_stack_sample_ok] c unfolding w by auto
  then obtain p where b: "unat (stack_base stack) = unat arm_kernel_stack_region_base + 4096"
    and p: "p \<in> set (free_addresses stack_sample_pmm)" "p + PAGE_SIZE \<in> set (free_addresses stack_sample_pmm)"
    and t: "\<And>a. arm_kernel_address a \<Longrightarrow> stack_base stack \<le> a \<and> unat a < unat (stack_base stack) + 8192 \<Longrightarrow>
      arm_translate (page_tables (mem_tables (stack_memory w'))) (arm_root arm_sample_statics) a = Some (p + (a - stack_base stack))"
    by blast
  have base: "stack_base stack = 0xffffffffc0001000"
    using b by (simp add: word_unat_eq_iff arm_stack_region_base)
  have "p = 0x80000000"
    using p by (auto simp: stack_sample_addresses PAGE_SIZE_def)
  then show ?thesis
    using c base t [OF k] by auto
qed

text \<open>
  C7. The boot probe of the kernel stacks on RISC-V, which creates a stack and drops it, never
  panics and leaves no trace, whether it reports an error or not: every translation is as before,
  and every page that was free is free again or holds a new page table of the stack region, which
  stays in the tree. It reports an error exactly when the creation of the stack does, for one of
  that operation's reasons, and one slot is used up.\<close>
theorem rv_boot_probe_restores:
  assumes "memory_ok rv_format (2 ^ 64) 4 (rv_root st) (stack_memory w)"
  shows "\<exists>r w'. boot_probe rv_kernel_stack_region_base (rv_map_kernel_stack_page st) (rv_unmap_kernel_stack_page st) w = Inr (r, w') \<and>
    memory_ok rv_format (2 ^ 64) 4 (rv_root st) (stack_memory w') \<and> next_stack_slot w' = next_stack_slot w + 1 \<and>
    table_or_free rv_format 4 (rv_root st) (stack_memory w') = table_or_free rv_format 4 (rv_root st) (stack_memory w) \<and>
    tables_of rv_format 4 (page_tables (mem_tables (stack_memory w))) (rv_root st) \<subseteq>
      tables_of rv_format 4 (page_tables (mem_tables (stack_memory w'))) (rv_root st) \<and>
    (case r of
       Inl e \<Rightarrow> (\<exists>w1. create_mapped rv_kernel_stack_region_base (rv_map_kernel_stack_page st)
         (rv_unmap_kernel_stack_page st) w = Inr (Inl e, w1)) \<and>
         (e = RegionExhausted \<and> MAX_KERNEL_STACK_SLOTS \<le> next_stack_slot w \<or>
          e = StackOutOfMemory \<and> (\<forall>i s. \<not> run_available (mem_pmm (stack_memory w)) 12 2 i s) \<or> (\<exists>e'. e = StackMap e'))
     | Inr _ \<Rightarrow> \<exists>stack w1. create_mapped rv_kernel_stack_region_base (rv_map_kernel_stack_page st)
         (rv_unmap_kernel_stack_page st) w = Inr (Inr stack, w1)) \<and>
    (\<forall>a. rv_kernel_address a \<longrightarrow> rv_translate (page_tables (mem_tables (stack_memory w'))) (rv_root st) a =
       rv_translate (page_tables (mem_tables (stack_memory w))) (rv_root st) a)"
proof -
  have tr: "rv_translate m (rv_root st) a = resolve rv_format m (rv_root st) (rv_levels a) a" if "rv_kernel_address a" for m a
    using rv_kernel_canonical [OF that] by (simp add: rv_translate_resolve)
  from rv_mapper.probe_restores [OF assms rv_stack_region, unfolded spare_pages_of(2)] show ?thesis
    by (simp only: tr cong: imp_cong)
qed

theorem rv_boot_probe_restores_witness:
  "\<exists>w'. boot_probe rv_kernel_stack_region_base (rv_map_kernel_stack_page rv_sample_statics) (rv_unmap_kernel_stack_page rv_sample_statics)
      rv_stack_sample = Inr (Inr (), w') \<and>
    set (free_addresses (mem_pmm (stack_memory w'))) \<union> tables_of rv_format 4 (page_tables (mem_tables (stack_memory w'))) 0x80300000 =
      {0x80000000, 0x80001000, 0x80300000, 0x80302000, 0x80304000, 0x80303000} \<and>
    rv_translate (page_tables (mem_tables (stack_memory w'))) 0x80300000 (rv_kernel_stack_region_base + 4096) = None"
proof -
  let ?m = "stack_memory rv_stack_sample"
  have k: "rv_kernel_address (rv_kernel_stack_region_base + 4096)"
    by (simp add: rv_stack_region_base rv_kernel_address_def RV_KERNEL_VIRTUAL_BASE_def)
  have n: "rv_translate (page_tables (mem_tables ?m)) 0x80300000 (rv_kernel_stack_region_base + 4096) = None"
    using rv_kernel_canonical [OF k]
    by (simp add: rv_translate_def rv_sample_entries [unfolded rv_is_branch_def] rv_sample_tables_def rv_stack_region_base rv_index_nat
        Let_def rv_stack_sample_def rv_sample_def)
  obtain r w' where b: "boot_probe rv_kernel_stack_region_base (rv_map_kernel_stack_page rv_sample_statics)
        (rv_unmap_kernel_stack_page rv_sample_statics) rv_stack_sample = Inr (r, w')"
      "table_or_free rv_format 4 0x80300000 (stack_memory w') = table_or_free rv_format 4 0x80300000 ?m"
      "rv_translate (page_tables (mem_tables (stack_memory w'))) 0x80300000 (rv_kernel_stack_region_base + 4096) = None"
    using rv_boot_probe_restores [OF rv_stack_sample_ok] k n unfolding rv_sample_root by fastforce
  obtain stack w1 where "create_mapped rv_kernel_stack_region_base (rv_map_kernel_stack_page rv_sample_statics)
      (rv_unmap_kernel_stack_page rv_sample_statics) rv_stack_sample = Inr (Inr stack, w1)"
    using rv_stack_sample_created by blast
  then have "r = Inr ()"
    using b(1) by (auto simp: boot_probe_def bind_panic_def split: sum.splits)
  moreover have "table_or_free rv_format 4 0x80300000 ?m = {0x80000000, 0x80001000, 0x80300000, 0x80302000, 0x80304000, 0x80303000}"
    unfolding table_or_free_def rv_stack_sample_def rv_sample_def
    by (simp add: stack_sample_addresses rv_sample_tables_of insert_commute)
  ultimately show ?thesis
    using b by (auto simp: table_or_free_def)
qed

end
