(* ===== verification/Sync.thy ===== *)
theory Sync
  imports Rust_Prelude
begin

text \<open>
  \<open>sync/mod.rs\<close>: the one-shot flag, the ticket lock, and the spin lock with its guard, which masks
  the interrupts of the processor (\<open>arch/*/cpu.rs\<close>). Atomic operations are single steps. What
  other processors do to a lock between two polls of a waiting processor is the list of values its
  loads return. \<open>debug_assert\<close> checks are made when the parameter \<open>debug\<close> is true.
\<close>

unbundle bit_operations_syntax

section \<open>Interrupt masks\<close>

definition DAIF_IRQ_MASK :: u64 where
  "DAIF_IRQ_MASK = 2"

text \<open>\<open>msr daifset\<close> and \<open>msr daifclr\<close> set and clear the bits 6 to 9 that the mask selects.\<close>

definition arm_disable_interrupts :: "u64 \<Rightarrow> bool \<times> u64" where
  "arm_disable_interrupts daif = (daif AND push_bit 7 1 = 0, daif OR push_bit 6 DAIF_IRQ_MASK)"

definition arm_enable_interrupts :: "u64 \<Rightarrow> u64" where
  "arm_enable_interrupts daif = daif AND NOT (push_bit 6 DAIF_IRQ_MASK)"

definition arm_restore_interrupts :: "bool \<Rightarrow> u64 \<Rightarrow> u64" where
  "arm_restore_interrupts was_enabled daif = (if was_enabled then arm_enable_interrupts daif else daif)"

definition SUPERVISOR_INTERRUPT_ENABLE :: u64 where
  "SUPERVISOR_INTERRUPT_ENABLE = push_bit 1 1"

definition rv_disable_interrupts :: "u64 \<Rightarrow> bool \<times> u64" where
  "rv_disable_interrupts sstatus =
     (sstatus AND SUPERVISOR_INTERRUPT_ENABLE \<noteq> 0, sstatus AND NOT SUPERVISOR_INTERRUPT_ENABLE)"

definition rv_enable_interrupts :: "u64 \<Rightarrow> u64" where
  "rv_enable_interrupts sstatus = sstatus OR SUPERVISOR_INTERRUPT_ENABLE"

definition rv_restore_interrupts :: "bool \<Rightarrow> u64 \<Rightarrow> u64" where
  "rv_restore_interrupts was_enabled sstatus = (if was_enabled then rv_enable_interrupts sstatus else sstatus)"

section \<open>The one-shot flag\<close>

record Once =
  once_done :: bool

definition Once_new :: Once where
  "Once_new = \<lparr>once_done = False\<rparr>"

definition try_once :: "Once \<Rightarrow> bool \<times> Once" where
  "try_once f = (\<not> once_done f, f\<lparr>once_done := True\<rparr>)"

definition is_done :: "Once \<Rightarrow> bool" where
  "is_done f = once_done f"

section \<open>The ticket lock\<close>

definition TICKET_SHIFT :: nat where
  "TICKET_SHIFT = 16"

record TicketLock =
  ticket_state :: u32

definition TicketLock_new :: TicketLock where
  "TicketLock_new = \<lparr>ticket_state = 0\<rparr>"

definition ticket_owner :: "u32 \<Rightarrow> u16" where
  "ticket_owner s = ucast s"

definition ticket_next :: "u32 \<Rightarrow> u16" where
  "ticket_next s = ucast (drop_bit TICKET_SHIFT s)"

text \<open>\<open>acquire\<close> is a fetch-and-add, which returns a ticket and whether it is served at once, and a loop of loads.\<close>

definition acquire_take :: "TicketLock \<Rightarrow> (u16 \<times> bool) \<times> TicketLock" where
  "acquire_take lock =
     (let old = ticket_state lock;
          ticket = ticket_next old;
          owner = ticket_owner old
      in ((ticket, owner = ticket), lock\<lparr>ticket_state := old + push_bit TICKET_SHIFT 1\<rparr>))"

definition acquire_poll :: "u16 \<Rightarrow> u32 \<Rightarrow> bool" where
  "acquire_poll ticket loaded \<longleftrightarrow> ticket_owner loaded = ticket"

fun acquire_spin :: "u16 \<Rightarrow> u32 list \<Rightarrow> bool" where
  "acquire_spin ticket [] = False"
| "acquire_spin ticket (loaded # loads) = (acquire_poll ticket loaded \<or> acquire_spin ticket loads)"

text \<open>Whether \<open>acquire\<close> has returned after the given loads.\<close>

definition acquire :: "u32 list \<Rightarrow> TicketLock \<Rightarrow> bool \<times> TicketLock" where
  "acquire loads lock =
     (let ((ticket, served), lock) = acquire_take lock
      in (served \<or> acquire_spin ticket loads, lock))"

text \<open>\<open>try_acquire\<close> is a load and a compare-and-exchange with the loaded value.\<close>

definition try_acquire_load :: "TicketLock \<Rightarrow> u32 option" where
  "try_acquire_load lock =
     (let current = ticket_state lock
      in if ticket_owner current \<noteq> ticket_next current then None else Some current)"

definition try_acquire_swap :: "u32 \<Rightarrow> TicketLock \<Rightarrow> bool \<times> TicketLock" where
  "try_acquire_swap current lock =
     (if ticket_state lock = current
      then (True, lock\<lparr>ticket_state := current + push_bit TICKET_SHIFT 1\<rparr>) else (False, lock))"

definition try_acquire :: "TicketLock \<Rightarrow> bool \<times> TicketLock" where
  "try_acquire lock =
     (case try_acquire_load lock of None \<Rightarrow> (False, lock) | Some current \<Rightarrow> try_acquire_swap current lock)"

definition TicketLock_release :: "bool \<Rightarrow> TicketLock \<Rightarrow> TicketLock panics" where
  "TicketLock_release debug lock =
     (let s = ticket_state lock
      in if debug \<and> ticket_owner s = ticket_next s then Inl ''ticket: release called when lock is not held''
         else Inr (lock\<lparr>ticket_state := ticket_state lock + 1\<rparr>))"

section \<open>The spin lock\<close>

record SpinLock =
  spin_inner :: TicketLock
  spin_held :: bool

definition SpinLock_new :: SpinLock where
  "SpinLock_new = \<lparr>spin_inner = TicketLock_new, spin_held = False\<rparr>"

definition SpinLock_lock :: "u32 list \<Rightarrow> SpinLock \<Rightarrow> bool \<times> SpinLock" where
  "SpinLock_lock loads l =
     (let (returned, inner) = acquire loads (spin_inner l);
          l = l\<lparr>spin_inner := inner\<rparr>
      in (returned, if returned then l\<lparr>spin_held := True\<rparr> else l))"

definition SpinLock_try_lock :: "SpinLock \<Rightarrow> bool \<times> SpinLock" where
  "SpinLock_try_lock l =
     (let (acquired, inner) = try_acquire (spin_inner l);
          l = l\<lparr>spin_inner := inner\<rparr>
      in (acquired, if acquired then l\<lparr>spin_held := True\<rparr> else l))"

definition SpinLock_unlock :: "bool \<Rightarrow> SpinLock \<Rightarrow> SpinLock panics" where
  "SpinLock_unlock debug l =
     (if debug \<and> \<not> spin_held l then Inl ''spinlock: release called when lock is not held''
      else
        let l = l\<lparr>spin_held := False\<rparr> in
        bind_panic (TicketLock_release debug (spin_inner l)) (\<lambda>inner. Inr (l\<lparr>spin_inner := inner\<rparr>)))"

text \<open>
  The guard, over the interrupt functions of the processor: \<open>guard\<close> returns the saved interrupt
  state once the lock is taken; \<open>None\<close> stands for a caller that still waits.
\<close>

record SpinLockGuard =
  irq_was_enabled :: bool

definition SpinLock_guard ::
  "('c \<Rightarrow> bool \<times> 'c) \<Rightarrow> u32 list \<Rightarrow> SpinLock \<Rightarrow> 'c \<Rightarrow> SpinLockGuard option \<times> SpinLock \<times> 'c" where
  "SpinLock_guard disable_interrupts loads l cpu =
     (let (was_enabled, cpu) = disable_interrupts cpu;
          (returned, l) = SpinLock_lock loads l
      in (if returned then Some \<lparr>irq_was_enabled = was_enabled\<rparr> else None, l, cpu))"

definition SpinLock_try_guard ::
  "('c \<Rightarrow> bool \<times> 'c) \<Rightarrow> (bool \<Rightarrow> 'c \<Rightarrow> 'c) \<Rightarrow> SpinLock \<Rightarrow> 'c \<Rightarrow> SpinLockGuard option \<times> SpinLock \<times> 'c" where
  "SpinLock_try_guard disable_interrupts restore_interrupts l cpu =
     (let (was_enabled, cpu) = disable_interrupts cpu;
          (acquired, l) = SpinLock_try_lock l
      in if acquired then (Some \<lparr>irq_was_enabled = was_enabled\<rparr>, l, cpu)
         else (None, l, restore_interrupts was_enabled cpu))"

definition SpinLockGuard_drop ::
  "(bool \<Rightarrow> 'c \<Rightarrow> 'c) \<Rightarrow> bool \<Rightarrow> SpinLockGuard \<Rightarrow> SpinLock \<Rightarrow> 'c \<Rightarrow> (SpinLock \<times> 'c) panics" where
  "SpinLockGuard_drop restore_interrupts debug g l cpu =
     bind_panic (SpinLock_unlock debug l) (\<lambda>l. Inr (l, restore_interrupts (irq_was_enabled g) cpu))"

section \<open>What the spin lock needs of the interrupt functions\<close>

locale interrupt_mask =
  fixes disable_interrupts :: "'c \<Rightarrow> bool \<times> 'c" and restore_interrupts :: "bool \<Rightarrow> 'c \<Rightarrow> 'c"
  assumes restore_undoes: "disable_interrupts c = (was_enabled, c') \<Longrightarrow> restore_interrupts was_enabled c' = c"

lemma mask_undone:
  fixes c :: u64
  shows "c AND m = 0 \<Longrightarrow> (c OR m) AND NOT m = c" "c AND m = 0 \<Longrightarrow> c AND NOT m = c"
    "c AND push_bit k 1 \<noteq> 0 \<Longrightarrow> c OR push_bit k 1 = c" "(c AND NOT m) OR m = c OR m"
proof -
  have "\<not> (bit c i \<and> bit m i)" if "c AND m = 0" for i
    using that by (metis bit_and_iff bit_0_eq bot_apply bot_bool_def)
  then show "c AND m = 0 \<Longrightarrow> (c OR m) AND NOT m = c" "c AND m = 0 \<Longrightarrow> c AND NOT m = c"
    by (auto simp: bit_simps intro!: bit_word_eqI)
  show "(c AND NOT m) OR m = c OR m"
    by (auto simp: bit_simps intro!: bit_word_eqI)
  have "c AND push_bit k 1 = 0" if "\<not> bit c k"
    using that by (intro bit_word_eqI) (auto simp: bit_simps)
  moreover have "c OR push_bit k 1 = c" if "bit c k"
    using that by (intro bit_word_eqI) (auto simp: bit_simps)
  ultimately show "c AND push_bit k 1 \<noteq> 0 \<Longrightarrow> c OR push_bit k 1 = c"
    by blast
qed

interpretation arm_irq: interrupt_mask arm_disable_interrupts arm_restore_interrupts
proof
  have irq: "push_bit 6 DAIF_IRQ_MASK = push_bit 7 (1 :: u64)"
    by (simp add: DAIF_IRQ_MASK_def)
  show "arm_restore_interrupts b c' = c" if d: "arm_disable_interrupts c = (b, c')" for c b c'
  proof -
    have b: "b \<longleftrightarrow> c AND push_bit 7 1 = 0" and c': "c' = c OR push_bit 7 1"
      using d unfolding arm_disable_interrupts_def irq by blast+
    show ?thesis
      using b mask_undone(3) [of c 7] mask_undone(1) [of c "push_bit 7 1"]
      unfolding c' arm_restore_interrupts_def arm_enable_interrupts_def irq by presburger
  qed
qed

interpretation rv_irq: interrupt_mask rv_disable_interrupts rv_restore_interrupts
proof
  show "rv_restore_interrupts b c' = c" if d: "rv_disable_interrupts c = (b, c')" for c b c'
  proof -
    have b: "b \<longleftrightarrow> c AND push_bit 1 1 \<noteq> 0" and c': "c' = c AND NOT (push_bit 1 1)"
      using d unfolding rv_disable_interrupts_def SUPERVISOR_INTERRUPT_ENABLE_def by blast+
    show ?thesis
      using b mask_undone(3) [of c 1] mask_undone(2) [of c "push_bit 1 1"]
      unfolding c' rv_restore_interrupts_def rv_enable_interrupts_def SUPERVISOR_INTERRUPT_ENABLE_def mask_undone(4)
      by presburger
  qed
qed

section \<open>The lock on several processors\<close>

text \<open>
  What a processor does with one lock, step by step. \<open>issued\<close> counts the tickets handed out and is
  not part of the code.
\<close>

datatype lock_phase = Idle | Waiting u16 | Trying u32 | Holding

record lock_machine =
  the_lock :: TicketLock
  phase :: "nat \<Rightarrow> lock_phase"
  issued :: nat

definition lock_start :: lock_machine where
  "lock_start = \<lparr>the_lock = TicketLock_new, phase = (\<lambda>_. Idle), issued = 0\<rparr>"

definition take_step :: "nat \<Rightarrow> lock_machine \<Rightarrow> lock_machine" where
  "take_step t m =
     (let ((ticket, served), lock) = acquire_take (the_lock m)
      in m\<lparr>the_lock := lock, phase := (phase m)(t := if served then Holding else Waiting ticket), issued := issued m + 1\<rparr>)"

definition poll_step :: "nat \<Rightarrow> u16 \<Rightarrow> lock_machine \<Rightarrow> lock_machine" where
  "poll_step t ticket m =
     (if acquire_poll ticket (ticket_state (the_lock m)) then m\<lparr>phase := (phase m)(t := Holding)\<rparr> else m)"

definition try_load_step :: "nat \<Rightarrow> lock_machine \<Rightarrow> lock_machine" where
  "try_load_step t m =
     (case try_acquire_load (the_lock m) of None \<Rightarrow> m | Some current \<Rightarrow> m\<lparr>phase := (phase m)(t := Trying current)\<rparr>)"

definition try_swap_step :: "nat \<Rightarrow> u32 \<Rightarrow> lock_machine \<Rightarrow> lock_machine" where
  "try_swap_step t current m =
     (let (acquired, lock) = try_acquire_swap current (the_lock m)
      in if acquired then m\<lparr>the_lock := lock, phase := (phase m)(t := Holding), issued := issued m + 1\<rparr>
         else m\<lparr>phase := (phase m)(t := Idle)\<rparr>)"

inductive lock_step :: "lock_machine \<Rightarrow> lock_machine \<Rightarrow> bool" where
  take: "phase m t = Idle \<Longrightarrow> lock_step m (take_step t m)"
| poll: "phase m t = Waiting ticket \<Longrightarrow> lock_step m (poll_step t ticket m)"
| try_load: "phase m t = Idle \<Longrightarrow> lock_step m (try_load_step t m)"
| try_swap: "phase m t = Trying current \<Longrightarrow> lock_step m (try_swap_step t current m)"
| release: "phase m t = Holding \<Longrightarrow> TicketLock_release debug (the_lock m) = Inr lock \<Longrightarrow>
    lock_step m (m\<lparr>the_lock := lock, phase := (phase m)(t := Idle)\<rparr>)"

section \<open>Tickets\<close>

lemma ticket_nat: "unat (ticket_owner s) = unat s mod 65536" "unat (ticket_next s) = unat s div 65536"
proof -
  show "unat (ticket_owner s) = unat s mod 65536"
    by (simp add: ticket_owner_def unsigned_ucast_eq take_bit_eq_mod)
  have "unat (drop_bit 16 s) = unat s div 65536"
    using unat_drop_bit_eq [of 16 s] by (simp add: drop_bit_eq_div)
  moreover have "unat s div 65536 < 65536"
    using unat_bound [of s] by simp
  ultimately show "unat (ticket_next s) = unat s div 65536"
    by (simp add: ticket_next_def TICKET_SHIFT_def unsigned_ucast_eq take_bit_eq_mod)
qed

text \<open>The state after \<open>issued\<close> tickets of which \<open>served\<close> are done, below the range of the halves.\<close>

definition ticket_word :: "nat \<Rightarrow> nat \<Rightarrow> u32" where
  "ticket_word n served = of_nat (n * 65536 + served)"

lemma ticket_word_halves:
  assumes "n < 65536" "served < 65536"
  shows "unat (ticket_owner (ticket_word n served)) = served" "unat (ticket_next (ticket_word n served)) = n"
    "ticket_owner (ticket_word n served) = ticket_next (ticket_word n served) \<longleftrightarrow> n = served"
proof -
  have "n * 65536 + served < 2 ^ 32"
    using assms by simp
  then have "unat (ticket_word n served) = n * 65536 + served"
    unfolding ticket_word_def by (simp only: unat_of_nat) (simp add: take_bit_nat_eq_self)
  then show h: "unat (ticket_owner (ticket_word n served)) = served" "unat (ticket_next (ticket_word n served)) = n"
    using assms by (simp_all add: ticket_nat)
  show "ticket_owner (ticket_word n served) = ticket_next (ticket_word n served) \<longleftrightarrow> n = served"
    using h by (auto simp: word_unat_eq_iff)
qed

lemma ticket_word_steps:
  "ticket_word n served + 65536 = ticket_word (Suc n) served"
  "ticket_word n served + 1 = ticket_word n (Suc served)"
  by (simp_all add: ticket_word_def)

text \<open>
  The invariant while fewer than \<open>2 ^ 16\<close> tickets are handed out: the halves are the two counters,
  and the outstanding tickets belong to the waiting processors and the holder, one each.
\<close>

definition ticket_of :: "nat \<Rightarrow> lock_phase \<Rightarrow> nat option" where
  "ticket_of served p = (case p of Waiting k \<Rightarrow> Some (unat k) | Holding \<Rightarrow> Some served | _ \<Rightarrow> None)"

lemma ticket_of_simps [simp]:
  "ticket_of served Idle = None" "ticket_of served (Trying c) = None"
  "ticket_of served (Waiting k) = Some (unat k)" "ticket_of served Holding = Some served"
  by (simp_all add: ticket_of_def)

definition lock_inv :: "lock_machine \<Rightarrow> nat \<Rightarrow> bool" where
  "lock_inv m served \<longleftrightarrow>
     served \<le> issued m \<and> issued m < 65536 \<and> ticket_state (the_lock m) = ticket_word (issued m) served \<and>
     (\<forall>k \<in> {served..<issued m}. \<exists>!t. ticket_of served (phase m t) = Some k) \<and>
     (\<forall>t k. ticket_of served (phase m t) = Some k \<longrightarrow> served \<le> k \<and> k < issued m) \<and>
     (\<forall>t c. phase m t = Trying c \<longrightarrow> ticket_owner c = ticket_next c)"

lemma lock_invD:
  assumes "lock_inv m served"
  shows "served \<le> issued m" "issued m < 65536" "ticket_state (the_lock m) = ticket_word (issued m) served"
    "\<And>t k. ticket_of served (phase m t) = Some k \<Longrightarrow> served \<le> k \<and> k < issued m"
    "\<And>t c. phase m t = Trying c \<Longrightarrow> ticket_owner c = ticket_next c"
    "\<And>t u k. ticket_of served (phase m t) = Some k \<Longrightarrow> ticket_of served (phase m u) = Some k \<Longrightarrow> t = u"
    "\<And>k. served \<le> k \<Longrightarrow> k < issued m \<Longrightarrow> \<exists>t. ticket_of served (phase m t) = Some k"
proof -
  show "served \<le> issued m" "issued m < 65536" "ticket_state (the_lock m) = ticket_word (issued m) served"
    using assms by (simp_all add: lock_inv_def)
  show "\<And>t c. phase m t = Trying c \<Longrightarrow> ticket_owner c = ticket_next c"
    using assms by (simp add: lock_inv_def)
  show r: "\<And>t k. ticket_of served (phase m t) = Some k \<Longrightarrow> served \<le> k \<and> k < issued m"
    using assms by (simp add: lock_inv_def)
  have u: "\<exists>!t. ticket_of served (phase m t) = Some k" if "served \<le> k" "k < issued m" for k
    using assms that by (simp add: lock_inv_def)
  then show "\<And>k. served \<le> k \<Longrightarrow> k < issued m \<Longrightarrow> \<exists>t. ticket_of served (phase m t) = Some k"
    by blast
  show "\<And>t u k. ticket_of served (phase m t) = Some k \<Longrightarrow> ticket_of served (phase m u) = Some k \<Longrightarrow> t = u"
    using u r by blast
qed

lemma lock_inv_start: "lock_inv lock_start 0"
  by (simp add: lock_inv_def lock_start_def TicketLock_new_def ticket_word_def)

text \<open>A new ticket for \<open>t\<close>, which is served at once exactly when none is outstanding.\<close>

lemma lock_inv_issue:
  assumes inv: "lock_inv m served" and t: "ticket_of served (phase m t) = None" and n: "Suc (issued m) < 65536"
    and p: "p = (if issued m = served then Holding else Waiting (of_nat (issued m)))"
    and m': "m' = m\<lparr>the_lock := lock, phase := (phase m)(t := p), issued := Suc (issued m)\<rparr>"
    and lock: "ticket_state lock = ticket_word (Suc (issued m)) served"
  shows "lock_inv m' served"
proof -
  note d = lock_invD [OF inv]
  have pk: "ticket_of served p = Some (issued m)"
    using n by (simp add: p unat_of_nat)
  have "\<exists>!u. ticket_of served (phase m' u) = Some k" if k: "served \<le> k" "k < Suc (issued m)" for k
  proof (cases "k = issued m")
    case True
    then show ?thesis
      using pk d(4) by (intro ex1I [of _ t]) (auto simp: m' split: if_splits dest: d(4))
  next
    case False
    then obtain u where u: "ticket_of served (phase m u) = Some k"
      using k d(7) [of k] by auto
    then have "u \<noteq> t"
      using t by auto
    then show ?thesis
      using u pk False d(6) by (intro ex1I [of _ u]) (auto simp: m' split: if_splits)
  qed
  moreover have "served \<le> k \<and> k < Suc (issued m)" if "ticket_of served (phase m' u) = Some k" for u k
    using that pk d(1) d(4) [of u k] by (auto simp: m' split: if_splits)
  moreover have "ticket_owner c = ticket_next c" if "phase m' u = Trying c" for u c
    using that d(5) by (auto simp: m' p split: if_splits)
  ultimately show ?thesis
    using d(1) n lock unfolding lock_inv_def m' by simp
qed

text \<open>A step that changes neither the lock nor the tickets.\<close>

lemma lock_inv_phase:
  assumes inv: "lock_inv m served" and same: "ticket_of served p = ticket_of served (phase m t)"
    and c: "\<And>c. p = Trying c \<Longrightarrow> ticket_owner c = ticket_next c"
  shows "lock_inv (m\<lparr>phase := (phase m)(t := p)\<rparr>) served"
proof -
  have "ticket_of served (((phase m)(t := p)) u) = ticket_of served (phase m u)" for u
    using same by simp
  moreover have "ticket_owner d = ticket_next d" if "((phase m)(t := p)) u = Trying d" for u d
    using that c lock_invD(5) [OF inv] by (auto split: if_splits)
  ultimately show ?thesis
    using inv unfolding lock_inv_def by simp
qed

lemma lock_inv_release:
  assumes inv: "lock_inv m served" and t: "phase m t = Holding"
    and m': "m' = m\<lparr>the_lock := (the_lock m)\<lparr>ticket_state := ticket_state (the_lock m) + 1\<rparr>, phase := (phase m)(t := Idle)\<rparr>"
  shows "lock_inv m' (Suc served)"
proof -
  note d = lock_invD [OF inv]
  have lt: "served < issued m"
    using d(4) [of t served] t by simp
  have only: "phase m u = Holding \<longleftrightarrow> u = t" for u
    using t d(6) [of u served t] by auto
  have tk: "ticket_of (Suc served) (phase m' u) = (if u = t then None else ticket_of served (phase m u))" for u
    using only [of u] by (cases "phase m u") (auto simp: m')
  have "\<exists>!u. ticket_of (Suc served) (phase m' u) = Some k" if k: "Suc served \<le> k" "k < issued m" for k
  proof -
    obtain u where u: "ticket_of served (phase m u) = Some k"
      using k d(7) [of k] by auto
    then have "u \<noteq> t"
      using t k by auto
    then show ?thesis
      using u d(6) by (intro ex1I [of _ u]) (auto simp: tk split: if_splits)
  qed
  moreover have "Suc served \<le> k \<and> k < issued m" if "ticket_of (Suc served) (phase m' u) = Some k" for u k
  proof -
    have u: "u \<noteq> t" "ticket_of served (phase m u) = Some k"
      using that by (auto simp: tk split: if_splits)
    then have "k \<noteq> served"
      using d(6) [of u served t] t by auto
    then show ?thesis
      using d(4) [OF u(2)] by simp
  qed
  moreover have "ticket_owner c = ticket_next c" if "phase m' u = Trying c" for u c
    using that d(5) by (auto simp: m' split: if_splits)
  moreover have "issued m' = issued m" "ticket_state (the_lock m') = ticket_word (issued m) (Suc served)"
    by (simp_all add: m' d(3) ticket_word_steps)
  ultimately show ?thesis
    using lt d(2) unfolding lock_inv_def by simp
qed

lemma lock_step_issued: "lock_step m m' \<Longrightarrow> issued m \<le> issued m'"
  by (induction rule: lock_step.induct)
    (auto simp: take_step_def poll_step_def try_load_step_def try_swap_step_def split: prod.splits option.splits)

lemma lock_inv_halves:
  assumes inv: "lock_inv m served"
  shows "unat (ticket_owner (ticket_state (the_lock m))) = served"
    "ticket_next (ticket_state (the_lock m)) = of_nat (issued m)"
    "ticket_owner (ticket_state (the_lock m)) = ticket_next (ticket_state (the_lock m)) \<longleftrightarrow> issued m = served"
    "ticket_state (the_lock m) + push_bit TICKET_SHIFT 1 = ticket_word (Suc (issued m)) served"
proof -
  note d = lock_invD [OF inv]
  have s: "served < 65536"
    using d(1,2) by simp
  note h = ticket_word_halves [OF d(2) s]
  show "unat (ticket_owner (ticket_state (the_lock m))) = served"
    "ticket_owner (ticket_state (the_lock m)) = ticket_next (ticket_state (the_lock m)) \<longleftrightarrow> issued m = served"
    using h by (simp_all add: d(3))
  show "ticket_next (ticket_state (the_lock m)) = of_nat (issued m)"
    using h(2) d(2) by (simp add: d(3) word_unat_eq_iff unat_of_nat take_bit_nat_eq_self)
  show "ticket_state (the_lock m) + push_bit TICKET_SHIFT 1 = ticket_word (Suc (issued m)) served"
    by (simp add: d(3) TICKET_SHIFT_def ticket_word_steps)
qed

lemma take_step_inv:
  assumes inv: "lock_inv m served" and t: "phase m t = Idle" and n: "issued (take_step t m) < 65536"
  shows "lock_inv (take_step t m) served"
proof -
  note h = lock_inv_halves [OF inv]
  have st: "take_step t m = m\<lparr>the_lock := (the_lock m)\<lparr>ticket_state := ticket_word (Suc (issued m)) served\<rparr>,
      phase := (phase m)(t := if issued m = served then Holding else Waiting (of_nat (issued m))), issued := Suc (issued m)\<rparr>"
    using h(3) unfolding take_step_def acquire_take_def Let_def h(2,4) by simp
  show ?thesis
    by (rule lock_inv_issue [OF inv _ _ refl st]) (use n t in \<open>simp_all add: st\<close>)
qed

lemma try_swap_step_inv:
  assumes inv: "lock_inv m served" and t: "phase m t = Trying current" and n: "issued (try_swap_step t current m) < 65536"
  shows "lock_inv (try_swap_step t current m) served"
proof (cases "ticket_state (the_lock m) = current")
  case True
  note h = lock_inv_halves [OF inv]
  have "issued m = served"
    using lock_invD(5) [OF inv t] h(3) True by simp
  then have st: "try_swap_step t current m = m\<lparr>the_lock := (the_lock m)\<lparr>ticket_state := ticket_word (Suc (issued m)) served\<rparr>,
      phase := (phase m)(t := if issued m = served then Holding else Waiting (of_nat (issued m))), issued := Suc (issued m)\<rparr>"
    using True unfolding try_swap_step_def try_acquire_swap_def True [symmetric] h(4) by simp
  show ?thesis
    by (rule lock_inv_issue [OF inv _ _ refl st]) (use n t in \<open>simp_all add: st\<close>)
next
  case False
  then have "try_swap_step t current m = m\<lparr>phase := (phase m)(t := Idle)\<rparr>"
    by (simp add: try_swap_step_def try_acquire_swap_def)
  then show ?thesis
    using lock_inv_phase [OF inv, of Idle t] t by simp
qed

lemma try_load_step_inv:
  assumes inv: "lock_inv m served" and t: "phase m t = Idle"
  shows "lock_inv (try_load_step t m) served"
  using inv t lock_inv_phase [OF inv, of "Trying (ticket_state (the_lock m))" t]
  by (simp add: try_load_step_def try_acquire_load_def Let_def)

lemma poll_step_inv:
  assumes inv: "lock_inv m served" and t: "phase m t = Waiting ticket"
  shows "lock_inv (poll_step t ticket m) served"
  using inv t lock_inv_phase [OF inv, of Holding t] lock_inv_halves(1) [OF inv]
  by (auto simp: poll_step_def acquire_poll_def)

lemma lock_step_inv:
  assumes "lock_step m m'" "lock_inv m served" "issued m' < 65536"
  shows "\<exists>served'. lock_inv m' served'"
  using assms
proof (induction rule: lock_step.induct)
  case (release m t debug lock)
  have "lock = (the_lock m)\<lparr>ticket_state := ticket_state (the_lock m) + 1\<rparr>"
    using release.hyps(2) by (simp add: TicketLock_release_def Let_def split: if_splits)
  then show ?case
    using lock_inv_release [OF release.prems(1) release.hyps(1)] by blast
qed (blast intro: take_step_inv poll_step_inv try_load_step_inv try_swap_step_inv)+

lemma lock_reachable_inv:
  "lock_step\<^sup>*\<^sup>* lock_start m \<Longrightarrow> issued m < 65536 \<Longrightarrow> \<exists>served. lock_inv m served"
proof (induction rule: rtranclp_induct)
  case base
  then show ?case
    using lock_inv_start by blast
next
  case (step m1 m2)
  then show ?case
    using lock_step_issued [OF step.hyps(2)] lock_step_inv [OF step.hyps(2)] by (meson le_less_trans)
qed

text \<open>
  C8. While fewer than 65536 tickets have been handed out, in any interleaving of blocking and
  non-blocking acquisitions and releases at most one processor holds a ticket lock, its release
  passes the debug assertion, and a waiting processor is never forgotten: another one holds the lock
  or some waiting processor's next poll succeeds.
\<close>

theorem ticket_lock_exclusive:
  assumes "lock_step\<^sup>*\<^sup>* lock_start m" "issued m < 65536"
  shows "(\<forall>t u. \<not> (phase m t = Holding \<and> phase m u = Holding \<and> t \<noteq> u)) \<and>
    (\<forall>t. phase m t = Holding \<longrightarrow> (\<exists>lock. TicketLock_release True (the_lock m) = Inr lock)) \<and>
    (\<forall>t k. phase m t = Waiting k \<longrightarrow>
      (\<exists>u. phase m u = Holding \<or> (\<exists>k'. phase m u = Waiting k' \<and> acquire_poll k' (ticket_state (the_lock m)))))"
proof -
  obtain served where inv: "lock_inv m served"
    using lock_reachable_inv assms by blast
  note d = lock_invD [OF inv] and h = lock_inv_halves [OF inv]
  have "t = u" if "phase m t = Holding" "phase m u = Holding" for t u
    using that d(6) [of t served u] by simp
  moreover have "\<exists>lock. TicketLock_release True (the_lock m) = Inr lock" if "phase m t = Holding" for t
    using that d(4) [of t served] h(3) by (simp add: TicketLock_release_def)
  moreover have "\<exists>u. phase m u = Holding \<or> (\<exists>k'. phase m u = Waiting k' \<and> acquire_poll k' (ticket_state (the_lock m)))"
    if t: "phase m t = Waiting k" for t k
  proof -
    obtain u where u: "ticket_of served (phase m u) = Some served"
      using d(4) [of t "unat k"] d(7) [of served] t by fastforce
    then show ?thesis
      using h(1) by (cases "phase m u") (auto simp: acquire_poll_def word_unat_eq_iff)
  qed
  ultimately show ?thesis
    by blast
qed

text \<open>Processor 0 takes the lock, processor 1 draws a ticket and waits.\<close>

definition contended :: lock_machine where
  "contended = take_step 1 (take_step 0 lock_start)"

lemma contended_reached: "lock_step\<^sup>*\<^sup>* lock_start contended"
proof -
  have "phase lock_start 0 = Idle" "phase (take_step 0 lock_start) 1 = Idle"
    by (simp_all add: lock_start_def take_step_def acquire_take_def Let_def)
  then show ?thesis
    unfolding contended_def by (meson converse_rtranclp_into_rtranclp rtranclp.rtrancl_refl lock_step.take)
qed

theorem ticket_lock_exclusive_witness:
  "phase contended 0 = Holding \<and> phase contended 1 = Waiting 1 \<and>
    (\<exists>lock. TicketLock_release True (the_lock contended) = Inr lock)"
proof -
  have p: "phase contended 0 = Holding" "phase contended 1 = Waiting 1" "issued contended = 2"
    by (simp_all add: contended_def take_step_def acquire_take_def lock_start_def TicketLock_new_def
        ticket_owner_def ticket_next_def TICKET_SHIFT_def)
  then show ?thesis
    using ticket_lock_exclusive [OF contended_reached] by auto
qed

section \<open>Guards\<close>

lemma acquire_free:
  assumes "k < 65536"
  shows "acquire [] \<lparr>ticket_state = ticket_word k k\<rparr> = (True, \<lparr>ticket_state = ticket_word (Suc k) k\<rparr>)"
  using ticket_word_halves(3) [OF assms assms]
  by (simp add: acquire_def acquire_take_def Let_def TICKET_SHIFT_def ticket_word_steps)

lemma release_taken:
  assumes "k < 65536"
  shows "ticket_owner (ticket_word (Suc k) k) \<noteq> ticket_next (ticket_word (Suc k) k)"
    "TicketLock_release debug \<lparr>ticket_state = ticket_word (Suc k) k\<rparr> = Inr \<lparr>ticket_state = ticket_word (Suc k) (Suc k)\<rparr>"
proof -
  show "ticket_owner (ticket_word (Suc k) k) \<noteq> ticket_next (ticket_word (Suc k) k)"
  proof (cases "Suc k = 65536")
    case True
    then show ?thesis
      by (simp add: ticket_word_def ticket_owner_def ticket_next_def TICKET_SHIFT_def)
  next
    case False
    then show ?thesis
      using assms ticket_word_halves(3) [of "Suc k" k] by simp
  qed
  then show "TicketLock_release debug \<lparr>ticket_state = ticket_word (Suc k) k\<rparr> = Inr \<lparr>ticket_state = ticket_word (Suc k) (Suc k)\<rparr>"
    by (simp add: TicketLock_release_def ticket_word_steps)
qed

text \<open>A spin lock that has gone through \<open>k\<close> rounds, free and held.\<close>

abbreviation free_spin :: "nat \<Rightarrow> SpinLock" where
  "free_spin k \<equiv> \<lparr>spin_inner = \<lparr>ticket_state = ticket_word k k\<rparr>, spin_held = False\<rparr>"

abbreviation held_spin :: "nat \<Rightarrow> SpinLock" where
  "held_spin k \<equiv> \<lparr>spin_inner = \<lparr>ticket_state = ticket_word (Suc k) k\<rparr>, spin_held = True\<rparr>"

lemma spin_moves:
  assumes "k < 65536"
  shows "SpinLock_lock [] (free_spin k) = (True, held_spin k)" "SpinLock_try_lock (free_spin k) = (True, held_spin k)"
    "SpinLock_try_lock (held_spin k) = (False, held_spin k)" "SpinLock_unlock debug (held_spin k) = Inr (free_spin (Suc k))"
  using ticket_word_halves(3) [OF assms assms] release_taken(1) [OF assms]
  by (simp_all add: SpinLock_lock_def SpinLock_try_lock_def SpinLock_unlock_def acquire_free [OF assms] release_taken(2) [OF assms]
      try_acquire_def try_acquire_load_def try_acquire_swap_def Let_def TICKET_SHIFT_def ticket_word_steps)

context interrupt_mask
begin

text \<open>A guard masks the interrupts, a second one is refused and leaves everything as it was, and dropping it undoes the mask.\<close>

lemma guard_cycle:
  assumes k: "k < 65536"
  shows "\<exists>g masked. masked = snd (disable_interrupts c) \<and>
    SpinLock_guard disable_interrupts [] (free_spin k) c = (Some g, held_spin k, masked) \<and>
    SpinLock_try_guard disable_interrupts restore_interrupts (free_spin k) c = (Some g, held_spin k, masked) \<and>
    (\<forall>other. SpinLock_try_guard disable_interrupts restore_interrupts (held_spin k) other = (None, held_spin k, other)) \<and>
    SpinLockGuard_drop restore_interrupts debug g (held_spin k) masked = Inr (free_spin (Suc k), c)"
proof -
  have "restore_interrupts (fst (disable_interrupts c)) (snd (disable_interrupts c)) = c" for c
    by (simp add: restore_undoes)
  then show ?thesis
    by (intro exI [of _ "\<lparr>irq_was_enabled = fst (disable_interrupts c)\<rparr>"] exI [of _ "snd (disable_interrupts c)"])
      (auto simp: SpinLock_guard_def SpinLock_try_guard_def SpinLockGuard_drop_def spin_moves [OF k] Let_def case_prod_beta)
qed

end

text \<open>A lock that has gone through 65536 rounds cannot be taken any more.\<close>

lemma spin_next:
  assumes "k < 65536"
  shows "fst (SpinLock_try_guard disable restore (free_spin (Suc k)) c) \<noteq> None \<longleftrightarrow> Suc k < 65536"
proof (cases "Suc k < 65536")
  case True
  then show ?thesis
    by (simp add: SpinLock_try_guard_def spin_moves(2) Let_def case_prod_beta)
next
  case False
  then have "Suc k = 65536"
    using assms by simp
  moreover have "\<not> fst (SpinLock_try_lock (free_spin 65536))"
    by (simp add: SpinLock_try_lock_def try_acquire_def try_acquire_load_def ticket_word_def ticket_owner_def ticket_next_def
        TICKET_SHIFT_def)
  ultimately show ?thesis
    by (simp add: SpinLock_try_guard_def Let_def case_prod_beta)
qed

text \<open>
  C38. On both processors, a guard of a free spin lock that has gone through \<open>k\<close> rounds, fewer than
  65536, masks interrupts and takes the lock; a second guard attempted on any processor while it lives
  is refused and leaves that processor's interrupt state and the lock alone; and dropping the guard
  passes the debug assertions, gives back the interrupt state from before and releases the lock,
  which a later guard can take exactly when this was not the 65536th round.
\<close>

theorem spin_guard_cycle:
  assumes "k < 65536"
  shows "(\<exists>g masked. masked = daif OR 128 \<and>
      SpinLock_guard arm_disable_interrupts [] (free_spin k) daif = (Some g, held_spin k, masked) \<and>
      (\<forall>other. SpinLock_try_guard arm_disable_interrupts arm_restore_interrupts (held_spin k) other = (None, held_spin k, other)) \<and>
      SpinLockGuard_drop arm_restore_interrupts True g (held_spin k) masked = Inr (free_spin (Suc k), daif) \<and>
      (fst (SpinLock_try_guard arm_disable_interrupts arm_restore_interrupts (free_spin (Suc k)) daif) \<noteq> None \<longleftrightarrow> Suc k < 65536)) \<and>
    (\<exists>g masked. masked = sstatus AND NOT 2 \<and>
      SpinLock_guard rv_disable_interrupts [] (free_spin k) sstatus = (Some g, held_spin k, masked) \<and>
      (\<forall>other. SpinLock_try_guard rv_disable_interrupts rv_restore_interrupts (held_spin k) other = (None, held_spin k, other)) \<and>
      SpinLockGuard_drop rv_restore_interrupts True g (held_spin k) masked = Inr (free_spin (Suc k), sstatus) \<and>
      (fst (SpinLock_try_guard rv_disable_interrupts rv_restore_interrupts (free_spin (Suc k)) sstatus) \<noteq> None \<longleftrightarrow> Suc k < 65536))"
proof -
  have m: "snd (arm_disable_interrupts daif) = daif OR 128" "snd (rv_disable_interrupts sstatus) = sstatus AND NOT 2"
    by (simp_all add: arm_disable_interrupts_def rv_disable_interrupts_def DAIF_IRQ_MASK_def SUPERVISOR_INTERRUPT_ENABLE_def)
  show ?thesis
    using arm_irq.guard_cycle [OF assms, of daif True] rv_irq.guard_cycle [OF assms, of sstatus True] unfolding m
      spin_next [OF assms] by blast
qed

theorem spin_guard_cycle_witness:
  "(\<exists>g. SpinLock_guard arm_disable_interrupts [] (free_spin 0) 0x340 = (Some g, held_spin 0, 0x3c0) \<and>
      SpinLockGuard_drop arm_restore_interrupts True g (held_spin 0) 0x3c0 = Inr (free_spin 1, 0x340)) \<and>
   (\<exists>g. SpinLock_guard rv_disable_interrupts [] (free_spin 0) 0x22 = (Some g, held_spin 0, 0x20) \<and>
      SpinLockGuard_drop rv_restore_interrupts True g (held_spin 0) 0x20 = Inr (free_spin 1, 0x22))"
proof -
  have "(0 :: nat) < 65536" "(0x340 OR 128 :: u64) = 0x3c0" "(0x22 AND NOT 2 :: u64) = 0x20" "Suc 0 = 1"
    by simp_all
  then show ?thesis
    using spin_guard_cycle [of 0 "0x340" "0x22"] by metis
qed

section \<open>What happens at the end of the range\<close>

text \<open>Rounds of an uncontended acquisition and a release; \<open>None\<close> when an acquisition does not return at once.\<close>

fun lock_rounds :: "nat \<Rightarrow> TicketLock \<Rightarrow> TicketLock option" where
  "lock_rounds 0 lock = Some lock"
| "lock_rounds (Suc n) lock =
    (case acquire [] lock of
       (True, lock) \<Rightarrow> (case TicketLock_release True lock of Inr lock \<Rightarrow> lock_rounds n lock | Inl _ \<Rightarrow> None)
     | (False, lock) \<Rightarrow> None)"

lemma lock_rounds_run:
  "k + n \<le> 65536 \<Longrightarrow> lock_rounds n \<lparr>ticket_state = ticket_word k k\<rparr> = Some \<lparr>ticket_state = ticket_word (k + n) (k + n)\<rparr>"
proof (induction n arbitrary: k)
  case (Suc n)
  then show ?case
    using Suc.IH [of "Suc k"] by (simp add: acquire_free release_taken)
qed simp

lemma acquire_spin_replicate: "acquire_spin ticket (replicate n s) \<longleftrightarrow> 0 < n \<and> acquire_poll ticket s"
  by (induction n) auto

text \<open>
  C39. After 65536 uncontended rounds, in which every debug assertion passes and nobody is left
  holding or waiting, the carry of the owner half has advanced the next-ticket half: \<open>try_acquire\<close>
  fails, and \<open>acquire\<close> does not return however often it polls, since no release is due.
\<close>

theorem ticket_lock_wedges:
  "\<exists>lock. lock_rounds 65536 TicketLock_new = Some lock \<and> \<not> fst (try_acquire lock) \<and>
    (\<forall>n. \<not> fst (acquire (replicate n (ticket_state (snd (acquire_take lock)))) lock))"
proof -
  have new: "TicketLock_new = \<lparr>ticket_state = ticket_word 0 0\<rparr>"
    by (simp add: TicketLock_new_def ticket_word_def)
  have end_state: "ticket_word 65536 65536 = 0x10000"
    by (simp add: ticket_word_def)
  have "lock_rounds 65536 TicketLock_new = Some \<lparr>ticket_state = 0x10000\<rparr>"
    using lock_rounds_run [of 0 65536] unfolding new end_state [symmetric] by (simp del: lock_rounds.simps)
  moreover have "\<not> fst (try_acquire \<lparr>ticket_state = 0x10000\<rparr>)"
    by (simp add: try_acquire_def try_acquire_load_def ticket_owner_def ticket_next_def TICKET_SHIFT_def)
  moreover have "\<not> fst (acquire (replicate n (ticket_state (snd (acquire_take \<lparr>ticket_state = 0x10000\<rparr>)))) \<lparr>ticket_state = 0x10000\<rparr>)" for n
    by (simp add: acquire_def acquire_take_def acquire_spin_replicate acquire_poll_def ticket_owner_def ticket_next_def TICKET_SHIFT_def)
  ultimately show ?thesis
    by blast
qed

end
