(* ===== verification/Slab.thy ===== *)
theory Slab
  imports Page_Pool Linked_List Address
begin

text \<open>
  The fixed-size object pools of \<open>allocator/mod.rs\<close>. A pool keeps its objects in slab pages: the
  first word of a page is an encoded back pointer, slot 0 holds the slab header and the other slots
  hold objects. The memory of the pages is a store with one part for each of these: headers by
  their address, first words by page address, and the bytes of the objects. A null pointer is the
  address 0. The object type is its layout; the page callbacks act on a world of their own.

  \<open>walk_slabs\<close>, the loop of \<open>current_slab_with_space\<close>, follows links without a bound; not
  returning is the value \<open>None\<close>, which \<open>alloc\<close> shows as \<open>diverges\<close>.
\<close>

unbundle bit_operations_syntax

section \<open>Constants and errors\<close>

definition CACHE_LINE_SIZE :: usize where
  "CACHE_LINE_SIZE = 64"

definition BACK_POINTER_SIZE :: usize where
  "BACK_POINTER_SIZE = 8"

definition MIN_SLABS :: nat where
  "MIN_SLABS = 1"

definition MAX_BITMAP_WORDS :: nat where
  "MAX_BITMAP_WORDS = 1"

definition POISON_FREE :: u8 where
  "POISON_FREE = 0xdd"

datatype AllocError = OutOfMemory | BadAlignment | TooLarge | AllocNotInitialized

datatype FreeError = MisalignedPointer | MetadataSlot | OutOfBounds | DoubleFree | InvalidSlab | FreeNotInitialized

datatype PoolInitError = AlignmentError | HeaderError | ObjectError

section \<open>Headers, pools and their memory\<close>

text \<open>The bitmap has \<open>MAX_BITMAP_WORDS = 1\<close> words and is its only word.\<close>

record SlabHeader =
  page_addr :: usize
  header_cookie :: usize
  bitmap :: u64
  free_count :: nat
  slab_next :: usize
  slab_prev :: usize
  in_partial_list :: bool

text \<open>\<open>size_of\<close> and \<open>align_of\<close> the header: six words and a flag, padded to a multiple of eight.\<close>

definition SLAB_HEADER_SIZE :: usize where
  "SLAB_HEADER_SIZE = 56"

definition SLAB_HEADER_ALIGN :: usize where
  "SLAB_HEADER_ALIGN = 8"

record Layout =
  size_of :: usize
  align_of :: usize

record 'w Pool =
  pool_alloc_page :: "'w \<Rightarrow> (usize option \<times> 'w) panics"
  pool_free_page :: "'w \<Rightarrow> usize \<Rightarrow> 'w panics"
  pool_cookie :: usize
  current :: usize
  partial_head :: usize
  total_allocated :: nat
  slab_count :: nat

record 'w SlabWorld =
  headers :: "usize \<Rightarrow> SlabHeader"
  first_words :: "usize \<Rightarrow> usize"
  object_bytes :: "usize \<Rightarrow> u8"
  page_world :: 'w

definition modify_header :: "usize \<Rightarrow> (SlabHeader \<Rightarrow> SlabHeader) \<Rightarrow> 'w SlabWorld \<Rightarrow> 'w SlabWorld" where
  "modify_header slab f w = w\<lparr>headers := (headers w)(slab := f (headers w slab))\<rparr>"

definition no_page_alloc :: "'w \<Rightarrow> (usize option \<times> 'w) panics" where
  "no_page_alloc w = Inr (None, w)"

definition no_page_free :: "'w \<Rightarrow> usize \<Rightarrow> 'w panics" where
  "no_page_free w page = Inr w"

definition Pool_empty :: "'w Pool" where
  "Pool_empty =
     \<lparr>pool_alloc_page = no_page_alloc, pool_free_page = no_page_free, pool_cookie = 0, current = 0,
      partial_head = 0, total_allocated = 0, slab_count = 0\<rparr>"

section \<open>Layout of a slab\<close>

definition slab_align_up :: "usize \<Rightarrow> usize \<Rightarrow> usize" where
  "slab_align_up v alignment = (v + alignment - 1) AND NOT (alignment - 1)"

definition object_align :: "Layout \<Rightarrow> usize" where
  "object_align T = max (align_of T) CACHE_LINE_SIZE"

definition object_size :: "Layout \<Rightarrow> usize" where
  "object_size T = slab_align_up (max (size_of T) 1) (object_align T)"

definition usable_start :: "Layout \<Rightarrow> usize" where
  "usable_start T = slab_align_up BACK_POINTER_SIZE (object_align T)"

fun shrink_objects :: "nat \<Rightarrow> nat \<Rightarrow> nat \<Rightarrow> nat" where
  "shrink_objects start obj_size 0 = 0"
| "shrink_objects start obj_size (Suc n) =
     (if start + Suc n * obj_size + MAX_BITMAP_WORDS * 8 > unat PAGE_SIZE
      then shrink_objects start obj_size n else Suc n)"

definition objects_per_slab :: "Layout \<Rightarrow> nat" where
  "objects_per_slab T =
     (if PAGE_SIZE \<le> usable_start T then 0
      else shrink_objects (unat (usable_start T)) (unat (object_size T))
             ((unat PAGE_SIZE - unat (usable_start T)) div unat (object_size T)))"

section \<open>Cookies and back pointers\<close>

definition mix64 :: "usize \<Rightarrow> usize" where
  "mix64 v =
     (let z = v + 0x9e3779b97f4a7c15;
          z = (z XOR drop_bit 30 z) * 0xbf58476d1ce4e5b9;
          z = (z XOR drop_bit 27 z) * 0x94d049bb133111eb
      in z XOR drop_bit 31 z)"

definition slab_cookie :: "'w Pool \<Rightarrow> usize \<Rightarrow> usize" where
  "slab_cookie pool page = mix64 (pool_cookie pool XOR page)"

definition encode_back_pointer :: "'w Pool \<Rightarrow> usize \<Rightarrow> usize \<Rightarrow> usize" where
  "encode_back_pointer pool page slab = slab XOR slab_cookie pool page"

definition decode_back_pointer :: "'w Pool \<Rightarrow> usize \<Rightarrow> usize \<Rightarrow> usize option" where
  "decode_back_pointer pool page encoded =
     (let decoded = encoded XOR slab_cookie pool page
      in if \<not> is_multiple_of decoded SLAB_HEADER_ALIGN then None
         else if decoded = 0 then None else Some decoded)"

section \<open>Creating a pool\<close>

definition Pool_try_new ::
  "Layout \<Rightarrow> ('w \<Rightarrow> (usize option \<times> 'w) panics) \<Rightarrow> ('w \<Rightarrow> usize \<Rightarrow> 'w panics) \<Rightarrow> usize \<Rightarrow> PoolInitError + 'w Pool" where
  "Pool_try_new T alloc_page free_page seed =
     (if PAGE_SIZE < object_align T then Inl AlignmentError
      else
        let pool = Pool_empty\<lparr>pool_alloc_page := alloc_page, pool_free_page := free_page, pool_cookie := mix64 seed\<rparr>
        in if object_size T < SLAB_HEADER_SIZE then Inl HeaderError
           else if objects_per_slab T \<le> 1 then Inl ObjectError
           else Inr pool)"

definition Pool_new ::
  "Layout \<Rightarrow> ('w \<Rightarrow> (usize option \<times> 'w) panics) \<Rightarrow> ('w \<Rightarrow> usize \<Rightarrow> 'w panics) \<Rightarrow> usize \<Rightarrow> 'w Pool panics" where
  "Pool_new T alloc_page free_page seed =
     (case Pool_try_new T alloc_page free_page seed of
        Inl _ \<Rightarrow> Inl ''slab: unsupported object layout''
      | Inr pool \<Rightarrow> Inr pool)"

section \<open>The partial list\<close>

definition link_slab :: "usize \<Rightarrow> 'w Pool \<Rightarrow> 'w SlabWorld \<Rightarrow> 'w Pool \<times> 'w SlabWorld" where
  "link_slab slab pool w =
     (let w = modify_header slab (\<lambda>h. h\<lparr>slab_next := partial_head pool, slab_prev := 0\<rparr>) w;
          w = (if partial_head pool \<noteq> 0 then modify_header (partial_head pool) (\<lambda>h. h\<lparr>slab_prev := slab\<rparr>) w else w);
          pool = pool\<lparr>partial_head := slab\<rparr>;
          w = modify_header slab (\<lambda>h. h\<lparr>in_partial_list := True\<rparr>) w
      in (pool, w))"

definition unlink_slab :: "usize \<Rightarrow> 'w Pool \<Rightarrow> 'w SlabWorld \<Rightarrow> 'w Pool \<times> 'w SlabWorld" where
  "unlink_slab slab pool w =
     (let prev = slab_prev (headers w slab);
          nxt = slab_next (headers w slab)
      in if \<not> in_partial_list (headers w slab) then (pool, w)
         else
           let (pool, w) = (if prev \<noteq> 0 then (pool, modify_header prev (\<lambda>h. h\<lparr>slab_next := nxt\<rparr>) w)
                            else (pool\<lparr>partial_head := nxt\<rparr>, w));
               w = (if nxt \<noteq> 0 then modify_header nxt (\<lambda>h. h\<lparr>slab_prev := prev\<rparr>) w else w);
               w = modify_header slab (\<lambda>h. h\<lparr>slab_prev := 0, slab_next := 0, in_partial_list := False\<rparr>) w;
               pool = (if current pool = slab then pool\<lparr>current := partial_head pool\<rparr> else pool)
           in (pool, w))"

section \<open>Allocation\<close>

definition diverges :: "'a panics" where
  "diverges = Inl ''does not return''"

partial_function (option) walk_slabs :: "(usize \<Rightarrow> SlabHeader) \<Rightarrow> usize \<Rightarrow> usize option" where
  "walk_slabs hs slab =
     (if slab = 0 then Some 0
      else if 0 < free_count (hs slab) then Some slab
      else walk_slabs hs (slab_next (hs slab)))"

text \<open>The address at which the walk stops is the new \<open>current\<close> and, unless it is null, the slab to use.\<close>

definition current_slab_with_space :: "'w Pool \<Rightarrow> 'w SlabWorld \<Rightarrow> (usize option \<times> 'w Pool) panics" where
  "current_slab_with_space pool w =
     (if current pool \<noteq> 0 \<and> 0 < free_count (headers w (current pool)) then Inr (Some (current pool), pool)
      else
        let pool = (if current pool \<noteq> 0 then pool\<lparr>current := partial_head pool\<rparr> else pool)
        in case walk_slabs (headers w) (current pool) of
             None \<Rightarrow> diverges
           | Some slab \<Rightarrow> Inr (if slab = 0 then None else Some slab, pool\<lparr>current := slab\<rparr>))"

definition trailing_zeros :: "u64 \<Rightarrow> nat" where
  "trailing_zeros word = length (takeWhile (\<lambda>i. \<not> bit word i) [0..<64])"

definition alloc_from_slab ::
  "Layout \<Rightarrow> usize \<Rightarrow> 'w Pool \<Rightarrow> 'w SlabWorld \<Rightarrow> (usize option \<times> 'w Pool \<times> 'w SlabWorld) panics" where
  "alloc_from_slab T slab pool w =
     (let h = headers w slab;
          word = bitmap h;
          slot_index = trailing_zeros word
      in if free_count h = 0 then Inr (None, pool, w)
         else if word = 0 then Inr (None, pool, w)
         else if objects_per_slab T \<le> slot_index then Inr (None, pool, w)
         else
           let w = modify_header slab
                     (\<lambda>h. h\<lparr>bitmap := word AND NOT (push_bit slot_index 1), free_count := free_count h - 1\<rparr>) w;
               pool = pool\<lparr>total_allocated := total_allocated pool + 1\<rparr>;
               (pool, w) = (if free_count (headers w slab) = 0 then unlink_slab slab pool w else (pool, w))
           in bind_panic (add_words (page_addr h) (usable_start T)) (\<lambda>storage_base.
              bind_panic (mul_words (of_nat slot_index) (object_size T)) (\<lambda>offset.
              bind_panic (add_words storage_base offset) (\<lambda>object_addr.
              Inr (if object_addr = 0 then None else Some object_addr, pool, w)))))"

definition alloc_new_slab ::
  "Layout \<Rightarrow> 'w Pool \<Rightarrow> 'w SlabWorld \<Rightarrow> (usize option \<times> 'w Pool \<times> 'w SlabWorld) panics" where
  "alloc_new_slab T pool w =
     bind_panic (pool_alloc_page pool (page_world w)) (\<lambda>(page, pw).
     let w = w\<lparr>page_world := pw\<rparr> in
     case page of
       None \<Rightarrow> Inr (None, pool, w)
     | Some page \<Rightarrow>
    (case checked_add page (usable_start T) of
       None \<Rightarrow> Inr (None, pool, w)
     | Some slab \<Rightarrow>
         if slab = 0 then Inr (None, pool, w)
         else
           let objects = objects_per_slab T;
               used_bits = objects mod 64;
               bits = (if used_bits \<noteq> 0 then push_bit used_bits 1 - 1 else - 1) AND NOT 1;
               w = modify_header slab
                     (\<lambda>_. \<lparr>page_addr = page, header_cookie = slab_cookie pool page, bitmap = bits,
                          free_count = objects - 1, slab_next = 0, slab_prev = 0, in_partial_list = False\<rparr>) w;
               w = w\<lparr>first_words := (first_words w)(page := encode_back_pointer pool page slab)\<rparr>;
               (pool, w) = link_slab slab pool w;
               pool = pool\<lparr>slab_count := slab_count pool + 1\<rparr>
           in Inr (Some slab, pool, w)))"

definition Pool_alloc ::
  "Layout \<Rightarrow> 'w Pool \<Rightarrow> 'w SlabWorld \<Rightarrow> (usize option \<times> 'w Pool \<times> 'w SlabWorld) panics" where
  "Pool_alloc T pool w =
     bind_panic (current_slab_with_space pool w) (\<lambda>(found, pool).
     case found of
       Some slab \<Rightarrow> alloc_from_slab T slab pool w
     | None \<Rightarrow>
         bind_panic (alloc_new_slab T pool w) (\<lambda>(new, pool, w).
         case new of
           None \<Rightarrow> Inr (None, pool, w)
         | Some slab \<Rightarrow> alloc_from_slab T slab (pool\<lparr>current := slab\<rparr>) w))"

section \<open>Freeing\<close>

text \<open>The checks of \<open>free\<close>: the slab header and the slot of an object, or the error.\<close>

definition locate_object :: "Layout \<Rightarrow> 'w Pool \<Rightarrow> 'w SlabWorld \<Rightarrow> usize \<Rightarrow> FreeError + (usize \<times> nat)" where
  "locate_object T pool w obj =
     (let page_base = obj AND NOT (PAGE_SIZE - 1);
          encoded = first_words w page_base
      in case decode_back_pointer pool page_base encoded of
           None \<Rightarrow> Inl InvalidSlab
         | Some slab \<Rightarrow>
        (case checked_add page_base (usable_start T) of
           None \<Rightarrow> Inl InvalidSlab
         | Some expected \<Rightarrow>
             if slab \<noteq> expected then Inl InvalidSlab
             else if page_addr (headers w slab) \<noteq> page_base \<or> header_cookie (headers w slab) \<noteq> slab_cookie pool page_base
             then Inl InvalidSlab
             else if obj < expected then Inl OutOfBounds
             else
               let offset = obj - expected in
               if \<not> is_multiple_of offset (object_size T) then Inl MisalignedPointer
               else
                 let slot_index = unat (offset div object_size T) in
                 if slot_index = 0 then Inl MetadataSlot
                 else if objects_per_slab T \<le> slot_index then Inl OutOfBounds
                 else Inr (slab, slot_index)))"

definition poison :: "usize \<Rightarrow> nat \<Rightarrow> (usize \<Rightarrow> u8) \<Rightarrow> usize \<Rightarrow> u8" where
  "poison obj n bytes = (\<lambda>a. if unat (a - obj) < n then POISON_FREE else bytes a)"

definition reclaim_slab ::
  "usize \<Rightarrow> 'w Pool \<Rightarrow> 'w SlabWorld \<Rightarrow> ('w Pool \<times> 'w SlabWorld) panics" where
  "reclaim_slab slab pool w =
     (let (pool, w) = unlink_slab slab pool w;
          pool = pool\<lparr>slab_count := slab_count pool - 1\<rparr>;
          page = page_addr (headers w slab);
          w = w\<lparr>first_words := (first_words w)(page := - 1)\<rparr>
      in if page = 0 then Inl ''called `Option::unwrap()` on a `None` value''
         else bind_panic (pool_free_page pool (page_world w) page) (\<lambda>pw. Inr (pool, w\<lparr>page_world := pw\<rparr>)))"

definition Pool_free ::
  "Layout \<Rightarrow> 'w Pool \<Rightarrow> 'w SlabWorld \<Rightarrow> usize \<Rightarrow> ((FreeError + unit) \<times> 'w Pool \<times> 'w SlabWorld) panics" where
  "Pool_free T pool w obj =
     (case locate_object T pool w obj of
        Inl e \<Rightarrow> Inr (Inl e, pool, w)
      | Inr (slab, slot_index) \<Rightarrow>
          let word_index = slot_index div 64;
              bit_mask = push_bit (slot_index mod 64) 1
          in if MAX_BITMAP_WORDS \<le> word_index then Inl ''index out of bounds''
             else if bitmap (headers w slab) AND bit_mask \<noteq> 0 then Inr (Inl DoubleFree, pool, w)
             else
               let w = w\<lparr>object_bytes := poison obj (unat (object_size T)) (object_bytes w)\<rparr>;
                   was_full = (free_count (headers w slab) = 0);
                   w = modify_header slab (\<lambda>h. h\<lparr>bitmap := bitmap h OR bit_mask, free_count := free_count h + 1\<rparr>) w
               in bind_panic (sub_or_panic (total_allocated pool) 1) (\<lambda>total.
                  let pool = pool\<lparr>total_allocated := total\<rparr> in
                  if free_count (headers w slab) = objects_per_slab T - 1 \<and> MIN_SLABS < slab_count pool
                  then bind_panic (reclaim_slab slab pool w) (\<lambda>(pool, w). Inr (Inr (), pool, w))
                  else if was_full
                  then let (pool, w) = link_slab slab pool w in Inr (Inr (), pool\<lparr>current := slab\<rparr>, w)
                  else Inr (Inr (), pool, w)))"

end
