(* ===== verification/Slab_Memory.thy ===== *)
theory Slab_Memory
  imports Slab
begin

text \<open>
  What the parts of the slab allocator do to the memory: the mixing function is a bijection, the
  objects of a slab lie in its page behind the header, and linking and unlinking keep the partial
  list a doubly linked list of slab headers and change nothing but links.
\<close>

unbundle bit_operations_syntax

section \<open>The mixing function is injective\<close>

lemma xor_shift_inj:
  fixes x y :: u64
  assumes "0 < k" "x XOR drop_bit k x = y XOR drop_bit k y"
  shows "x = y"
proof (rule bit_word_eqI)
  have step: "bit x i = bit y i" if "bit x (i + k) = bit y (i + k)" for i
  proof -
    have "bit (x XOR drop_bit k x) i = bit (y XOR drop_bit k y) i"
      using assms(2) by simp
    then show ?thesis
      using that by (simp add: bit_xor_iff bit_drop_bit_eq add.commute) blast
  qed
  have "bit x i = bit y i" for i
  proof (induction "64 - i" arbitrary: i rule: less_induct)
    case less
    show ?case
    proof (cases "i < 64")
      case True
      then show ?thesis
        using less [of "i + k"] step [of i] assms(1) by simp
    next
      case False
      then show ?thesis
        using bit_imp_le_length [of x i] bit_imp_le_length [of y i] by auto
    qed
  qed
  then show "bit x n = bit y n" for n .
qed

lemma mult_inj:
  fixes x y c d :: u64
  assumes "c * d = 1" "x * c = y * c"
  shows "x = y"
proof -
  have "x * (c * d) = y * (c * d)"
    using assms(2) by (simp only: mult.assoc [symmetric])
  then show ?thesis
    using assms(1) by (simp only: mult_1_right)
qed

definition mix_step :: "nat \<Rightarrow> u64 \<Rightarrow> u64 \<Rightarrow> u64" where
  "mix_step k c z = (z XOR drop_bit k z) * c"

lemma mix_step_inj: "0 < k \<Longrightarrow> c * d = 1 \<Longrightarrow> mix_step k c x = mix_step k c y \<Longrightarrow> x = y"
  unfolding mix_step_def by (erule xor_shift_inj) (erule mult_inj)

lemma mix64_steps:
  "mix64 v = (let z = mix_step 27 0x94d049bb133111eb (mix_step 30 0xbf58476d1ce4e5b9 (v + 0x9e3779b97f4a7c15))
     in z XOR drop_bit 31 z)"
  by (simp only: mix64_def mix_step_def Let_def)

lemma mix_inverses:
  "(0xbf58476d1ce4e5b9 :: u64) * 0x96de1b173f119089 = 1" "(0x94d049bb133111eb :: u64) * 0x319642b2d24d8ec3 = 1"
  by simp_all

lemma mix64_inj: "mix64 x = mix64 y \<Longrightarrow> x = y"
  unfolding mix64_steps Let_def
  apply (drule xor_shift_inj [rotated], simp only: zero_less_numeral)
  apply (drule mix_step_inj [rotated 2], simp only: zero_less_numeral, rule mix_inverses)
  apply (drule mix_step_inj [rotated 2], simp only: zero_less_numeral, rule mix_inverses)
  apply (simp only: add_right_cancel)
  done

lemma xor_left_inj: "(a :: u64) XOR b = a XOR c \<Longrightarrow> b = c"
  by (drule arg_cong [of _ _ "\<lambda>z. a XOR z"]) (simp flip: xor.assoc)

section \<open>Where things are in a slab page\<close>

text \<open>What every supported layout has: room for the header, aligned slots, and slots that fit one bitmap word.\<close>

definition layout_ok :: "Layout \<Rightarrow> bool" where
  "layout_ok T \<longleftrightarrow> 8 \<le> unat (usable_start T) \<and> 8 dvd unat (usable_start T) \<and>
     unat SLAB_HEADER_SIZE \<le> unat (object_size T) \<and> 2 < objects_per_slab T \<and> objects_per_slab T < 64 \<and>
     unat (usable_start T) + objects_per_slab T * unat (object_size T) \<le> 4096"

definition slab_at :: "Layout \<Rightarrow> usize \<Rightarrow> usize" where
  "slab_at T p = p + usable_start T"

definition object_at :: "Layout \<Rightarrow> usize \<Rightarrow> nat \<Rightarrow> usize" where
  "object_at T p i = p + of_nat (unat (usable_start T) + i * unat (object_size T))"

lemma page_room: "is_page_aligned p \<Longrightarrow> unat p + 4096 \<le> 2 ^ 64"
proof -
  assume "is_page_aligned p"
  then obtain k where k: "unat p = 4096 * k"
    by (auto simp: is_page_aligned_iff dvd_def mod_eq_0_iff_dvd)
  moreover have "unat p < 4096 * 2 ^ 52"
    using unat_bound64 [of p] by simp
  ultimately have "k < 2 ^ 52"
    by (simp only: mult_less_cancel1)
  then have "4096 * (k + 1) \<le> 4096 * 2 ^ 52"
    by (intro mult_le_mono2) simp
  then show ?thesis
    using k by simp
qed

lemma unat_in_page:
  assumes "is_page_aligned p" "n < 4096"
  shows "unat (p + of_nat n) = unat p + n"
proof -
  have n: "unat (of_nat n :: usize) = n"
    using assms(2) by (intro unat_of_nat_lt) simp
  have "unat p + n < 2 ^ 64"
    using page_room [OF assms(1)] assms(2) by simp
  then show ?thesis
    using unat_add_no_overflow [of p "of_nat n"] n by simp
qed

lemma align_down_in_page:
  assumes "is_page_aligned p" "n < 4096"
  shows "align_down (p + of_nat n) = p"
proof -
  have "unat p mod 4096 = 0"
    using assms(1) by (simp add: is_page_aligned_iff)
  then have "(unat p + n) mod 4096 = n"
    using assms(2) by (metis add.left_neutral mod_add_left_eq mod_less)
  then show ?thesis
    using unat_in_page [OF assms] by (simp add: word_unat_eq_iff unat_align_down)
qed

lemma slot_in_page:
  assumes "layout_ok T" "i < objects_per_slab T"
  shows "unat (usable_start T) + i * unat (object_size T) + unat (object_size T) \<le> 4096"
    "unat (usable_start T) + i * unat (object_size T) < 4096"
proof -
  have "Suc i * unat (object_size T) \<le> objects_per_slab T * unat (object_size T)"
    using assms(2) by (intro mult_le_mono1) simp
  then show s: "unat (usable_start T) + i * unat (object_size T) + unat (object_size T) \<le> 4096"
    using assms(1) by (simp add: layout_ok_def)
  have "0 < unat (object_size T)"
    using assms(1) by (simp add: layout_ok_def SLAB_HEADER_SIZE_def)
  then show "unat (usable_start T) + i * unat (object_size T) < 4096"
    using s by linarith
qed

lemma unat_object_at:
  assumes "layout_ok T" "is_page_aligned p" "i < objects_per_slab T"
  shows "unat (object_at T p i) = unat p + (unat (usable_start T) + i * unat (object_size T))"
  unfolding object_at_def by (rule unat_in_page [OF assms(2) slot_in_page(2) [OF assms(1,3)]])

lemma slab_at_object: "slab_at T p = object_at T p 0"
  by (simp add: slab_at_def object_at_def)

lemma unat_slab_at:
  assumes "layout_ok T" "is_page_aligned p"
  shows "unat (slab_at T p) = unat p + unat (usable_start T)" "slab_at T p \<noteq> 0"
proof -
  show s: "unat (slab_at T p) = unat p + unat (usable_start T)"
    using unat_object_at [OF assms, of 0] assms(1) by (simp add: slab_at_object layout_ok_def)
  show "slab_at T p \<noteq> 0"
    using s assms(1) by (auto simp: layout_ok_def)
qed

lemma slab_at_inj: "slab_at T p = slab_at T q \<longleftrightarrow> p = q"
  by (simp add: slab_at_def)

lemma object_at_page:
  assumes "layout_ok T" "is_page_aligned p" "i < objects_per_slab T"
  shows "align_down (object_at T p i) = p"
  unfolding object_at_def by (rule align_down_in_page [OF assms(2) slot_in_page(2) [OF assms(1,3)]])

lemma object_at_inj:
  assumes T: "layout_ok T" and p: "is_page_aligned p" "i < objects_per_slab T"
    and q: "is_page_aligned q" "j < objects_per_slab T"
  shows "object_at T p i = object_at T q j \<longleftrightarrow> p = q \<and> i = j"
proof
  assume eq: "object_at T p i = object_at T q j"
  have "p = q"
    using object_at_page [OF T p] object_at_page [OF T q] eq by simp
  moreover have "i * unat (object_size T) = j * unat (object_size T)"
  proof -
    have "unat (object_at T q i) = unat (object_at T q j)"
      using eq \<open>p = q\<close> by simp
    then show ?thesis
      using unat_object_at [OF T p] unat_object_at [OF T q] \<open>p = q\<close> by (simp only: add_left_cancel)
  qed
  moreover have "unat (object_size T) \<noteq> 0"
    using T by (simp add: layout_ok_def SLAB_HEADER_SIZE_def)
  ultimately show "p = q \<and> i = j"
    by auto
qed simp

section \<open>Bits\<close>

lemma trailing_zeros_bit:
  assumes "(word :: u64) \<noteq> 0"
  shows "bit word (trailing_zeros word)" "trailing_zeros word < 64"
proof -
  obtain j where j: "bit word j"
    using assms bit_eqI [of word 0] by auto
  then have "j < 64"
    using bit_imp_le_length [of word j] by simp
  then have ex: "\<exists>i \<in> set [0..<64]. bit word i"
    using j by auto
  then have lt: "trailing_zeros word < length [0..<64]"
    unfolding trailing_zeros_def using takeWhile_eq_all_conv [of "\<lambda>i. \<not> bit word i" "[0..<64]"]
      length_takeWhile_le [of "\<lambda>i. \<not> bit word i" "[0..<64]"] takeWhile_eq_take [of "\<lambda>i. \<not> bit word i" "[0..<64]"]
    by (metis le_neq_implies_less take_all_iff le_refl)
  then show "trailing_zeros word < 64"
    by simp
  show "bit word (trailing_zeros word)"
    using nth_length_takeWhile [of "\<lambda>i. \<not> bit word i" "[0..<64]"] lt by (simp add: trailing_zeros_def)
qed

text \<open>The masks \<open>1 << i\<close>, which the simplifier writes \<open>2 ^ i\<close>.\<close>

lemma bits_cleared: "i < 64 \<Longrightarrow> bit ((b :: u64) AND NOT (2 ^ i)) j \<longleftrightarrow> bit b j \<and> j \<noteq> i"
  using bit_imp_le_length [of b j] by (auto simp: bit_simps)

lemma bits_added: "i < 64 \<Longrightarrow> bit ((b :: u64) OR 2 ^ i) j \<longleftrightarrow> bit b j \<or> j = i"
  by (auto simp: bit_simps)

lemma bit_tested: "i < 64 \<Longrightarrow> (b :: u64) AND 2 ^ i = 0 \<longleftrightarrow> \<not> bit b i"
proof
  assume i: "i < 64" and z: "b AND 2 ^ i = 0"
  have "\<not> bit (b AND 2 ^ i) i"
    using z by simp
  then show "\<not> bit b i"
    using i by (simp add: bit_simps)
next
  assume "\<not> bit b i"
  then show "b AND 2 ^ i = 0"
    by (intro bit_word_eqI) (auto simp: bit_simps)
qed

lemma bits_initial:
  assumes "0 < n" "n < 64"
  shows "bit ((2 ^ n - 1 :: u64) AND NOT 1) j \<longleftrightarrow> 0 < j \<and> j < n"
proof -
  have "2 ^ n - 1 = (mask n :: u64)"
    by (simp add: mask_eq_exp_minus_1)
  then show ?thesis
    using assms by (auto simp: bit_simps)
qed

section \<open>The partial list\<close>

text \<open>The doubly linked list of headers from \<open>partial_head\<close>, and the headers that say they are on it.\<close>

definition list_ok :: "'w Pool \<Rightarrow> 'w SlabWorld \<Rightarrow> usize set \<Rightarrow> usize list \<Rightarrow> bool" where
  "list_ok pool w A hs \<longleftrightarrow> distinct hs \<and> set hs \<subseteq> A \<and> 0 \<notin> A \<and> partial_head pool = first_or hs 0 \<and>
     dll_seg (\<lambda>s. slab_prev (headers w s)) (\<lambda>s. slab_next (headers w s)) 0 hs 0 \<and>
     (\<forall>s \<in> A. in_partial_list (headers w s) \<longleftrightarrow> s \<in> set hs)"

definition current_ok :: "'w Pool \<Rightarrow> usize list \<Rightarrow> bool" where
  "current_ok pool hs \<longleftrightarrow> (if hs = [] then current pool = 0 else current pool \<in> set hs)"

text \<open>\<open>w'\<close> differs from \<open>w\<close> at most in the links of the headers in \<open>A\<close>.\<close>

definition links_changed :: "usize set \<Rightarrow> 'w SlabWorld \<Rightarrow> 'w SlabWorld \<Rightarrow> bool" where
  "links_changed A w w' \<longleftrightarrow> w' = w\<lparr>headers := headers w'\<rparr> \<and>
     (\<forall>s. s \<notin> A \<longrightarrow> headers w' s = headers w s) \<and>
     (\<forall>s. page_addr (headers w' s) = page_addr (headers w s) \<and> header_cookie (headers w' s) = header_cookie (headers w s) \<and>
        bitmap (headers w' s) = bitmap (headers w s) \<and> free_count (headers w' s) = free_count (headers w s))"

lemma headers_modify [simp]:
  "headers (modify_header a f w) s = (if s = a then f (headers w a) else headers w s)"
  by (simp add: modify_header_def)

lemma modify_header_other [simp]:
  "first_words (modify_header a f w) = first_words w" "object_bytes (modify_header a f w) = object_bytes w"
  "page_world (modify_header a f w) = page_world w"
  by (simp_all add: modify_header_def)

lemma links_changedD:
  assumes "links_changed A w w'"
  shows "first_words w' = first_words w" "object_bytes w' = object_bytes w" "page_world w' = page_world w"
    "page_addr (headers w' s) = page_addr (headers w s)" "header_cookie (headers w' s) = header_cookie (headers w s)"
    "bitmap (headers w' s) = bitmap (headers w s)" "free_count (headers w' s) = free_count (headers w s)"
    "s \<notin> A \<Longrightarrow> headers w' s = headers w s"
proof -
  have w': "w' = w\<lparr>headers := headers w'\<rparr>"
    using assms by (simp add: links_changed_def)
  show "first_words w' = first_words w" "object_bytes w' = object_bytes w" "page_world w' = page_world w"
    by (subst w', simp)+
  show "page_addr (headers w' s) = page_addr (headers w s)" "header_cookie (headers w' s) = header_cookie (headers w s)"
    "bitmap (headers w' s) = bitmap (headers w s)" "free_count (headers w' s) = free_count (headers w s)"
    "s \<notin> A \<Longrightarrow> headers w' s = headers w s"
    using assms by (simp_all add: links_changed_def)
qed

lemma world_eqI:
  "first_words w' = first_words w \<Longrightarrow> object_bytes w' = object_bytes w \<Longrightarrow> page_world w' = page_world w \<Longrightarrow>
    w' = w\<lparr>headers := headers (w' :: 'w SlabWorld)\<rparr>"
  by (cases w, cases w') simp

lemma link_slab_spec:
  assumes l: "list_ok pool w A hs" and s: "s \<in> A" "s \<notin> set hs"
  shows "\<exists>w'. link_slab s pool w = (pool\<lparr>partial_head := s\<rparr>, w') \<and>
    list_ok (pool\<lparr>partial_head := s\<rparr>) w' A (s # hs) \<and> links_changed A w w'"
proof -
  define w' where "w' = snd (link_slab s pool w)"
  have head: "partial_head pool = first_or hs 0" "distinct hs" "set hs \<subseteq> A" "0 \<notin> A"
    and d: "dll_seg (\<lambda>s. slab_prev (headers w s)) (\<lambda>s. slab_next (headers w s)) 0 hs 0"
    using l by (simp_all add: list_ok_def)
  have hd: "partial_head pool = (if hs = [] then 0 else hd hs)"
    using head(1) by (cases hs) simp_all
  have h: "hs \<noteq> [] \<Longrightarrow> hd hs \<in> A"
    using head(3) hd_in_set by blast
  have ne: "hs \<noteq> [] \<Longrightarrow> hd hs \<noteq> s \<and> hd hs \<noteq> 0"
    using s head(4) h hd_in_set [of hs] by metis
  have eq: "link_slab s pool w = (pool\<lparr>partial_head := s\<rparr>, w')"
    by (simp add: w'_def link_slab_def Let_def)
  have hw: "headers w' a = (if a = s then (headers w s)\<lparr>slab_next := first_or hs 0, slab_prev := 0, in_partial_list := True\<rparr>
      else if hs \<noteq> [] \<and> a = hd hs then (headers w a)\<lparr>slab_prev := s\<rparr> else headers w a)" for a
    using ne hd head(1) by (auto simp: w'_def link_slab_def Let_def)
  have "dll_seg (\<lambda>a. slab_prev (headers w' a)) (\<lambda>a. slab_next (headers w' a)) 0 (s # hs) 0"
    by (rule dll_seg_push_front [OF d head(2)]) (use s(2) in \<open>auto simp: hw\<close>)
  moreover have "\<forall>a \<in> A. in_partial_list (headers w' a) \<longleftrightarrow> a \<in> set (s # hs)"
    using l ne by (auto simp: list_ok_def hw)
  ultimately have "list_ok (pool\<lparr>partial_head := s\<rparr>) w' A (s # hs)"
    using head s by (simp add: list_ok_def)
  moreover have "w' = w\<lparr>headers := headers w'\<rparr>"
    by (rule world_eqI) (simp_all add: w'_def link_slab_def Let_def)
  then have "links_changed A w w'"
    using s head(3) h by (auto simp: links_changed_def hw)
  ultimately show ?thesis
    using eq by blast
qed

lemma unlink_slab_spec:
  assumes l: "list_ok pool w A (xs @ s # ys)" and c: "current_ok pool (xs @ s # ys)"
  shows "\<exists>pool' w'. unlink_slab s pool w = (pool', w') \<and> list_ok pool' w' A (xs @ ys) \<and> current_ok pool' (xs @ ys) \<and>
    links_changed A w w' \<and> pool' = pool\<lparr>current := current pool', partial_head := partial_head pool'\<rparr>"
proof -
  define pool' w' where "pool' = fst (unlink_slab s pool w)" and "w' = snd (unlink_slab s pool w)"
  have d: "distinct (xs @ s # ys)" "set (xs @ s # ys) \<subseteq> A" "0 \<notin> A" "partial_head pool = first_or (xs @ s # ys) 0"
    "dll_seg (\<lambda>s. slab_prev (headers w s)) (\<lambda>s. slab_next (headers w s)) 0 (xs @ s # ys) 0"
    "in_partial_list (headers w s)"
    using l by (auto simp: list_ok_def)
  note m = dll_seg_middle [OF d(5)]
  have nz: "0 \<notin> set xs" "0 \<notin> set ys"
    using d(2,3) by auto
  have px: "last_or 0 xs \<noteq> 0 \<longleftrightarrow> xs \<noteq> []" "first_or ys 0 \<noteq> 0 \<longleftrightarrow> ys \<noteq> []"
    using last_or_eq_null [OF nz(1)] first_or_eq_null [OF nz(2)] by simp_all
  have lx: "xs \<noteq> [] \<Longrightarrow> last_or 0 xs = last xs" "ys \<noteq> [] \<Longrightarrow> first_or ys 0 = hd ys"
    by (simp add: last_or_def, cases ys, simp_all)
  have mem: "xs \<noteq> [] \<Longrightarrow> last xs \<in> set xs" "ys \<noteq> [] \<Longrightarrow> hd ys \<in> set ys"
    by simp_all
  then have memA: "s \<in> A" "xs \<noteq> [] \<Longrightarrow> last xs \<in> A" "ys \<noteq> [] \<Longrightarrow> hd ys \<in> A"
    using d(2) by auto
  have ne: "xs \<noteq> [] \<Longrightarrow> last xs \<noteq> s" "ys \<noteq> [] \<Longrightarrow> hd ys \<noteq> s" "xs \<noteq> [] \<Longrightarrow> ys \<noteq> [] \<Longrightarrow> last xs \<noteq> hd ys"
    using d(1) mem by (auto, metis disjoint_iff)
  have hw: "headers w' a = (if a = s then (headers w s)\<lparr>slab_prev := 0, slab_next := 0, in_partial_list := False\<rparr>
      else if xs \<noteq> [] \<and> a = last xs then (headers w a)\<lparr>slab_next := first_or ys 0\<rparr>
      else if ys \<noteq> [] \<and> a = hd ys then (headers w a)\<lparr>slab_prev := last_or 0 xs\<rparr> else headers w a)" for a
    using ne d(6) px lx by (auto simp: w'_def unlink_slab_def m Let_def)
  have ph: "partial_head pool' = first_or (xs @ ys) 0"
    using d(4,6) px by (cases xs) (auto simp: pool'_def unlink_slab_def m Let_def first_or_append)
  have cur: "current pool' = (if current pool = s then first_or (xs @ ys) 0 else current pool)"
    using d(4,6) px by (cases xs) (auto simp: pool'_def unlink_slab_def m Let_def first_or_append)
  have "dll_seg (\<lambda>a. slab_prev (headers w' a)) (\<lambda>a. slab_next (headers w' a)) 0 (xs @ ys) 0"
    by (rule dll_seg_remove [OF d(5,1)]) (use d(1) ne in \<open>auto simp: hw\<close>)
  moreover have "\<forall>a \<in> A. in_partial_list (headers w' a) \<longleftrightarrow> a \<in> set (xs @ ys)"
    using l d(1) by (auto simp: list_ok_def hw)
  ultimately have "list_ok pool' w' A (xs @ ys)"
    using d(1,2,3) ph by (simp add: list_ok_def)
  moreover have "current_ok pool' (xs @ ys)"
    using c cur first_or_in [of "xs @ ys" 0] by (auto simp: current_ok_def)
  moreover have "w' = w\<lparr>headers := headers w'\<rparr>"
    by (rule world_eqI) (simp_all add: w'_def unlink_slab_def Let_def)
  then have "links_changed A w w'"
    using memA by (auto simp: links_changed_def hw)
  moreover have "pool' = pool\<lparr>current := current pool', partial_head := partial_head pool'\<rparr>"
    by (simp add: pool'_def unlink_slab_def Let_def)
  ultimately show ?thesis
    by (metis pool'_def prod.collapse w'_def)
qed

end
