(* ===== verification/Slab_Pool.thy ===== *)
theory Slab_Pool
  imports Slab_Memory
begin

text \<open>
  The invariant of a pool and what its operations do. A pool owns a set of slab pages; its objects
  are the slots of those pages whose bitmap bit is clear. The locale \<open>slab_pages\<close> is what a pool
  asks of its page callbacks: a page pool whose pages are aligned and not null.
\<close>

unbundle bit_operations_syntax

section \<open>The invariant\<close>

definition bits_ok :: "Layout \<Rightarrow> SlabHeader \<Rightarrow> bool" where
  "bits_ok T h \<longleftrightarrow> {i. bit (bitmap h) i} \<subseteq> {1..<objects_per_slab T} \<and> free_count h = card {i. bit (bitmap h) i}"

definition slab_ok :: "Layout \<Rightarrow> 'w Pool \<Rightarrow> 'w SlabWorld \<Rightarrow> usize \<Rightarrow> bool" where
  "slab_ok T pool w p \<longleftrightarrow> is_page_aligned p \<and> page_addr (headers w (slab_at T p)) = p \<and>
     header_cookie (headers w (slab_at T p)) = slab_cookie pool p \<and> bits_ok T (headers w (slab_at T p)) \<and>
     first_words w p = encode_back_pointer pool p (slab_at T p)"

definition live_objects :: "Layout \<Rightarrow> 'w SlabWorld \<Rightarrow> usize set \<Rightarrow> usize set" where
  "live_objects T w S =
     {object_at T p i | p i. p \<in> S \<and> 0 < i \<and> i < objects_per_slab T \<and> \<not> bit (bitmap (headers w (slab_at T p))) i}"

definition pool_ok :: "Layout \<Rightarrow> 'w Pool \<Rightarrow> 'w SlabWorld \<Rightarrow> usize set \<Rightarrow> usize list \<Rightarrow> bool" where
  "pool_ok T pool w S hs \<longleftrightarrow> finite S \<and> (\<forall>p \<in> S. slab_ok T pool w p) \<and> list_ok pool w (slab_at T ` S) hs \<and>
     (\<forall>p \<in> S. slab_at T p \<in> set hs \<longleftrightarrow> 0 < free_count (headers w (slab_at T p))) \<and> current_ok pool hs \<and>
     slab_count pool = card S \<and> total_allocated pool = card (live_objects T w S)"

text \<open>What an operation of one pool leaves alone.\<close>

definition same_pool :: "'w Pool \<Rightarrow> 'w Pool \<Rightarrow> bool" where
  "same_pool pool pool' \<longleftrightarrow> pool_cookie pool' = pool_cookie pool \<and>
     pool_alloc_page pool' = pool_alloc_page pool \<and> pool_free_page pool' = pool_free_page pool"

definition mem_frame :: "Layout \<Rightarrow> usize set \<Rightarrow> 'w SlabWorld \<Rightarrow> 'w SlabWorld \<Rightarrow> bool" where
  "mem_frame T S w w' \<longleftrightarrow> (\<forall>a. a \<notin> slab_at T ` S \<longrightarrow> headers w' a = headers w a) \<and>
     (\<forall>q. q \<notin> S \<longrightarrow> first_words w' q = first_words w q)"

lemma same_pool_cookie: "same_pool pool pool' \<Longrightarrow> slab_cookie pool' p = slab_cookie pool p"
  by (simp add: same_pool_def slab_cookie_def)

lemma slab_ok_cong:
  assumes "same_pool pool pool'" "headers w' (slab_at T p) = headers w (slab_at T p)" "first_words w' p = first_words w p"
  shows "slab_ok T pool' w' p \<longleftrightarrow> slab_ok T pool w p"
  using assms by (simp add: slab_ok_def encode_back_pointer_def same_pool_cookie)

lemma list_ok_cong:
  assumes "partial_head pool' = partial_head pool"
    and "\<And>s. s \<in> A \<Longrightarrow> slab_prev (headers w' s) = slab_prev (headers w s) \<and> slab_next (headers w' s) = slab_next (headers w s) \<and>
      in_partial_list (headers w' s) = in_partial_list (headers w s)"
  shows "list_ok pool' w' A hs \<longleftrightarrow> list_ok pool w A hs"
proof (cases "set hs \<subseteq> A")
  case True
  then have "dll_seg (\<lambda>s. slab_prev (headers w' s)) (\<lambda>s. slab_next (headers w' s)) 0 hs 0 =
      dll_seg (\<lambda>s. slab_prev (headers w s)) (\<lambda>s. slab_next (headers w s)) 0 hs 0"
    using assms(2) by (intro dll_seg_cong) auto
  then show ?thesis
    using assms by (auto simp: list_ok_def)
qed (simp add: list_ok_def)

text \<open>A pool depends on its own pages only.\<close>

lemma pool_ok_frame:
  assumes ok: "pool_ok T pool w S hs" and f: "mem_frame U P w w'" and us: "usable_start U = usable_start T" and d: "S \<inter> P = {}"
  shows "pool_ok T pool w' S hs \<and> live_objects T w' S = live_objects T w S"
proof -
  have h: "headers w' (slab_at T p) = headers w (slab_at T p)" "first_words w' p = first_words w p" if "p \<in> S" for p
  proof -
    have "p \<notin> P" "slab_at T p \<notin> slab_at U ` P"
      using d that us by (auto simp: slab_at_def)
    then show "headers w' (slab_at T p) = headers w (slab_at T p)" "first_words w' p = first_words w p"
      using f by (simp_all add: mem_frame_def)
  qed
  have l: "live_objects T w' S = live_objects T w S"
    using h by (fastforce simp: live_objects_def)
  have "list_ok pool w' (slab_at T ` S) hs = list_ok pool w (slab_at T ` S) hs"
    using h by (intro list_ok_cong) auto
  moreover have "slab_ok T pool w' p = slab_ok T pool w p" if "p \<in> S" for p
    using h [OF that] by (intro slab_ok_cong) (simp_all add: same_pool_def)
  ultimately have "pool_ok T pool w' S hs"
    using ok h l by (simp add: pool_ok_def)
  then show ?thesis
    using l by simp
qed

lemma bits_ok_clear:
  assumes "bits_ok T h" "bit (bitmap h) i"
  shows "bits_ok T (h\<lparr>bitmap := bitmap h AND NOT (push_bit i 1), free_count := free_count h - 1\<rparr>)"
proof -
  have "i < 64"
    using assms(2) bit_imp_le_length [of "bitmap h" i] by simp
  then have "{j. bit (bitmap h AND NOT (2 ^ i)) j} = {j. bit (bitmap h) j} - {i}"
    by (auto simp: bits_cleared)
  then show ?thesis
    using assms finite_subset [of "{j. bit (bitmap h) j}" "{1..<objects_per_slab T}"] by (auto simp: bits_ok_def)
qed

lemma bits_ok_set:
  assumes "bits_ok T h" "\<not> bit (bitmap h) i" "0 < i" "i < objects_per_slab T" "i < 64"
  shows "bits_ok T (h\<lparr>bitmap := bitmap h OR push_bit i 1, free_count := free_count h + 1\<rparr>)"
proof -
  have "{j. bit (bitmap h OR 2 ^ i) j} = insert i {j. bit (bitmap h) j}"
    using assms(5) by (auto simp: bits_added)
  then show ?thesis
    using assms finite_subset [of "{j. bit (bitmap h) j}" "{1..<objects_per_slab T}"] by (auto simp: bits_ok_def)
qed

lemma bits_ok_full: "bits_ok T h \<Longrightarrow> free_count h = objects_per_slab T - 1 \<Longrightarrow> 0 < i \<Longrightarrow> i < objects_per_slab T \<Longrightarrow> bit (bitmap h) i"
  using card_subset_eq [of "{1..<objects_per_slab T}" "{i. bit (bitmap h) i}"] by (auto simp: bits_ok_def)

lemma live_objects_cong:
  "(\<And>p. p \<in> S \<Longrightarrow> bitmap (headers w' (slab_at T p)) = bitmap (headers w (slab_at T p))) \<Longrightarrow> live_objects T w' S = live_objects T w S"
  by (fastforce simp: live_objects_def)

lemma live_objects_insert:
  "live_objects T w (insert p S) = live_objects T w S \<union>
    {object_at T p i | i. 0 < i \<and> i < objects_per_slab T \<and> \<not> bit (bitmap (headers w (slab_at T p))) i}"
  by (auto simp: live_objects_def)

lemma live_objects_take:
  assumes "p \<in> S" "0 < i" "i < objects_per_slab T"
    and "\<And>q j. q \<in> S \<Longrightarrow> bit (bitmap (headers w' (slab_at T q))) j \<longleftrightarrow> bit (bitmap (headers w (slab_at T q))) j \<and> \<not> (q = p \<and> j = i)"
  shows "live_objects T w' S = insert (object_at T p i) (live_objects T w S)"
  using assms by (fastforce simp: live_objects_def)

lemma live_objects_give:
  assumes T: "layout_ok T" and al: "\<And>q. q \<in> S \<Longrightarrow> is_page_aligned q" and p: "p \<in> S" "0 < i" "i < objects_per_slab T"
    and b: "\<And>q j. q \<in> S \<Longrightarrow> bit (bitmap (headers w' (slab_at T q))) j \<longleftrightarrow> bit (bitmap (headers w (slab_at T q))) j \<or> (q = p \<and> j = i)"
  shows "live_objects T w' S = live_objects T w S - {object_at T p i}"
proof -
  have "object_at T q j = object_at T p i \<longleftrightarrow> q = p \<and> j = i" if "q \<in> S" "j < objects_per_slab T" for q j
    using object_at_inj [OF T al [OF that(1)] that(2) al [OF p(1)] p(3)] .
  then show ?thesis
    using b by (fastforce simp: live_objects_def)
qed

lemma live_iff:
  assumes T: "layout_ok T" and al: "\<And>q. q \<in> S \<Longrightarrow> is_page_aligned q" and p: "p \<in> S" "0 < i" "i < objects_per_slab T"
  shows "object_at T p i \<in> live_objects T w S \<longleftrightarrow> \<not> bit (bitmap (headers w (slab_at T p))) i"
  using object_at_inj [OF T _ _ al [OF p(1)] p(3)] al p unfolding live_objects_def by fastforce

lemma finite_live: "finite S \<Longrightarrow> finite (live_objects T w S)"
proof (rule finite_subset)
  show "live_objects T w S \<subseteq> (\<lambda>(p, i). object_at T p i) ` (S \<times> {0..<objects_per_slab T})"
    by (auto simp: live_objects_def)
qed simp
section \<open>Taking a slot\<close>

lemma object_address:
  assumes T: "layout_ok T" and p: "is_page_aligned p" and i: "i < objects_per_slab T"
  shows "bind_panic (add_words p (usable_start T)) (\<lambda>b. bind_panic (mul_words (of_nat i) (object_size T)) (\<lambda>off.
      bind_panic (add_words b off) f)) = f (object_at T p i)"
    "object_at T p i \<noteq> 0"
proof -
  note room = page_room [OF p] slot_in_page [OF T i] and ua = unat_object_at [OF T p i]
  have i64: "unat (of_nat i :: usize) = i"
    using T i by (intro unat_of_nat_lt) (simp add: layout_ok_def)
  have m: "unat (of_nat i * object_size T) = i * unat (object_size T)"
    using room by (subst unat_mult_no_overflow) (simp_all add: i64)
  have s: "unat (p + usable_start T) = unat p + unat (usable_start T)"
    using unat_slab_at(1) [OF T p] by (simp add: slab_at_def)
  have "p + usable_start T + of_nat i * object_size T = object_at T p i"
    by (simp add: object_at_def add.assoc)
  then show "bind_panic (add_words p (usable_start T)) (\<lambda>b. bind_panic (mul_words (of_nat i) (object_size T)) (\<lambda>off.
      bind_panic (add_words b off) f)) = f (object_at T p i)"
    using room m s i64 by (simp add: add_words_def mul_words_def)
  show "object_at T p i \<noteq> 0"
    using ua T by (auto simp: layout_ok_def)
qed

lemma pool_okD:
  assumes "pool_ok T pool w S hs"
  shows "finite S" "p \<in> S \<Longrightarrow> slab_ok T pool w p" "p \<in> S \<Longrightarrow> is_page_aligned p" "list_ok pool w (slab_at T ` S) hs"
    "p \<in> S \<Longrightarrow> slab_at T p \<in> set hs \<longleftrightarrow> 0 < free_count (headers w (slab_at T p))" "current_ok pool hs"
    "slab_count pool = card S" "total_allocated pool = card (live_objects T w S)"
    "p \<in> S \<Longrightarrow> bits_ok T (headers w (slab_at T p))"
  using assms by (auto simp: pool_ok_def slab_ok_def)

text \<open>
  Rebuilding the invariant after the header of one page and the links have changed: the bits of the
  page are \<open>h\<close>'s, and everything else of the headers is as before.
\<close>

lemma pool_ok_update:
  assumes ok: "pool_ok T pool w S hs" and p: "p \<in> S"
    and h: "h = (headers w (slab_at T p))\<lparr>bitmap := bits, free_count := n\<rparr>" "bits_ok T h"
    and w1: "w1 = modify_header (slab_at T p) (\<lambda>_. h) w'" "headers w' = headers w" "first_words w' = first_words w"
    and w2: "links_changed (slab_at T ` S) w1 w2" "list_ok pool2 w2 (slab_at T ` S) hs2" "current_ok pool2 hs2"
    and hs2: "\<And>q. q \<in> S \<Longrightarrow> slab_at T q \<in> set hs2 \<longleftrightarrow> 0 < free_count (headers w1 (slab_at T q))"
    and pool2: "same_pool pool pool2" "slab_count pool2 = slab_count pool" "total_allocated pool2 = card (live_objects T w1 S)"
  shows "pool_ok T pool2 w2 S hs2 \<and> live_objects T w2 S = live_objects T w1 S \<and> mem_frame T S w w2"
proof -
  note d = pool_okD [OF ok] and lc = links_changedD [OF w2(1)]
  have hq: "headers w1 a = (if a = slab_at T p then h else headers w a)" for a
    by (simp add: w1(1,2))
  have l: "live_objects T w2 S = live_objects T w1 S"
    by (rule live_objects_cong) (simp add: lc)
  have "slab_ok T pool2 w2 q" if "q \<in> S" for q
    using d(2) [OF that] h w1 by (auto simp: slab_ok_def lc hq bits_ok_def encode_back_pointer_def same_pool_cookie [OF pool2(1)] slab_at_inj)
  then have "pool_ok T pool2 w2 S hs2"
    using d(1,7) w2 hs2 pool2 l by (simp add: pool_ok_def lc)
  moreover have "mem_frame T S w w2"
    using p lc(8) by (auto simp: mem_frame_def lc(1) w1)
  ultimately show ?thesis
    using l by simp
qed

lemma alloc_from_slab_spec:
  assumes T: "layout_ok T" and ok: "pool_ok T pool w S hs" and p: "p \<in> S" and fc: "0 < free_count (headers w (slab_at T p))"
  shows "\<exists>i pool' w' hs'. alloc_from_slab T (slab_at T p) pool w = Inr (Some (object_at T p i), pool', w') \<and>
    0 < i \<and> i < objects_per_slab T \<and> object_at T p i \<notin> live_objects T w S \<and>
    pool_ok T pool' w' S hs' \<and> live_objects T w' S = insert (object_at T p i) (live_objects T w S) \<and>
    same_pool pool pool' \<and> mem_frame T S w w' \<and> page_world w' = page_world w \<and> object_bytes w' = object_bytes w"
proof -
  note d = pool_okD [OF ok]
  let ?s = "slab_at T p"
  define i where "i = trailing_zeros (bitmap (headers w ?s))"
  define h where "h = (headers w ?s)\<lparr>bitmap := bitmap (headers w ?s) AND NOT (push_bit i 1), free_count := free_count (headers w ?s) - 1\<rparr>"
  define w1 where "w1 = modify_header ?s (\<lambda>_. h) w"
  define pool1 where "pool1 = pool\<lparr>total_allocated := total_allocated pool + 1\<rparr>"
  have nz: "bitmap (headers w ?s) \<noteq> 0"
    using d(9) [OF p] fc by (auto simp: bits_ok_def)
  note tz = trailing_zeros_bit [OF nz, folded i_def]
  then have i: "0 < i" "i < objects_per_slab T"
    using d(9) [OF p] by (auto simp: bits_ok_def)
  have hok: "bits_ok T h"
    unfolding h_def by (rule bits_ok_clear [OF d(9) [OF p] tz(1)])
  have fresh: "object_at T p i \<notin> live_objects T w S"
    using live_iff [where w = w, OF T d(3) p i] tz(1) by simp
  have live1: "live_objects T w1 S = insert (object_at T p i) (live_objects T w S)"
    by (rule live_objects_take [OF p i]) (auto simp: w1_def h_def bits_cleared [OF tz(2)] slab_at_inj)
  have l1: "list_ok pool1 w1 (slab_at T ` S) hs" "current_ok pool1 hs"
    using d(4,6) list_ok_cong [of pool1 pool "slab_at T ` S" w1 w hs] by (auto simp: pool1_def w1_def h_def current_ok_def)
  have "\<exists>pool2 w2 hs2. (if free_count h = 0 then unlink_slab ?s pool1 w1 else (pool1, w1)) = (pool2, w2) \<and>
      links_changed (slab_at T ` S) w1 w2 \<and> list_ok pool2 w2 (slab_at T ` S) hs2 \<and> current_ok pool2 hs2 \<and>
      (\<forall>q \<in> S. slab_at T q \<in> set hs2 \<longleftrightarrow> 0 < free_count (headers w1 (slab_at T q))) \<and>
      pool2 = pool1\<lparr>current := current pool2, partial_head := partial_head pool2\<rparr>"
  proof (cases "free_count h = 0")
    case True
    obtain xs ys where hs: "hs = xs @ ?s # ys"
      using d(5) [OF p] fc split_list by fastforce
    have "distinct hs"
      using d(4) by (simp add: list_ok_def)
    then have on: "\<forall>q \<in> S. slab_at T q \<in> set (xs @ ys) \<longleftrightarrow> 0 < free_count (headers w1 (slab_at T q))"
      using d(5) True hs by (auto simp: w1_def slab_at_inj)
    show ?thesis
      using unlink_slab_spec [OF l1 [unfolded hs]]
    proof (elim exE conjE, goal_cases)
      case (1 pool2 w2)
      show ?thesis
        unfolding if_P [OF True]
        by (rule exI [of _ pool2], rule exI [of _ w2], rule exI [of _ "xs @ ys"], intro conjI) (fact 1 on)+
    qed
  next
    case False
    then have "slab_at T q \<in> set hs \<longleftrightarrow> 0 < free_count (headers w1 (slab_at T q))" if "q \<in> S" for q
      using d(5) [OF that] fc by (auto simp: w1_def slab_at_inj)
    then show ?thesis
      using l1 False by (intro exI [of _ pool1] exI [of _ w1] exI [of _ hs]) (simp add: links_changed_def)
  qed
  then show ?thesis
  proof (elim exE conjE, goal_cases)
    case (1 pool2 w2 hs2)
    have tot: "total_allocated pool2 = card (live_objects T w1 S)" "slab_count pool2 = slab_count pool" "same_pool pool pool2"
      by (subst 1(6), simp add: pool1_def d(8) live1 fresh finite_live [OF d(1)] same_pool_def)+
    have upd: "pool_ok T pool2 w2 S hs2 \<and> live_objects T w2 S = live_objects T w1 S \<and> mem_frame T S w w2"
      by (rule pool_ok_update [OF ok p h_def hok w1_def refl refl 1(2,3,4)]) (use 1(5) tot in simp_all)
    have w1m: "modify_header ?s (\<lambda>h. h\<lparr>bitmap := bitmap (headers w ?s) AND NOT (push_bit i 1), free_count := free_count h - 1\<rparr>) w = w1"
      by (simp add: w1_def h_def modify_header_def)
    have pg: "page_addr (headers w ?s) = p"
      using d(2) [OF p] by (simp add: slab_ok_def)
    have "alloc_from_slab T ?s pool w = Inr (Some (object_at T p i), pool2, w2)"
      using fc nz i 1(1) object_address(2) [OF T d(3) [OF p] i(2)]
      unfolding alloc_from_slab_def Let_def i_def [symmetric] w1m pool1_def [symmetric] pg
      by (simp add: w1_def object_address(1) [OF T d(3) [OF p] i(2)])
    then show ?thesis
      using i fresh upd tot live1 links_changedD(2,3) [OF 1(2)] by (auto simp: w1_def)
  qed
qed
section \<open>A new slab\<close>

locale slab_pages = page_pool inv avail used alloc release
  for inv :: "'w \<Rightarrow> bool" and avail :: "'w \<Rightarrow> usize list" and used :: "'w \<Rightarrow> usize set"
    and alloc :: "'w \<Rightarrow> (usize option \<times> 'w) panics" and release :: "'w \<Rightarrow> usize \<Rightarrow> 'w panics" +
  assumes page_geometry: "inv s \<Longrightarrow> p \<in> set (avail s) \<union> used s \<Longrightarrow> is_page_aligned p \<and> p \<noteq> 0"

text \<open>The header that \<open>alloc_new_slab\<close> writes.\<close>

definition fresh_header :: "Layout \<Rightarrow> 'w Pool \<Rightarrow> usize \<Rightarrow> SlabHeader" where
  "fresh_header T pool p =
     \<lparr>page_addr = p, header_cookie = slab_cookie pool p, bitmap = (2 ^ objects_per_slab T - 1) AND NOT 1,
      free_count = objects_per_slab T - 1, slab_next = 0, slab_prev = 0, in_partial_list = False\<rparr>"

lemma fresh_bits:
  assumes "layout_ok T"
  shows "bits_ok T (fresh_header T pool p)" "bit (bitmap (fresh_header T pool p)) i \<longleftrightarrow> 0 < i \<and> i < objects_per_slab T"
proof -
  have b: "bit (bitmap (fresh_header T pool p)) i \<longleftrightarrow> 0 < i \<and> i < objects_per_slab T" for i
    using assms bits_initial [of "objects_per_slab T" i] by (simp add: fresh_header_def layout_ok_def)
  have "{i. bit (bitmap (fresh_header T pool p)) i} = {1..<objects_per_slab T}"
    unfolding b by auto
  then show "bits_ok T (fresh_header T pool p)"
    by (simp add: bits_ok_def) (simp add: fresh_header_def)
  show "bit (bitmap (fresh_header T pool p)) i \<longleftrightarrow> 0 < i \<and> i < objects_per_slab T"
    by (rule b)
qed

text \<open>Adding a page whose header and back pointer have just been written.\<close>

lemma pool_ok_insert:
  assumes T: "layout_ok T" and ok: "pool_ok T pool w S hs" and p: "is_page_aligned p" "p \<notin> S"
    and w1: "headers w1 = (headers w)(slab_at T p := fresh_header T pool p)"
      "first_words w1 = (first_words w)(p := encode_back_pointer pool p (slab_at T p))"
    and link: "link_slab (slab_at T p) pool w1 = (pool2, w2)"
    and pool3: "pool3 = pool2\<lparr>slab_count := slab_count pool2 + 1, current := slab_at T p\<rparr>"
  shows "pool_ok T pool3 w2 (insert p S) (slab_at T p # hs) \<and> live_objects T w2 (insert p S) = live_objects T w S \<and>
    same_pool pool pool3 \<and> mem_frame T (insert p S) w w2 \<and> 0 < free_count (headers w2 (slab_at T p)) \<and>
    page_world w2 = page_world w1 \<and> object_bytes w2 = object_bytes w1"
proof -
  note d = pool_okD [OF ok]
  let ?A = "slab_at T ` insert p S"
  have new: "slab_at T p \<notin> slab_at T ` S"
    using p(2) by (auto simp: slab_at_inj)
  then have fresh: "slab_at T p \<notin> set hs"
    using d(4) by (auto simp: list_ok_def)
  have old: "headers w1 a = headers w a" if "a \<in> slab_at T ` S" for a
    using that new unfolding w1 by (metis fun_upd_other)
  have "list_ok pool w1 (slab_at T ` S) hs"
    using d(4) by (subst list_ok_cong [where pool = pool and w = w]) (simp_all add: old)
  then have l1: "list_ok pool w1 ?A hs"
    using fresh unat_slab_at(2) [OF T p(1)] by (auto simp: list_ok_def w1 fresh_header_def)
  obtain l: "list_ok pool2 w2 ?A (slab_at T p # hs)" "links_changed ?A w1 w2" "pool2 = pool\<lparr>partial_head := slab_at T p\<rparr>"
    using link_slab_spec [OF l1 _ fresh] link by auto
  note lc = links_changedD [OF l(2)]
  have sp: "same_pool pool pool3"
    by (simp add: pool3 l(3) same_pool_def)
  have nat1: "1 < objects_per_slab T"
    using T by (simp add: layout_ok_def)
  have live: "live_objects T w2 (insert p S) = live_objects T w S"
  proof -
    have "live_objects T w2 (insert p S) = live_objects T w1 (insert p S)"
      by (rule live_objects_cong) (simp add: lc)
    also have "\<dots> = live_objects T w1 S"
      unfolding live_objects_insert w1(1) fun_upd_same fresh_bits(2) [OF T] by blast
    also have "\<dots> = live_objects T w S"
      by (intro live_objects_cong) (simp add: old)
    finally show ?thesis .
  qed
  have "slab_ok T pool3 w2 q" if "q \<in> insert p S" for q
  proof (cases "q = p")
    case True
    then show ?thesis
      using p(1) fresh_bits(1) [OF T, of pool p]
      by (simp add: slab_ok_def lc w1 bits_ok_def same_pool_cookie [OF sp] encode_back_pointer_def) (simp add: fresh_header_def)
  next
    case False
    then show ?thesis
      using that d(2) [of q] by (simp add: slab_ok_def lc w1 bits_ok_def same_pool_cookie [OF sp] encode_back_pointer_def slab_at_inj)
  qed
  moreover have "list_ok pool3 w2 ?A (slab_at T p # hs)"
    using l(1) by (simp add: pool3 list_ok_def)
  moreover have "slab_at T q \<in> set (slab_at T p # hs) \<longleftrightarrow> 0 < free_count (headers w2 (slab_at T q))" if "q \<in> insert p S" for q
    using that d(5) [of q] nat1 by (auto simp: lc w1 slab_at_inj fresh_header_def)
  ultimately have "pool_ok T pool3 w2 (insert p S) (slab_at T p # hs)"
    using d(1,7,8) p(2) by (simp add: pool_ok_def live) (simp add: pool3 l(3) current_ok_def)
  moreover have "mem_frame T (insert p S) w w2"
    using lc(8) by (auto simp: mem_frame_def lc(1) w1)
  ultimately show ?thesis
    using live sp nat1 lc(2,3) by (simp add: lc w1) (simp add: fresh_header_def)
qed

context slab_pages
begin

lemma alloc_new_slab_none:
  assumes "inv (page_world w)" "pool_alloc_page pool = alloc" "avail (page_world w) = []"
  shows "alloc_new_slab T pool w = Inr (None, pool, w)"
  using assms alloc_empty [of "page_world w"] by (simp add: alloc_new_slab_def Let_def)

lemma alloc_new_slab_some:
  assumes T: "layout_ok T" and ok: "pool_ok T pool w S hs" and i: "inv (page_world w)" and cb: "pool_alloc_page pool = alloc"
    and S: "S \<subseteq> used (page_world w)" and av: "avail (page_world w) = p # ps"
  shows "\<exists>pool' w'. alloc_new_slab T pool w = Inr (Some (slab_at T p), pool', w') \<and> p \<notin> S \<and>
    pool_ok T (pool'\<lparr>current := slab_at T p\<rparr>) w' (insert p S) (slab_at T p # hs) \<and>
    live_objects T w' (insert p S) = live_objects T w S \<and> same_pool pool (pool'\<lparr>current := slab_at T p\<rparr>) \<and>
    mem_frame T (insert p S) w w' \<and> 0 < free_count (headers w' (slab_at T p)) \<and> object_bytes w' = object_bytes w \<and>
    inv (page_world w') \<and> avail (page_world w') = ps \<and> used (page_world w') = insert p (used (page_world w))"
proof -
  obtain pw where a: "alloc (page_world w) = Inr (Some p, pw)" "inv pw" "avail pw = ps" "used pw = insert p (used (page_world w))"
    using alloc_next [OF i av] by blast
  have p: "is_page_aligned p" "p \<notin> S"
    using page_geometry [OF i] av avail_fresh [OF i] S by auto
  define w1 where "w1 = w\<lparr>page_world := pw, headers := (headers w)(slab_at T p := fresh_header T pool p),
    first_words := (first_words w)(p := encode_back_pointer pool p (slab_at T p))\<rparr>"
  obtain pool2 w2 where l: "link_slab (slab_at T p) pool w1 = (pool2, w2)"
    by (cases "link_slab (slab_at T p) pool w1")
  note s = unat_slab_at [OF T p(1)]
  have n: "objects_per_slab T mod 64 = objects_per_slab T" "objects_per_slab T \<noteq> 0"
    using T by (simp_all add: layout_ok_def)
  have "checked_add p (usable_start T) = Some (slab_at T p)"
    using s(1) by (simp add: checked_add_eq_Some)
  then have eq: "alloc_new_slab T pool w = Inr (Some (slab_at T p), pool2\<lparr>slab_count := slab_count pool2 + 1\<rparr>, w2)"
    using s(2) n l a(1) cb by (simp add: alloc_new_slab_def Let_def modify_header_def w1_def fresh_header_def)
  have "headers w1 = (headers w)(slab_at T p := fresh_header T pool p)"
    "first_words w1 = (first_words w)(p := encode_back_pointer pool p (slab_at T p))" "page_world w1 = pw" "object_bytes w1 = object_bytes w"
    by (simp_all add: w1_def)
  then show ?thesis
    using eq p(2) a pool_ok_insert [OF T ok p _ _ l refl] by auto
qed

end
section \<open>Allocation\<close>

lemma current_slab_found:
  assumes ok: "pool_ok T pool w S hs"
  shows "if hs = [] then current_slab_with_space pool w = Inr (None, pool)
    else \<exists>p \<in> S. current pool = slab_at T p \<and> 0 < free_count (headers w (slab_at T p)) \<and>
      current_slab_with_space pool w = Inr (Some (slab_at T p), pool)"
proof (cases "hs = []")
  case True
  then have "current pool = 0"
    using pool_okD(6) [OF ok] by (simp add: current_ok_def)
  moreover have "walk_slabs (headers w) 0 = Some 0"
    by (subst walk_slabs.simps) simp
  ultimately show ?thesis
    using True by (cases pool) (simp add: current_slab_with_space_def)
next
  case False
  then have c: "current pool \<in> set hs"
    using pool_okD(6) [OF ok] by (simp add: current_ok_def)
  then obtain p where p: "p \<in> S" "current pool = slab_at T p" and nz: "0 \<notin> slab_at T ` S"
    using pool_okD(4) [OF ok] by (auto simp: list_ok_def)
  then have "0 < free_count (headers w (slab_at T p))" "slab_at T p \<noteq> 0"
    using pool_okD(5) [OF ok p(1)] c by (auto simp: image_iff)
  then show ?thesis
    using p False by (auto simp: current_slab_with_space_def)
qed

text \<open>The outcome of an allocation from a pool that owns the pages \<open>S\<close>.\<close>

definition alloc_outcome ::
  "Layout \<Rightarrow> usize list \<Rightarrow> usize set \<Rightarrow> 'w SlabWorld \<Rightarrow> usize option \<Rightarrow> usize set \<Rightarrow> 'w SlabWorld \<Rightarrow> bool" where
  "alloc_outcome T free S w r S' w' \<longleftrightarrow> S \<subseteq> S' \<and> S' - S \<subseteq> set free \<and> mem_frame T S' w w' \<and> object_bytes w' = object_bytes w \<and>
     (case r of
        None \<Rightarrow> free = [] \<and> w' = w \<and> S' = S \<and> (\<forall>p \<in> S. free_count (headers w (slab_at T p)) = 0)
      | Some a \<Rightarrow> a \<notin> live_objects T w S \<and> live_objects T w' S' = insert a (live_objects T w S))"

lemma mem_frame_trans: "mem_frame T S w w1 \<Longrightarrow> mem_frame T S w1 w2 \<Longrightarrow> mem_frame T S w w2"
  by (simp add: mem_frame_def)

context slab_pages
begin

lemma Pool_alloc_spec:
  assumes T: "layout_ok T" and ok: "pool_ok T pool w S hs" and i: "inv (page_world w)" and cb: "pool_alloc_page pool = alloc"
    and S: "S \<subseteq> used (page_world w)"
  shows "\<exists>r pool' w' S' hs'. Pool_alloc T pool w = Inr (r, pool', w') \<and> pool_ok T pool' w' S' hs' \<and> same_pool pool pool' \<and>
    alloc_outcome T (avail (page_world w)) S w r S' w' \<and> inv (page_world w') \<and> used (page_world w') = used (page_world w) \<union> S'"
proof (cases "hs = []")
  case False
  then obtain p where p: "p \<in> S" "0 < free_count (headers w (slab_at T p))"
      "current_slab_with_space pool w = Inr (Some (slab_at T p), pool)"
    using current_slab_found [OF ok] by auto
  show ?thesis
    using alloc_from_slab_spec [OF T ok p(1,2)]
  proof (elim exE conjE, goal_cases)
    case (1 i pool' w' hs')
    have "Pool_alloc T pool w = Inr (Some (object_at T p i), pool', w')"
      using 1(1) by (simp add: Pool_alloc_def p(3))
    moreover have "alloc_outcome T (avail (page_world w)) S w (Some (object_at T p i)) S w'"
      using 1 by (simp add: alloc_outcome_def)
    ultimately show ?thesis
      using 1(5,7,9) i S by (metis Un_absorb2)
  qed
next
  case True
  then have c: "current_slab_with_space pool w = Inr (None, pool)"
    using current_slab_found [OF ok] by simp
  show ?thesis
  proof (cases "avail (page_world w)")
    case Nil
    have "alloc_outcome T (avail (page_world w)) S w None S w"
      using pool_okD(5) [OF ok] True Nil by (simp add: alloc_outcome_def mem_frame_def)
    moreover have "Pool_alloc T pool w = Inr (None, pool, w)"
      using c alloc_new_slab_none [OF i cb Nil] by (simp add: Pool_alloc_def)
    moreover have "same_pool pool pool"
      by (simp add: same_pool_def)
    ultimately show ?thesis
      using ok i S by (metis Un_absorb2)
  next
    case (Cons p ps)
    show ?thesis
      using alloc_new_slab_some [OF T ok i cb S Cons]
    proof (elim exE conjE, goal_cases)
      case (1 pool1 w1)
      show ?thesis
        using alloc_from_slab_spec [OF T 1(3) insertI1 1(7)]
      proof (elim exE conjE, goal_cases)
        case a: (1 i pool' w' hs')
        have "Pool_alloc T pool w = Inr (Some (object_at T p i), pool', w')"
          using 1(1) a(1) c by (simp add: Pool_alloc_def)
        moreover have "alloc_outcome T (avail (page_world w)) S w (Some (object_at T p i)) (insert p S) w'"
          using 1(2,4,8) a(4,6,10) mem_frame_trans [OF 1(6) a(8)] Cons by (auto simp: alloc_outcome_def)
        moreover have "used (page_world w') = used (page_world w) \<union> insert p S"
          using 1(11) a(9) S by auto
        moreover have "same_pool pool pool'"
          using 1(5) a(7) by (simp add: same_pool_def)
        ultimately show ?thesis
          using a(5,9) 1(9) by metis
      qed
    qed
  qed
qed

end

section \<open>Finding an object\<close>

lemma xor_twice: "((a :: u64) XOR c) XOR c = a"
  by (simp add: xor.assoc)

lemma locate_own:
  assumes T: "layout_ok T" and ok: "slab_ok T pool w p" and a: "align_down a = p"
  shows "locate_object T pool w a =
    (let offset = unat a - unat p in
     if offset < unat (usable_start T) then Inl OutOfBounds
     else let slot = (offset - unat (usable_start T)) div unat (object_size T) in
     if (offset - unat (usable_start T)) mod unat (object_size T) \<noteq> 0 then Inl MisalignedPointer
     else if slot = 0 then Inl MetadataSlot
     else if objects_per_slab T \<le> slot then Inl OutOfBounds
     else Inr (slab_at T p, slot))"
proof -
  have p: "is_page_aligned p"
    using ok by (simp add: slab_ok_def)
  note s = unat_slab_at [OF T p]
  have base: "a AND NOT (PAGE_SIZE - 1) = p"
    using a by (simp add: align_down_def PAGE_MASK_def)
  have "8 dvd unat (slab_at T p)"
    using T p unfolding s(1) by (intro dvd_add) (auto simp: is_page_aligned_iff layout_ok_def elim!: dvd_trans [rotated])
  then have "is_multiple_of (slab_at T p) SLAB_HEADER_ALIGN"
    by (simp add: is_multiple_of_def SLAB_HEADER_ALIGN_def word_unat_eq_iff unat_mod dvd_eq_mod_eq_0)
  then have dec: "decode_back_pointer pool p (first_words w p) = Some (slab_at T p)"
    using ok s(2) by (simp add: decode_back_pointer_def slab_ok_def encode_back_pointer_def xor_twice)
  have add: "checked_add p (usable_start T) = Some (slab_at T p)"
    using s(1) by (simp add: checked_add_eq_Some)
  have ge: "unat p \<le> unat a"
    using a align_down_le [of a] by (simp add: word_le_nat_alt)
  have lt: "a < slab_at T p \<longleftrightarrow> unat a - unat p < unat (usable_start T)"
    using ge s(1) by (simp add: word_less_nat_alt) linarith
  have off: "unat (a - slab_at T p) = unat a - unat p - unat (usable_start T)" if "\<not> a < slab_at T p"
    using that s(1) by (simp add: unat_sub)
  have sz: "object_size T \<noteq> 0"
    using T by (auto simp: layout_ok_def SLAB_HEADER_SIZE_def)
  have "is_multiple_of x (object_size T) \<longleftrightarrow> unat x mod unat (object_size T) = 0" for x
    using sz by (simp add: is_multiple_of_def word_unat_eq_iff unat_mod)
  then show ?thesis
    using ok off unfolding locate_object_def Let_def base dec add lt [symmetric]
    by (simp add: slab_ok_def unat_div_distrib)
qed

lemma locate_live:
  assumes T: "layout_ok T" and ok: "slab_ok T pool w p" and i: "0 < i" "i < objects_per_slab T"
  shows "locate_object T pool w (object_at T p i) = Inr (slab_at T p, i)"
proof -
  have p: "is_page_aligned p"
    using ok by (simp add: slab_ok_def)
  have "0 < unat (object_size T)"
    using T by (simp add: layout_ok_def SLAB_HEADER_SIZE_def)
  then show ?thesis
    using locate_own [OF T ok object_at_page [OF T p i(2)]] i unat_object_at [OF T p i(2)] by (simp add: Let_def)
qed

text \<open>A pool with another cookie does not accept the page.\<close>

lemma locate_foreign:
  assumes T: "layout_ok T" and p: "is_page_aligned p" "align_down a = p"
    and f: "first_words w p = slab_at T p XOR c" "c \<noteq> slab_cookie pool p"
  shows "locate_object T pool w a = Inl InvalidSlab"
proof -
  have base: "a AND NOT (PAGE_SIZE - 1) = p"
    using p(2) by (simp add: align_down_def PAGE_MASK_def)
  have "first_words w p XOR slab_cookie pool p \<noteq> slab_at T p"
    using f xor_left_inj [of "slab_at T p" "c XOR slab_cookie pool p" 0] xor_left_inj [of c "slab_cookie pool p" c]
    by (auto simp: xor.assoc)
  moreover have "checked_add p (usable_start T) = Some (slab_at T p)"
    using unat_slab_at(1) [OF T p(1)] by (simp add: checked_add_eq_Some)
  ultimately show ?thesis
    unfolding locate_object_def Let_def base decode_back_pointer_def by simp
qed

section \<open>Freeing\<close>

text \<open>Giving up a page all of whose slots are free.\<close>

lemma pool_ok_remove:
  assumes T: "layout_ok T" and ok: "pool_ok T pool w S hs" and p: "p \<in> S"
    and full: "free_count (headers w (slab_at T p)) = objects_per_slab T - 1"
    and un: "unlink_slab (slab_at T p) pool w = (pool2, w2)"
    and pool3: "pool3 = pool2\<lparr>slab_count := slab_count pool2 - 1\<rparr>"
    and w3: "headers w3 = headers w2" "first_words w3 = (first_words w2)(p := x)"
  shows "\<exists>hs'. pool_ok T pool3 w3 (S - {p}) hs' \<and> live_objects T w3 (S - {p}) = live_objects T w S \<and> same_pool pool pool3 \<and>
    mem_frame T S w w3 \<and> page_addr (headers w2 (slab_at T p)) = p \<and> page_world w2 = page_world w \<and> object_bytes w2 = object_bytes w"
proof -
  note d = pool_okD [OF ok]
  let ?s = "slab_at T p"
  have "?s \<in> set hs"
    using d(5) [OF p] full T by (simp add: layout_ok_def)
  then obtain xs ys where hs: "hs = xs @ ?s # ys"
    using split_list by fastforce
  obtain l: "list_ok pool2 w2 (slab_at T ` S) (xs @ ys)" "current_ok pool2 (xs @ ys)" "links_changed (slab_at T ` S) w w2"
      "pool2 = pool\<lparr>current := current pool2, partial_head := partial_head pool2\<rparr>"
    using unlink_slab_spec [OF d(4,6) [unfolded hs]] un by auto
  note lc = links_changedD [OF l(3)]
  have dist: "distinct hs"
    using d(4) by (simp add: list_ok_def)
  have im: "slab_at T ` (S - {p}) = slab_at T ` S - {?s}"
    by (auto simp: slab_at_inj)
  have "?s \<notin> set (xs @ ys)"
    using dist hs by simp
  then have l3: "list_ok pool3 w3 (slab_at T ` (S - {p})) (xs @ ys)"
    using l(1) unfolding im by (auto simp: list_ok_def pool3 w3)
  have sp: "same_pool pool pool3" "slab_count pool3 = slab_count pool - 1" "total_allocated pool3 = total_allocated pool"
      "current pool3 = current pool2"
    unfolding pool3 by (subst l(4), simp add: same_pool_def)+
  have live: "live_objects T w3 (S - {p}) = live_objects T w S"
  proof -
    have "bit (bitmap (headers w ?s)) i" if "0 < i" "i < objects_per_slab T" for i
      using bits_ok_full [OF d(9) [OF p] full that] .
    then have "live_objects T w S = live_objects T w (S - {p})"
      using live_objects_insert [of T w p "S - {p}"] p by (auto simp: insert_absorb)
    also have "\<dots> = live_objects T w3 (S - {p})"
      by (rule live_objects_cong) (simp add: w3 lc)
    finally show ?thesis ..
  qed
  have "slab_ok T pool3 w3 q" if "q \<in> S - {p}" for q
    using d(2) [of q] that by (simp add: slab_ok_def w3 lc bits_ok_def encode_back_pointer_def same_pool_cookie [OF sp(1)])
  moreover have "slab_at T q \<in> set (xs @ ys) \<longleftrightarrow> 0 < free_count (headers w3 (slab_at T q))" if "q \<in> S - {p}" for q
    using d(5) [of q] that by (auto simp: w3 lc hs slab_at_inj)
  moreover have "current_ok pool3 (xs @ ys)" "card (S - {p}) = card S - 1"
    using l(2) sp(4) d(1) p by (auto simp: current_ok_def split: if_splits)
  ultimately have "pool_ok T pool3 w3 (S - {p}) (xs @ ys)"
    unfolding pool_ok_def using d(1,7,8) l3 sp by (simp only: live finite_Diff) blast
  moreover have "mem_frame T S w w3"
    using lc(8) p by (auto simp: mem_frame_def w3 lc(1))
  moreover have "page_addr (headers w2 ?s) = p"
    using d(2) [OF p] by (simp add: slab_ok_def lc)
  ultimately show ?thesis
    using live sp(1) lc(2,3) by blast
qed

text \<open>Marking a slot free; the caller still has to put a slab that was full back on the list.\<close>

lemma give_slot:
  assumes T: "layout_ok T" and ok: "pool_ok T pool w S hs" and p: "p \<in> S" and i: "0 < i" "i < objects_per_slab T"
    and live: "\<not> bit (bitmap (headers w (slab_at T p))) i"
    and h: "h = (headers w (slab_at T p))\<lparr>bitmap := bitmap (headers w (slab_at T p)) OR 2 ^ i, free_count := free_count (headers w (slab_at T p)) + 1\<rparr>"
    and w0: "headers w0 = headers w" "first_words w0 = first_words w"
    and w1: "w1 = modify_header (slab_at T p) (\<lambda>_. h) w0"
    and pool1: "pool1 = pool\<lparr>total_allocated := total_allocated pool - 1\<rparr>"
  shows "bits_ok T h" "live_objects T w1 S = live_objects T w S - {object_at T p i}" "0 < total_allocated pool"
    "total_allocated pool1 = card (live_objects T w1 S)" "list_ok pool1 w1 (slab_at T ` S) hs" "current_ok pool1 hs"
    "i < 64"
proof -
  note d = pool_okD [OF ok]
  show i64: "i < 64"
    using T i by (simp add: layout_ok_def)
  show "bits_ok T h"
    using bits_ok_set [OF d(9) [OF p] live i i64] by (simp add: h)
  show l1: "live_objects T w1 S = live_objects T w S - {object_at T p i}"
    by (rule live_objects_give [OF T d(3) p i]) (auto simp: w1 h w0 bits_added [OF i64] slab_at_inj)
  have "object_at T p i \<in> live_objects T w S"
    using live_iff [where w = w, OF T d(3) p i] live by simp
  then show "0 < total_allocated pool" "total_allocated pool1 = card (live_objects T w1 S)"
    using finite_live [OF d(1), of T w] by (auto simp: d(8) l1 pool1 card_gt_0_iff)
  show "list_ok pool1 w1 (slab_at T ` S) hs"
    using d(4) by (subst list_ok_cong [where pool = pool and w = w]) (auto simp: pool1 w1 h w0)
  show "current_ok pool1 hs"
    using d(6) by (simp add: pool1 current_ok_def)
qed

text \<open>The outcome of freeing the object \<open>a\<close> of a pool that owns the pages \<open>S\<close>.\<close>

definition free_outcome ::
  "Layout \<Rightarrow> usize \<Rightarrow> usize set \<Rightarrow> 'w SlabWorld \<Rightarrow> usize set \<Rightarrow> 'w SlabWorld \<Rightarrow> bool" where
  "free_outcome T a S w S' w' \<longleftrightarrow> S' \<subseteq> S \<and> mem_frame T S w w' \<and> live_objects T w' S' = live_objects T w S - {a} \<and>
     object_bytes w' = poison a (unat (object_size T)) (object_bytes w)"

context slab_pages
begin

lemma reclaim_spec:
  assumes T: "layout_ok T" and ok: "pool_ok T pool w S hs" and p: "p \<in> S"
    and full: "free_count (headers w (slab_at T p)) = objects_per_slab T - 1"
    and i: "inv (page_world w)" and cb: "pool_free_page pool = release" and S: "S \<subseteq> used (page_world w)"
  shows "\<exists>pool' w' hs'. reclaim_slab (slab_at T p) pool w = Inr (pool', w') \<and> pool_ok T pool' w' (S - {p}) hs' \<and>
    live_objects T w' (S - {p}) = live_objects T w S \<and> same_pool pool pool' \<and> mem_frame T S w w' \<and> object_bytes w' = object_bytes w \<and>
    inv (page_world w') \<and> used (page_world w') = used (page_world w) - {p}"
proof -
  obtain pool2 w2 where u: "unlink_slab (slab_at T p) pool w = (pool2, w2)"
    by (cases "unlink_slab (slab_at T p) pool w")
  obtain pw where pw: "release (page_world w) p = Inr pw" "inv pw" "used pw = used (page_world w) - {p}"
    using release_used [OF i] p S by blast
  let ?w3 = "w2\<lparr>first_words := (first_words w2)(p := - 1), page_world := pw\<rparr>"
  have "p \<noteq> 0"
    using page_geometry [OF i] p S by blast
  obtain hs' where r: "pool_ok T (pool2\<lparr>slab_count := slab_count pool2 - 1\<rparr>) ?w3 (S - {p}) hs'"
      "live_objects T ?w3 (S - {p}) = live_objects T w S" "same_pool pool (pool2\<lparr>slab_count := slab_count pool2 - 1\<rparr>)"
      "mem_frame T S w ?w3" "page_addr (headers w2 (slab_at T p)) = p" "page_world w2 = page_world w" "object_bytes w2 = object_bytes w"
    using pool_ok_remove [OF T ok p full u refl, where ?w3.0 = ?w3 and x = "- 1"] by auto
  have "pool_free_page pool2 = release"
    using r(3) cb by (simp add: same_pool_def)
  then have "reclaim_slab (slab_at T p) pool w = Inr (pool2\<lparr>slab_count := slab_count pool2 - 1\<rparr>, ?w3)"
    using u r(5,6) \<open>p \<noteq> 0\<close> pw(1) by (simp add: reclaim_slab_def)
  then show ?thesis
    using r pw by fastforce
qed

end

lemma Pool_free_live:
  fixes pool :: "'w Pool"
  assumes T: "layout_ok T" and ok: "pool_ok T pool w S hs" and p: "p \<in> S" and i: "0 < i" "i < objects_per_slab T"
    and live: "\<not> bit (bitmap (headers w (slab_at T p))) i"
    and h: "h = (headers w (slab_at T p))\<lparr>bitmap := bitmap (headers w (slab_at T p)) OR 2 ^ i, free_count := free_count (headers w (slab_at T p)) + 1\<rparr>"
    and w0: "w0 = w\<lparr>object_bytes := poison (object_at T p i) (unat (object_size T)) (object_bytes w)\<rparr>"
    and w1: "w1 = modify_header (slab_at T p) (\<lambda>_. h) w0"
    and pool1: "pool1 = pool\<lparr>total_allocated := total_allocated pool - 1\<rparr>"
  shows "Pool_free T pool w (object_at T p i) =
      (if free_count h = objects_per_slab T - 1 \<and> MIN_SLABS < slab_count pool
       then bind_panic (reclaim_slab (slab_at T p) pool1 w1) (\<lambda>(pool, w). Inr (Inr (), pool, w))
       else if free_count (headers w (slab_at T p)) = 0
       then let (pool, w) = link_slab (slab_at T p) pool1 w1 in Inr (Inr (), pool\<lparr>current := slab_at T p\<rparr>, w)
       else Inr (Inr (), pool1, w1))"
proof -
  have w0h: "headers w0 = headers w" "first_words w0 = first_words w"
    by (simp_all add: w0)
  note g = give_slot [OF T ok p i live h w0h w1 pool1] and loc = locate_live [OF T pool_okD(2) [OF ok p] i]
  have m: "modify_header (slab_at T p) (\<lambda>h. h\<lparr>bitmap := bitmap h OR 2 ^ i, free_count := free_count h + 1\<rparr>) w0 = w1"
    by (simp add: w1 h modify_header_def w0h)
  have w1h: "headers w1 (slab_at T p) = h" "slab_count pool1 = slab_count pool"
    by (simp_all add: w1 pool1)
  have "i div 64 = 0" "i mod 64 = i" "\<not> MAX_BITMAP_WORDS \<le> 0" "push_bit i 1 = (2 ^ i :: u64)"
      "bitmap (headers w (slab_at T p)) AND 2 ^ i = 0" "sub_or_panic (total_allocated pool) 1 = Inr (total_allocated pool - 1)"
    using g(3,7) live by (simp_all add: MAX_BITMAP_WORDS_def bit_tested)
  then show ?thesis
    unfolding Pool_free_def loc
    by (simp only: sum.case prod.case Let_def if_False not_True_eq_False simp_thms bind_panic_simps w0 [symmetric] w0h m w1h
        pool1 [symmetric])
qed

context slab_pages
begin

lemma Pool_free_spec:
  assumes T: "layout_ok T" and ok: "pool_ok T pool w S hs" and p: "p \<in> S" and i: "0 < i" "i < objects_per_slab T"
    and live: "\<not> bit (bitmap (headers w (slab_at T p))) i"
    and inv: "inv (page_world w)" and cb: "pool_free_page pool = release" and S: "S \<subseteq> used (page_world w)"
  shows "\<exists>pool' w' S' hs'. Pool_free T pool w (object_at T p i) = Inr (Inr (), pool', w') \<and> pool_ok T pool' w' S' hs' \<and>
    same_pool pool pool' \<and> free_outcome T (object_at T p i) S w S' w' \<and> inv (page_world w') \<and>
    used (page_world w') = used (page_world w) - (S - S')"
proof -
  note d = pool_okD [OF ok]
  let ?s = "slab_at T p" and ?a = "object_at T p i"
  define w0 where "w0 = w\<lparr>object_bytes := poison ?a (unat (object_size T)) (object_bytes w)\<rparr>"
  define h where "h = (headers w ?s)\<lparr>bitmap := bitmap (headers w ?s) OR 2 ^ i, free_count := free_count (headers w ?s) + 1\<rparr>"
  define w1 where "w1 = modify_header ?s (\<lambda>_. h) w0"
  define pool1 where "pool1 = pool\<lparr>total_allocated := total_allocated pool - 1\<rparr>"
  have w0: "headers w0 = headers w" "first_words w0 = first_words w"
    by (simp_all add: w0_def)
  note g = give_slot [OF T ok p i live h_def w0 w1_def pool1_def]
  have sp: "same_pool pool pool1" "slab_count pool1 = slab_count pool" "pool_free_page pool1 = release"
    using cb by (simp_all add: pool1_def same_pool_def)
  have w1: "page_world w1 = page_world w" "object_bytes w1 = poison ?a (unat (object_size T)) (object_bytes w)"
      "headers w1 ?s = h" "free_count h = free_count (headers w ?s) + 1"
    by (simp_all add: w1_def w0_def h_def)
  note fr = Pool_free_live [OF T ok p i live h_def w0_def w1_def pool1_def]
  show ?thesis
  proof (cases "free_count (headers w ?s) = 0")
    case True
    then have s: "?s \<in> slab_at T ` S" "?s \<notin> set hs" "free_count h \<noteq> objects_per_slab T - 1"
      using p d(5) [OF p] T by (auto simp: layout_ok_def h_def)
    show ?thesis
      using link_slab_spec [OF g(5) s(1,2)]
    proof (elim exE conjE, goal_cases)
      case (1 w2)
      let ?pool2 = "pool1\<lparr>partial_head := ?s, current := ?s\<rparr>"
      have "slab_at T q \<in> set (?s # hs) \<longleftrightarrow> 0 < free_count (headers w1 (slab_at T q))" if "q \<in> S" for q
        using d(5) [OF that] by (auto simp: w1_def w0 h_def slab_at_inj)
      moreover have "list_ok ?pool2 w2 (slab_at T ` S) (?s # hs)"
        using 1(2) by (simp add: list_ok_def)
      ultimately have u: "pool_ok T ?pool2 w2 S (?s # hs) \<and> live_objects T w2 S = live_objects T w1 S \<and> mem_frame T S w w2"
        by (intro pool_ok_update [OF ok p h_def g(1) w1_def w0 1(3)])
          (use g(4) sp in \<open>simp_all add: current_ok_def same_pool_def\<close>)
      have "Pool_free T pool w ?a = Inr (Inr (), ?pool2, w2)"
        using fr s(3) True 1(1) by (simp add: pool1_def)
      moreover have "free_outcome T ?a S w S w2" "inv (page_world w2)"
        using u g(2) w1 inv links_changedD(2,3) [OF 1(3)] by (simp_all add: free_outcome_def)
      moreover have "same_pool pool ?pool2" "page_world w2 = page_world w"
        using sp(1) w1(1) links_changedD(3) [OF 1(3)] by (simp_all add: same_pool_def)
      ultimately show ?thesis
        using u by (metis Diff_cancel Diff_empty)
    qed
  next
    case False
    then have "slab_at T q \<in> set hs \<longleftrightarrow> 0 < free_count (headers w1 (slab_at T q))" if "q \<in> S" for q
      using d(5) [OF that] by (auto simp: w1_def w0 h_def slab_at_inj)
    then have u: "pool_ok T pool1 w1 S hs \<and> live_objects T w1 S = live_objects T w1 S \<and> mem_frame T S w w1"
      by (intro pool_ok_update [OF ok p h_def g(1) w1_def w0 _ g(5,6)]) (use g(4) sp in \<open>simp_all add: links_changed_def\<close>)
    show ?thesis
    proof (cases "free_count h = objects_per_slab T - 1 \<and> MIN_SLABS < slab_count pool")
      case True
      have inv1: "inv (page_world w1)" "S \<subseteq> used (page_world w1)" and full: "free_count (headers w1 ?s) = objects_per_slab T - 1"
        using inv S True w1 by simp_all
      show ?thesis
        using reclaim_spec [OF T conjunct1 [OF u] p full inv1(1) sp(3) inv1(2)]
      proof (elim exE conjE, goal_cases)
        case (1 pool' w' hs')
        have "Pool_free T pool w ?a = Inr (Inr (), pool', w')"
          using fr True 1(1) by simp
        moreover have "free_outcome T ?a S w (S - {p}) w'"
          using 1(3,6) u mem_frame_trans [OF _ 1(5)] g(2) w1(2) by (auto simp: free_outcome_def)
        moreover have "same_pool pool pool'"
          using 1(4) sp(1) by (simp add: same_pool_def)
        moreover have "S - (S - {p}) = {p}"
          using p by auto
        ultimately show ?thesis
          using 1(2,7,8) w1(1) by metis
      qed
    next
      case F: False
      have "Pool_free T pool w ?a = Inr (Inr (), pool1, w1)"
        unfolding fr if_not_P [OF F] if_not_P [OF False] ..
      moreover have "free_outcome T ?a S w S w1"
        using u g(2) w1 by (simp add: free_outcome_def)
      ultimately show ?thesis
        using u sp(1) inv w1(1) by (metis Diff_cancel Diff_empty)
    qed
  qed
qed

end

section \<open>Addresses that are not objects\<close>

lemma locate_object_at:
  assumes T: "layout_ok T" and ok: "slab_ok T pool w p" and a: "align_down a = p" and l: "locate_object T pool w a = Inr (s, i)"
  shows "s = slab_at T p" "0 < i" "i < objects_per_slab T" "a = object_at T p i"
proof -
  have p: "is_page_aligned p"
    using ok by (simp add: slab_ok_def)
  define off where "off = unat a - unat p - unat (usable_start T)"
  have r: "\<not> unat a - unat p < unat (usable_start T)" "off mod unat (object_size T) = 0" "i = off div unat (object_size T)"
      "s = slab_at T p" "0 < i" "i < objects_per_slab T"
    using l unfolding locate_own [OF T ok a] Let_def off_def [symmetric] by (auto split: if_splits)
  have ge: "unat p \<le> unat a"
    using a align_down_le [of a] by (simp add: word_le_nat_alt)
  have "off = i * unat (object_size T)"
    using r(2,3) by auto
  then have "unat a = unat (object_at T p i)"
    using unat_object_at [OF T p r(6)] r(1) ge off_def by linarith
  then show "s = slab_at T p" "0 < i" "i < objects_per_slab T" "a = object_at T p i"
    using r by (simp_all add: word_unat_eq_iff)
qed

lemma Pool_free_rejects:
  assumes T: "layout_ok T" and ok: "pool_ok T pool w S hs" and p: "align_down a \<in> S" and dead: "a \<notin> live_objects T w S"
  shows "\<exists>e. Pool_free T pool w a = Inr (Inl e, pool, w) \<and> e \<noteq> InvalidSlab \<and> e \<noteq> FreeNotInitialized"
proof (cases "locate_object T pool w a")
  case (Inl e)
  then have "e \<noteq> InvalidSlab \<and> e \<noteq> FreeNotInitialized"
    using locate_own [OF T pool_okD(2) [OF ok p] refl] by (auto simp: Let_def split: if_splits)
  then show ?thesis
    using Inl by (simp add: Pool_free_def)
next
  case (Inr r)
  obtain s i where r: "r = (s, i)"
    by (cases r)
  note l = locate_object_at [OF T pool_okD(2) [OF ok p] refl Inr [unfolded r]]
  have "i < 64"
    using T l(3) by (simp add: layout_ok_def)
  moreover have "bit (bitmap (headers w s)) i"
    using dead live_iff [where w = w, OF T pool_okD(3) [OF ok] p l(2,3)] l(1,4) by simp
  ultimately show ?thesis
    using bit_tested [of i "bitmap (headers w s)"] Inr r by (simp add: Pool_free_def MAX_BITMAP_WORDS_def Let_def)
qed

lemma live_object_page:
  assumes T: "layout_ok T" and ok: "pool_ok T pool w S hs" and a: "a \<in> live_objects T w S"
  shows "\<exists>i. 0 < i \<and> i < objects_per_slab T \<and> a = object_at T (align_down a) i \<and> align_down a \<in> S \<and>
    \<not> bit (bitmap (headers w (slab_at T (align_down a)))) i"
  using a pool_okD(3) [OF ok] object_at_page [OF T] by (force simp: live_objects_def)
end
