(* ===== verification/Kmalloc.thy ===== *)
theory Kmalloc
  imports Slab_Pool Pmm_Pages Sync Arm64_Mmu Riscv_Mmu
begin

text \<open>
  The general allocator of \<open>allocator/mod.rs\<close>: five object pools over pages of the physical memory
  manager, the size classes, the page callbacks through the physical memory map, and the entry
  points that take the allocator's spin lock. The addresses of the two page callbacks, which the
  linker chooses and which seed the cookies, are parameters.
\<close>

unbundle bit_operations_syntax

section \<open>Page callbacks\<close>

record Mappers =
  physical_to_virtual :: "PhysicalAddress \<Rightarrow> VirtualAddress"
  virtual_to_physical :: "VirtualAddress \<Rightarrow> PhysicalAddress"

definition Mappers_identity :: Mappers where
  "Mappers_identity = \<lparr>physical_to_virtual = (\<lambda>a. a), virtual_to_physical = (\<lambda>a. a)\<rparr>"

text \<open>What the callbacks act on: the page allocator and the static \<open>MAPPERS\<close>.\<close>

record PageWorld =
  world_pmm :: PhysicalMemoryManager
  mappers :: Mappers

definition slab_alloc_page :: "PageWorld \<Rightarrow> (usize option \<times> PageWorld) panics" where
  "slab_alloc_page pw =
     bind_panic (alloc_physical_page (world_pmm pw)) (\<lambda>(physical, pmm).
     let pw = pw\<lparr>world_pmm := pmm\<rparr> in
     case physical of
       None \<Rightarrow> Inr (None, pw)
     | Some physical \<Rightarrow>
         let virtual_address = physical_to_virtual (mappers pw) physical
         in Inr (if virtual_address = 0 then None else Some virtual_address, pw))"

definition slab_free_page :: "PageWorld \<Rightarrow> usize \<Rightarrow> PageWorld panics" where
  "slab_free_page pw page =
     bind_panic (free_physical_page (world_pmm pw) (virtual_to_physical (mappers pw) page)) (\<lambda>pmm.
     Inr (pw\<lparr>world_pmm := pmm\<rparr>))"

section \<open>Size classes\<close>

definition MAX_CLASS :: usize where
  "MAX_CLASS = 1024"

datatype SizeClass = Class64 | Class128 | Class256 | Class512 | Class1024

definition size_class :: "usize \<Rightarrow> SizeClass option" where
  "size_class n =
     (if n \<le> 64 then Some Class64
      else if n \<le> 128 then Some Class128
      else if n \<le> 256 then Some Class256
      else if n \<le> 512 then Some Class512
      else if n \<le> 1024 then Some Class1024
      else None)"

definition class_bytes :: "SizeClass \<Rightarrow> usize" where
  "class_bytes c =
     (case c of Class64 \<Rightarrow> 64 | Class128 \<Rightarrow> 128 | Class256 \<Rightarrow> 256 | Class512 \<Rightarrow> 512 | Class1024 \<Rightarrow> 1024)"

text \<open>\<open>Class\<open><N>\<close>\<close>: \<open>N\<close> bytes, aligned to 64.\<close>

definition class_layout :: "SizeClass \<Rightarrow> Layout" where
  "class_layout c = \<lparr>size_of = class_bytes c, align_of = 64\<rparr>"

record 'w Kmalloc =
  pool_64 :: "'w Pool"
  pool_128 :: "'w Pool"
  pool_256 :: "'w Pool"
  pool_512 :: "'w Pool"
  pool_1024 :: "'w Pool"
  kmalloc_initialized :: bool

definition Kmalloc_empty :: "'w Kmalloc" where
  "Kmalloc_empty =
     \<lparr>pool_64 = Pool_empty, pool_128 = Pool_empty, pool_256 = Pool_empty, pool_512 = Pool_empty, pool_1024 = Pool_empty,
      kmalloc_initialized = False\<rparr>"

fun class_pool :: "'w Kmalloc \<Rightarrow> SizeClass \<Rightarrow> 'w Pool" where
  "class_pool k Class64 = pool_64 k"
| "class_pool k Class128 = pool_128 k"
| "class_pool k Class256 = pool_256 k"
| "class_pool k Class512 = pool_512 k"
| "class_pool k Class1024 = pool_1024 k"

fun set_class_pool :: "SizeClass \<Rightarrow> 'w Pool \<Rightarrow> 'w Kmalloc \<Rightarrow> 'w Kmalloc" where
  "set_class_pool Class64 pool k = k\<lparr>pool_64 := pool\<rparr>"
| "set_class_pool Class128 pool k = k\<lparr>pool_128 := pool\<rparr>"
| "set_class_pool Class256 pool k = k\<lparr>pool_256 := pool\<rparr>"
| "set_class_pool Class512 pool k = k\<lparr>pool_512 := pool\<rparr>"
| "set_class_pool Class1024 pool k = k\<lparr>pool_1024 := pool\<rparr>"

section \<open>The allocator\<close>

record CallbackAddresses =
  alloc_page_address :: usize
  free_page_address :: usize

definition seed_for :: "CallbackAddresses \<Rightarrow> usize \<Rightarrow> usize" where
  "seed_for fns n = mix64 (n XOR alloc_page_address fns XOR free_page_address fns)"

definition Kmalloc_init ::
  "CallbackAddresses \<Rightarrow> Mappers \<Rightarrow> PageWorld Kmalloc \<Rightarrow> PageWorld SlabWorld \<Rightarrow> (PageWorld Kmalloc \<times> PageWorld SlabWorld) panics" where
  "Kmalloc_init fns maps k w =
     (if kmalloc_initialized k then Inl ''kmalloc: already initialized''
      else
        let w = w\<lparr>page_world := (page_world w)\<lparr>mappers := maps\<rparr>\<rparr>;
            new = (\<lambda>c. Pool_new (class_layout c) slab_alloc_page slab_free_page (seed_for fns (class_bytes c)))
        in bind_panic (new Class64) (\<lambda>p64.
           bind_panic (new Class128) (\<lambda>p128.
           bind_panic (new Class256) (\<lambda>p256.
           bind_panic (new Class512) (\<lambda>p512.
           bind_panic (new Class1024) (\<lambda>p1024.
           Inr (\<lparr>pool_64 = p64, pool_128 = p128, pool_256 = p256, pool_512 = p512, pool_1024 = p1024,
                 kmalloc_initialized = True\<rparr>, w)))))))"

definition Kmalloc_alloc ::
  "'w Kmalloc \<Rightarrow> 'w SlabWorld \<Rightarrow> usize \<Rightarrow> usize option \<Rightarrow> ((AllocError + usize) \<times> 'w Kmalloc \<times> 'w SlabWorld) panics" where
  "Kmalloc_alloc k w n alignment =
     (if \<not> kmalloc_initialized k then Inr (Inl AllocNotInitialized, k, w)
      else if (case alignment of None \<Rightarrow> False
               | Some al \<Rightarrow> al = 0 \<or> \<not> is_power_of_two al \<or> CACHE_LINE_SIZE < al)
      then Inr (Inl BadAlignment, k, w)
      else if MAX_CLASS < n then Inr (Inl TooLarge, k, w)
      else
        let want = max n CACHE_LINE_SIZE in
        case size_class want of
          None \<Rightarrow> Inr (Inl TooLarge, k, w)
        | Some c \<Rightarrow>
            bind_panic (Pool_alloc (class_layout c) (class_pool k c) w) (\<lambda>(r, pool, w).
            Inr (case r of None \<Rightarrow> Inl OutOfMemory | Some object \<Rightarrow> Inr object, set_class_pool c pool k, w)))"

definition try_free ::
  "Layout \<Rightarrow> 'w Pool \<Rightarrow> 'w SlabWorld \<Rightarrow> usize \<Rightarrow> ((FreeError + bool) \<times> 'w Pool \<times> 'w SlabWorld) panics" where
  "try_free T pool w ptr =
     bind_panic (Pool_free T pool w ptr) (\<lambda>(r, pool, w).
     Inr (case r of Inr _ \<Rightarrow> Inr True
          | Inl e \<Rightarrow> if e = InvalidSlab then Inr False else Inl e, pool, w))"

text \<open>The five attempts of \<open>free\<close>, one class after the other.\<close>

fun free_in_classes ::
  "SizeClass list \<Rightarrow> 'w Kmalloc \<Rightarrow> 'w SlabWorld \<Rightarrow> usize \<Rightarrow> ((FreeError + unit) \<times> 'w Kmalloc \<times> 'w SlabWorld) panics" where
  "free_in_classes [] k w ptr = Inr (Inl InvalidSlab, k, w)"
| "free_in_classes (c # cs) k w ptr =
     bind_panic (try_free (class_layout c) (class_pool k c) w ptr) (\<lambda>(r, pool, w).
     let k = set_class_pool c pool k in
     case r of
       Inl e \<Rightarrow> Inr (Inl e, k, w)
     | Inr freed \<Rightarrow> if freed then Inr (Inr (), k, w) else free_in_classes cs k w ptr)"

definition Kmalloc_free ::
  "'w Kmalloc \<Rightarrow> 'w SlabWorld \<Rightarrow> usize \<Rightarrow> ((FreeError + unit) \<times> 'w Kmalloc \<times> 'w SlabWorld) panics" where
  "Kmalloc_free k w ptr =
     (if \<not> kmalloc_initialized k then Inr (Inl FreeNotInitialized, k, w)
      else free_in_classes [Class64, Class128, Class256, Class512, Class1024] k w ptr)"

section \<open>Entry points under the lock\<close>

text \<open>
  The statics of the module and the interrupt state of the calling processor, whose interrupt
  functions are parameters. \<open>with_lock\<close> is the body of an entry point between the creation and the
  drop of its guard, on a lock that no other processor changes meanwhile.
\<close>

record 'c Allocator =
  kmalloc :: "PageWorld Kmalloc"
  kmalloc_lock :: SpinLock
  slab_memory :: "PageWorld SlabWorld"
  processor :: 'c

record 'c InterruptFunctions =
  disable_interrupts :: "'c \<Rightarrow> bool \<times> 'c"
  restore_interrupts :: "bool \<Rightarrow> 'c \<Rightarrow> 'c"

definition with_lock ::
  "'c InterruptFunctions \<Rightarrow> (PageWorld Kmalloc \<Rightarrow> PageWorld SlabWorld \<Rightarrow> ('r \<times> PageWorld Kmalloc \<times> PageWorld SlabWorld) panics) \<Rightarrow>
   'c Allocator \<Rightarrow> ('r \<times> 'c Allocator) panics" where
  "with_lock irq body s =
     (case SpinLock_guard (disable_interrupts irq) [] (kmalloc_lock s) (processor s) of
        (None, _) \<Rightarrow> diverges
      | (Some g, lock, cpu) \<Rightarrow>
          bind_panic (body (kmalloc s) (slab_memory s)) (\<lambda>(r, k, w).
          bind_panic (SpinLockGuard_drop (restore_interrupts irq) True g lock cpu) (\<lambda>(lock, cpu).
          Inr (r, \<lparr>kmalloc = k, kmalloc_lock = lock, slab_memory = w, processor = cpu\<rparr>))))"

definition allocator_init :: "CallbackAddresses \<Rightarrow> Mappers \<Rightarrow> 'c InterruptFunctions \<Rightarrow> 'c Allocator \<Rightarrow> (unit \<times> 'c Allocator) panics" where
  "allocator_init fns maps irq = with_lock irq (\<lambda>k w. bind_panic (Kmalloc_init fns maps k w) (\<lambda>(k, w). Inr ((), k, w)))"

definition alloc_raw :: "'c InterruptFunctions \<Rightarrow> usize \<Rightarrow> usize option \<Rightarrow> 'c Allocator \<Rightarrow> ((AllocError + usize) \<times> 'c Allocator) panics" where
  "alloc_raw irq n alignment = with_lock irq (\<lambda>k w. Kmalloc_alloc k w n alignment)"

definition free_raw :: "'c InterruptFunctions \<Rightarrow> usize \<Rightarrow> 'c Allocator \<Rightarrow> ((FreeError + unit) \<times> 'c Allocator) panics" where
  "free_raw irq ptr = with_lock irq (\<lambda>k w. Kmalloc_free k w ptr)"

record KernelAllocation =
  allocation_ptr :: usize
  allocation_size :: usize

definition allocator_alloc ::
  "'c InterruptFunctions \<Rightarrow> usize \<Rightarrow> usize option \<Rightarrow> 'c Allocator \<Rightarrow> ((AllocError + KernelAllocation) \<times> 'c Allocator) panics" where
  "allocator_alloc irq n alignment s =
     try_bind (alloc_raw irq n alignment s) (\<lambda>ptr s. Inr (Inr \<lparr>allocation_ptr = ptr, allocation_size = n\<rparr>, s))"

definition KernelAllocation_drop :: "'c InterruptFunctions \<Rightarrow> KernelAllocation \<Rightarrow> 'c Allocator \<Rightarrow> 'c Allocator panics" where
  "KernelAllocation_drop irq object s = bind_panic (free_raw irq (allocation_ptr object) s) (\<lambda>(_, s). Inr s)"

definition allocator_boot_probe :: "'c InterruptFunctions \<Rightarrow> 'c Allocator \<Rightarrow> ((AllocError + unit) \<times> 'c Allocator) panics" where
  "allocator_boot_probe irq s =
     try_bind (allocator_alloc irq CACHE_LINE_SIZE None s) (\<lambda>object s.
     bind_panic (KernelAllocation_drop irq object s) (\<lambda>s. Inr (Inr (), s)))"

section \<open>The five layouts\<close>

lemma shrink_step:
  "0 < n \<Longrightarrow> shrink_objects start sz n = (if start + n * sz + 8 > 4096 then shrink_objects start sz (n - 1) else n)"
  by (cases n) (simp_all add: MAX_BITMAP_WORDS_def)

lemma class_numbers:
  "usable_start (class_layout c) = 64" "object_size (class_layout c) = class_bytes c"
  "objects_per_slab (class_layout c) = (case c of Class64 \<Rightarrow> 62 | Class128 \<Rightarrow> 31 | Class256 \<Rightarrow> 15 | Class512 \<Rightarrow> 7 | Class1024 \<Rightarrow> 3)"
proof -
  have u: "usable_start (class_layout c) = 64" for c
    by (simp add: usable_start_def slab_align_up_def object_align_def class_layout_def CACHE_LINE_SIZE_def BACK_POINTER_SIZE_def)
  have s: "object_size (class_layout c) = class_bytes c" for c
    by (cases c) (simp_all add: object_size_def slab_align_up_def object_align_def class_layout_def class_bytes_def CACHE_LINE_SIZE_def)
  show "usable_start (class_layout c) = 64" "object_size (class_layout c) = class_bytes c"
    by (rule u, rule s)
  show "objects_per_slab (class_layout c) = (case c of Class64 \<Rightarrow> 62 | Class128 \<Rightarrow> 31 | Class256 \<Rightarrow> 15 | Class512 \<Rightarrow> 7 | Class1024 \<Rightarrow> 3)"
    by (cases c) (simp_all add: objects_per_slab_def u s class_bytes_def shrink_step PAGE_SIZE_def)
qed

lemma class_layout_ok: "layout_ok (class_layout c)"
  by (cases c) (simp_all add: layout_ok_def class_numbers class_bytes_def SLAB_HEADER_SIZE_def)

lemma class_bytes_inj: "class_bytes c = class_bytes d \<longleftrightarrow> c = d"
  by (cases c; cases d) (simp_all add: class_bytes_def)

lemma class_pool_set [simp]:
  "class_pool (set_class_pool c pool k) d = (if d = c then pool else class_pool k d)"
  "kmalloc_initialized (set_class_pool c pool k) = kmalloc_initialized k"
  "set_class_pool c (class_pool k c) k = k"
  by (cases c; cases d; simp) (cases c; simp)+

lemma size_class_spec:
  assumes "n \<le> MAX_CLASS"
  shows "\<exists>c. size_class (max n CACHE_LINE_SIZE) = Some c \<and> n \<le> class_bytes c"
  using assms by (auto simp: size_class_def MAX_CLASS_def CACHE_LINE_SIZE_def class_bytes_def max_def)

section \<open>The pages of the allocator\<close>

definition mappers_ok :: "Mappers \<Rightarrow> bool" where
  "mappers_ok m \<longleftrightarrow> (\<forall>a. virtual_to_physical m (physical_to_virtual m a) = a \<and> physical_to_virtual m (virtual_to_physical m a) = a \<and>
     is_page_aligned (physical_to_virtual m a) = is_page_aligned a)"

definition pages_avail :: "PageWorld \<Rightarrow> usize list" where
  "pages_avail pw = map (physical_to_virtual (mappers pw)) (free_addresses (world_pmm pw))"

definition pages_used :: "PageWorld \<Rightarrow> usize set" where
  "pages_used pw = physical_to_virtual (mappers pw) ` allocated_addresses (world_pmm pw)"

definition pages_inv :: "PageWorld \<Rightarrow> bool" where
  "pages_inv pw \<longleftrightarrow> pool_inv (world_pmm pw) \<and> mappers_ok (mappers pw) \<and> 0 \<notin> set (pages_avail pw) \<union> pages_used pw"

lemma mapper_inj: "mappers_ok m \<Longrightarrow> physical_to_virtual m a = physical_to_virtual m b \<longleftrightarrow> a = b"
  unfolding mappers_ok_def by metis

lemma page_addresses_aligned:
  assumes "pool_inv pmm" "a \<in> set (free_addresses pmm) \<union> allocated_addresses pmm"
  shows "is_page_aligned a"
proof -
  obtain h where "managed pmm h" "a = handle_address pmm h"
    using assms free_list_managed [OF assms(1)] by (auto simp: free_addresses_def allocated_addresses_def allocated_handles_def)
  then show ?thesis
    using handle_address_aligned [OF pool_inv_wf [OF assms(1)]] by simp
qed

interpretation kmalloc_pages: slab_pages pages_inv pages_avail pages_used slab_alloc_page slab_free_page
proof unfold_locales
  fix pw p ps
  assume inv: "pages_inv pw"
  then have pool: "pool_inv (world_pmm pw)" and m: "mappers_ok (mappers pw)" and nz: "0 \<notin> set (pages_avail pw) \<union> pages_used pw"
    by (simp_all add: pages_inv_def)
  let ?v = "physical_to_virtual (mappers pw)"
  note inj = mapper_inj [OF m] and fresh = address_pool.avail_fresh [OF pool]
  show "distinct (pages_avail pw) \<and> set (pages_avail pw) \<inter> pages_used pw = {}"
    using fresh inj by (auto simp: pages_avail_def pages_used_def distinct_map inj_on_def)
  show "slab_alloc_page pw = Inr (None, pw)" if "pages_avail pw = []"
    using that address_pool.alloc_empty [OF pool] by (simp add: pages_avail_def slab_alloc_page_def)
  show "\<exists>s'. slab_alloc_page pw = Inr (Some p, s') \<and> pages_inv s' \<and> pages_avail s' = ps \<and> pages_used s' = insert p (pages_used pw)"
    if av: "pages_avail pw = p # ps"
  proof -
    obtain a as where f: "free_addresses (world_pmm pw) = a # as" "p = ?v a" "ps = map ?v as"
      using av by (auto simp: pages_avail_def)
    obtain pmm' where a: "alloc_physical_page (world_pmm pw) = Inr (Some a, pmm')" "pool_inv pmm'" "free_addresses pmm' = as"
        "allocated_addresses pmm' = insert a (allocated_addresses (world_pmm pw))"
      using address_pool.alloc_next [OF pool f(1)] by blast
    have "p \<noteq> 0"
      using nz av by auto
    moreover have "pages_inv (pw\<lparr>world_pmm := pmm'\<rparr>)"
      using a m nz f av by (auto simp: pages_inv_def pages_avail_def pages_used_def)
    ultimately show ?thesis
      using a f by (auto simp: slab_alloc_page_def pages_avail_def pages_used_def)
  qed
  show "\<exists>s'. slab_free_page pw p = Inr s' \<and> pages_inv s' \<and> pages_avail s' = pages_avail pw @ [p] \<and> pages_used s' = pages_used pw - {p}"
    if u: "p \<in> pages_used pw"
  proof -
    obtain a where a: "a \<in> allocated_addresses (world_pmm pw)" "p = ?v a"
      using u by (auto simp: pages_used_def)
    obtain pmm' where r: "free_physical_page (world_pmm pw) a = Inr pmm'" "pool_inv pmm'"
        "free_addresses pmm' = free_addresses (world_pmm pw) @ [a]" "allocated_addresses pmm' = allocated_addresses (world_pmm pw) - {a}"
      using address_pool.release_used [OF pool a(1)] by blast
    have "virtual_to_physical (mappers pw) p = a"
      using m a(2) by (simp add: mappers_ok_def)
    moreover have img: "?v ` (allocated_addresses (world_pmm pw) - {a}) = pages_used pw - {p}"
      using inj a(2) by (auto simp: pages_used_def)
    moreover have "pages_inv (pw\<lparr>world_pmm := pmm'\<rparr>)"
      using r m nz u a(2) img by (auto simp: pages_inv_def pages_avail_def pages_used_def)
    ultimately show ?thesis
      using r a(2) by (auto simp: slab_free_page_def pages_avail_def pages_used_def)
  qed
  show "\<exists>msg. slab_free_page pw p = Inl msg" if "p \<notin> pages_used pw"
  proof -
    have "virtual_to_physical (mappers pw) p \<notin> allocated_addresses (world_pmm pw)"
      using that m unfolding pages_used_def mappers_ok_def by (metis image_eqI)
    then show ?thesis
      using address_pool.release_other [OF pool] by (fastforce simp: slab_free_page_def)
  qed
  show "is_page_aligned p \<and> p \<noteq> 0" if "p \<in> set (pages_avail pw) \<union> pages_used pw"
    using that nz page_addresses_aligned [OF pool] m by (auto simp: pages_avail_def pages_used_def mappers_ok_def)
qed

section \<open>The invariant of the allocator\<close>

text \<open>\<open>pages c\<close> are the slab pages of class \<open>c\<close>.\<close>

definition kmalloc_ok ::
  "CallbackAddresses \<Rightarrow> PageWorld Kmalloc \<Rightarrow> PageWorld SlabWorld \<Rightarrow> (SizeClass \<Rightarrow> usize set) \<Rightarrow> bool" where
  "kmalloc_ok fns k w pages \<longleftrightarrow> kmalloc_initialized k \<and> pages_inv (page_world w) \<and>
     (\<forall>c. (\<exists>hs. pool_ok (class_layout c) (class_pool k c) w (pages c) hs) \<and> pages c \<subseteq> pages_used (page_world w) \<and>
        pool_cookie (class_pool k c) = mix64 (seed_for fns (class_bytes c)) \<and>
        pool_alloc_page (class_pool k c) = slab_alloc_page \<and> pool_free_page (class_pool k c) = slab_free_page) \<and>
     (\<forall>c d. c \<noteq> d \<longrightarrow> pages c \<inter> pages d = {})"

abbreviation class_objects :: "'w SlabWorld \<Rightarrow> (SizeClass \<Rightarrow> usize set) \<Rightarrow> SizeClass \<Rightarrow> usize set" where
  "class_objects w pages c \<equiv> live_objects (class_layout c) w (pages c)"

lemma kmalloc_okD:
  assumes "kmalloc_ok fns k w pages"
  shows "kmalloc_initialized k" "pages_inv (page_world w)" "\<exists>hs. pool_ok (class_layout c) (class_pool k c) w (pages c) hs"
    "pages c \<subseteq> pages_used (page_world w)" "pool_cookie (class_pool k c) = mix64 (seed_for fns (class_bytes c))"
    "pool_alloc_page (class_pool k c) = slab_alloc_page" "pool_free_page (class_pool k c) = slab_free_page"
    "c \<noteq> d \<Longrightarrow> pages c \<inter> pages d = {}"
  using assms unfolding kmalloc_ok_def by blast+

text \<open>An operation of one pool leaves the others as they are.\<close>

lemma kmalloc_ok_update:
  assumes ok: "kmalloc_ok fns k w pages"
    and c: "pool_ok (class_layout c) pool w' S hs" "same_pool (class_pool k c) pool" "mem_frame (class_layout c) P w w'"
    and P: "S \<subseteq> P" "\<And>d. d \<noteq> c \<Longrightarrow> pages d \<inter> P = {}"
    and pg: "pages_inv (page_world w')" "S \<subseteq> pages_used (page_world w')" "\<And>d. d \<noteq> c \<Longrightarrow> pages d \<subseteq> pages_used (page_world w')"
  shows "kmalloc_ok fns (set_class_pool c pool k) w' (pages(c := S)) \<and>
    (\<forall>d. d \<noteq> c \<longrightarrow> class_objects w' (pages(c := S)) d = class_objects w pages d)"
proof -
  note d = kmalloc_okD [OF ok]
  have other: "(\<exists>hs. pool_ok (class_layout d) (class_pool k d) w' (pages d) hs) \<and>
      live_objects (class_layout d) w' (pages d) = live_objects (class_layout d) w (pages d)" if "d \<noteq> c" for d
  proof -
    obtain hs where "pool_ok (class_layout d) (class_pool k d) w (pages d) hs"
      using d(3) by blast
    from pool_ok_frame [OF this c(3) _ P(2) [OF that]] show ?thesis
      by (auto simp: class_numbers(1))
  qed
  have apart: "(pages(c := S)) d \<inter> (pages(c := S)) e = {}" if "d \<noteq> e" for d e
    using d(8) [OF that] P that by (auto simp: disjoint_iff)
  have "kmalloc_ok fns (set_class_pool c pool k) w' (pages(c := S))"
    unfolding kmalloc_ok_def using d(1,5,6,7) c other pg apart by (auto simp: same_pool_def)
  then show ?thesis
    using other by simp
qed

lemma cookies_differ:
  assumes "kmalloc_ok fns k w pages" "c \<noteq> d"
  shows "slab_cookie (class_pool k c) p \<noteq> slab_cookie (class_pool k d) p"
proof
  assume "slab_cookie (class_pool k c) p = slab_cookie (class_pool k d) p"
  then have "pool_cookie (class_pool k c) XOR p = pool_cookie (class_pool k d) XOR p"
    unfolding slab_cookie_def by (rule mix64_inj)
  then have "pool_cookie (class_pool k c) = pool_cookie (class_pool k d)"
    using xor_left_inj [of p] by (simp add: xor.commute)
  then have "seed_for fns (class_bytes c) = seed_for fns (class_bytes d)"
    unfolding kmalloc_okD(5) [OF assms(1)] by (rule mix64_inj)
  then have "class_bytes c XOR alloc_page_address fns XOR free_page_address fns =
      class_bytes d XOR alloc_page_address fns XOR free_page_address fns"
    unfolding seed_for_def by (rule mix64_inj)
  then have "class_bytes c = class_bytes d"
    using xor_left_inj by (metis xor.assoc xor.commute)
  then show False
    using assms(2) by (simp add: class_bytes_inj)
qed

section \<open>Allocation\<close>

lemma Kmalloc_alloc_spec:
  assumes ok: "kmalloc_ok fns k w pages" and al: "case alignment of None \<Rightarrow> True | Some a \<Rightarrow> is_power_of_two a \<and> a \<le> CACHE_LINE_SIZE"
    and n: "n \<le> MAX_CLASS"
  shows "\<exists>r k' w' pages' c. Kmalloc_alloc k w n alignment = Inr (r, k', w') \<and> kmalloc_ok fns k' w' pages' \<and> n \<le> class_bytes c \<and>
    (\<forall>d. d \<noteq> c \<longrightarrow> class_objects w' pages' d = class_objects w pages d) \<and> object_bytes w' = object_bytes w \<and>
    (case r of
       Inl e \<Rightarrow> e = OutOfMemory \<and> w' = w \<and> pages' = pages \<and> pages_avail (page_world w) = []
     | Inr a \<Rightarrow> a \<notin> class_objects w pages c \<and> class_objects w' pages' c = insert a (class_objects w pages c))"
proof -
  note d = kmalloc_okD [OF ok]
  obtain c where c: "size_class (max n CACHE_LINE_SIZE) = Some c" "n \<le> class_bytes c"
    using size_class_spec [OF n] by blast
  obtain hs where p: "pool_ok (class_layout c) (class_pool k c) w (pages c) hs"
    using d(3) by blast
  have "\<not> (case alignment of None \<Rightarrow> False | Some al \<Rightarrow> al = 0 \<or> \<not> is_power_of_two al \<or> CACHE_LINE_SIZE < al)"
    using al by (auto simp: is_power_of_two_def split: option.splits)
  then have eq: "Kmalloc_alloc k w n alignment =
      bind_panic (Pool_alloc (class_layout c) (class_pool k c) w) (\<lambda>(r, pool, w).
        Inr (case r of None \<Rightarrow> Inl OutOfMemory | Some object \<Rightarrow> Inr object, set_class_pool c pool k, w))"
    using d(1) leD [OF n] c(1) by (simp add: Kmalloc_alloc_def)
  show ?thesis
    using kmalloc_pages.Pool_alloc_spec [OF class_layout_ok p d(2,6,4)]
  proof (elim exE conjE, goal_cases)
    case (1 r pool' w' S' hs')
    note o = 1(4) [unfolded alloc_outcome_def]
    have "pages d \<inter> S' = {}" if "d \<noteq> c" for d
      using o d(4) [of d] d(8) [OF that] kmalloc_pages.avail_fresh [OF d(2)] by blast
    then have u: "kmalloc_ok fns (set_class_pool c pool' k) w' (pages(c := S')) \<and>
        (\<forall>d. d \<noteq> c \<longrightarrow> class_objects w' (pages(c := S')) d = class_objects w pages d)"
      using o d(4) 1(5,6) by (intro kmalloc_ok_update [OF ok 1(2,3), of S']) auto
    show ?thesis
    proof (cases r)
      case None
      then have "w' = w" "S' = pages c" "pages_avail (page_world w) = []"
        using o by simp_all
      then show ?thesis
        using u eq 1(1) None c(2) by (intro exI [of _ "Inl OutOfMemory"] exI [of _ "set_class_pool c pool' k"] exI [of _ w] exI [of _ pages] exI [of _ c]) simp
    next
      case (Some a)
      then show ?thesis
        using u eq 1(1) o c(2)
        by (intro exI [of _ "Inr a"] exI [of _ "set_class_pool c pool' k"] exI [of _ w'] exI [of _ "pages(c := S')"] exI [of _ c]) simp
    qed
  qed
qed

section \<open>Freeing\<close>

lemma free_in_classes_found:
  assumes "c \<in> set cs" "Pool_free (class_layout c) (class_pool k c) w x = Inr (r, pool, w')" "r \<noteq> Inl InvalidSlab"
    and "\<And>d. d \<noteq> c \<Longrightarrow> locate_object (class_layout d) (class_pool k d) w x = Inl InvalidSlab"
  shows "free_in_classes cs k w x = Inr (r, set_class_pool c pool k, w')"
  using assms(1)
proof (induction cs)
  case (Cons d cs)
  show ?case
  proof (cases "d = c")
    case True
    have "try_free (class_layout c) (class_pool k c) w x = Inr (case r of Inr _ \<Rightarrow> Inr True | Inl e \<Rightarrow> Inl e, pool, w')"
      using assms(2,3) by (cases r) (simp_all add: try_free_def)
    then show ?thesis
      using True by (cases r) simp_all
  next
    case False
    then have "try_free (class_layout d) (class_pool k d) w x = Inr (Inr False, class_pool k d, w)"
      using assms(4) [OF False] by (simp add: try_free_def Pool_free_def)
    then show ?thesis
      using Cons False by simp
  qed
qed simp

lemma Kmalloc_free_found:
  assumes ok: "kmalloc_ok fns k w pages" and x: "align_down x \<in> pages c"
    and f: "Pool_free (class_layout c) (class_pool k c) w x = Inr (r, pool, w')" "r \<noteq> Inl InvalidSlab"
  shows "Kmalloc_free k w x = Inr (r, set_class_pool c pool k, w')"
proof -
  note d = kmalloc_okD [OF ok]
  have "locate_object (class_layout e) (class_pool k e) w x = Inl InvalidSlab" if "e \<noteq> c" for e
  proof (rule locate_foreign [OF class_layout_ok _ refl])
    obtain hs where p: "pool_ok (class_layout c) (class_pool k c) w (pages c) hs"
      using d(3) by blast
    show "is_page_aligned (align_down x)"
      by simp
    have "slab_at (class_layout e) (align_down x) = slab_at (class_layout c) (align_down x)"
      by (simp add: slab_at_def class_numbers)
    then show "first_words w (align_down x) = slab_at (class_layout e) (align_down x) XOR slab_cookie (class_pool k c) (align_down x)"
      using pool_okD(2) [OF p x] by (simp add: slab_ok_def encode_back_pointer_def)
    show "slab_cookie (class_pool k c) (align_down x) \<noteq> slab_cookie (class_pool k e) (align_down x)"
      using cookies_differ [OF ok] that by metis
  qed
  moreover have "c \<in> set [Class64, Class128, Class256, Class512, Class1024]"
    by (cases c) simp_all
  ultimately show ?thesis
    unfolding Kmalloc_free_def using free_in_classes_found [OF _ f] d(1) by (simp del: free_in_classes.simps set_simps)
qed

lemma Kmalloc_free_live:
  assumes ok: "kmalloc_ok fns k w pages" and a: "a \<in> class_objects w pages c"
  shows "\<exists>k' w' pages'. Kmalloc_free k w a = Inr (Inr (), k', w') \<and> kmalloc_ok fns k' w' pages' \<and>
    class_objects w' pages' c = class_objects w pages c - {a} \<and>
    (\<forall>d. d \<noteq> c \<longrightarrow> class_objects w' pages' d = class_objects w pages d) \<and>
    object_bytes w' = poison a (unat (class_bytes c)) (object_bytes w)"
proof -
  note d = kmalloc_okD [OF ok]
  obtain hs where p: "pool_ok (class_layout c) (class_pool k c) w (pages c) hs"
    using d(3) by blast
  show ?thesis
    using live_object_page [OF class_layout_ok p a]
  proof (elim exE conjE, goal_cases)
    case (1 i)
    show ?thesis
      using kmalloc_pages.Pool_free_spec [OF class_layout_ok p 1(4,1,2,5) d(2,7,4)] unfolding 1(3) [symmetric]
    proof (elim exE conjE, goal_cases)
      case f: (1 pool' w' S' hs')
      note o = f(4) [unfolded free_outcome_def]
      have u: "kmalloc_ok fns (set_class_pool c pool' k) w' (pages(c := S')) \<and>
          (\<forall>d. d \<noteq> c \<longrightarrow> class_objects w' (pages(c := S')) d = class_objects w pages d)"
      proof (rule kmalloc_ok_update [OF ok f(2,3), of "pages c"])
        show "pages e \<inter> pages c = {}" "pages e \<subseteq> pages_used (page_world w')" if "e \<noteq> c" for e
          using d(4) [of e] d(8) [OF that] f(6) by auto
        show "S' \<subseteq> pages_used (page_world w')"
          using d(4) [of c] o f(6) by auto
      qed (use o f(5) in auto)
      have "Kmalloc_free k w a = Inr (Inr (), set_class_pool c pool' k, w')"
        by (rule Kmalloc_free_found [OF ok 1(4) f(1)]) simp
      then show ?thesis
        using u o by (intro exI [of _ "set_class_pool c pool' k"] exI [of _ w'] exI [of _ "pages(c := S')"]) (simp add: class_numbers)
    qed
  qed
qed

lemma Kmalloc_free_dead:
  assumes ok: "kmalloc_ok fns k w pages" and x: "align_down x \<in> pages c" "x \<notin> class_objects w pages c"
  shows "\<exists>e. Kmalloc_free k w x = Inr (Inl e, k, w) \<and> e \<noteq> InvalidSlab \<and> e \<noteq> FreeNotInitialized"
proof -
  obtain hs where p: "pool_ok (class_layout c) (class_pool k c) w (pages c) hs"
    using kmalloc_okD(3) [OF ok] by blast
  obtain e where e: "Pool_free (class_layout c) (class_pool k c) w x = Inr (Inl e, class_pool k c, w)" "e \<noteq> InvalidSlab" "e \<noteq> FreeNotInitialized"
    using Pool_free_rejects [OF class_layout_ok p x] by blast
  show ?thesis
    using Kmalloc_free_found [OF ok x(1) e(1)] e by simp
qed

section \<open>Objects\<close>

lemma class_object_range:
  assumes ok: "kmalloc_ok fns k w pages" and a: "a \<in> class_objects w pages c"
  shows "\<exists>p i. p \<in> pages c \<and> p = align_down a \<and> 0 < i \<and> unat a = unat p + 64 + i * unat (class_bytes c) \<and>
    64 + i * unat (class_bytes c) + unat (class_bytes c) \<le> 4096 \<and> is_page_aligned p"
proof -
  obtain hs where p: "pool_ok (class_layout c) (class_pool k c) w (pages c) hs"
    using kmalloc_okD(3) [OF ok] by blast
  show ?thesis
    using live_object_page [OF class_layout_ok p a]
  proof (elim exE conjE, goal_cases)
    case (1 i)
    show ?thesis
      using 1 slot_in_page(1) [OF class_layout_ok 1(2)] unat_object_at [OF class_layout_ok _ 1(2), of "align_down a"]
      by (intro exI [of _ "align_down a"] exI [of _ i]) (simp add: class_numbers)
  qed
qed

lemma page_classes_apart:
  assumes "kmalloc_ok fns k w pages" "a \<in> class_objects w pages c" "align_down a \<in> pages d"
  shows "c = d"
  using class_object_range [OF assms(1,2)] assms(3) kmalloc_okD(8) [OF assms(1), of c d] by blast

lemma pages_disjoint:
  assumes "is_page_aligned p" "is_page_aligned q" "unat p < unat q"
  shows "unat p + 4096 \<le> unat q"
proof -
  obtain i j where "unat p = 4096 * i" "unat q = 4096 * j"
    using assms(1,2) by (auto simp: is_page_aligned_iff mod_eq_0_iff_dvd elim!: dvdE)
  then show ?thesis
    using assms(3) by simp
qed

lemma class_objects_disjoint:
  assumes ok: "kmalloc_ok fns k w pages" and a: "a \<in> class_objects w pages c" and b: "b \<in> class_objects w pages d" and ne: "a \<noteq> b"
  shows "unat a + unat (class_bytes c) \<le> unat b \<or> unat b + unat (class_bytes d) \<le> unat a"
proof -
  obtain p i where p: "p \<in> pages c" "p = align_down a" "unat a = unat p + 64 + i * unat (class_bytes c)"
      "64 + i * unat (class_bytes c) + unat (class_bytes c) \<le> 4096" "is_page_aligned p"
    using class_object_range [OF ok a] by blast
  obtain q j where q: "q \<in> pages d" "q = align_down b" "unat b = unat q + 64 + j * unat (class_bytes d)"
      "64 + j * unat (class_bytes d) + unat (class_bytes d) \<le> 4096" "is_page_aligned q"
    using class_object_range [OF ok b] by blast
  consider "unat p < unat q" | "unat q < unat p" | "p = q"
    by (metis linorder_neqE_nat word_unat_eq_iff)
  then show ?thesis
  proof cases
    case 3
    then have cd: "c = d"
      using p(1) q(1) kmalloc_okD(8) [OF ok, of c d] by blast
    then have "i \<noteq> j"
      using ne p(3) q(3) 3 by (metis word_unat_eq_iff)
    then have "Suc i \<le> j \<or> Suc j \<le> i"
      by auto
    then have "Suc i * unat (class_bytes c) \<le> j * unat (class_bytes c) \<or> Suc j * unat (class_bytes c) \<le> i * unat (class_bytes c)"
      by (blast intro: mult_le_mono1)
    then show ?thesis
      using p(3) q(3) 3 cd by auto
  qed (use pages_disjoint p q in fastforce)+
qed

end
