(* ===== verification/Kmalloc_Runs.thy ===== *)
theory Kmalloc_Runs
  imports Kmalloc
begin

text \<open>
  Runs of the general allocator: what clients hold after any sequence of allocations, writes and
  frees, and the entry points that take the lock.
\<close>

unbundle bit_operations_syntax

section \<open>Runs of the allocator\<close>

text \<open>
  A state of the allocator with what its clients hold: \<open>held a = Some n\<close> for an allocation of \<open>n\<close>
  bytes at \<open>a\<close>. Clients allocate anything, write to their allocations, and free what they hold.
\<close>

record KmallocRun =
  run_kmalloc :: "PageWorld Kmalloc"
  run_memory :: "PageWorld SlabWorld"
  held :: "usize \<rightharpoonup> usize"

inductive kmalloc_step :: "KmallocRun \<Rightarrow> KmallocRun \<Rightarrow> bool" where
  allocated: "Kmalloc_alloc (run_kmalloc s) (run_memory s) n alignment = Inr (Inr a, k, w) \<Longrightarrow>
    kmalloc_step s \<lparr>run_kmalloc = k, run_memory = w, held = (held s)(a \<mapsto> n)\<rparr>"
| refused: "Kmalloc_alloc (run_kmalloc s) (run_memory s) n alignment = Inr (Inl e, k, w) \<Longrightarrow>
    kmalloc_step s \<lparr>run_kmalloc = k, run_memory = w, held = held s\<rparr>"
| written: "held s a = Some n \<Longrightarrow> i < unat n \<Longrightarrow>
    kmalloc_step s (s\<lparr>run_memory := (run_memory s)\<lparr>object_bytes := (object_bytes (run_memory s))(a + of_nat i := b)\<rparr>\<rparr>)"
| freed: "a \<in> dom (held s) \<Longrightarrow> Kmalloc_free (run_kmalloc s) (run_memory s) a = Inr (r, k, w) \<Longrightarrow>
    kmalloc_step s \<lparr>run_kmalloc = k, run_memory = w, held = (held s)(a := None)\<rparr>"

definition run_ok :: "CallbackAddresses \<Rightarrow> (SizeClass \<Rightarrow> usize set) \<Rightarrow> KmallocRun \<Rightarrow> bool" where
  "run_ok fns pages s \<longleftrightarrow> kmalloc_ok fns (run_kmalloc s) (run_memory s) pages \<and>
     (\<forall>a n. held s a = Some n \<longrightarrow> (\<exists>c. a \<in> class_objects (run_memory s) pages c \<and> n \<le> class_bytes c)) \<and>
     (\<forall>c. class_objects (run_memory s) pages c \<subseteq> dom (held s))"

lemma kmalloc_ok_bytes:
  "kmalloc_ok fns k (w\<lparr>object_bytes := bytes\<rparr>) pages = kmalloc_ok fns k w pages"
  "class_objects (w\<lparr>object_bytes := bytes\<rparr>) pages c = class_objects w pages c"
  by (simp_all add: kmalloc_ok_def pool_ok_def slab_ok_def list_ok_def live_objects_def)

lemma Kmalloc_alloc_refuses:
  assumes "kmalloc_initialized k"
    and "\<not> (case alignment of None \<Rightarrow> True | Some a \<Rightarrow> is_power_of_two a \<and> a \<le> CACHE_LINE_SIZE) \<or> \<not> n \<le> MAX_CLASS"
  shows "\<exists>e. Kmalloc_alloc k w n alignment = Inr (Inl e, k, w) \<and> (e = BadAlignment \<or> e = TooLarge)"
  using assms by (auto simp: Kmalloc_alloc_def not_le split: option.splits)

lemma run_ok_held:
  assumes "run_ok fns pages s" "a \<in> dom (held s)"
  shows "\<exists>c n. held s a = Some n \<and> a \<in> class_objects (run_memory s) pages c \<and> n \<le> class_bytes c"
  using assms by (auto simp: run_ok_def)

lemma run_ok_alloc:
  assumes ok: "run_ok fns pages s" and a: "Kmalloc_alloc (run_kmalloc s) (run_memory s) n alignment = Inr (r, k, w)"
  shows "\<exists>pages'. run_ok fns pages' \<lparr>run_kmalloc = k, run_memory = w, held = (case r of Inr a \<Rightarrow> (held s)(a \<mapsto> n) | Inl _ \<Rightarrow> held s)\<rparr> \<and>
    (case r of Inr a \<Rightarrow> a \<notin> dom (held s) | Inl _ \<Rightarrow> True)"
proof -
  have k: "kmalloc_ok fns (run_kmalloc s) (run_memory s) pages"
    using ok by (simp add: run_ok_def)
  show ?thesis
  proof (cases "(case alignment of None \<Rightarrow> True | Some a \<Rightarrow> is_power_of_two a \<and> a \<le> CACHE_LINE_SIZE) \<and> n \<le> MAX_CLASS")
    case False
    then obtain e where "r = Inl e" "k = run_kmalloc s" "w = run_memory s"
      using Kmalloc_alloc_refuses [OF kmalloc_okD(1) [OF k], of alignment n "run_memory s"] a by auto
    then show ?thesis
      using ok by (auto simp: run_ok_def)
  next
    case True
    show ?thesis
      using Kmalloc_alloc_spec [OF k conjunct1 [OF True] conjunct2 [OF True]]
    proof (elim exE conjE, goal_cases)
      case (1 r' k' w' pages' c)
      have eq: "r' = r" "k' = k" "w' = w"
        using 1(1) a by simp_all
      note o = 1(2-6) [unfolded eq]
      show ?thesis
      proof (cases r)
        case (Inl e)
        then show ?thesis
          using ok o by (intro exI [of _ pages]) (auto simp: run_ok_def)
      next
        case (Inr b)
        then have b: "b \<notin> class_objects (run_memory s) pages c" "class_objects w pages' c = insert b (class_objects (run_memory s) pages c)"
          using o(5) by simp_all
        have all: "class_objects w pages' d = (if d = c then insert b (class_objects (run_memory s) pages c) else class_objects (run_memory s) pages d)" for d
          using b(2) o(3) by simp
        have "align_down b \<in> pages' c"
          using class_object_range [OF o(1), of b c] b(2) by blast
        then have "b \<notin> class_objects (run_memory s) pages d" for d
          using b(1) page_classes_apart [OF o(1), of b d c] all [of d] by (cases "d = c") auto
        then have fresh: "b \<notin> dom (held s)"
          using run_ok_held [OF ok] by blast
        have "\<exists>d. x \<in> class_objects w pages' d \<and> m \<le> class_bytes d" if "((held s)(b \<mapsto> n)) x = Some m" for x m
          using that ok o(2) all unfolding run_ok_def by (cases "x = b") (auto, metis insertI2)
        moreover have "class_objects w pages' d \<subseteq> dom ((held s)(b \<mapsto> n))" for d
          using ok by (auto simp: run_ok_def all)
        ultimately show ?thesis
          using o(1) fresh Inr by (intro exI [of _ pages']) (simp add: run_ok_def)
      qed
    qed
  qed
qed

lemma run_ok_free:
  assumes ok: "run_ok fns pages s" and a: "a \<in> dom (held s)" 
  shows "\<exists>k w pages' c. Kmalloc_free (run_kmalloc s) (run_memory s) a = Inr (Inr (), k, w) \<and>
    run_ok fns pages' \<lparr>run_kmalloc = k, run_memory = w, held = (held s)(a := None)\<rparr> \<and>
    a \<in> class_objects (run_memory s) pages c \<and> object_bytes w = poison a (unat (class_bytes c)) (object_bytes (run_memory s))"
proof -
  have k: "kmalloc_ok fns (run_kmalloc s) (run_memory s) pages"
    using ok by (simp add: run_ok_def)
  obtain c n where c: "held s a = Some n" "a \<in> class_objects (run_memory s) pages c"
    using run_ok_held [OF ok a] by blast
  have only: "a \<notin> class_objects (run_memory s) pages d" if "d \<noteq> c" for d
    using that page_classes_apart [OF k, of a d c] class_object_range [OF k c(2)] by blast
  show ?thesis
    using Kmalloc_free_live [OF k c(2)]
  proof (elim exE conjE, goal_cases)
    case (1 k' w' pages')
    have all: "class_objects w' pages' d = class_objects (run_memory s) pages d - {a}" for d
      using 1(3,4) only [of d] by (cases "d = c") auto
    have "\<exists>d. x \<in> class_objects w' pages' d \<and> m \<le> class_bytes d" if "((held s)(a := None)) x = Some m" for x m
      using that ok unfolding run_ok_def all by (auto split: if_splits)
    moreover have "class_objects w' pages' d \<subseteq> dom ((held s)(a := None))" for d
      using ok by (auto simp: run_ok_def all)
    ultimately show ?thesis
      using 1(1,2,5) c(2) by (intro exI [of _ k'] exI [of _ w'] exI [of _ pages'] exI [of _ c]) (simp add: run_ok_def)
  qed
qed

lemma kmalloc_step_ok: "kmalloc_step s s' \<Longrightarrow> run_ok fns pages s \<Longrightarrow> \<exists>pages'. run_ok fns pages' s'"
proof (induction rule: kmalloc_step.induct)
  case (allocated s n alignment a k w)
  then show ?case
    using run_ok_alloc [OF allocated.prems allocated.hyps] by auto
next
  case (refused s n alignment e k w)
  then show ?case
    using run_ok_alloc [OF refused.prems refused.hyps] by auto
next
  case (written s a n i b)
  then show ?case
    by (intro exI [of _ pages]) (simp add: run_ok_def kmalloc_ok_bytes)
next
  case (freed a s r k w)
  then show ?case
    using run_ok_free [OF freed.prems freed.hyps(1)] by auto
qed

text \<open>Start: \<open>init\<close> has run on a page allocator with these mappers.\<close>

definition kmalloc_started :: "CallbackAddresses \<Rightarrow> Mappers \<Rightarrow> PageWorld SlabWorld \<Rightarrow> KmallocRun panics" where
  "kmalloc_started fns maps w =
     bind_panic (Kmalloc_init fns maps Kmalloc_empty w) (\<lambda>(k, w). Inr \<lparr>run_kmalloc = k, run_memory = w, held = Map.empty\<rparr>)"

lemma class_pool_new:
  "Pool_new (class_layout c) allocate give_back seed =
    Inr (Pool_empty\<lparr>pool_alloc_page := allocate, pool_free_page := give_back, pool_cookie := mix64 seed\<rparr>)"
proof -
  have "\<not> PAGE_SIZE < object_align (class_layout c)"
    by (simp add: object_align_def class_layout_def CACHE_LINE_SIZE_def PAGE_SIZE_def)
  moreover have "\<not> object_size (class_layout c) < SLAB_HEADER_SIZE" "\<not> objects_per_slab (class_layout c) \<le> 1"
    by (cases c; simp add: class_numbers class_bytes_def SLAB_HEADER_SIZE_def)+
  ultimately show ?thesis
    by (simp add: Pool_new_def Pool_try_new_def Let_def)
qed

lemma kmalloc_started_ok:
  assumes "pages_inv ((page_world w)\<lparr>mappers := maps\<rparr>)"
  shows "\<exists>s. kmalloc_started fns maps w = Inr s \<and> run_ok fns (\<lambda>_. {}) s"
proof -
  let ?pool = "\<lambda>c. Pool_empty\<lparr>pool_alloc_page := slab_alloc_page, pool_free_page := slab_free_page,
    pool_cookie := mix64 (seed_for fns (class_bytes c))\<rparr>"
  let ?k = "\<lparr>pool_64 = ?pool Class64, pool_128 = ?pool Class128, pool_256 = ?pool Class256, pool_512 = ?pool Class512,
    pool_1024 = ?pool Class1024, kmalloc_initialized = True\<rparr>"
  let ?w = "w\<lparr>page_world := (page_world w)\<lparr>mappers := maps\<rparr>\<rparr>"
  have init: "Kmalloc_init fns maps Kmalloc_empty w = Inr (?k, ?w)"
    by (simp add: Kmalloc_init_def Kmalloc_empty_def class_pool_new Let_def)
  have cp: "class_pool ?k c = ?pool c" for c
    by (cases c) simp_all
  have "pool_ok (class_layout c) (?pool c) ?w {} []" for c
    by (simp add: pool_ok_def list_ok_def current_ok_def live_objects_def Pool_empty_def)
  then have "kmalloc_ok fns ?k ?w (\<lambda>_. {})"
    unfolding kmalloc_ok_def cp using assms by (auto simp: Pool_empty_def)
  then show ?thesis
    by (simp add: kmalloc_started_def init run_ok_def live_objects_def)
qed

lemma kmalloc_reachable_ok:
  assumes "pages_inv ((page_world w)\<lparr>mappers := maps\<rparr>)" "kmalloc_started fns maps w = Inr s0" "kmalloc_step\<^sup>*\<^sup>* s0 s"
  shows "\<exists>pages. run_ok fns pages s"
  using assms(3)
proof (induction rule: rtranclp_induct)
  case base
  then show ?case
    using kmalloc_started_ok [OF assms(1), of fns] assms(2) by auto
next
  case (step s1 s2)
  then show ?case
    using kmalloc_step_ok by blast
qed

section \<open>The entry points\<close>

context interrupt_mask
begin

lemma with_lock_free:
  assumes j: "j < 65536" "kmalloc_lock s = free_spin j"
  shows "with_lock \<lparr>disable_interrupts = disable_interrupts, restore_interrupts = restore_interrupts\<rparr> body s =
    bind_panic (body (kmalloc s) (slab_memory s)) (\<lambda>(r, k, w).
      Inr (r, \<lparr>kmalloc = k, kmalloc_lock = free_spin (Suc j), slab_memory = w, processor = processor s\<rparr>))"
proof -
  obtain g masked where "SpinLock_guard disable_interrupts [] (free_spin j) (processor s) = (Some g, held_spin j, masked)"
      "SpinLockGuard_drop restore_interrupts True g (held_spin j) masked = Inr (free_spin (Suc j), processor s)"
    using guard_cycle [OF j(1), of "processor s" True] by blast
  then show ?thesis
    using j(2) by (simp add: with_lock_def)
qed

end

definition arm_mappers :: Mappers where
  "arm_mappers = \<lparr>physical_to_virtual = arm_physical_to_virtual, virtual_to_physical = arm_virtual_to_physical\<rparr>"

definition rv_mappers :: Mappers where
  "rv_mappers = \<lparr>physical_to_virtual = rv_physical_to_virtual, virtual_to_physical = rv_virtual_to_physical\<rparr>"

abbreviation arm_interrupts :: "u64 InterruptFunctions" where
  "arm_interrupts \<equiv> \<lparr>disable_interrupts = arm_disable_interrupts, restore_interrupts = arm_restore_interrupts\<rparr>"

abbreviation rv_interrupts :: "u64 InterruptFunctions" where
  "rv_interrupts \<equiv> \<lparr>disable_interrupts = rv_disable_interrupts, restore_interrupts = rv_restore_interrupts\<rparr>"

lemma shift_aligned:
  assumes "is_page_aligned b"
  shows "is_page_aligned (a + b) \<longleftrightarrow> is_page_aligned a"
proof -
  have "unat (a + b) mod 4096 = (unat a + unat b) mod 4096"
    by (simp add: unat_word_ariths mod_mod_cancel)
  moreover have "unat b mod 4096 = 0"
    using assms by (simp add: is_page_aligned_iff)
  ultimately show ?thesis
    by (simp add: is_page_aligned_iff mod_add_eq [of "unat a" 4096 "unat b", symmetric])
qed

lemma mappers_ok_arch: "mappers_ok arm_mappers" "mappers_ok rv_mappers"
proof -
  have "is_page_aligned ARM_KERNEL_VIRTUAL_BASE" "is_page_aligned RV_KERNEL_VIRTUAL_BASE"
    by (simp_all add: is_page_aligned_iff ARM_KERNEL_VIRTUAL_BASE_def RV_KERNEL_VIRTUAL_BASE_def)
  then show "mappers_ok arm_mappers" "mappers_ok rv_mappers"
    by (simp_all add: mappers_ok_def arm_mappers_def rv_mappers_def arm_physical_to_virtual_def arm_virtual_to_physical_def
        rv_physical_to_virtual_def rv_virtual_to_physical_def shift_aligned)
qed

text \<open>One allocation after another: when a page is free and the request is in range, the allocation succeeds.\<close>

lemma Kmalloc_alloc_succeeds:
  assumes ok: "run_ok fns pages s" and av: "pages_avail (page_world (run_memory s)) \<noteq> []" and n: "n \<le> MAX_CLASS"
  shows "\<exists>a k w. Kmalloc_alloc (run_kmalloc s) (run_memory s) n None = Inr (Inr a, k, w)"
proof -
  have "kmalloc_ok fns (run_kmalloc s) (run_memory s) pages"
    using ok by (simp add: run_ok_def)
  from Kmalloc_alloc_spec [OF this _ n, of None] obtain r k w where
    "Kmalloc_alloc (run_kmalloc s) (run_memory s) n None = Inr (r, k, w)" "\<forall>e. r \<noteq> Inl e"
    using av by (fastforce split: sum.splits)
  then show ?thesis
    by (cases r) auto
qed

section \<open>Properties\<close>

lemma poison_outside:
  assumes "unat x < unat a \<or> unat a + n \<le> unat x" "unat a + n \<le> 2 ^ 64"
  shows "poison a n bytes x = bytes x"
proof -
  have "\<not> unat (x - a) < n"
  proof
    assume lt: "unat (x - a) < n"
    then have "unat ((x - a) + a) = unat (x - a) + unat a"
      using assms(2) by (intro unat_add_no_overflow) simp
    then show False
      using lt assms(1) by simp
  qed
  then show ?thesis
    by (simp add: poison_def)
qed

lemma held_range:
  assumes ok: "run_ok fns pages s" and a: "held s a = Some n"
  shows "\<exists>c. a \<in> class_objects (run_memory s) pages c \<and> unat n \<le> unat (class_bytes c) \<and> unat a mod 64 = 0 \<and>
    align_down a \<in> pages_used (page_world (run_memory s)) \<and> unat (align_down a) + 128 \<le> unat a \<and>
    unat a + unat (class_bytes c) \<le> unat (align_down a) + 4096"
proof -
  obtain c where c: "a \<in> class_objects (run_memory s) pages c" "n \<le> class_bytes c"
    using run_ok_held [OF ok domI [of "held s", OF a]] a by auto
  have k: "kmalloc_ok fns (run_kmalloc s) (run_memory s) pages"
    using ok by (simp add: run_ok_def)
  obtain p i where p: "p \<in> pages c" "p = align_down a" "0 < i" "unat a = unat p + 64 + i * unat (class_bytes c)"
      "64 + i * unat (class_bytes c) + unat (class_bytes c) \<le> 4096" "is_page_aligned p"
    using class_object_range [OF k c(1)] by blast
  have cb: "64 dvd unat (class_bytes c)" "64 \<le> unat (class_bytes c)"
    by (cases c; simp add: class_bytes_def)+
  have "64 dvd unat p"
    using p(6) dvd_trans [of 64 4096 "unat p"] by (simp add: is_page_aligned_iff dvd_eq_mod_eq_0)
  then have "64 dvd unat a"
    unfolding p(4) using cb(1) by (intro dvd_add dvd_mult) simp_all
  moreover have "1 * 64 \<le> i * unat (class_bytes c)"
    using p(3) cb(2) by (intro mult_le_mono) simp_all
  ultimately have "unat a mod 64 = 0" "unat (align_down a) + 128 \<le> unat a" "unat a + unat (class_bytes c) \<le> unat (align_down a) + 4096"
    using p(2,4,5) by (simp_all add: dvd_eq_mod_eq_0)
  moreover have "unat n \<le> unat (class_bytes c)" "align_down a \<in> pages_used (page_world (run_memory s))"
    using c(2) p(1,2) kmalloc_okD(4) [OF k, of c] by (auto simp: word_le_nat_alt)
  ultimately show ?thesis
    using c(1) by (intro exI [of _ c] conjI)
qed

lemma kmalloc_alloc_total:
  assumes ok: "run_ok fns pages s"
  shows "\<exists>r k w'. Kmalloc_alloc (run_kmalloc s) (run_memory s) n alignment = Inr (r, k, w') \<and>
      (case r of Inr a \<Rightarrow> a \<notin> dom (held s)
       | Inl e \<Rightarrow> e = BadAlignment \<or> e = TooLarge \<or> e = OutOfMemory \<and> pages_avail (page_world (run_memory s)) = [])"
proof (cases "(case alignment of None \<Rightarrow> True | Some a \<Rightarrow> is_power_of_two a \<and> a \<le> CACHE_LINE_SIZE) \<and> n \<le> MAX_CLASS")
  case False
  have "kmalloc_initialized (run_kmalloc s)"
    using ok kmalloc_okD(1) by (auto simp: run_ok_def)
  then show ?thesis
    using Kmalloc_alloc_refuses [of "run_kmalloc s" alignment n "run_memory s"] False by force
next
  case True
  have k: "kmalloc_ok fns (run_kmalloc s) (run_memory s) pages"
    using ok by (simp add: run_ok_def)
  show ?thesis
    using Kmalloc_alloc_spec [OF k conjunct1 [OF True] conjunct2 [OF True]]
  proof (elim exE conjE, goal_cases)
    case (1 r k' w' pages' c)
    then show ?thesis
      using run_ok_alloc [OF ok 1(1)] by (intro exI [of _ r] exI [of _ k'] exI [of _ w']) (auto split: sum.splits)
  qed
qed

lemma unat_offset_in_page:
  assumes "unat a + m \<le> unat (align_down a) + 4096" "i < m"
  shows "unat (a + of_nat i) = unat a + i"
proof -
  have "unat a + i < 2 ^ 64"
    using assms page_room [of "align_down a"] by simp
  moreover have "unat (of_nat i :: usize) = i"
    using calculation by (intro unat_of_nat_lt) simp
  ultimately show ?thesis
    using unat_add_no_overflow [of a "of_nat i"] by simp
qed

lemma freed_bytes:
  assumes ok: "run_ok fns pages s" and x: "held s x = Some n"
  shows "\<exists>k w'. Kmalloc_free (run_kmalloc s) (run_memory s) x = Inr (Inr (), k, w') \<and>
    (\<forall>i < unat n. object_bytes w' (x + of_nat i) = POISON_FREE) \<and>
    (\<forall>y m. held s y = Some m \<and> y \<noteq> x \<longrightarrow>
      (\<forall>i < unat m. object_bytes w' (y + of_nat i) = object_bytes (run_memory s) (y + of_nat i)))"
proof -
  have k: "kmalloc_ok fns (run_kmalloc s) (run_memory s) pages"
    using ok by (simp add: run_ok_def)
  obtain k' w' pages' c where f: "Kmalloc_free (run_kmalloc s) (run_memory s) x = Inr (Inr (), k', w')"
      "x \<in> class_objects (run_memory s) pages c" "object_bytes w' = poison x (unat (class_bytes c)) (object_bytes (run_memory s))"
    using run_ok_free [OF ok] x by blast
  obtain d where d: "x \<in> class_objects (run_memory s) pages d" "unat n \<le> unat (class_bytes d)"
      "unat x + unat (class_bytes d) \<le> unat (align_down x) + 4096"
    using held_range [OF ok x] by blast
  have "d = c"
    using page_classes_apart [OF k d(1)] class_object_range [OF k f(2)] by blast
  note d = d [unfolded this]
  have "object_bytes w' (x + of_nat i) = POISON_FREE" if "i < unat n" for i
    using that d(2) unat_of_nat_lt [of i] unat_bound64 [of n] by (simp add: f(3) poison_def)
  moreover have "object_bytes w' (y + of_nat i) = object_bytes (run_memory s) (y + of_nat i)"
    if y: "held s y = Some m" "y \<noteq> x" "i < unat m" for y m i
  proof -
    obtain e where e: "y \<in> class_objects (run_memory s) pages e" "unat m \<le> unat (class_bytes e)"
        "unat y + unat (class_bytes e) \<le> unat (align_down y) + 4096"
      using held_range [OF ok y(1)] by blast
    have "unat (y + of_nat i) = unat y + i"
      using unat_offset_in_page [OF e(3), of i] y(3) e(2) by simp
    moreover have "unat x + unat (class_bytes c) \<le> 2 ^ 64"
      using d(3) page_room [of "align_down x"] by simp
    ultimately show ?thesis
      unfolding f(3) using class_objects_disjoint [OF k f(2) e(1)] y e(2) by (intro poison_outside) auto
  qed
  ultimately show ?thesis
    using f(1) by blast
qed

text \<open>
  C4. Whatever clients allocate, write and free in whatever order, what they hold is memory of the
  page allocator handed to nobody else: every allocation is aligned to a cache line, lies in one
  allocated page behind the slab header, and overlaps no other allocation. A further request never
  panics or hangs; it is refused for lack of memory only when no page is free.
\<close>

theorem kmalloc_allocations_disjoint:
  assumes "pages_inv ((page_world w)\<lparr>mappers := maps\<rparr>)" "kmalloc_started fns maps w = Inr s0" "kmalloc_step\<^sup>*\<^sup>* s0 s"
  shows "(\<forall>a n. held s a = Some n \<longrightarrow> unat a mod 64 = 0 \<and> align_down a \<in> pages_used (page_world (run_memory s)) \<and>
      unat (align_down a) + 128 \<le> unat a \<and> unat a + unat n \<le> unat (align_down a) + 4096) \<and>
    (\<forall>a b m n. held s a = Some m \<and> held s b = Some n \<and> a \<noteq> b \<longrightarrow> unat a + unat m \<le> unat b \<or> unat b + unat n \<le> unat a) \<and>
    (\<forall>n alignment. \<exists>r k w'. Kmalloc_alloc (run_kmalloc s) (run_memory s) n alignment = Inr (r, k, w') \<and>
      (case r of Inr a \<Rightarrow> a \<notin> dom (held s)
       | Inl e \<Rightarrow> e = BadAlignment \<or> e = TooLarge \<or> e = OutOfMemory \<and> pages_avail (page_world (run_memory s)) = []))"
proof -
  obtain pages where ok: "run_ok fns pages s"
    using kmalloc_reachable_ok [OF assms] by blast
  then have k: "kmalloc_ok fns (run_kmalloc s) (run_memory s) pages"
    by (simp add: run_ok_def)
  have "unat a + unat m \<le> unat b \<or> unat b + unat n \<le> unat a" if "held s a = Some m" "held s b = Some n" "a \<noteq> b" for a b m n
    using held_range [OF ok that(1)] held_range [OF ok that(2)] class_objects_disjoint [OF k _ _ that(3)] by fastforce
  moreover have "unat a mod 64 = 0 \<and> align_down a \<in> pages_used (page_world (run_memory s)) \<and>
      unat (align_down a) + 128 \<le> unat a \<and> unat a + unat n \<le> unat (align_down a) + 4096" if "held s a = Some n" for a n
    using held_range [OF ok that] by auto
  moreover have "\<exists>r k w'. Kmalloc_alloc (run_kmalloc s) (run_memory s) n alignment = Inr (r, k, w') \<and>
      (case r of Inr a \<Rightarrow> a \<notin> dom (held s)
       | Inl e \<Rightarrow> e = BadAlignment \<or> e = TooLarge \<or> e = OutOfMemory \<and> pages_avail (page_world (run_memory s)) = [])" for n alignment
    by (rule kmalloc_alloc_total [OF ok])
  ultimately show ?thesis
    by blast
qed

text \<open>A world with two pages of memory, one of them free, seen through the ARM64 map; and one allocation in it.\<close>

definition sample_world :: "PageWorld SlabWorld" where
  "sample_world =
     \<lparr>headers = (\<lambda>_. fresh_header (class_layout Class64) (Pool_empty :: PageWorld Pool) 0), first_words = (\<lambda>_. 0), object_bytes = (\<lambda>_. 0),
      page_world = \<lparr>world_pmm = sample_pmm, mappers = Mappers_identity\<rparr>\<rparr>"

definition sample_callbacks :: CallbackAddresses where
  "sample_callbacks = \<lparr>alloc_page_address = 0x40080100, free_page_address = 0x40080200\<rparr>"

lemma sample_world_ok:
  "pages_inv ((page_world sample_world)\<lparr>mappers := arm_mappers\<rparr>)" "pages_avail ((page_world sample_world)\<lparr>mappers := arm_mappers\<rparr>) \<noteq> []"
  by (simp_all add: pages_inv_def sample_world_def sample_pool mappers_ok_arch pages_avail_def pages_used_def sample_addresses
      arm_mappers_def arm_physical_to_virtual_def ARM_KERNEL_VIRTUAL_BASE_def) (simp add: mappers_ok_arch [unfolded arm_mappers_def])

lemma sample_kmalloc_run:
  "\<exists>s0 s a. kmalloc_started sample_callbacks arm_mappers sample_world = Inr s0 \<and> kmalloc_step\<^sup>*\<^sup>* s0 s \<and> held s = [a \<mapsto> 100]"
proof -
  obtain s0 where s0: "kmalloc_started sample_callbacks arm_mappers sample_world = Inr s0" "run_ok sample_callbacks (\<lambda>_. {}) s0"
    using kmalloc_started_ok [OF sample_world_ok(1)] by blast
  have h: "held s0 = Map.empty" "page_world (run_memory s0) = (page_world sample_world)\<lparr>mappers := arm_mappers\<rparr>"
    using s0(1) by (auto simp: kmalloc_started_def Kmalloc_init_def Kmalloc_empty_def class_pool_new Let_def)
  have "(100 :: usize) \<le> MAX_CLASS"
    by (simp add: MAX_CLASS_def)
  then obtain a k w where "Kmalloc_alloc (run_kmalloc s0) (run_memory s0) 100 None = Inr (Inr a, k, w)"
    using Kmalloc_alloc_succeeds [OF s0(2)] h(2) sample_world_ok(2) by metis
  then have "kmalloc_step s0 \<lparr>run_kmalloc = k, run_memory = w, held = [a \<mapsto> 100]\<rparr>"
    using kmalloc_step.allocated [of s0 100 None a k w] h(1) by simp
  then show ?thesis
    using s0(1) by (metis KmallocRun.select_convs(3) r_into_rtranclp)
qed

theorem kmalloc_allocations_disjoint_witness:
  "\<exists>(s :: KmallocRun) a. held s a = Some 100 \<and> unat a mod 64 = 0 \<and> unat (align_down a) + 128 \<le> unat a \<and> unat a + 100 \<le> unat (align_down a) + 4096"
proof -
  obtain s0 s a where s: "kmalloc_started sample_callbacks arm_mappers sample_world = Inr s0" "kmalloc_step\<^sup>*\<^sup>* s0 s" "held s = [a \<mapsto> 100]"
    using sample_kmalloc_run by blast
  have h: "held s a = Some 100"
    using s(3) by simp
  have "unat a mod 64 = 0 \<and> align_down a \<in> pages_used (page_world (run_memory s)) \<and>
      unat (align_down a) + 128 \<le> unat a \<and> unat a + unat (100 :: usize) \<le> unat (align_down a) + 4096"
    using conjunct1 [OF kmalloc_allocations_disjoint [OF sample_world_ok(1) s(1,2)]] h by blast
  then show ?thesis
    using h by (intro exI [of _ s] exI [of _ a]) simp
qed

text \<open>
  C9. Freeing decides exactly: of all addresses in the page of a held allocation, \<open>free\<close> accepts
  those that are held allocations, through the pool of their size class, fills the slot with the
  poison byte and changes no byte of another allocation; every other address, an allocation freed
  before among them, is refused with an error and nothing changes.
\<close>

theorem kmalloc_free_exact:
  assumes "pages_inv ((page_world w)\<lparr>mappers := maps\<rparr>)" "kmalloc_started fns maps w = Inr s0" "kmalloc_step\<^sup>*\<^sup>* s0 s"
    and "a \<in> dom (held s)" "align_down x = align_down a"
  shows "case held s x of
      Some n \<Rightarrow> \<exists>k w'. Kmalloc_free (run_kmalloc s) (run_memory s) x = Inr (Inr (), k, w') \<and>
        (\<forall>i < unat n. object_bytes w' (x + of_nat i) = POISON_FREE) \<and>
        (\<forall>y m. held s y = Some m \<and> y \<noteq> x \<longrightarrow>
          (\<forall>i < unat m. object_bytes w' (y + of_nat i) = object_bytes (run_memory s) (y + of_nat i)))
    | None \<Rightarrow> \<exists>e. Kmalloc_free (run_kmalloc s) (run_memory s) x = Inr (Inl e, run_kmalloc s, run_memory s) \<and>
        e \<in> {MisalignedPointer, MetadataSlot, OutOfBounds, DoubleFree}"
proof -
  obtain pages where ok: "run_ok fns pages s"
    using kmalloc_reachable_ok [OF assms(1,2,3)] by blast
  then have k: "kmalloc_ok fns (run_kmalloc s) (run_memory s) pages"
    by (simp add: run_ok_def)
  show ?thesis
  proof (cases "held s x")
    case None
    obtain c where c: "align_down a \<in> pages c"
      using run_ok_held [OF ok assms(4)] class_object_range [OF k] by blast
    have "x \<notin> class_objects (run_memory s) pages c"
      using ok None by (auto simp: run_ok_def)
    then obtain e where "Kmalloc_free (run_kmalloc s) (run_memory s) x = Inr (Inl e, run_kmalloc s, run_memory s)"
        "e \<noteq> InvalidSlab" "e \<noteq> FreeNotInitialized"
      using Kmalloc_free_dead [OF k, of x c] c assms(5) by auto
    then show ?thesis
      using None by (cases e) auto
  next
    case (Some n)
    then show ?thesis
      using freed_bytes [OF ok Some] by auto
  qed
qed

theorem kmalloc_free_exact_witness:
  "\<exists>(s :: KmallocRun) a. held s a = Some 100 \<and> (\<exists>k w'. Kmalloc_free (run_kmalloc s) (run_memory s) a = Inr (Inr (), k, w') \<and> object_bytes w' a = POISON_FREE)"
proof -
  obtain s0 s a where s: "kmalloc_started sample_callbacks arm_mappers sample_world = Inr s0" "kmalloc_step\<^sup>*\<^sup>* s0 s" "held s = [a \<mapsto> 100]"
    using sample_kmalloc_run by blast
  have h: "a \<in> dom (held s)" "held s a = Some 100"
    using s(3) by simp_all
  obtain k w' where f: "Kmalloc_free (run_kmalloc s) (run_memory s) a = Inr (Inr (), k, w')"
      "\<forall>i < unat (100 :: usize). object_bytes w' (a + of_nat i) = POISON_FREE"
    using kmalloc_free_exact [OF sample_world_ok(1) s(1,2) h(1) refl] unfolding h(2) option.case by blast
  have "object_bytes w' a = POISON_FREE"
    using f(2) [rule_format, of 0] by simp
  then show ?thesis
    using f(1) h(2) by blast
qed

text \<open>
  C40. With a free page, the allocator's boot probe succeeds after \<open>init\<close>: the object it allocates
  is freed again when it goes out of scope, nothing stays allocated, the lock is free, and the
  interrupt state of the processor is what it was.
\<close>

theorem allocator_boot_probe_clean:
  assumes "pages_inv ((page_world (slab_memory s))\<lparr>mappers := maps\<rparr>)" "pages_avail ((page_world (slab_memory s))\<lparr>mappers := maps\<rparr>) \<noteq> []"
    and "kmalloc s = Kmalloc_empty" "kmalloc_lock s = free_spin j" "j + 3 \<le> 65536"
  shows "\<exists>s1 s2 pages. allocator_init fns maps arm_interrupts s = Inr ((), s1) \<and>
    allocator_boot_probe arm_interrupts s1 = Inr (Inr (), s2) \<and> kmalloc_lock s2 = free_spin (j + 3) \<and> processor s2 = processor s \<and>
    kmalloc_ok fns (kmalloc s2) (slab_memory s2) pages \<and> (\<forall>c. class_objects (slab_memory s2) pages c = {})"
proof -
  obtain r0 where r0: "kmalloc_started fns maps (slab_memory s) = Inr r0" "run_ok fns (\<lambda>_. {}) r0"
    using kmalloc_started_ok [OF assms(1)] by blast
  then have init: "Kmalloc_init fns maps Kmalloc_empty (slab_memory s) = Inr (run_kmalloc r0, run_memory r0)" and h0: "held r0 = Map.empty"
      and pw: "page_world (run_memory r0) = (page_world (slab_memory s))\<lparr>mappers := maps\<rparr>"
    by (auto simp: kmalloc_started_def Kmalloc_init_def Kmalloc_empty_def class_pool_new Let_def)
  obtain a k w where a: "Kmalloc_alloc (run_kmalloc r0) (run_memory r0) CACHE_LINE_SIZE None = Inr (Inr a, k, w)"
    using Kmalloc_alloc_succeeds [OF r0(2), of CACHE_LINE_SIZE] assms(2) pw by (auto simp: CACHE_LINE_SIZE_def MAX_CLASS_def)
  obtain pages1 where r1: "run_ok fns pages1 \<lparr>run_kmalloc = k, run_memory = w, held = [a \<mapsto> CACHE_LINE_SIZE]\<rparr>"
    using run_ok_alloc [OF r0(2) a] h0 by auto
  obtain k2 w2 pages2 where f: "Kmalloc_free k w a = Inr (Inr (), k2, w2)" "run_ok fns pages2 \<lparr>run_kmalloc = k2, run_memory = w2, held = Map.empty\<rparr>"
    using run_ok_free [OF r1, of a] by auto
  let ?s1 = "\<lparr>kmalloc = run_kmalloc r0, kmalloc_lock = free_spin (Suc j), slab_memory = run_memory r0, processor = processor s\<rparr>"
  let ?s2 = "\<lparr>kmalloc = k2, kmalloc_lock = free_spin (Suc (Suc (Suc j))), slab_memory = w2, processor = processor s\<rparr>"
  have i1: "allocator_init fns maps arm_interrupts s = Inr ((), ?s1)"
    using assms(5) by (simp add: allocator_init_def arm_irq.with_lock_free [OF _ assms(4)] assms(3) init)
  have i2: "allocator_boot_probe arm_interrupts ?s1 = Inr (Inr (), ?s2)"
    using assms(5) a f(1)
    by (simp add: allocator_boot_probe_def allocator_alloc_def alloc_raw_def KernelAllocation_drop_def free_raw_def
        arm_irq.with_lock_free [where j = "Suc j"] arm_irq.with_lock_free [where j = "Suc (Suc j)"])
  have "kmalloc_ok fns k2 w2 pages2" "class_objects w2 pages2 c = {}" for c
    using f(2) by (auto simp: run_ok_def)
  then show ?thesis
    using i1 i2 by - (rule exI [of _ ?s1], rule exI [of _ ?s2], rule exI [of _ pages2], simp add: numeral_3_eq_3)
qed

theorem allocator_boot_probe_clean_witness:
  "\<exists>s1 s2. allocator_init sample_callbacks arm_mappers arm_interrupts
      \<lparr>kmalloc = Kmalloc_empty, kmalloc_lock = free_spin 0, slab_memory = sample_world, processor = 0x340\<rparr> = Inr ((), s1) \<and>
    allocator_boot_probe arm_interrupts s1 = Inr (Inr (), s2) \<and> processor s2 = 0x340"
  using allocator_boot_probe_clean
    [where s = "\<lparr>kmalloc = Kmalloc_empty, kmalloc_lock = free_spin 0, slab_memory = sample_world, processor = 0x340\<rparr>"
      and maps = arm_mappers and j = 0 and fns = sample_callbacks]
    sample_world_ok by auto

end
