(* ===== verification/Spec2Isabelle.thy ===== *)
theory Spec2Isabelle
  imports Context_Arm64 Context_Riscv Kernel_Time Hwinfo Pmm_Boot Pmm_Contiguous Task_Scheduling Kernel_Stack_Space Sync Kmalloc_Runs
begin

text \<open>
  Bullfinch is a small kernel for 64-bit ARM and RISC-V (\<open>src/rust/kernel/src\<close>, called \<open>K\<close>
  below). At boot the architecture code builds page tables and enables the memory management unit;
  the device tree is read into a hardware snapshot; the physical page allocator takes over the
  memory the snapshot lists; the slab allocator and the kernel stacks draw pages from it, the
  stacks through the mapping functions of the architecture; the scheduler runs kernel threads on
  those stacks and switches between their contexts, on its own account and when the timer
  interrupts. This development models these parts as functions and step relations and proves what
  they promise each other.

  \<^bold>\<open>Conventions\<close> (\<open>Rust_Prelude\<close>). \<open>usize\<close>, addresses and \<open>u64\<close> are 64-bit words and wrap
  exactly where the code does; \<open>checked_add\<close> and its relatives return an option; counts and indices
  that the code bounds are natural numbers. An operation that can panic returns \<open>'a panics\<close>, whose
  left values carry the message, so that \<open>no panic\<close> is part of a theorem and never an assumption.
  \<open>Result\<close> is a sum type. A loop that might not end is a \<open>partial_function (option)\<close> and is shown to
  return; the fuel of \<open>arm_run\<close> and \<open>rv_run\<close> is one unit per instruction, and the theorems say that
  the routines leave within it. Structures are records, enumerations datatypes, and shared mutable
  memory (page metadata, page tables, slab pages, context records) is an explicit store.

  \<^bold>\<open>Addresses and time.\<close> \<open>Address\<close> models \<open>K/mmu/address.rs\<close>: alignment, offsets, page counts.
  \<open>Kernel_Time\<close> models \<open>K/time/mod.rs\<close> and \<open>K/clock/mod.rs\<close>: units, the tick interval, and the
  deadline arithmetic of a late interrupt, with the overflow checks of its additions as panics.

  \<^bold>\<open>Hardware snapshot.\<close> \<open>Hwinfo\<close> models \<open>K/hwinfo/mod.rs\<close> and \<open>K/fdt/cells.rs\<close>. The device tree
  parser is a third-party crate; its parsed tree is the argument \<open>Fdt\<close>. The lemmas give the memory
  regions and the reservation block that a snapshot holds, and when an ISA string names an extension.
  Only the memory node that the lookup returns is read.

  \<^bold>\<open>Physical pages.\<close> \<open>Pmm\<close> holds the definitions of \<open>K/pmm/mod.rs\<close>, \<open>Linked_List\<close> the doubly
  linked lists in a store that the free list and the slab lists share. \<open>Pmm_Ranges\<close>, \<open>Pmm_Init\<close> and
  \<open>Pmm_Boot\<close> show that construction never panics, establishes the invariant and reserves exactly the
  kernel, the device tree, the firmware regions and its own metadata; \<open>Pmm_Free_List\<close> and
  \<open>Pmm_Pages\<close> that single pages refine the page pool of \<open>Page_Pool\<close> (the locale \<open>page_pool\<close>, also
  used by the slab allocator); \<open>Pmm_Contiguous\<close> treats runs of pages.

  \<^bold>\<open>Virtual memory.\<close> \<open>Page_Mapping\<close> models \<open>K/mmu/page_table_entry.rs\<close>. \<open>Page_Table\<close> has the steps of
  a walk that both architectures share and \<open>Page_Table_Laws\<close> what they do to translations, over a
  descriptor format given by the locale \<open>pte_format\<close>; \<open>Page_Table_Memory\<close> adds the page allocator the
  tables come from. \<open>Arm64_Mmu\<close> and \<open>Riscv_Mmu\<close> model \<open>K/arch/aarch64/mmu.rs\<close> and
  \<open>K/arch/riscv64/mmu.rs\<close> (boot tables through \<open>Boot_Tables\<close>) and interpret the locales;
  \<open>Arm64_Address_Space\<close> and \<open>Riscv_Address_Space\<close> state what boot, mapping, unmapping and the
  invalidation of cached translations do to every kernel address. What boot maps is stated in terms
  of the bytes of the kernel and the device tree (\<open>boot_memory\<close>, \<open>boot_gigabytes\<close> in \<open>Boot_Tables\<close>).
  The caches of a RISC-V hart are translations of pages and steps of a walk; an address-scoped fence
  drops the translations of its page, global ones included, and never a step. That is the privileged
  specification; the source notes at \<open>flush_address\<close> a weaker reading, under which unmapping a stack
  page leaves a stale translation (\<open>rv_skipping_fence_stale\<close>). \<open>Page_Mapper\<close> is the contract between
  the mapping functions and their client.

  \<^bold>\<open>Kernel stacks.\<close> \<open>Kernel_Stack\<close> models \<open>KernelStack\<close> of \<open>K/task/mod.rs\<close>: slots, the mapping loop
  with its roll-back, dropping, and the boot probe. \<open>Kernel_Stack_Mapping\<close> proves them correct over
  any page mapper and \<open>Kernel_Stack_Space\<close> draws the consequences for the two architectures: which
  addresses translate, and that no page is lost except to new page tables, which stay in the tree.

  \<^bold>\<open>Slab allocator.\<close> \<open>Slab\<close> and \<open>Kmalloc\<close> model \<open>K/allocator/mod.rs\<close>: object pools in slab pages, and
  the five pools behind the general allocator. \<open>Slab_Memory\<close> and \<open>Slab_Pool\<close> have the layout and the
  invariant of a pool over the locale \<open>slab_pages\<close>; \<open>Kmalloc\<close> interprets it on the pages of the
  physical allocator; \<open>Kmalloc_Runs\<close> treats arbitrary runs of allocations, writes and frees. The walk
  along the partial list is a \<open>partial_function\<close> and is shown to end.

  \<^bold>\<open>Tasks.\<close> \<open>Trace\<close> models \<open>K/trace/mod.rs\<close>; \<open>Task\<close> the scheduler of \<open>K/task/mod.rs\<close>.
  \<open>Task_Invariant\<close> and \<open>Task_Creation\<close> show that every operation keeps the invariant; \<open>Task_Runs\<close>
  collects the calls of the scheduler and the states that runs of them reach, both for arbitrary
  callers and for those that keep the rules the code relies on and does not check; \<open>Task_Scheduling\<close>
  has the theorems about reachable states, scheduling decisions, charging of ticks, and that every
  ready thread runs within a bounded number of ticks.

  \<^bold>\<open>Context switch.\<close> \<open>Kernel_Context\<close> is the interface (the locale \<open>context_switch\<close>) and what follows
  from it for any sequence of switches. \<open>Context_Arm64\<close> and \<open>Context_Riscv\<close> model
  \<open>K/arch/aarch64/context.rs\<close> and \<open>K/arch/riscv64/context.rs\<close>: the assembly runs on a small-step
  semantics of the instructions it uses, and the voluntary and the trap-path routine together
  interpret the locale, so sequences may mix them.

  \<^bold>\<open>Synchronization.\<close> \<open>Sync\<close> models \<open>K/sync/mod.rs\<close> and the interrupt masks of \<open>K/arch/*/cpu.rs\<close>:
  the ticket lock as atomic steps of several processors, and the spin lock with its guard. A lock
  operation takes the list of the values its loads see. The entry points of the general allocator
  run under their lock while no other processor changes it.

  \<^bold>\<open>Not modelled.\<close> Memory orderings and weak memory: atomic operations are interleaved steps.
  Barriers order the steps of one processor and have no state here. The boot assembly
  (\<open>K/arch/*/boot.rs\<close>) runs before there is a stack. The consoles (\<open>K/console\<close>, \<open>K/arch/*/console.rs\<close>)
  and the boot log (\<open>K/startup/log.rs\<close>) are device output. The flattened device tree parser is a
  third-party crate. The memory contents of mapped pages other than page tables, slabs and page
  metadata are not modelled, so neither is what thread bodies compute. The build tool (\<open>src/tools/xtask\<close>)
  runs processes and compares files and is not part of the kernel. Trap entry and return
  (\<open>K/trap\<close>, \<open>K/arch/*/trap.rs\<close>) are assembly on the exception state of the processor, and the
  interrupt controllers and timers (\<open>K/arch/*/interrupt.rs\<close>, \<open>K/arch/*/timer.rs\<close>) are device
  registers; of the timer interrupt the parts that follow (\<open>tick\<close>, \<open>preempt_from_trap\<close>, the switch
  routine, the deadline arithmetic) are modelled.
\<close>

end
